(* ===== verification/Prelude.thy ===== *)
theory Prelude
  imports Complex_Main "HOL-Library.Word" "HOL-Library.Sublist"
begin

text \<open>
  Shared vocabulary of the development: the types of bytes and times, the collections of facts
  the component theories add to, and the generic lemmas on lists, prefixes and
  words that several components use.
\<close>

section \<open>Types and collections\<close>

type_synonym byte = "8 word"
type_synonym bytes = "byte list"

text \<open>Microseconds since the epoch, C++ \<^verbatim>\<open>long long\<close>; -1 stands for "disabled".\<close>
type_synonym usec = int

named_theorems frame_simps \<open>which fields an operation leaves alone\<close>
named_theorems step_intros \<open>preservation of an invariant by one operation\<close>
named_theorems event_simps \<open>the Event operations on abstract lists\<close>

section \<open>C integer arithmetic\<close>

text \<open>C++ integer division truncates towards zero; the model never divides by zero, the
  callers test for it first.\<close>

definition cdiv :: "int \<Rightarrow> int \<Rightarrow> int" where
  "cdiv a b = sgn a * sgn b * (\<bar>a\<bar> div \<bar>b\<bar>)"

lemma cdiv_nonneg [simp]: "0 \<le> a \<Longrightarrow> 0 < b \<Longrightarrow> cdiv a b = a div b"
  by (cases "a = 0") (auto simp: cdiv_def)

lemma cdiv_sign: "0 \<le> a \<Longrightarrow> 0 < b \<Longrightarrow> 0 \<le> cdiv a b"
  by (simp add: pos_imp_zdiv_nonneg_iff)

definition int_max :: int where
  "int_max = 2147483647"

section \<open>Lists\<close>

lemma takeWhile_False_nth:
  "xs \<noteq> [] \<Longrightarrow> \<not> P (hd xs) \<Longrightarrow> takeWhile P xs = []"
  by (cases xs) auto

lemma sum_list_map_add:
  "sum_list (map (\<lambda>x. f x + g x) xs) = sum_list (map f xs) + (sum_list (map g xs) :: int)"
  by (induction xs) auto

lemma sum_list_nonneg_int: "\<forall>x\<in>set xs. 0 \<le> f x \<Longrightarrow> 0 \<le> (sum_list (map f xs) :: int)"
  by (induction xs) auto

lemma prefix_concat_take: "prefix (concat (take n xss)) (concat xss)"
proof -
  have "concat xss = concat (take n xss) @ concat (drop n xss)"
    by (metis append_take_drop_id concat_append)
  then show ?thesis by (metis prefixI)
qed

lemma concat_take_Suc:
  "n < length xss \<Longrightarrow> concat (take (Suc n) xss) = concat (take n xss) @ xss ! n"
  by (simp add: take_Suc_conv_app_nth)

lemma prefix_append_drop: "prefix xs ys \<Longrightarrow> prefix xs (ys @ zs)"
  by (auto simp: prefix_def)

end
