(* ===== verification/Ordered_Map.thy ===== *)
theory Ordered_Map
  imports Prelude
begin

text \<open>
  \<^verbatim>\<open>std::map\<close> as the program uses it: an association list kept in key order, with the
  operations \<^verbatim>\<open>find\<close>, \<^verbatim>\<open>operator[]\<close> as insertion, \<^verbatim>\<open>erase\<close>, \<^verbatim>\<open>lower_bound\<close>
  and iteration from \<^verbatim>\<open>begin()\<close> to \<^verbatim>\<open>end()\<close>, which is the list itself.
  The interface is the locale \<open>finite_map\<close> and its extension \<open>ordered_map\<close>; the
  lemmas on weights (sums over the values) are proved once inside it.
\<close>

section \<open>The container\<close>

type_synonym ('k, 'v) omap = "('k \<times> 'v) list"

fun om_put :: "'k::linorder \<Rightarrow> 'v \<Rightarrow> ('k, 'v) omap \<Rightarrow> ('k, 'v) omap" where
  "om_put k v [] = [(k, v)]"
| "om_put k v ((a, b) # m) =
     (if k < a then (k, v) # (a, b) # m
      else if k = a then (k, v) # m
      else (a, b) # om_put k v m)"

definition om_find :: "('k, 'v) omap \<Rightarrow> 'k \<Rightarrow> 'v option" where
  "om_find m k = map_of m k"

definition om_erase :: "'k \<Rightarrow> ('k, 'v) omap \<Rightarrow> ('k, 'v) omap" where
  "om_erase k m = filter (\<lambda>kv. fst kv \<noteq> k) m"

definition om_keys :: "('k, 'v) omap \<Rightarrow> 'k list" where
  "om_keys m = map fst m"

definition om_lower_bound :: "('k::linorder, 'v) omap \<Rightarrow> 'k \<Rightarrow> ('k, 'v) omap" where
  "om_lower_bound m k = dropWhile (\<lambda>kv. fst kv < k) m"

definition om_ok :: "('k::linorder, 'v) omap \<Rightarrow> bool" where
  "om_ok m = sorted_wrt (<) (map fst m)"

text \<open>Sum of a weight over the values.\<close>

definition om_sum :: "('v \<Rightarrow> int) \<Rightarrow> ('k, 'v) omap \<Rightarrow> int" where
  "om_sum w m = sum_list (map (\<lambda>kv. w (snd kv)) m)"

definition weight :: "('v \<Rightarrow> int) \<Rightarrow> 'v option \<Rightarrow> int" where
  "weight w x = (case x of None \<Rightarrow> 0 | Some v \<Rightarrow> w v)"

lemma weight_simps [simp]: "weight w None = 0" "weight w (Some v) = w v"
  by (simp_all add: weight_def)

section \<open>The interface\<close>

locale finite_map =
  fixes empty :: 'm
    and find :: "'m \<Rightarrow> 'k \<Rightarrow> 'v option"
    and put :: "'k \<Rightarrow> 'v \<Rightarrow> 'm \<Rightarrow> 'm"
    and erase :: "'k \<Rightarrow> 'm \<Rightarrow> 'm"
    and keys :: "'m \<Rightarrow> 'k list"
    and ok :: "'m \<Rightarrow> bool"
  assumes ok_empty: "ok empty"
    and ok_put: "ok m \<Longrightarrow> ok (put k v m)"
    and ok_erase: "ok m \<Longrightarrow> ok (erase k m)"
    and find_empty: "find empty k = None"
    and find_put: "ok m \<Longrightarrow> find (put k v m) x = (if x = k then Some v else find m x)"
    and find_erase: "ok m \<Longrightarrow> find (erase k m) x = (if x = k then None else find m x)"
    and keys_find: "ok m \<Longrightarrow> (x \<in> set (keys m)) = (find m x \<noteq> None)"
begin

lemma keys_put: "ok m \<Longrightarrow> set (keys (put k v m)) = insert k (set (keys m))"
  by (auto simp: keys_find ok_put find_put split: if_splits)

lemma keys_erase: "ok m \<Longrightarrow> set (keys (erase k m)) = set (keys m) - {k}"
  by (auto simp: keys_find ok_erase find_erase split: if_splits)

lemma weight_missing: "ok m \<Longrightarrow> x \<notin> set (keys m) \<Longrightarrow> weight w (find m x) = 0"
  by (auto simp: keys_find)

lemma sum_put:
  assumes "ok m"
  shows "(\<Sum>x\<in>set (keys (put k v m)). weight w (find (put k v m) x)) =
    (\<Sum>x\<in>set (keys m). weight w (find m x)) + w v - weight w (find m k)"
proof -
  have "(\<Sum>x\<in>set (keys (put k v m)). weight w (find (put k v m) x)) =
      w v + (\<Sum>x\<in>set (keys m) - {k}. weight w (find m x))"
    by (simp add: assms keys_put find_put sum.insert_remove)
  also have "(\<Sum>x\<in>set (keys m) - {k}. weight w (find m x)) =
      (\<Sum>x\<in>set (keys m). weight w (find m x)) - weight w (find m k)"
    by (cases "k \<in> set (keys m)") (auto simp: sum_diff1 weight_missing assms)
  finally show ?thesis by simp
qed

lemma sum_erase:
  assumes "ok m"
  shows "(\<Sum>x\<in>set (keys (erase k m)). weight w (find (erase k m) x)) =
    (\<Sum>x\<in>set (keys m). weight w (find m x)) - weight w (find m k)"
proof -
  have "(\<Sum>x\<in>set (keys (erase k m)). weight w (find (erase k m) x)) =
      (\<Sum>x\<in>set (keys m) - {k}. weight w (find m x))"
    by (simp add: assms keys_erase) (rule sum.cong, auto simp: assms find_erase)
  then show ?thesis
    by (cases "k \<in> set (keys m)") (auto simp: sum_diff1 weight_missing assms)
qed

end

text \<open>The ordered interface adds that iteration is in strictly increasing key order and what
  \<^verbatim>\<open>lower_bound\<close> reaches.\<close>

locale ordered_map = finite_map empty find put erase keys ok
  for empty :: 'm and find :: "'m \<Rightarrow> 'k::linorder \<Rightarrow> 'v option" and put erase keys ok +
  fixes lower :: "'m \<Rightarrow> 'k \<Rightarrow> 'k list"
  assumes keys_sorted: "ok m \<Longrightarrow> sorted_wrt (<) (keys m)"
    and lower_filter: "ok m \<Longrightarrow> lower m k = filter (\<lambda>x. k \<le> x) (keys m)"
begin

lemma keys_distinct: "ok m \<Longrightarrow> distinct (keys m)"
  using keys_sorted [of m] by (simp add: strict_sorted_iff)

lemma lower_set: "ok m \<Longrightarrow> set (lower m k) = {x. find m x \<noteq> None \<and> k \<le> x}"
  by (auto simp: lower_filter keys_find)

lemma sum_as_list:
  "ok m \<Longrightarrow> (\<Sum>x\<in>set (keys m). weight w (find m x)) = sum_list (map (\<lambda>x. weight w (find m x)) (keys m))"
  by (simp add: keys_distinct sum_list_distinct_conv_sum_set)

end

section \<open>The association list implements it\<close>

lemma om_find_Nil [simp]: "om_find [] k = None"
  by (simp add: om_find_def)

lemma om_find_Cons [simp]: "om_find ((a, b) # m) k = (if k = a then Some b else om_find m k)"
  by (simp add: om_find_def)

lemma om_keys_simps [simp]: "om_keys [] = []" "om_keys (kv # m) = fst kv # om_keys m"
  by (simp_all add: om_keys_def)

lemma om_ok_Nil [simp]: "om_ok []"
  by (simp add: om_ok_def)

lemma om_ok_Cons: "om_ok (kv # m) \<longleftrightarrow> (\<forall>x\<in>set (om_keys m). fst kv < x) \<and> om_ok m"
  by (simp add: om_ok_def om_keys_def)

lemma set_keys_put: "set (om_keys (om_put k v m)) = insert k (set (om_keys m))"
  by (induction k v m rule: om_put.induct) auto

lemma om_ok_put_aux: "om_ok m \<Longrightarrow> om_ok (om_put k v m)"
  by (induction k v m rule: om_put.induct) (auto simp: om_ok_Cons set_keys_put)

lemma om_find_put_aux: "om_ok m \<Longrightarrow> om_find (om_put k v m) x = (if x = k then Some v else om_find m x)"
  by (induction k v m rule: om_put.induct) (auto simp: om_ok_Cons)

lemma om_find_erase_aux: "om_find (om_erase k m) x = (if x = k then None else om_find m x)"
  by (induction m) (auto simp: om_erase_def om_find_def)

lemma om_ok_erase_aux: "om_ok m \<Longrightarrow> om_ok (om_erase k m)"
  by (induction m) (auto simp: om_erase_def om_ok_Cons om_keys_def)

lemma om_keys_find_aux: "(x \<in> set (om_keys m)) = (om_find m x \<noteq> None)"
  by (simp add: om_keys_def om_find_def map_of_eq_None_iff)

lemma om_lower_aux:
  "om_ok m \<Longrightarrow> om_keys (om_lower_bound m k) = filter (\<lambda>x. k \<le> x) (om_keys m)"
  by (induction m)
    (auto simp: om_lower_bound_def om_ok_Cons not_less intro!: filter_True [symmetric])

interpretation om: ordered_map "[]" om_find om_put om_erase om_keys om_ok
    "\<lambda>m k. om_keys (om_lower_bound m k)"
  by unfold_locales
    (auto simp: om_ok_put_aux om_ok_erase_aux om_find_put_aux om_find_erase_aux
       om_keys_find_aux om_lower_aux, simp_all add: om_ok_def om_keys_def)

lemma om_sum_keys:
  "om_ok m \<Longrightarrow> om_sum w m = (\<Sum>x\<in>set (om_keys m). weight w (om_find m x))"
proof (induction m)
  case Nil
  show ?case by (simp add: om_sum_def)
next
  case (Cons kv m)
  obtain a b where kv: "kv = (a, b)" by (cases kv)
  from Cons.prems kv have fresh: "a \<notin> set (om_keys m)" and ok: "om_ok m"
    by (auto simp: om_ok_Cons)
  have "(\<Sum>x\<in>set (om_keys m). weight w (om_find ((a, b) # m) x)) =
      (\<Sum>x\<in>set (om_keys m). weight w (om_find m x))"
    by (rule sum.cong) (use fresh in auto)
  with Cons.IH [OF ok] show ?case
    by (simp add: kv om_sum_def fresh)
qed

lemma om_sum_put [simp]:
  "om_ok m \<Longrightarrow> om_sum w (om_put k v m) = om_sum w m + w v - weight w (om_find m k)"
  by (simp add: om_sum_keys om.ok_put om.sum_put)

lemma om_sum_erase [simp]:
  "om_ok m \<Longrightarrow> om_sum w (om_erase k m) = om_sum w m - weight w (om_find m k)"
  by (simp add: om_sum_keys om.ok_erase om.sum_erase)

lemma om_sum_Nil [simp]: "om_sum w [] = 0"
  by (simp add: om_sum_def)

lemmas om_laws [simp] = om.ok_put om.ok_erase om.find_put om.find_erase om.keys_put om.keys_erase

lemma om_find_in_set: "om_ok m \<Longrightarrow> ((k, v) \<in> set m) = (om_find m k = Some v)"
  by (simp add: om_find_def om_ok_def strict_sorted_iff)

lemma om_keys_Nil_iff [simp]: "om_keys m = [] \<longleftrightarrow> m = []"
  by (simp add: om_keys_def)

end
