(* ===== verification/Crc32.thy ===== *)
theory Crc32
  imports Prelude
begin

text \<open>
  The checksum of \<^verbatim>\<open>packet.cpp\<close>: \<^verbatim>\<open>Packet::crc32\<close> with its 256-entry table, a
  bit-by-bit reference, the proof that the two agree, and what the checksum detects.
\<close>

unbundle bit_operations_syntax

section \<open>The table-driven routine\<close>

definition crc_table :: "32 word list" where
  "crc_table = [
    0x00000000, 0x04C11DB7, 0x09823B6E, 0x0D4326D9,
    0x130476DC, 0x17C56B6B, 0x1A864DB2, 0x1E475005,
    0x2608EDB8, 0x22C9F00F, 0x2F8AD6D6, 0x2B4BCB61,
    0x350C9B64, 0x31CD86D3, 0x3C8EA00A, 0x384FBDBD,
    0x4C11DB70, 0x48D0C6C7, 0x4593E01E, 0x4152FDA9,
    0x5F15ADAC, 0x5BD4B01B, 0x569796C2, 0x52568B75,
    0x6A1936C8, 0x6ED82B7F, 0x639B0DA6, 0x675A1011,
    0x791D4014, 0x7DDC5DA3, 0x709F7B7A, 0x745E66CD,
    0x9823B6E0, 0x9CE2AB57, 0x91A18D8E, 0x95609039,
    0x8B27C03C, 0x8FE6DD8B, 0x82A5FB52, 0x8664E6E5,
    0xBE2B5B58, 0xBAEA46EF, 0xB7A96036, 0xB3687D81,
    0xAD2F2D84, 0xA9EE3033, 0xA4AD16EA, 0xA06C0B5D,
    0xD4326D90, 0xD0F37027, 0xDDB056FE, 0xD9714B49,
    0xC7361B4C, 0xC3F706FB, 0xCEB42022, 0xCA753D95,
    0xF23A8028, 0xF6FB9D9F, 0xFBB8BB46, 0xFF79A6F1,
    0xE13EF6F4, 0xE5FFEB43, 0xE8BCCD9A, 0xEC7DD02D,
    0x34867077, 0x30476DC0, 0x3D044B19, 0x39C556AE,
    0x278206AB, 0x23431B1C, 0x2E003DC5, 0x2AC12072,
    0x128E9DCF, 0x164F8078, 0x1B0CA6A1, 0x1FCDBB16,
    0x018AEB13, 0x054BF6A4, 0x0808D07D, 0x0CC9CDCA,
    0x7897AB07, 0x7C56B6B0, 0x71159069, 0x75D48DDE,
    0x6B93DDDB, 0x6F52C06C, 0x6211E6B5, 0x66D0FB02,
    0x5E9F46BF, 0x5A5E5B08, 0x571D7DD1, 0x53DC6066,
    0x4D9B3063, 0x495A2DD4, 0x44190B0D, 0x40D816BA,
    0xACA5C697, 0xA864DB20, 0xA527FDF9, 0xA1E6E04E,
    0xBFA1B04B, 0xBB60ADFC, 0xB6238B25, 0xB2E29692,
    0x8AAD2B2F, 0x8E6C3698, 0x832F1041, 0x87EE0DF6,
    0x99A95DF3, 0x9D684044, 0x902B669D, 0x94EA7B2A,
    0xE0B41DE7, 0xE4750050, 0xE9362689, 0xEDF73B3E,
    0xF3B06B3B, 0xF771768C, 0xFA325055, 0xFEF34DE2,
    0xC6BCF05F, 0xC27DEDE8, 0xCF3ECB31, 0xCBFFD686,
    0xD5B88683, 0xD1799B34, 0xDC3ABDED, 0xD8FBA05A,
    0x690CE0EE, 0x6DCDFD59, 0x608EDB80, 0x644FC637,
    0x7A089632, 0x7EC98B85, 0x738AAD5C, 0x774BB0EB,
    0x4F040D56, 0x4BC510E1, 0x46863638, 0x42472B8F,
    0x5C007B8A, 0x58C1663D, 0x558240E4, 0x51435D53,
    0x251D3B9E, 0x21DC2629, 0x2C9F00F0, 0x285E1D47,
    0x36194D42, 0x32D850F5, 0x3F9B762C, 0x3B5A6B9B,
    0x0315D626, 0x07D4CB91, 0x0A97ED48, 0x0E56F0FF,
    0x1011A0FA, 0x14D0BD4D, 0x19939B94, 0x1D528623,
    0xF12F560E, 0xF5EE4BB9, 0xF8AD6D60, 0xFC6C70D7,
    0xE22B20D2, 0xE6EA3D65, 0xEBA91BBC, 0xEF68060B,
    0xD727BBB6, 0xD3E6A601, 0xDEA580D8, 0xDA649D6F,
    0xC423CD6A, 0xC0E2D0DD, 0xCDA1F604, 0xC960EBB3,
    0xBD3E8D7E, 0xB9FF90C9, 0xB4BCB610, 0xB07DABA7,
    0xAE3AFBA2, 0xAAFBE615, 0xA7B8C0CC, 0xA379DD7B,
    0x9B3660C6, 0x9FF77D71, 0x92B45BA8, 0x9675461F,
    0x8832161A, 0x8CF30BAD, 0x81B02D74, 0x857130C3,
    0x5D8A9099, 0x594B8D2E, 0x5408ABF7, 0x50C9B640,
    0x4E8EE645, 0x4A4FFBF2, 0x470CDD2B, 0x43CDC09C,
    0x7B827D21, 0x7F436096, 0x7200464F, 0x76C15BF8,
    0x68860BFD, 0x6C47164A, 0x61043093, 0x65C52D24,
    0x119B4BE9, 0x155A565E, 0x18197087, 0x1CD86D30,
    0x029F3D35, 0x065E2082, 0x0B1D065B, 0x0FDC1BEC,
    0x3793A651, 0x3352BBE6, 0x3E119D3F, 0x3AD08088,
    0x2497D08D, 0x2056CD3A, 0x2D15EBE3, 0x29D4F654,
    0xC5A92679, 0xC1683BCE, 0xCC2B1D17, 0xC8EA00A0,
    0xD6AD50A5, 0xD26C4D12, 0xDF2F6BCB, 0xDBEE767C,
    0xE3A1CBC1, 0xE760D676, 0xEA23F0AF, 0xEEE2ED18,
    0xF0A5BD1D, 0xF464A0AA, 0xF9278673, 0xFDE69BC4,
    0x89B8FD09, 0x8D79E0BE, 0x803AC667, 0x84FBDBD0,
    0x9ABC8BD5, 0x9E7D9662, 0x933EB0BB, 0x97FFAD0C,
    0xAFB010B1, 0xAB710D06, 0xA6322BDF, 0xA2F33668,
    0xBCB4666D, 0xB8757BDA, 0xB5365D03, 0xB1F740B4]"

text \<open>One turn of the loop: \<^verbatim>\<open>crc = table[*p^((crc >> 24) & 0xff)]^(crc << 8)\<close>.\<close>

definition crc_step :: "32 word \<Rightarrow> byte \<Rightarrow> 32 word" where
  "crc_step crc p =
     (crc_table ! unat ((ucast p :: 32 word) XOR (drop_bit 24 crc AND 0xFF))) XOR push_bit 8 crc"

text \<open>The loop runs while \<open>p < end\<close>, with \<open>end = p + size\<close>: a size that is not positive reads
  nothing.\<close>

definition crc32 :: "bytes \<Rightarrow> int \<Rightarrow> 32 word \<Rightarrow> 32 word" where
  "crc32 data sz previousCrc32 =
     foldl crc_step (previousCrc32 XOR 0xFFFFFFFF) (take (nat sz) data) XOR 0xFFFFFFFF"

section \<open>Bit-by-bit reference\<close>

text \<open>Division by the generator 0x04C11DB7, most significant bit first.\<close>

definition crc_bit :: "32 word \<Rightarrow> 32 word" where
  "crc_bit c = (if bit c 31 then push_bit 1 c XOR 0x04C11DB7 else push_bit 1 c)"

definition crc_byte :: "32 word \<Rightarrow> byte \<Rightarrow> 32 word" where
  "crc_byte c b = (crc_bit ^^ 8) (c XOR push_bit 24 (ucast b))"

text \<open>Every entry of the table is the reference applied to its index: entry \<open>2j\<close> is one more
  bit of entry \<open>j\<close>, and entry \<open>2j + 1\<close> differs from it by the generator.\<close>

fun evens :: "'a list \<Rightarrow> 'a list" where
  "evens (a # b # xs) = a # evens xs"
| "evens xs = xs"
fun odds :: "'a list \<Rightarrow> 'a list" where
  "odds (a # b # xs) = b # odds xs"
| "odds xs = []"

lemma evens_nth: "2 * j < length xs \<Longrightarrow> evens xs ! j = xs ! (2 * j)"
  by (induction xs arbitrary: j rule: evens.induct) (auto simp: nth_Cons split: nat.splits)

lemma odds_nth: "2 * j + 1 < length xs \<Longrightarrow> odds xs ! j = xs ! (2 * j + 1)"
  by (induction xs arbitrary: j rule: odds.induct) (auto simp: nth_Cons split: nat.splits)

lemma crc_bit_xor: "crc_bit (x XOR y) = crc_bit x XOR crc_bit y"
  by (auto simp: crc_bit_def bit_xor_iff push_bit_xor ac_simps intro!: bit_word_eqI)

lemma crc_bits_xor: "(crc_bit ^^ n) (x XOR y) = (crc_bit ^^ n) x XOR (crc_bit ^^ n) y"
  by (induction n) (simp_all add: crc_bit_xor)

lemma crc_bits_0 [simp]: "(crc_bit ^^ n) 0 = 0"
  by (induction n) (simp_all add: crc_bit_def)

lemma funpow_8: "(f ^^ 8) x = f (f (f (f (f (f (f (f x)))))))"
  by (simp add: numeral_eq_Suc)

lemma crc_bit_clear: "\<not> bit c 31 \<Longrightarrow> crc_bit c = push_bit 1 c"
  by (simp add: crc_bit_def)

lemma crc_bits_low:
  "n \<le> 32 \<Longrightarrow> (\<And>i. 32 - n \<le> i \<Longrightarrow> \<not> bit z i) \<Longrightarrow> (crc_bit ^^ n) z = push_bit n z"
proof (induction n)
  case (Suc n)
  have "\<not> bit z (31 - n)" using Suc.prems by auto
  then have "\<not> bit (push_bit n z) 31" using Suc.prems(1) by (simp add: bit_push_bit_iff)
  moreover have "(crc_bit ^^ n) z = push_bit n z" using Suc by simp
  ultimately have "crc_bit ((crc_bit ^^ n) z) = push_bit 1 (push_bit n z)"
    by (simp only: crc_bit_clear not_False_eq_True)
  then show ?case by simp
qed simp

lemma table_odds: "odds crc_table = map (\<lambda>x. x XOR 0x04C11DB7) (evens crc_table)"
  by (simp add: crc_table_def)
lemma table_evens: "evens crc_table = map crc_bit (take 128 crc_table)"
  by (simp add: crc_table_def crc_bit_def)
lemma length_crc_table: "length crc_table = 256" by (simp add: crc_table_def)

lemma table_even: "j < 128 \<Longrightarrow> crc_table ! (2 * j) = crc_bit (crc_table ! j)"
  using evens_nth [of j crc_table] by (simp add: table_evens length_crc_table)
lemma length_evens: "length (evens crc_table) = 128"
  by (simp add: table_evens length_crc_table)
lemma table_odd: "j < 128 \<Longrightarrow> crc_table ! (2 * j + 1) = crc_table ! (2 * j) XOR 0x04C11DB7"
  using odds_nth [of j crc_table] evens_nth [of j crc_table] length_evens by (simp add: table_odds length_crc_table)

lemma shifted_double:
  assumes "j < 128" 
  shows "crc_bit (push_bit 24 (word_of_nat j)) = push_bit 24 (word_of_nat (2 * j))"
proof -
  have "\<not> bit j 7" using assms by (simp add: bit_iff_odd)
  then have "\<not> bit (push_bit 24 (word_of_nat j :: 32 word)) 31"
    by (simp add: bit_simps)
  then show ?thesis by (simp add: crc_bit_def push_bit_eq_mult)
qed

lemma crc_table_nth:
  "i < 256 \<Longrightarrow> crc_table ! i = (crc_bit ^^ 8) (push_bit 24 (word_of_nat i))"
proof (induction i rule: less_induct)
  case (less i)
  let ?T = "\<lambda>i. (crc_bit ^^ 8) (push_bit 24 (word_of_nat i))"
  define j where "j = i div 2"
  have dbl: "crc_table ! (2 * j) = ?T (2 * j)"
  proof (cases "i = 0")
    case True
    then show ?thesis by (simp add: j_def crc_table_def)
  next
    case False
    with less have j: "j < 128" and IH: "crc_table ! j = ?T j" by (auto simp: j_def)
    then show ?thesis by (simp only: table_even shifted_double [symmetric] funpow_swap1)
  qed
  show ?case
  proof (cases "even i")
    case True
    with dbl show ?thesis by (simp add: j_def)
  next
    case False
    then have i: "i = 2 * j + 1" and j: "j < 128" using less.prems by (auto simp: j_def)
    have "push_bit 24 (word_of_nat i :: 32 word) = push_bit 24 (word_of_nat (2 * j)) XOR push_bit 24 1"
    proof -
      have "word_of_nat i = (word_of_nat (2 * j) XOR 1 :: 32 word)"
        by (simp add: i xor_one_eq)
      then show ?thesis by (simp add: push_bit_xor)
    qed
    moreover have "(crc_bit ^^ 8) (push_bit 24 1) = 0x04C11DB7"
      by (simp add: funpow_8 crc_bit_def)
    ultimately show ?thesis using table_odd [OF j] dbl by (simp only: i crc_bits_xor)
  qed
qed

lemma crc_step_eq_crc_byte: "crc_step c b = crc_byte c b"
proof -
  let ?idx = "(ucast b :: 32 word) XOR (drop_bit 24 c AND 0xFF)"
  have mask: "(0xFF :: 32 word) = mask 8" "(0xFFFFFF :: 32 word) = mask 24" by (simp_all add: mask_eq_exp_minus_1)
  have bound: "unat ?idx < 256"
  proof -
    have "?idx = take_bit 8 ?idx"
      by (rule bit_word_eqI) (auto simp: bit_simps mask dest: bit_imp_le_length)
    then have "unat ?idx = unat (take_bit 8 ?idx)" by (rule arg_cong)
    also have "\<dots> = take_bit 8 (unat ?idx)" by (rule unsigned_take_bit_eq)
    finally have "unat ?idx = take_bit 8 (unat ?idx)" .
    then show ?thesis using take_bit_nat_less_exp [of 8 "unat ?idx"] by simp
  qed
  have split: "c XOR push_bit 24 (ucast b) = push_bit 24 ?idx XOR (c AND 0xFFFFFF)"
    by (rule bit_word_eqI) (auto simp: bit_simps mask dest: bit_imp_le_length)
  have low: "(crc_bit ^^ 8) (c AND 0xFFFFFF) = push_bit 8 c"
  proof -
    have "(crc_bit ^^ 8) (c AND 0xFFFFFF) = push_bit 8 (c AND 0xFFFFFF)"
      by (rule crc_bits_low) (auto simp: bit_simps mask)
    also have "\<dots> = push_bit 8 c"
      by (rule bit_word_eqI) (auto simp: bit_simps mask)
    finally show ?thesis .
  qed
  show ?thesis
    using crc_table_nth [OF bound] by (simp add: crc_step_def crc_byte_def split crc_bits_xor low)
qed

section \<open>What the checksum detects\<close>

lemma word_xor_right_cancel: "a XOR c = b XOR c \<longleftrightarrow> a = (b :: 'a::len word)"
proof
  assume "a XOR c = b XOR c"
  then have "(a XOR c) XOR c = (b XOR c) XOR c" by simp
  then show "a = b" by (simp only: xor.assoc xor_self_eq xor.right_neutral)
qed simp

lemma crc_bit_inj: "crc_bit x = crc_bit y \<longleftrightarrow> x = y"
proof
  assume eq: "crc_bit x = crc_bit y"
  have low: "bit (crc_bit z) 0 = bit z 31" for z :: "32 word"
    by (simp add: crc_bit_def bit_simps bit_0 even_xor_iff)
  from eq low [of x] low [of y] have top: "bit x 31 = bit y 31" by simp
  with eq have "push_bit 1 x = push_bit 1 y"
    by (auto simp: crc_bit_def word_xor_right_cancel split: if_splits)
  then have shifted: "bit (push_bit 1 x) (Suc i) = bit (push_bit 1 y) (Suc i)" for i
    by (rule arg_cong)
  have "bit x i = bit y i" if "i < 32" for i
  proof (cases "i = 31")
    case False
    with that show ?thesis using shifted [of i, unfolded bit_push_bit_iff] by simp
  qed (simp add: top)
  then show "x = y" by (intro bit_word_eqI) simp
qed simp

lemma crc_bits_inj: "(crc_bit ^^ n) x = (crc_bit ^^ n) y \<longleftrightarrow> x = y"
  by (induction n) (simp_all add: crc_bit_inj)

lemma crc_fold_state_inj:
  "foldl crc_step s xs = foldl crc_step t xs \<longleftrightarrow> s = t"
  by (induction xs arbitrary: s t)
    (simp_all add: crc_step_eq_crc_byte crc_byte_def crc_bits_inj word_xor_right_cancel)

lemma crc_byte_shift:
  assumes "k \<le> 3"
  shows "crc_byte ((crc_bit ^^ (8 * k)) x) b =
    (crc_bit ^^ (8 * k + 8)) (x XOR push_bit (24 - 8 * k) (ucast b))"
proof -
  have "(crc_bit ^^ (8 * k)) (push_bit (24 - 8 * k) (ucast b)) = push_bit (8 * k) (push_bit (24 - 8 * k) (ucast b))"
    using assms by (intro crc_bits_low) (auto simp: bit_simps dest: bit_imp_le_length)
  also have "\<dots> = push_bit 24 (ucast b)" using assms by simp
  finally show ?thesis
    by (simp add: crc_byte_def crc_bits_xor funpow_add add.commute)
qed

definition crc_window :: "byte list \<Rightarrow> 32 word" where
  "crc_window u = push_bit 24 (ucast (u ! 0)) XOR push_bit 16 (ucast (u ! 1)) XOR
     push_bit 8 (ucast (u ! 2)) XOR ucast (u ! 3)"

lemma crc_fold_window:
  assumes "length u = 4"
  shows "foldl crc_step s u = (crc_bit ^^ 32) (s XOR crc_window u)"
proof -
  obtain a b c d where u: "u = [a, b, c, d]"
    using assms by (auto simp: length_Suc_conv numeral_eq_Suc)
  show ?thesis
    using crc_byte_shift [of 0 s a] crc_byte_shift [of 1 _ b] crc_byte_shift [of 2 _ c] crc_byte_shift [of 3 _ d]
    by (simp add: u crc_step_eq_crc_byte crc_window_def xor.assoc)
qed

lemma bit_byte_outside: "8 \<le> n \<Longrightarrow> \<not> bit (b :: byte) n"
  by (auto dest: bit_imp_le_length)

lemma bit_crc_window:
  assumes "j < 8"
  shows "bit (crc_window w) (24 + j) = bit (w ! 0) j"
    and "bit (crc_window w) (16 + j) = bit (w ! 1) j"
    and "bit (crc_window w) (8 + j) = bit (w ! 2) j"
    and "bit (crc_window w) j = bit (w ! 3) j"
  using assms by (simp_all add: crc_window_def bit_simps bit_byte_outside)

lemma crc_window_inj:
  assumes "length u = 4" "length v = 4" "crc_window u = crc_window v"
  shows "u = v"
proof -
  have "u ! 0 = v ! 0" "u ! 1 = v ! 1" "u ! 2 = v ! 2" "u ! 3 = v ! 3"
    using bit_crc_window [of _ u] bit_crc_window [of _ v] assms(3)
    by (auto intro!: bit_word_eqI)
  moreover obtain a b c d where "u = [a, b, c, d]"
    using assms(1) by (auto simp: length_Suc_conv numeral_eq_Suc)
  moreover obtain a' b' c' d' where "v = [a', b', c', d']"
    using assms(2) by (auto simp: length_Suc_conv numeral_eq_Suc)
  ultimately show ?thesis by simp
qed

lemma crc_fold_burst_inj:
  assumes "length u = length v" "length u \<le> 4" "foldl crc_step s u = foldl crc_step s v"
  shows "u = v"
proof -
  let ?z = "replicate (4 - length u) (0 :: byte)"
  have "foldl crc_step s (u @ ?z) = foldl crc_step s (v @ ?z)" using assms(3) by simp
  then have "s XOR crc_window (u @ ?z) = s XOR crc_window (v @ ?z)"
    using assms(1,2) by (simp add: crc_fold_window crc_bits_inj del: foldl_append)
  then have "crc_window (u @ ?z) = crc_window (v @ ?z)"
    by (simp add: xor.commute [of s] word_xor_right_cancel)
  then have "u @ ?z = v @ ?z" using assms(1,2) by (intro crc_window_inj) auto
  then show ?thesis by simp
qed


text \<open>C29: \<open>Packet::crc32\<close>, driven by its table of 256 entries, computes on every input and for every
  previous checksum exactly the bit-by-bit division by the generator 0x04C11DB7.\<close>

theorem crc32_is_reference:
  "crc32 data sz previous =
     foldl crc_byte (previous XOR 0xFFFFFFFF) (take (nat sz) data) XOR 0xFFFFFFFF"
proof -
  have "crc_step = crc_byte" by (intro ext) (rule crc_step_eq_crc_byte)
  then show ?thesis by (simp add: crc32_def)
qed

text \<open>The checksum can be computed in chunks: feeding the checksum of a first chunk as the
  \<open>previousCrc32\<close> of the second gives the checksum of the concatenation.\<close>

theorem crc32_chunks:
  "crc32 (xs @ ys) (int (length xs + length ys)) previous =
     crc32 ys (int (length ys)) (crc32 xs (int (length xs)) previous)"
proof -
  have "(w XOR 0xFFFFFFFF) XOR 0xFFFFFFFF = w" for w :: "32 word"
    by (simp only: xor.assoc xor_self_eq xor.right_neutral)
  then show ?thesis by (simp add: crc32_def)
qed

text \<open>Changing at most four consecutive bytes changes the checksum.\<close>

lemma crc32_burst:
  assumes "length u = length v" "length u \<le> 4" "u \<noteq> v"
  shows "crc32 (xs @ u @ ys) (int (length (xs @ u @ ys))) p \<noteq>
    crc32 (xs @ v @ ys) (int (length (xs @ v @ ys))) p"
  using crc_fold_burst_inj [OF assms(1,2)] assms(3)
  by (auto simp: crc32_def word_xor_right_cancel crc_fold_state_inj)

lemma crc32_nonpositive: "sz \<le> 0 \<Longrightarrow> crc32 data sz 0 = 0"
  by (simp add: crc32_def)

end
