(* ===== verification/Varint.thy ===== *)
theory Varint
  imports Prelude
begin

text \<open>
  The variable-length code of pairs of \<^verbatim>\<open>packet.cpp\<close>, \<^verbatim>\<open>Packet::packIntPair\<close> and
  \<^verbatim>\<open>Packet::unpackIntPair\<close>: big-endian groups of seven bits, the top bit of a byte saying
  that another follows. The interface \<open>pair_codec\<close> states what the confirmation code needs of
  it; sequences of pairs are handled once inside it.
\<close>

unbundle bit_operations_syntax

section \<open>Packing\<close>

text \<open>\<^verbatim>\<open>while(bits > 7 && (a & (1 << (bits-1))) == 0) --bits;\<close>\<close>

fun count_bits :: "32 word \<Rightarrow> nat \<Rightarrow> nat" where
  "count_bits a 0 = 0"
| "count_bits a (Suc n) =
     (if 7 < Suc n \<and> a AND push_bit n 1 = 0 then count_bits a n else Suc n)"

definition count_bytes :: "32 word \<Rightarrow> nat" where
  "count_bytes a = (count_bits a 32 - 1) div 7 + 1"

text \<open>\<^verbatim>\<open>for(int i = bytes - 1; i >= 0; --i, ++c)
    *c = (0x7f & ((unsigned int)a >> (i*7))) | (i ? 0x80 : 0);\<close>\<close>

fun pack_bytes :: "32 word \<Rightarrow> nat \<Rightarrow> bytes" where
  "pack_bytes a 0 = []"
| "pack_bytes a (Suc i) =
     ucast ((0x7F AND drop_bit (7 * i) a) OR (if i \<noteq> 0 then 0x80 else 0)) # pack_bytes a i"

text \<open>The result is the bytes written at \<open>data\<close> and the size that is left, or nothing when the
  routine returns false (and then neither changes).\<close>

definition pack_int_pair :: "int \<Rightarrow> int \<Rightarrow> int \<Rightarrow> (bytes \<times> int) option" where
  "pack_int_pair a b sz =
     (if a < 0 \<or> b < 0 then None
      else
        let wa = word_of_int a; wb = word_of_int b;
            bytesA = count_bytes wa; bytesB = count_bytes wb
        in if int bytesA + int bytesB > sz then None
           else Some (pack_bytes wa bytesA @ pack_bytes wb bytesB, sz - (int bytesA + int bytesB)))"

section \<open>Unpacking\<close>

text \<open>One of the two loops of \<^verbatim>\<open>unpackIntPair\<close>; the shift is on the 32 bits of an
  \<^verbatim>\<open>int\<close>, and the sign test is made only when another byte follows.\<close>

fun unpack_loop :: "32 word \<Rightarrow> nat \<Rightarrow> bytes \<Rightarrow> (32 word \<times> bytes) option" where
  "unpack_loop a i [] = None"
| "unpack_loop a i (c # cs) =
     (let a' = push_bit 7 a OR (ucast c AND 0x7F)
      in if c AND 0x80 = 0 then Some (a', cs)
         else if sint a' < 0 \<or> 5 \<le> i then None
         else unpack_loop a' (Suc i) cs)"

definition unpack_int_pair :: "bytes \<Rightarrow> (int \<times> int \<times> bytes) option" where
  "unpack_int_pair bs =
     (case unpack_loop 0 0 bs of
        None \<Rightarrow> None
      | Some (a, cs) \<Rightarrow>
          (case unpack_loop 0 0 cs of
             None \<Rightarrow> None
           | Some (b, ds) \<Rightarrow> Some (sint a, sint b, ds)))"

text \<open>\<^verbatim>\<open>while(unpackIntPair(a, b, data, size))\<close>: the pairs read and the bytes left over. Each
  turn reads at least two bytes, so the length of the input is fuel enough
  (\<open>decode_all_fuel\<close>).\<close>

fun decode_all :: "(bytes \<Rightarrow> ('p \<times> bytes) option) \<Rightarrow> nat \<Rightarrow> bytes \<Rightarrow> 'p list \<times> bytes" where
  "decode_all dec 0 bs = ([], bs)"
| "decode_all dec (Suc n) bs =
     (case dec bs of
        None \<Rightarrow> ([], bs)
      | Some (p, cs) \<Rightarrow> let (ps, r) = decode_all dec n cs in (p # ps, r))"

definition unpack_one :: "bytes \<Rightarrow> ((int \<times> int) \<times> bytes) option" where
  "unpack_one bs = map_option (\<lambda>(a, b, r). ((a, b), r)) (unpack_int_pair bs)"

definition unpack_pairs :: "bytes \<Rightarrow> (int \<times> int) list \<times> bytes" where
  "unpack_pairs bs = decode_all unpack_one (length bs) bs"

section \<open>Length of the code\<close>

lemma count_bits_bounds: "n \<ge> 7 \<Longrightarrow> 7 \<le> count_bits a n \<and> count_bits a n \<le> n"
  by (induction n) auto

lemma count_bits_covers:
  "(\<And>i. n \<le> i \<Longrightarrow> \<not> bit a i) \<Longrightarrow> count_bits a n \<le> i \<Longrightarrow> \<not> bit a i"
proof (induction n)
  case (Suc n)
  show ?case
  proof (cases "7 < Suc n \<and> a AND push_bit n 1 = 0")
    case True
    then have "\<not> bit a n" by (simp add: bit_iff_and_push_bit_not_eq_0)
    then have "\<not> bit a i" if "n \<le> i" for i using Suc.prems(1) that by (metis Suc_leI le_neq_implies_less)
    with True Suc show ?thesis by simp
  next
    case False
    then show ?thesis using Suc.prems by auto
  qed
qed simp

lemma count_bytes_bounds: "1 \<le> count_bytes a \<and> count_bytes a \<le> 5"
  using count_bits_bounds [of 32 a] by (auto simp: count_bytes_def)

lemma count_bytes_covers:
  assumes "7 * count_bytes a \<le> i"
  shows "\<not> bit a i"
proof (rule count_bits_covers [of 32 a])
  have "count_bits a 32 \<le> 7 * count_bytes a"
    using count_bits_bounds [of 32 a] by (simp add: count_bytes_def)
  then show "count_bits a 32 \<le> i" using assms by simp
qed (auto dest: bit_imp_le_length)

lemma length_pack_bytes [simp]: "length (pack_bytes a n) = n"
  by (induction n) auto

section \<open>Round trip of one number\<close>

lemma bit_128: "bit (0x80 :: 32 word) n \<longleftrightarrow> n = 7"
proof -
  have "(0x80 :: 32 word) = push_bit 7 1" by simp
  then show ?thesis unfolding \<open>(0x80 :: 32 word) = push_bit 7 1\<close> bit_push_bit_iff
    by (auto simp: bit_1_iff)
qed

text \<open>One byte of the code carries seven bits and the continuation flag.\<close>

lemma pack_byte_flag:
  "(ucast ((0x7F AND w) OR (if i \<noteq> 0 then 0x80 else 0) :: 32 word) :: byte) AND 0x80 = 0 \<longleftrightarrow> i = 0"
  "ucast ((ucast ((0x7F AND w) OR (if i \<noteq> 0 then 0x80 else 0) :: 32 word) :: byte)) AND 0x7F = 0x7F AND w"
proof -
  have masks: "(0x80 :: byte) = push_bit 7 1" "(0x80 :: 32 word) = push_bit 7 1" "(0x7F :: 32 word) = mask 7"
    by (simp_all add: mask_eq_exp_minus_1)
  show "(ucast ((0x7F AND w) OR (if i \<noteq> 0 then 0x80 else 0) :: 32 word) :: byte) AND 0x80 = 0 \<longleftrightarrow> i = 0"
  proof -
    let ?b = "ucast ((mask 7 AND w) OR (if i \<noteq> 0 then push_bit 7 1 else 0) :: 32 word) :: byte"
    have "bit ?b 7 \<longleftrightarrow> i \<noteq> 0" by (auto simp: bit_simps)
    then show ?thesis unfolding masks by (auto simp: bit_iff_and_push_bit_not_eq_0)
  qed
  show "ucast ((ucast ((0x7F AND w) OR (if i \<noteq> 0 then 0x80 else 0) :: 32 word) :: byte)) AND 0x7F = 0x7F AND w"
    by (rule bit_word_eqI) (auto simp: bit_simps bit_128 masks(3) simp del: bit_numeral_word_iff)
qed

lemma unpack_step:
  "push_bit 7 (drop_bit (7 * Suc n) w) OR (0x7F AND drop_bit (7 * n) w) = drop_bit (7 * n) (w :: 32 word)"
proof -
  have m: "(0x7F :: 32 word) = mask 7" by (simp add: mask_eq_exp_minus_1)
  show ?thesis unfolding m
  proof (rule bit_word_eqI)
    fix k assume "k < LENGTH(32)"
    then show "bit (push_bit 7 (drop_bit (7 * Suc n) w) OR mask 7 AND drop_bit (7 * n) w) k =
        bit (drop_bit (7 * n) w) k"
      by (cases "k < 7") (auto simp: bit_simps algebra_simps dest: bit_imp_le_length)
  qed
qed

lemma sint_negative_iff: "sint (w :: 32 word) < 0 \<longleftrightarrow> bit w 31"
  by (simp add: sint_uint signed_take_bit_negative_iff bit_uint_iff)

lemma sint_nonneg_drop: "\<not> bit w 31 \<Longrightarrow> \<not> sint (drop_bit n (w :: 32 word)) < 0"
  by (cases n) (auto simp: sint_negative_iff bit_simps dest: bit_imp_le_length)

lemma unpack_pack_bytes:
  assumes "\<not> bit w 31" "0 < n" "i + n \<le> 6"
  shows "unpack_loop (drop_bit (7 * n) w) i (pack_bytes w n @ rest) = Some (w, rest)"
  using assms(2,3)
proof (induction n arbitrary: i)
  case (Suc n)
  show ?case
  proof (cases n)
    case 0
    then show ?thesis using unpack_step [of 0 w] pack_byte_flag [of w 0] by (simp add: Let_def)
  next
    case (Suc k)
    then show ?thesis using Suc.IH [of "Suc i"] Suc.prems unpack_step [of n w] pack_byte_flag [of "drop_bit (7 * n) w" n]
       sint_nonneg_drop [OF assms(1), of "7 * n"]
      by (simp add: Let_def)
  qed
qed simp

section \<open>The interface\<close>

definition c_nonneg :: "int \<Rightarrow> bool" where
  "c_nonneg a \<longleftrightarrow> 0 \<le> a \<and> a \<le> int_max"

text \<open>Bytes that a run of a packer wrote, pair after pair.\<close>

fun packed :: "(int \<Rightarrow> int \<Rightarrow> int \<Rightarrow> (bytes \<times> int) option) \<Rightarrow> (int \<times> int) list \<Rightarrow> bytes \<Rightarrow> bool" where
  "packed pk [] bs = (bs = [])"
| "packed pk ((a, b) # ps) bs =
     (\<exists>n n' cs ds. pk a b n = Some (cs, n') \<and> bs = cs @ ds \<and> packed pk ps ds)"

locale pair_codec =
  fixes pack :: "int \<Rightarrow> int \<Rightarrow> int \<Rightarrow> (bytes \<times> int) option"
    and unpack :: "bytes \<Rightarrow> ((int \<times> int) \<times> bytes) option"
    and room :: int
  assumes pack_size: "pack a b n = Some (bs, n') \<Longrightarrow> int (length bs) = n - n' \<and> 0 \<le> n'"
    and pack_same: "pack a b n = Some (bs, n') \<Longrightarrow> pack a b m = Some (cs, m') \<Longrightarrow> bs = cs"
    and pack_room: "c_nonneg a \<Longrightarrow> c_nonneg b \<Longrightarrow> room \<le> n \<Longrightarrow> pack a b n \<noteq> None"
    and unpack_pack: "c_nonneg a \<Longrightarrow> c_nonneg b \<Longrightarrow> pack a b n = Some (bs, n') \<Longrightarrow>
      unpack (bs @ rest) = Some ((a, b), rest)"
    and unpack_shorter: "unpack bs = Some (p, rest) \<Longrightarrow> length rest < length bs"
begin

lemma unpack_Nil: "unpack [] = None"
  using unpack_shorter [of "[]"] by (cases "unpack []") auto

lemma packed_snoc:
  "packed pack ps bs \<Longrightarrow> pack a b n = Some (cs, n') \<Longrightarrow> packed pack (ps @ [(a, b)]) (bs @ cs)"
proof (induction ps arbitrary: bs)
  case Nil
  then show ?case by auto
next
  case (Cons p ps)
  then show ?case by (cases p) (fastforce simp: append_assoc)
qed

lemma decode_all_rest:
  "length bs \<le> n \<Longrightarrow> unpack (snd (decode_all unpack n bs)) = None"
proof (induction n arbitrary: bs)
  case 0
  then show ?case by (simp add: unpack_Nil)
next
  case (Suc n)
  show ?case
  proof (cases "unpack bs")
    case (Some pr)
    then obtain p r where pr: "unpack bs = Some (p, r)" by (cases pr) auto
    with Suc.prems have "length r \<le> n" using unpack_shorter by fastforce
    then show ?thesis using Suc.IH [of r] by (simp add: pr case_prod_beta)
  qed simp
qed

lemma decode_all_fuel:
  "length bs \<le> n \<Longrightarrow> decode_all unpack (n + k) bs = decode_all unpack n bs"
proof (induction n arbitrary: bs)
  case 0
  then show ?case by (cases k) (simp_all add: unpack_Nil)
next
  case (Suc n)
  show ?case
  proof (cases "unpack bs")
    case (Some pr)
    then obtain p r where pr: "unpack bs = Some (p, r)" by (cases pr) auto
    with Suc.prems have "length r \<le> n" using unpack_shorter by fastforce
    then show ?thesis using Suc.IH [of r] by (simp add: pr)
  qed simp
qed

lemma decode_all_packed:
  assumes "packed pack ps bs" "\<forall>(a, b)\<in>set ps. c_nonneg a \<and> c_nonneg b" "length bs \<le> n"
  shows "decode_all unpack n bs = (ps, [])"
  using assms
proof (induction ps arbitrary: bs n)
  case Nil
  then show ?case by (cases n) (auto simp: unpack_Nil)
next
  case (Cons p ps)
  obtain a b where p: "p = (a, b)" by (cases p)
  with Cons.prems obtain m m' cs ds where cs: "pack a b m = Some (cs, m')" and bs: "bs = cs @ ds"
    and ds: "packed pack ps ds" by auto
  have un: "unpack bs = Some ((a, b), ds)"
    using Cons.prems(2) p bs unpack_pack [OF _ _ cs] by auto
  then have "length ds < length bs" by (rule unpack_shorter)
  with Cons.prems(3) obtain k where n: "n = Suc k" and k: "length ds \<le> k" by (cases n) auto
  from Cons.IH [OF ds _ k] Cons.prems(2) show ?case by (simp add: n un p)
qed

end

section \<open>The code of the program implements it\<close>

lemma c_nonneg_word:
  assumes "c_nonneg a"
  shows "sint (word_of_int a :: 32 word) = a" and "\<not> bit (word_of_int a :: 32 word) 31"
proof -
  show s: "sint (word_of_int a :: 32 word) = a"
    using assms by (auto simp: c_nonneg_def int_max_def signed_of_int intro!: signed_take_bit_int_eq_self)
  show "\<not> bit (word_of_int a :: 32 word) 31"
    using assms sint_negative_iff [of "word_of_int a"] s by (simp add: c_nonneg_def)
qed

lemma unpack_pack_word:
  assumes "c_nonneg a"
  shows "unpack_loop 0 0 (pack_bytes (word_of_int a) (count_bytes (word_of_int a)) @ rest) =
    Some (word_of_int a, rest)"
proof -
  let ?w = "word_of_int a :: 32 word"
  have "drop_bit (7 * count_bytes ?w) ?w = 0"
  proof (rule bit_word_eqI)
    fix k
    show "bit (drop_bit (7 * count_bytes ?w) ?w) k = bit 0 k"
      using count_bytes_covers [of ?w "7 * count_bytes ?w + k"] unfolding bit_drop_bit_eq by simp
  qed
  then show ?thesis
    using unpack_pack_bytes [of ?w "count_bytes ?w" 0 rest] count_bytes_bounds [of ?w] c_nonneg_word [OF assms]
    by simp
qed

lemma unpack_loop_shorter: "unpack_loop a i bs = Some (w, rest) \<Longrightarrow> length rest < length bs"
  by (induction a i bs rule: unpack_loop.induct) (fastforce simp: Let_def split: if_splits)+

lemma unpack_one_shorter: "unpack_one bs = Some (p, rest) \<Longrightarrow> length rest < length bs"
  by (auto simp: unpack_one_def unpack_int_pair_def dest!: unpack_loop_shorter split: option.splits)

interpretation codec: pair_codec pack_int_pair unpack_one 10
proof
  show "int (length bs) = n - n' \<and> 0 \<le> n'" if "pack_int_pair a b n = Some (bs, n')" for a b n bs n'
    using that by (auto simp: pack_int_pair_def Let_def split: if_splits)
  show "bs = cs" if "pack_int_pair a b n = Some (bs, n')" "pack_int_pair a b m = Some (cs, m')"
    for a b n bs n' m cs m'
    using that by (auto simp: pack_int_pair_def Let_def split: if_splits)
  show "pack_int_pair a b n \<noteq> None" if "c_nonneg a" "c_nonneg b" "10 \<le> n" for a b n
    using that count_bytes_bounds [of "word_of_int a"] count_bytes_bounds [of "word_of_int b"]
    by (auto simp: pack_int_pair_def Let_def c_nonneg_def)
  show "unpack_one (bs @ rest) = Some ((a, b), rest)"
    if "c_nonneg a" "c_nonneg b" "pack_int_pair a b n = Some (bs, n')" for a b n bs n' rest
    using that by (auto simp: pack_int_pair_def unpack_one_def unpack_int_pair_def Let_def
        unpack_pack_word c_nonneg_word split: if_splits)
  show "length rest < length bs" if "unpack_one bs = Some (p, rest)" for bs p rest
    using that by (rule unpack_one_shorter)
qed

text \<open>C28: round trip of the pair code: what \<open>packIntPair\<close> writes for two non-negative \<open>int\<close>s,
  \<open>unpackIntPair\<close> reads back, whatever bytes follow, and it stops exactly where the packer did.\<close>

theorem int_pair_roundtrip:
  assumes "0 \<le> a" "a \<le> int_max" "0 \<le> b" "b \<le> int_max" "pack_int_pair a b sz = Some (bs, sz')"
  shows "unpack_int_pair (bs @ rest) = Some (a, b, rest) \<and> int (length bs) = sz - sz' \<and> 0 \<le> sz'"
  using codec.unpack_pack [of a b sz bs sz' rest] codec.pack_size [OF assms(5)] assms
  by (auto simp: unpack_one_def c_nonneg_def)

theorem int_pair_roundtrip_witness:
  "pack_int_pair 300 5 10 = Some ([0x82, 0x2C, 5], 7) \<and>
   unpack_int_pair ([0x82, 0x2C, 5] @ [9, 9]) = Some (300, 5, [9, 9])"
proof -
  have p: "pack_int_pair 300 5 10 = Some ([0x82, 0x2C, 5], 7)"
    by code_simp
  show ?thesis using int_pair_roundtrip [OF _ _ _ _ p, of "[9, 9]"] p by (simp add: int_max_def)
qed

text \<open>\<open>packIntPair\<close> fails only for want of room: it refuses negative numbers, and two non-negative
  \<open>int\<close>s always fit into ten bytes.\<close>

theorem pack_int_pair_total:
  "(pack_int_pair a b 10 = None) = (a < 0 \<or> b < 0)"
  using count_bytes_bounds [of "word_of_int a"] count_bytes_bounds [of "word_of_int b"]
  by (auto simp: pack_int_pair_def Let_def)

end
