(* ===== verification/Packets.thy ===== *)
theory Packets
  imports Crc32 Varint
begin

text \<open>
  The datagram of \<^verbatim>\<open>packet.h\<close> and \<^verbatim>\<open>packet.cpp\<close>: the record of a packet with its resend
  bookkeeping, the little-endian accessors \<^verbatim>\<open>get\<close> and \<^verbatim>\<open>set\<close>, and
  \<^verbatim>\<open>encode\<close> and \<^verbatim>\<open>checkCrc32\<close>. Layout: 4 bytes checksum, 1 byte type, 4 bytes index,
  payload. The byte order is the x86 one, as the program stores integers through casted pointers.
\<close>

section \<open>Data\<close>

datatype ptype = Hello | Bye | Data | Confirmation | Disconnect | ByeBye | OtherType byte

text \<open>\<^verbatim>\<open>(Type)get<unsigned char>(4)\<close>: the enumerators are 0 to 5, any other value is kept.\<close>

definition ptype_of_byte :: "byte \<Rightarrow> ptype" where
  "ptype_of_byte b =
     (if b = 0 then Hello else if b = 1 then Bye else if b = 2 then Data
      else if b = 3 then Confirmation else if b = 4 then Disconnect else if b = 5 then ByeBye
      else OtherType b)"

fun byte_of_ptype :: "ptype \<Rightarrow> byte" where
  "byte_of_ptype Hello = 0"
| "byte_of_ptype Bye = 1"
| "byte_of_ptype Data = 2"
| "byte_of_ptype Confirmation = 3"
| "byte_of_ptype Disconnect = 4"
| "byte_of_ptype ByeBye = 5"
| "byte_of_ptype (OtherType b) = b"

record packet =
  p_sent :: bool
  p_sentTimeUs :: usec
  p_measureIndex :: int
  p_remainResendCount :: int
  p_confirmed :: bool
  p_data :: bytes

definition new_packet :: packet where
  "new_packet = \<lparr>p_sent = False, p_sentTimeUs = 0, p_measureIndex = 0, p_remainResendCount = 0,
     p_confirmed = False, p_data = []\<rparr>"

definition is_complete :: "packet \<Rightarrow> bool" where
  "is_complete p \<longleftrightarrow> p_sent p \<and> p_confirmed p"

section \<open>Raw bytes\<close>

text \<open>\<^verbatim>\<open>std::vector<char>::resize\<close>.\<close>

definition resize :: "nat \<Rightarrow> bytes \<Rightarrow> bytes" where
  "resize n d = take n d @ replicate (n - length d) 0"

definition overwrite :: "nat \<Rightarrow> bytes \<Rightarrow> bytes \<Rightarrow> bytes" where
  "overwrite i bs d = take i d @ bs @ drop (i + length bs) d"

definition u32_bytes :: "32 word \<Rightarrow> bytes" where
  "u32_bytes w = [ucast w, ucast (drop_bit 8 w), ucast (drop_bit 16 w), ucast (drop_bit 24 w)]"

definition bytes_u32 :: "bytes \<Rightarrow> 32 word" where
  "bytes_u32 bs = ucast (bs ! 0) OR push_bit 8 (ucast (bs ! 1)) OR
     push_bit 16 (ucast (bs ! 2)) OR push_bit 24 (ucast (bs ! 3))"

definition get_u32 :: "int \<Rightarrow> packet \<Rightarrow> 32 word" where
  "get_u32 off p =
     (if 0 \<le> off \<and> off + 4 \<le> int (length (p_data p))
      then bytes_u32 (take 4 (drop (nat off) (p_data p))) else 0)"

definition get_u8 :: "int \<Rightarrow> packet \<Rightarrow> byte" where
  "get_u8 off p =
     (if 0 \<le> off \<and> off + 1 \<le> int (length (p_data p)) then p_data p ! nat off else 0)"

definition set_bytes :: "int \<Rightarrow> bytes \<Rightarrow> packet \<Rightarrow> packet" where
  "set_bytes off bs p =
     (if off < 0 then p
      else
        let n = nat off + length bs;
            d = (if length (p_data p) < n then resize n (p_data p) else p_data p)
        in p\<lparr>p_data := overwrite (nat off) bs d\<rparr>)"

section \<open>Fields\<close>

definition get_crc32 :: "packet \<Rightarrow> 32 word" where
  "get_crc32 p = get_u32 0 p"

definition set_crc32 :: "32 word \<Rightarrow> packet \<Rightarrow> packet" where
  "set_crc32 v p = set_bytes 0 (u32_bytes v) p"

definition get_type :: "packet \<Rightarrow> ptype" where
  "get_type p = ptype_of_byte (get_u8 4 p)"

definition set_type :: "ptype \<Rightarrow> packet \<Rightarrow> packet" where
  "set_type t p = set_bytes 4 [byte_of_ptype t] p"

definition get_index :: "packet \<Rightarrow> int" where
  "get_index p = sint (get_u32 5 p)"

definition set_index :: "int \<Rightarrow> packet \<Rightarrow> packet" where
  "set_index i p = set_bytes 5 (u32_bytes (word_of_int i)) p"

definition get_data :: "packet \<Rightarrow> bytes" where
  "get_data p = (if 9 < length (p_data p) then drop 9 (p_data p) else [])"

definition get_size :: "packet \<Rightarrow> int" where
  "get_size p = (if 9 < length (p_data p) then int (length (p_data p)) - 9 else 0)"

definition set_data :: "bytes \<Rightarrow> int \<Rightarrow> packet \<Rightarrow> packet" where
  "set_data bs sz p =
     (let n = nat sz in p\<lparr>p_data := overwrite 9 (take n bs) (resize (9 + n) (p_data p))\<rparr>)"

text \<open>\<^verbatim>\<open>setRawData\<close>; the null pointer is \<open>None\<close>.\<close>

definition set_raw_data :: "bytes option \<Rightarrow> int \<Rightarrow> packet \<Rightarrow> packet" where
  "set_raw_data src sz p =
     (let n = nat sz; d = resize n (p_data p)
      in p\<lparr>p_data := (case src of None \<Rightarrow> d | Some bs \<Rightarrow> overwrite 0 (take n bs) d)\<rparr>)"

definition set_raw_size :: "int \<Rightarrow> packet \<Rightarrow> packet" where
  "set_raw_size sz p = set_raw_data None sz p"

section \<open>Encoding and checking\<close>

text \<open>\<^verbatim>\<open>crc32(&data[4], data.size() - 4)\<close>: the size is a \<^verbatim>\<open>size_t\<close> that becomes an
  \<^verbatim>\<open>int\<close>, so for a vector of fewer than four bytes it is negative.\<close>

definition body_crc :: "packet \<Rightarrow> 32 word" where
  "body_crc p = crc32 (drop 4 (p_data p)) (int (length (p_data p)) - 4) 0"

definition apply_crc32 :: "packet \<Rightarrow> packet" where
  "apply_crc32 p = set_crc32 (body_crc p) p"

definition check_crc32 :: "packet \<Rightarrow> bool" where
  "check_crc32 p \<longleftrightarrow> get_crc32 p = body_crc p"

text \<open>The static overload \<^verbatim>\<open>checkCrc32(const void*, int)\<close>, with its test of the size.\<close>

definition check_crc32_raw :: "bytes \<Rightarrow> int \<Rightarrow> bool" where
  "check_crc32_raw d sz \<longleftrightarrow> 4 < sz \<and> bytes_u32 (take 4 d) = crc32 (drop 4 d) (sz - 4) 0"

definition encode :: "ptype \<Rightarrow> int \<Rightarrow> bytes \<Rightarrow> int \<Rightarrow> packet \<Rightarrow> packet" where
  "encode t i bs sz p = apply_crc32 (set_data bs sz (set_index i (set_type t p)))"

section \<open>Byte order\<close>

lemma ptype_of_byte_of_ptype [simp]:
  "(\<And>b. t = OtherType b \<Longrightarrow> b \<notin> {0, 1, 2, 3, 4, 5}) \<Longrightarrow> ptype_of_byte (byte_of_ptype t) = t"
  by (cases t) (auto simp: ptype_of_byte_def)

lemma bytes_u32_bytes [simp]: "bytes_u32 (u32_bytes w) = w"
proof (rule bit_word_eqI)
  fix k assume "k < LENGTH(32)"
  then show "bit (bytes_u32 (u32_bytes w)) k = bit w k"
    by (cases "k < 8"; cases "k < 16"; cases "k < 24")
      (auto simp: bytes_u32_def u32_bytes_def bit_simps dest: bit_imp_le_length)
qed

lemma length_u32_bytes [simp]: "length (u32_bytes w) = 4"
  by (simp add: u32_bytes_def)

lemma bytes_u32_inj:
  assumes "length bs = 4" "length cs = 4" "bytes_u32 bs = bytes_u32 cs"
  shows "bs = cs"
proof -
  obtain a b c d where bs: "bs = [a, b, c, d]"
    using assms(1) by (auto simp: length_Suc_conv numeral_eq_Suc)
  have "u32_bytes (bytes_u32 bs) = bs" if "bs = [a, b, c, d]" for bs a b c d
  proof -
    have "ucast (bytes_u32 bs) = a" "ucast (drop_bit 8 (bytes_u32 bs)) = b"
      "ucast (drop_bit 16 (bytes_u32 bs)) = c" "ucast (drop_bit 24 (bytes_u32 bs)) = d"
      by (rule bit_word_eqI, auto simp: bytes_u32_def that bit_simps bit_byte_outside)+
    then show ?thesis by (simp add: u32_bytes_def that)
  qed
  moreover obtain a' b' c' d' where "cs = [a', b', c', d']"
    using assms(2) by (auto simp: length_Suc_conv numeral_eq_Suc)
  ultimately show ?thesis using bs assms(3) by metis
qed

lemma length_resize [simp]: "length (resize n d) = n"
  by (simp add: resize_def)

lemma resize_0 [simp]: "resize 0 d = []"
  by (simp add: resize_def)

lemma resize_append: "length xs \<le> n \<Longrightarrow> resize n (xs @ ys) = xs @ resize (n - length xs) ys"
  by (simp add: resize_def)

lemma resize_Cons: "0 < n \<Longrightarrow> resize n (x # xs) = x # resize (n - 1) xs"
  by (cases n) (simp_all add: resize_def)

lemma set_bytes_data:
  "0 \<le> off \<Longrightarrow> p_data (set_bytes off bs p) =
     resize (nat off) (p_data p) @ bs @ drop (nat off + length bs) (p_data p)"
  by (auto simp: set_bytes_def Let_def overwrite_def resize_def min_def)

lemma set_data_data:
  "p_data (set_data bs (int (length bs)) p) = resize 9 (p_data p) @ bs"
  by (auto simp: set_data_def Let_def overwrite_def resize_def min_def)

text \<open>The bytes of a datagram of type \<open>t\<close>, index \<open>i\<close> and payload \<open>bs\<close>.\<close>

definition frame_body :: "ptype \<Rightarrow> int \<Rightarrow> bytes \<Rightarrow> bytes" where
  "frame_body t i bs = byte_of_ptype t # u32_bytes (word_of_int i) @ bs"

definition frame :: "ptype \<Rightarrow> int \<Rightarrow> bytes \<Rightarrow> bytes" where
  "frame t i bs =
     u32_bytes (crc32 (frame_body t i bs) (int (length (frame_body t i bs))) 0) @ frame_body t i bs"

lemma length_frame_body [simp]: "length (frame_body t i bs) = 5 + length bs"
  by (simp add: frame_body_def)

lemma encode_data: "p_data (encode t i bs (int (length bs)) p) = frame t i bs"
proof -
  let ?q = "set_data bs (int (length bs)) (set_index i (set_type t p))"
  have "p_data ?q = resize 4 (p_data p) @ frame_body t i bs"
    by (simp add: set_data_data set_index_def set_type_def set_bytes_data resize_append resize_Cons frame_body_def)
  then show ?thesis
    by (simp add: encode_def apply_crc32_def set_crc32_def set_bytes_data body_crc_def frame_def)
qed

lemma set_bytes_fields [simp]:
  "p_sent (set_bytes off bs p) = p_sent p" "p_sentTimeUs (set_bytes off bs p) = p_sentTimeUs p"
  "p_measureIndex (set_bytes off bs p) = p_measureIndex p"
  "p_remainResendCount (set_bytes off bs p) = p_remainResendCount p"
  "p_confirmed (set_bytes off bs p) = p_confirmed p"
  by (simp_all add: set_bytes_def Let_def)

lemma encode_fields [simp]:
  "p_sent (encode t i bs sz p) = p_sent p" "p_sentTimeUs (encode t i bs sz p) = p_sentTimeUs p"
  "p_measureIndex (encode t i bs sz p) = p_measureIndex p"
  "p_remainResendCount (encode t i bs sz p) = p_remainResendCount p"
  "p_confirmed (encode t i bs sz p) = p_confirmed p"
  by (simp_all add: encode_def apply_crc32_def set_crc32_def set_data_def set_index_def set_type_def Let_def)

text \<open>What a receiver reads from such bytes.\<close>

lemma frame_type:
  "p_data p = frame t i bs \<Longrightarrow> (\<And>b. t = OtherType b \<Longrightarrow> b \<notin> {0, 1, 2, 3, 4, 5}) \<Longrightarrow> get_type p = t"
  by (simp add: get_type_def get_u8_def frame_def frame_body_def nth_append)

lemma frame_index:
  assumes "p_data p = frame t i bs" "- (2 ^ 31) \<le> i" "i < 2 ^ 31"
  shows "get_index p = i"
proof -
  have "sint (word_of_int i :: 32 word) = i"
    using assms(2,3) by (auto simp: signed_of_int intro!: signed_take_bit_int_eq_self)
  then show ?thesis using assms(1)
    by (simp add: get_index_def get_u32_def frame_def frame_body_def drop_Cons')
qed

lemma frame_payload:
  "p_data p = frame t i bs \<Longrightarrow> get_data p = bs \<and> get_size p = int (length bs)"
  by (auto simp: get_data_def get_size_def frame_def frame_body_def drop_Cons')

lemma frame_crc: "p_data p = frame t i bs \<Longrightarrow> check_crc32 p"
  by (simp add: check_crc32_def get_crc32_def get_u32_def body_crc_def frame_def)

lemma length_frame: "length (frame t i bs) = 9 + length bs"
  by (simp add: frame_def)

text \<open>C1: round trip of a datagram: whatever the packet object held before, after
  \<open>encode(type, index, data, size)\<close> it has the checksum \<open>checkCrc32\<close> accepts, and \<open>getType\<close>,
  \<open>getIndex\<close>, \<open>getData\<close> and \<open>getSize\<close> return what was encoded.\<close>

theorem encode_roundtrip:
  assumes "t \<in> {Hello, Bye, Data, Confirmation, Disconnect, ByeBye}"
    and "- (2 ^ 31) \<le> i" "i < 2 ^ 31" "sz = int (length bs)"
  shows "check_crc32 (encode t i bs sz p) \<and> get_type (encode t i bs sz p) = t \<and>
    get_index (encode t i bs sz p) = i \<and> get_data (encode t i bs sz p) = bs \<and>
    get_size (encode t i bs sz p) = sz"
  using frame_crc [OF encode_data [of t i bs p]] frame_type [OF encode_data [of t i bs p]]
    frame_index [OF encode_data [of t i bs p] assms(2,3)] frame_payload [OF encode_data [of t i bs p]] assms(1,4)
  by auto

theorem encode_roundtrip_witness:
  "check_crc32 (encode Data 7 [1, 2, 3] 3 new_packet) \<and> get_index (encode Data 7 [1, 2, 3] 3 new_packet) = 7 \<and>
   get_data (encode Data 7 [1, 2, 3] 3 new_packet) = [1, 2, 3]"
  using encode_roundtrip [of Data 7 3 "[1, 2, 3]" new_packet] by simp

text \<open>C2: corruption of a datagram that stays within four consecutive bytes, all of them in the
  checksum field or all of them after it, is always detected by \<open>checkCrc32\<close>.\<close>

theorem corruption_detected:
  assumes "check_crc32 p" "p_data p = xs @ u @ ys" "p_data q = xs @ v @ ys"
    and "length u = length v" "length u \<le> 4" "u \<noteq> v" "4 \<le> length xs \<or> length xs + length u \<le> 4"
    and "4 \<le> length (p_data p)"
  shows "\<not> check_crc32 q"
proof (cases "4 \<le> length xs")
  case True
  have "body_crc p \<noteq> body_crc q"
    using crc32_burst [OF assms(4-6), of "drop 4 xs" ys 0] True assms(4)
    by (simp add: body_crc_def assms(2,3) of_nat_diff)
  moreover have "get_crc32 p = get_crc32 q"
    using True by (simp add: get_crc32_def get_u32_def assms(2,3))
  ultimately show ?thesis using assms(1) by (simp add: check_crc32_def)
next
  case False
  with assms(7) have short: "length xs + length u \<le> 4" by simp
  have "drop 4 (p_data p) = drop 4 (p_data q)" "length (p_data p) = length (p_data q)"
    using short assms(4) by (simp_all add: assms(2,3))
  then have "body_crc p = body_crc q" by (simp add: body_crc_def)
  moreover have "take 4 (p_data p) \<noteq> take 4 (p_data q)"
    using short assms(4,6) by (simp add: assms(2,3) take_append)
  then have "get_crc32 p \<noteq> get_crc32 q"
    using assms(8) \<open>length (p_data p) = length (p_data q)\<close>
    by (auto simp: get_crc32_def get_u32_def dest!: bytes_u32_inj [rotated 2])
  ultimately show ?thesis using assms(1) by (simp add: check_crc32_def)
qed

theorem corruption_detected_witness:
  "\<not> check_crc32 (new_packet\<lparr>p_data := take 9 (frame Data 7 [1, 2, 3]) @ [9] @ [2, 3]\<rparr>)"
proof (rule corruption_detected)
  let ?p = "encode Data 7 [1, 2, 3] (int (length [1 :: byte, 2, 3])) new_packet"
  show "check_crc32 ?p" by (rule frame_crc [OF encode_data])
  show "p_data ?p = take 9 (frame Data 7 [1, 2, 3]) @ [1] @ [2, 3]"
    by (simp only: encode_data) (simp add: frame_def frame_body_def)
  show "4 \<le> length (p_data ?p)" by (simp only: encode_data length_frame)
  show "4 \<le> length (take 9 (frame Data 7 [1, 2, 3])) \<or>
      length (take 9 (frame Data 7 [1, 2, 3])) + length [1 :: byte] \<le> 4"
    by (simp add: length_frame)
qed auto

text \<open>A datagram of fewer than four bytes, the empty one included, passes \<open>checkCrc32\<close> and reads
  as a Hello packet with index 0, while the overload that tests the size refuses it.\<close>

theorem short_datagram_accepted:
  assumes "length (p_data p) < 4"
  shows "check_crc32 p \<and> get_type p = Hello \<and> get_index p = 0 \<and> get_size p = 0 \<and>
    \<not> check_crc32_raw (p_data p) (int (length (p_data p)))"
  using assms
  by (simp add: check_crc32_def get_crc32_def get_u32_def get_u8_def body_crc_def crc32_nonpositive
      get_type_def ptype_of_byte_def get_index_def get_size_def check_crc32_raw_def)

theorem short_datagram_accepted_witness:
  "check_crc32 new_packet \<and> get_type new_packet = Hello \<and> \<not> check_crc32_raw [] 0"
  using short_datagram_accepted [of new_packet] by (simp add: new_packet_def)

end
