(* ===== verification/Doubles.thy ===== *)
theory Doubles
  imports Prelude "HOL-Library.Log_Nat"
begin

text \<open>
  The C++ type \<^verbatim>\<open>double\<close> as the rate controller uses it: IEEE 754 binary64 with rounding to
  nearest, ties to even. A finite double is its rational value. The sign of a zero is not kept:
  the program never divides by a negative zero, as every divisor is a conversion from an
  integer, a difference of two doubles or one plus a product.
\<close>

section \<open>Values and rounding\<close>

datatype double = Fin rat | PInf | NInf | NaN

text \<open>The exponent of the leading binary digit of a positive rational.\<close>

definition ilog2 :: "rat \<Rightarrow> int" where
  "ilog2 x =
     (let (p, q) = quotient_of x; e = bitlen p - bitlen q
      in if x < 2 powi e then e - 1 else e)"

definition round_even :: "rat \<Rightarrow> int" where
  "round_even x =
     (let f = \<lfloor>x\<rfloor>; d = x - of_int f
      in if d < 1 / 2 then f else if 1 / 2 < d then f + 1 else if even f then f else f + 1)"

text \<open>Rounding of a positive rational: 53 significant digits, exponents from -1022 (below that the
  spacing stays) to 1023; a result of 2 to the 1024 or more is infinite.\<close>

definition round_pos :: "rat \<Rightarrow> double" where
  "round_pos x =
     (let e = max (ilog2 x) (-1022); u = 2 powi (e - 52); m = round_even (x / u)
      in if 1023 < e \<or> e = 1023 \<and> m = 2 ^ 53 then PInf else Fin (of_int m * u))"

fun d_neg :: "double \<Rightarrow> double" where
  "d_neg (Fin r) = Fin (- r)"
| "d_neg PInf = NInf"
| "d_neg NInf = PInf"
| "d_neg NaN = NaN"

definition round64 :: "rat \<Rightarrow> double" where
  "round64 x = (if x = 0 then Fin 0 else if 0 < x then round_pos x else d_neg (round_pos (- x)))"

section \<open>Operations\<close>

definition d_of_int :: "int \<Rightarrow> double" where
  "d_of_int n = round64 (of_int n)"

fun d_add :: "double \<Rightarrow> double \<Rightarrow> double" where
  "d_add (Fin a) (Fin b) = round64 (a + b)"
| "d_add NaN y = NaN"
| "d_add x NaN = NaN"
| "d_add PInf NInf = NaN"
| "d_add NInf PInf = NaN"
| "d_add (Fin a) y = y"
| "d_add x y = x"

definition d_sub :: "double \<Rightarrow> double \<Rightarrow> double" where
  "d_sub x y = d_add x (d_neg y)"

definition signed_inf :: "bool \<Rightarrow> double" where
  "signed_inf neg = (if neg then NInf else PInf)"

fun d_negative :: "double \<Rightarrow> bool" where
  "d_negative (Fin a) = (a < 0)"
| "d_negative NInf = True"
| "d_negative x = False"

fun d_mul :: "double \<Rightarrow> double \<Rightarrow> double" where
  "d_mul (Fin a) (Fin b) = round64 (a * b)"
| "d_mul NaN y = NaN"
| "d_mul x NaN = NaN"
| "d_mul x y = (if x = Fin 0 \<or> y = Fin 0 then NaN else signed_inf (d_negative x \<noteq> d_negative y))"

fun d_div :: "double \<Rightarrow> double \<Rightarrow> double" where
  "d_div (Fin a) (Fin b) =
     (if b = 0 then (if a = 0 then NaN else signed_inf (a < 0)) else round64 (a / b))"
| "d_div NaN y = NaN"
| "d_div x NaN = NaN"
| "d_div (Fin a) y = Fin 0"
| "d_div x (Fin b) = signed_inf (d_negative x \<noteq> (b < 0))"
| "d_div x y = NaN"

fun d_less :: "double \<Rightarrow> double \<Rightarrow> bool" where
  "d_less (Fin a) (Fin b) = (a < b)"
| "d_less NaN y = False"
| "d_less x NaN = False"
| "d_less x PInf = (x \<noteq> PInf)"
| "d_less NInf y = (y \<noteq> NInf)"
| "d_less x y = False"

text \<open>\<^verbatim>\<open>std::max(a, b)\<close>.\<close>

definition d_max :: "double \<Rightarrow> double \<Rightarrow> double" where
  "d_max a b = (if d_less a b then b else a)"

text \<open>\<^verbatim>\<open>round\<close>: to the nearest integer, halves away from zero; and the conversion to
  \<^verbatim>\<open>long long\<close>, which the standard leaves undefined (\<open>None\<close>) for a value out of range.\<close>

fun d_round :: "double \<Rightarrow> double" where
  "d_round (Fin r) = Fin (of_int (if 0 \<le> r then \<lfloor>r + 1 / 2\<rfloor> else - \<lfloor>- r + 1 / 2\<rfloor>))"
| "d_round x = x"

fun d_ceil :: "double \<Rightarrow> double" where
  "d_ceil (Fin r) = Fin (of_int \<lceil>r\<rceil>)"
| "d_ceil x = x"

fun d_to_ll :: "double \<Rightarrow> int option" where
  "d_to_ll (Fin r) =
     (let n = (if 0 \<le> r then \<lfloor>r\<rfloor> else \<lceil>r\<rceil>)
      in if - (2 ^ 63) \<le> n \<and> n < 2 ^ 63 then Some n else None)"
| "d_to_ll x = None"

section \<open>Facts about rounding\<close>

lemma round_even_le: "x \<le> of_int n \<Longrightarrow> round_even x \<le> n"
proof -
  assume le: "x \<le> of_int n"
  show ?thesis
  proof (cases "\<lfloor>x\<rfloor> = n")
    case True
    with le have "x = of_int n" by linarith
    then show ?thesis by (simp add: round_even_def)
  next
    case False
    with le have "\<lfloor>x\<rfloor> + 1 \<le> n" by linarith
    then show ?thesis by (simp add: round_even_def Let_def)
  qed
qed

lemma round_even_ge: "of_int n \<le> x \<Longrightarrow> n \<le> round_even x"
proof -
  assume "of_int n \<le> x"
  then have "n \<le> \<lfloor>x\<rfloor>" by linarith
  then show ?thesis by (simp add: round_even_def Let_def)
qed

lemma round_even_of_int [simp]: "round_even (of_int n) = n"
  by (simp add: round_even_def)

lemma pow2_pos [simp]: "0 < (2 :: rat) powi n"
  by (simp add: zero_less_power_int)

lemma ilog2_bounds:
  assumes "0 < x"
  shows "2 powi ilog2 x \<le> x" and "x < 2 powi (ilog2 x + 1)"
proof -
  obtain p q where pq: "quotient_of x = (p, q)" by (cases "quotient_of x")
  have q: "0 < q" using pq by (rule quotient_of_denom_pos)
  have x: "x = of_int p / of_int q" using pq by (rule quotient_of_div)
  with assms q have p: "0 < p" by (simp add: zero_less_divide_iff)
  define e where "e = bitlen p - bitlen q"
  have pos: "1 \<le> bitlen p" "1 \<le> bitlen q"
    using bitlen_nonneg [of p] bitlen_nonneg [of q] bitlen_eq_zero_iff [of p] bitlen_eq_zero_iff [of q] p q by linarith+
  have P: "2 powi (bitlen p - 1) \<le> (of_int p :: rat)" "(of_int p :: rat) < 2 powi bitlen p"
    and Q: "2 powi (bitlen q - 1) \<le> (of_int q :: rat)" "(of_int q :: rat) < 2 powi bitlen q"
    using bitlen_bounds [OF p] bitlen_bounds [OF q] pos
    by (simp_all add: power_int_def flip: of_int_power_le_of_int_cancel_iff)
  have "x < 2 powi bitlen p / 2 powi (bitlen q - 1)"
    unfolding x using P Q p q by (intro frac_less) auto
  then have up: "x < 2 powi (e + 1)" by (simp add: e_def power_int_diff power_int_add)
  have "2 powi (bitlen p - 1) / 2 powi bitlen q \<le> x"
    unfolding x using P Q p q by (intro frac_le) auto
  then have lo: "2 powi (e - 1) \<le> x" by (simp add: e_def power_int_diff)
  have il: "ilog2 x = (if x < 2 powi e then e - 1 else e)"
    by (simp add: ilog2_def pq e_def Let_def)
  show "2 powi ilog2 x \<le> x" using lo by (auto simp: il)
  show "x < 2 powi (ilog2 x + 1)" using up by (auto simp: il)
qed

lemma pow2_less_iff: "(2 :: rat) powi m < 2 powi n \<longleftrightarrow> m < n"
proof
  assume lt: "(2 :: rat) powi m < 2 powi n"
  show "m < n"
  proof (rule ccontr)
    assume "\<not> m < n"
    then have "(2 :: rat) powi n \<le> 2 powi m" by (intro power_int_increasing) auto
    with lt show False by simp
  qed
qed (auto intro: power_int_strict_increasing)

lemma ilog2_le:
  assumes "0 < x" "x \<le> 2 powi k"
  shows "ilog2 x \<le> k"
proof -
  have "(2 :: rat) powi ilog2 x \<le> 2 powi k" using ilog2_bounds(1) [OF assms(1)] assms(2) by simp
  then show ?thesis using pow2_less_iff [of k "ilog2 x"] by linarith
qed

lemma ilog2_less:
  assumes "0 < x" "x < 2 powi k"
  shows "ilog2 x < k"
proof -
  have "(2 :: rat) powi ilog2 x < 2 powi k" using ilog2_bounds(1) [OF assms(1)] assms(2) by simp
  then show ?thesis by (simp only: pow2_less_iff)
qed

lemma pow2_int: "0 \<le> n \<Longrightarrow> (2 :: rat) powi n = of_int (2 ^ nat n)"
  by (simp add: power_int_def)

text \<open>A positive value up to a power of two rounds to a finite one up to the same power.\<close>

lemma round_pos_bounded:
  assumes "0 < x" "x \<le> 2 powi k" "-1022 \<le> k" "k \<le> 1023"
  shows "\<exists>y. round_pos x = Fin y \<and> 0 \<le> y \<and> y \<le> 2 powi k"
proof -
  define e where "e = max (ilog2 x) (-1022)"
  define u where "u = (2 :: rat) powi (e - 52)"
  define m where "m = round_even (x / u)"
  have e: "e \<le> k" using ilog2_le [OF assms(1,2)] assms(3) by (simp add: e_def)
  have u: "0 < u" by (simp add: u_def)
  have "x / u \<le> 2 powi k / u" using assms(2) u by (simp add: divide_right_mono)
  also have "\<dots> = of_int (2 ^ nat (k - e + 52))"
    using e by (simp add: u_def pow2_int flip: power_int_diff)
  finally have m_le: "m \<le> 2 ^ nat (k - e + 52)" unfolding m_def by (rule round_even_le)
  have m_ge: "0 \<le> m" unfolding m_def using assms(1) u by (intro round_even_ge) simp
  have "of_int m * u \<le> of_int (2 ^ nat (k - e + 52)) * u"
    using m_le u by (intro mult_right_mono) (simp_all only: of_int_le_iff less_imp_le)
  also have "\<dots> = 2 powi (k - e + 52) * u" using e by (simp add: pow2_int)
  also have "\<dots> = 2 powi k" by (simp add: u_def flip: power_int_add)
  finally have mu: "of_int m * u \<le> 2 powi k" .
  have "\<not> (1023 < e \<or> e = 1023 \<and> m = 2 ^ 53)"
  proof -
    have "m \<le> 2 ^ 52" if "e = 1023" using m_le e assms(4) that by simp
    then show ?thesis using e assms(4) by auto
  qed
  then have "round_pos x = Fin (of_int m * u)"
    by (simp add: round_pos_def Let_def e_def [symmetric] u_def [symmetric] m_def [symmetric])
  then show ?thesis using mu m_ge u by auto
qed

text \<open>Integers of at most 53 binary digits are exact.\<close>

lemma d_of_int_exact:
  assumes "\<bar>n\<bar> < 2 ^ 53"
  shows "d_of_int n = Fin (of_int n)"
proof -
  have pos: "round_pos (of_int n) = Fin (of_int n)" if "0 < n" "n < 2 ^ 53" for n
  proof -
    define e where "e = max (ilog2 (of_int n)) (-1022)"
    have "(of_int n :: rat) < 2 powi 53" using that(2) by (simp add: power_int_def flip: of_int_less_iff)
    then have "ilog2 (of_int n) < 53" using that(1) by (intro ilog2_less) auto
    moreover have "(1 :: rat) \<le> of_int n" using that(1) by simp
    then have "0 \<le> ilog2 (of_int n)"
      using ilog2_bounds(2) [of "of_int n"] that(1) pow2_less_iff [of 0 "ilog2 (of_int n) + 1"] by simp
    ultimately have e: "0 \<le> e" "e \<le> 52" by (auto simp: e_def)
    have "of_int n / (2 powi (e - 52) :: rat) = of_int n * 2 powi (52 - e)"
      by (simp add: power_int_diff)
    also have "\<dots> = of_int (n * 2 ^ nat (52 - e))"
      using e by (simp add: pow2_int)
    finally have q: "of_int n / (2 powi (e - 52) :: rat) = of_int (n * 2 ^ nat (52 - e))" .
    define k where "k = n * 2 ^ nat (52 - e)"
    have q': "of_int n / (2 powi (e - 52) :: rat) = of_int k" by (simp only: q k_def)
    then have "of_int k * (2 powi (e - 52) :: rat) = of_int n" unfolding q' [symmetric] by simp
    then show ?thesis using e
      by (simp add: round_pos_def Let_def e_def [symmetric] q')
  qed
  show ?thesis
    using pos [of n] pos [of "- n"] assms by (auto simp: d_of_int_def round64_def)
qed
end
