(* ===== verification/Event_Links.thy ===== *)
theory Event_Links
  imports Prelude
begin

text \<open>
  The intrusive lists of \<^verbatim>\<open>event.cpp\<close>: every event carries, per link type, a pointer
  \<open>next\<close> and the address \<open>previousNext\<close> of the pointer that points at it, which is a list head
  or the \<open>next\<close> of another event. \<open>link\<close> and \<open>unlink\<close> are modelled on that store, pointer write
  by pointer write, and proved to implement insertion and removal on the abstract lists.
  The three link types use separate fields, so one store stands for one link type.
\<close>

section \<open>The pointer store\<close>

text \<open>An \<^verbatim>\<open>Event**\<close>: the address of a head or of a \<open>next\<close> field.\<close>

datatype ('e, 'h) slot = Head 'h | NextOf 'e

record ('e, 'h) links =
  l_head :: "'h \<Rightarrow> 'e option"
  l_next :: "'e \<Rightarrow> 'e option"
  l_prev :: "'e \<Rightarrow> ('e, 'h) slot option"

fun deref :: "('e, 'h) links \<Rightarrow> ('e, 'h) slot \<Rightarrow> 'e option" where
  "deref L (Head h) = l_head L h"
| "deref L (NextOf e) = l_next L e"

fun assign :: "('e, 'h) slot \<Rightarrow> 'e option \<Rightarrow> ('e, 'h) links \<Rightarrow> ('e, 'h) links" where
  "assign (Head h) v L = L\<lparr>l_head := (l_head L)(h := v)\<rparr>"
| "assign (NextOf e) v L = L\<lparr>l_next := (l_next L)(e := v)\<rparr>"

definition set_prev :: "'e \<Rightarrow> ('e, 'h) slot option \<Rightarrow> ('e, 'h) links \<Rightarrow> ('e, 'h) links" where
  "set_prev e s L = L\<lparr>l_prev := (l_prev L)(e := s)\<rparr>"

definition set_next :: "'e \<Rightarrow> 'e option \<Rightarrow> ('e, 'h) links \<Rightarrow> ('e, 'h) links" where
  "set_next e n L = L\<lparr>l_next := (l_next L)(e := n)\<rparr>"

definition unlink :: "'e \<Rightarrow> ('e, 'h) links \<Rightarrow> ('e, 'h) links" where
  "unlink e L =
     (case l_prev L e of
        None \<Rightarrow> L
      | Some s \<Rightarrow>
          let L1 = assign s (l_next L e) L;
              L2 = (case l_next L1 e of None \<Rightarrow> L1 | Some n \<Rightarrow> set_prev n (l_prev L1 e) L1)
          in set_next e None (set_prev e None L2))"

definition link :: "'e \<Rightarrow> ('e, 'h) slot \<Rightarrow> ('e, 'h) links \<Rightarrow> ('e, 'h) links" where
  "link e s L =
     (let L1 = (if l_prev L e \<noteq> None then unlink e L else L);
          L2 = set_prev e (Some s) L1;
          L3 = set_next e (deref L2 s) L2;
          L4 = (case l_next L3 e of None \<Rightarrow> L3 | Some n \<Rightarrow> set_prev n (Some (NextOf e)) L3)
      in assign s (Some e) L4)"

section \<open>Paths\<close>

text \<open>\<open>path_to L s xs\<close>: following the pointers from slot \<open>s\<close> meets \<open>xs\<close>, each with the right
  back pointer; \<open>path\<close> adds that the list ends there.\<close>

fun path_to :: "('e, 'h) links \<Rightarrow> ('e, 'h) slot \<Rightarrow> 'e list \<Rightarrow> bool" where
  "path_to L s [] = True"
| "path_to L s (x # xs) = (deref L s = Some x \<and> l_prev L x = Some s \<and> path_to L (NextOf x) xs)"

fun last_slot :: "('e, 'h) slot \<Rightarrow> 'e list \<Rightarrow> ('e, 'h) slot" where
  "last_slot s [] = s"
| "last_slot s (x # xs) = last_slot (NextOf x) xs"

definition path :: "('e, 'h) links \<Rightarrow> ('e, 'h) slot \<Rightarrow> 'e list \<Rightarrow> bool" where
  "path L s xs \<longleftrightarrow> path_to L s xs \<and> deref L (last_slot s xs) = None"

text \<open>The store holds the lists \<open>A h\<close>: they are disjoint, without repetition, and an event in none of
  them has null pointers.\<close>

definition holds :: "('e, 'h) links \<Rightarrow> ('h \<Rightarrow> 'e list) \<Rightarrow> bool" where
  "holds L A \<longleftrightarrow>
     (\<forall>h. path L (Head h) (A h) \<and> distinct (A h)) \<and>
     (\<forall>h h'. h \<noteq> h' \<longrightarrow> set (A h) \<inter> set (A h') = {}) \<and>
     (\<forall>e. (\<forall>h. e \<notin> set (A h)) \<longrightarrow> l_prev L e = None \<and> l_next L e = None)"

lemma last_slot_append [simp]: "last_slot s (xs @ ys) = last_slot (last_slot s xs) ys"
  by (induction xs arbitrary: s) auto

lemma last_slot_cases: "last_slot s xs = s \<or> (\<exists>x\<in>set xs. last_slot s xs = NextOf x)"
proof (induction xs arbitrary: s)
  case (Cons x xs)
  show ?case using Cons.IH [of "NextOf x"] by auto
qed simp

lemma last_slot_nonempty: "xs \<noteq> [] \<Longrightarrow> last_slot s xs = NextOf (last xs)"
  by (induction xs arbitrary: s) auto

lemma path_to_append: "path_to L s (xs @ ys) \<longleftrightarrow> path_to L s xs \<and> path_to L (last_slot s xs) ys"
  by (induction xs arbitrary: s) auto

lemma path_append: "path L s (xs @ ys) \<longleftrightarrow> path_to L s xs \<and> path L (last_slot s xs) ys"
  by (auto simp: path_def path_to_append)

lemma path_Nil [simp]: "path L s [] \<longleftrightarrow> deref L s = None"
  by (simp add: path_def)

lemma path_Cons [simp]:
  "path L s (x # xs) \<longleftrightarrow> deref L s = Some x \<and> l_prev L x = Some s \<and> path L (NextOf x) xs"
  by (auto simp: path_def)

lemma deref_assign [simp]: "deref (assign s v L) t = (if t = s then v else deref L t)"
  by (cases s; cases t) auto

lemma deref_set [simp]:
  "deref (set_prev e v L) t = deref L t"
  "deref (set_next e n L) t = (if t = NextOf e then n else deref L t)"
  by (cases t; simp add: set_prev_def set_next_def)+

lemma prev_set [simp]:
  "l_prev (assign s v L) x = l_prev L x"
  "l_prev (set_prev e p L) x = (if x = e then p else l_prev L x)"
  "l_prev (set_next e n L) x = l_prev L x"
  by (cases s) (auto simp: set_prev_def set_next_def)

lemma next_deref: "l_next L e = deref L (NextOf e)"
  by simp

declare deref.simps [simp del] next_deref [simp]

lemma path_to_frame:
  "path_to L s xs \<Longrightarrow>
   (xs \<noteq> [] \<Longrightarrow> deref L' s = deref L s) \<Longrightarrow>
   (\<forall>x\<in>set (butlast xs). deref L' (NextOf x) = deref L (NextOf x)) \<Longrightarrow>
   (\<forall>x\<in>set xs. l_prev L' x = l_prev L x) \<Longrightarrow> path_to L' s xs"
  by (induction xs arbitrary: s) (auto split: if_splits)

lemma path_frame:
  "path L s xs \<Longrightarrow> deref L' s = deref L s \<Longrightarrow>
   (\<forall>x\<in>set xs. deref L' (NextOf x) = deref L (NextOf x) \<and> l_prev L' x = l_prev L x) \<Longrightarrow>
   path L' s xs"
  by (induction xs arbitrary: s) auto

section \<open>Removal and insertion on paths\<close>

text \<open>Removal.\<close>

lemma unlink_derefs:
  assumes "l_prev L e = Some s" "s \<noteq> NextOf e"
  shows "deref (unlink e L) t = (if t = NextOf e then None else if t = s then l_next L e else deref L t)"
  using assms by (auto simp: unlink_def Let_def split: option.splits)

lemma unlink_prevs:
  assumes "l_prev L e = Some s" "s \<noteq> NextOf e" "l_next L e \<noteq> Some e"
  shows "l_prev (unlink e L) x =
    (if x = e then None else if l_next L e = Some x then Some s else l_prev L x)"
  using assms by (auto simp: unlink_def Let_def split: option.splits)

lemma path_unlink:
  assumes p: "path L s0 (xs @ e # ys)" and d: "distinct (xs @ e # ys)"
    and s0: "\<forall>x\<in>set (xs @ e # ys). s0 \<noteq> NextOf x"
  shows "path (unlink e L) s0 (xs @ ys)"
proof -
  define s where "s = last_slot s0 xs"
  from p have to: "path_to L s0 xs" and pe: "l_prev L e = Some s" and pys: "path L (NextOf e) ys"
    by (auto simp: path_append s_def)
  have s: "s \<noteq> NextOf e" "\<forall>y\<in>set ys. s \<noteq> NextOf y"
    using last_slot_cases [of s0 xs] d s0 by (auto simp: s_def)
  have ne: "l_next L e \<noteq> Some e"
    using pys d by (cases ys) auto
  note D = unlink_derefs [OF pe s(1)] and P = unlink_prevs [OF pe s(1) ne]
  have nx: "l_next L e = (case ys of [] \<Rightarrow> None | y # _ \<Rightarrow> Some y)"
    using pys by (cases ys) auto
  have "path_to (unlink e L) s0 xs"
  proof (rule path_to_frame [OF to])
    show "deref (unlink e L) s0 = deref L s0" if "xs \<noteq> []"
      using that s0 by (auto simp: D s_def last_slot_nonempty)
    show "\<forall>x\<in>set (butlast xs). deref (unlink e L) (NextOf x) = deref L (NextOf x)"
    proof
      fix x assume x: "x \<in> set (butlast xs)"
      then obtain zs z where xs: "xs = zs @ [z]" by (cases xs rule: rev_cases) auto
      with x d have "x \<noteq> last xs" "x \<noteq> e" "xs \<noteq> []" by auto
      then show "deref (unlink e L) (NextOf x) = deref L (NextOf x)"
        using \<open>xs \<noteq> []\<close> by (simp add: D s_def last_slot_nonempty)
    qed
    show "\<forall>x\<in>set xs. l_prev (unlink e L) x = l_prev L x"
      using d nx by (auto simp: P split: list.splits)
  qed
  moreover have "path (unlink e L) s ys"
  proof (cases ys)
    case Nil
    then show ?thesis using nx s by (simp add: D)
  next
    case (Cons y zs)
    have "path (unlink e L) (NextOf y) zs"
    proof (rule path_frame)
      show "path L (NextOf y) zs" using pys Cons by simp
      show "deref (unlink e L) (NextOf y) = deref L (NextOf y)"
        using s d Cons by (auto simp: D)
      show "\<forall>x\<in>set zs. deref (unlink e L) (NextOf x) = deref L (NextOf x) \<and> l_prev (unlink e L) x = l_prev L x"
        using s d Cons nx by (auto simp: D P)
    qed
    then show ?thesis using Cons nx s d by (auto simp: D P)
  qed
  ultimately show ?thesis by (simp add: path_append s_def)
qed


text \<open>Insertion at a slot of the list.\<close>

definition link_fresh :: "'e \<Rightarrow> ('e, 'h) slot \<Rightarrow> ('e, 'h) links \<Rightarrow> ('e, 'h) links" where
  "link_fresh e s L =
     (let L2 = set_prev e (Some s) L;
          L3 = set_next e (deref L2 s) L2;
          L4 = (case l_next L3 e of None \<Rightarrow> L3 | Some n \<Rightarrow> set_prev n (Some (NextOf e)) L3)
      in assign s (Some e) L4)"

lemma link_split: "link e s L = link_fresh e s (if l_prev L e \<noteq> None then unlink e L else L)"
  by (simp add: link_def link_fresh_def Let_def)

lemma link_fresh_derefs:
  assumes "s \<noteq> NextOf e"
  shows "deref (link_fresh e s L) t =
    (if t = s then Some e else if t = NextOf e then deref L s else deref L t)"
  using assms by (auto simp: link_fresh_def Let_def split: option.splits)

lemma link_fresh_prevs:
  assumes "s \<noteq> NextOf e" "deref L s \<noteq> Some e"
  shows "l_prev (link_fresh e s L) x =
    (if x = e then Some s else if deref L s = Some x then Some (NextOf e) else l_prev L x)"
  using assms by (auto simp: link_fresh_def Let_def split: option.splits)

lemma path_link_fresh:
  assumes p: "path L s0 (xs @ ys)" and d: "distinct (xs @ e # ys)"
    and s0: "\<forall>x\<in>set (xs @ e # ys). s0 \<noteq> NextOf x"
  shows "path (link_fresh e (last_slot s0 xs) L) s0 (xs @ e # ys)"
proof -
  define s where "s = last_slot s0 xs"
  from p have to: "path_to L s0 xs" and pys: "path L s ys"
    by (auto simp: path_append s_def)
  have s: "s \<noteq> NextOf e" "\<forall>y\<in>set ys. s \<noteq> NextOf y"
    using last_slot_cases [of s0 xs] d s0 by (auto simp: s_def)
  have ds: "deref L s = (case ys of [] \<Rightarrow> None | y # _ \<Rightarrow> Some y)"
    using pys by (cases ys) auto
  then have ne: "deref L s \<noteq> Some e" using d by (auto split: list.splits)
  note D = link_fresh_derefs [OF s(1)] and P = link_fresh_prevs [OF s(1) ne]
  have "path_to (link_fresh e s L) s0 xs"
  proof (rule path_to_frame [OF to])
    show "deref (link_fresh e s L) s0 = deref L s0" if "xs \<noteq> []"
    proof -
      have "s = NextOf (last xs)" using that by (simp add: s_def last_slot_nonempty)
      then have "s0 \<noteq> s" "s0 \<noteq> NextOf e" using that s0 by auto
      then show ?thesis by (simp add: D)
    qed
    show "\<forall>x\<in>set (butlast xs). deref (link_fresh e s L) (NextOf x) = deref L (NextOf x)"
    proof
      fix x assume x: "x \<in> set (butlast xs)"
      then obtain zs z where xs: "xs = zs @ [z]" by (cases xs rule: rev_cases) auto
      with x d have "NextOf x \<noteq> s" "x \<noteq> e" by (auto simp: s_def)
      then show "deref (link_fresh e s L) (NextOf x) = deref L (NextOf x)"
        by (simp add: D)
    qed
    show "\<forall>x\<in>set xs. l_prev (link_fresh e s L) x = l_prev L x"
      using d ds by (auto simp: P split: list.splits)
  qed
  moreover have "path (link_fresh e s L) (NextOf e) ys"
  proof (cases ys)
    case Nil
    then show ?thesis using ds s by (simp add: D)
  next
    case (Cons y zs)
    have "path (link_fresh e s L) (NextOf y) zs"
    proof (rule path_frame)
      show "path L (NextOf y) zs" using pys Cons by simp
      show "deref (link_fresh e s L) (NextOf y) = deref L (NextOf y)"
        using s d Cons by (auto simp: D)
      show "\<forall>x\<in>set zs. deref (link_fresh e s L) (NextOf x) = deref L (NextOf x) \<and>
          l_prev (link_fresh e s L) x = l_prev L x"
        using s d Cons ds by (auto simp: D P)
    qed
    then show ?thesis using Cons ds s d by (auto simp: D P)
  qed
  ultimately show ?thesis by (simp add: path_append s_def [symmetric] D P s)
qed

section \<open>Refinement of the abstract lists\<close>

definition without :: "'e \<Rightarrow> ('h \<Rightarrow> 'e list) \<Rightarrow> ('h \<Rightarrow> 'e list)" where
  "without e A = (\<lambda>h. removeAll e (A h))"

lemma without_fresh: "(\<forall>h. e \<notin> set (A h)) \<Longrightarrow> without e A = A"
  by (auto simp: without_def removeAll_id)

lemma holds_prev_None: "holds L A \<Longrightarrow> l_prev L e = None \<Longrightarrow> e \<notin> set (A h)"
proof
  assume L: "holds L A" "l_prev L e = None" "e \<in> set (A h)"
  then obtain xs ys where "A h = xs @ e # ys" by (auto simp: in_set_conv_decomp)
  moreover have "path L (Head h) (A h)" using L(1) by (simp add: holds_def)
  ultimately show False using L(2) by (simp add: path_append)
qed

lemma holds_unlink:
  assumes L: "holds L A"
  shows "holds (unlink e L) (without e A)"
proof (cases "\<exists>h. e \<in> set (A h)")
  case False
  then have "l_prev L e = None" using L by (simp add: holds_def)
  with False L show ?thesis by (simp add: unlink_def without_fresh)
next
  case True
  then obtain h xs ys where Ah: "A h = xs @ e # ys" by (auto simp: in_set_conv_decomp)
  have p: "path L (Head h) (xs @ e # ys)" and d: "distinct (xs @ e # ys)"
    using L by (auto simp: holds_def simp flip: Ah)
  have others: "h' \<noteq> h \<Longrightarrow> set (A h') \<inter> set (xs @ e # ys) = {}" for h'
    using L unfolding holds_def Ah [symmetric] by blast
  define s where "s = last_slot (Head h) xs"
  have pe: "l_prev L e = Some s" and s: "s \<noteq> NextOf e" and pys: "path L (NextOf e) ys"
    using p d last_slot_cases [of "Head h" xs] by (auto simp: path_append s_def)
  have nx: "l_next L e = (case ys of [] \<Rightarrow> None | y # _ \<Rightarrow> Some y)"
    using pys by (cases ys) auto
  then have ne: "l_next L e \<noteq> Some e" using d by (auto split: list.splits)
  note D = unlink_derefs [OF pe s] and P = unlink_prevs [OF pe s ne]
  have rem: "without e A h = xs @ ys" using d by (simp add: without_def Ah removeAll_id)
  have same: "h' \<noteq> h \<Longrightarrow> without e A h' = A h'" for h'
    using others [of h'] by (auto simp: without_def removeAll_id)
  have "path (unlink e L) (Head h') (without e A h') \<and> distinct (without e A h')" for h'
  proof (cases "h' = h")
    case True
    then show ?thesis using path_unlink [OF p d] d by (simp add: rem)
  next
    case False
    have "path (unlink e L) (Head h') (A h')"
    proof (rule path_frame)
      show "path L (Head h') (A h')" using L by (simp add: holds_def)
      show "deref (unlink e L) (Head h') = deref L (Head h')"
        using False last_slot_cases [of "Head h" xs] by (auto simp: D s_def)
      show "\<forall>x\<in>set (A h'). deref (unlink e L) (NextOf x) = deref L (NextOf x) \<and>
          l_prev (unlink e L) x = l_prev L x"
        using others [OF False] last_slot_cases [of "Head h" xs] nx
        by (auto simp: D P s_def split: list.splits)
    qed
    then show ?thesis using L False by (simp add: same holds_def)
  qed
  moreover have "set (without e A h1) \<inter> set (without e A h2) = {}" if "h1 \<noteq> h2" for h1 h2
    using L that by (auto simp: holds_def without_def)
  moreover have "l_prev (unlink e L) x = None \<and> l_next (unlink e L) x = None"
    if x: "\<forall>h'. x \<notin> set (without e A h')" for x
  proof (cases "x = e")
    case True
    then show ?thesis using s by (simp add: P D)
  next
    case False
    with x have "\<forall>h'. x \<notin> set (A h')" by (simp add: without_def)
    moreover from this Ah have "x \<notin> set xs" "x \<notin> set ys" by (metis Un_iff set_append, metis list.set_intros(2) Un_iff set_append)
    ultimately show ?thesis
      using L False last_slot_cases [of "Head h" xs] nx
      by (auto simp: P D s_def holds_def split: list.splits)
  qed
  ultimately show ?thesis unfolding holds_def by blast
qed


lemma holds_link_fresh:
  assumes L: "holds L A" and fresh: "\<forall>h'. e \<notin> set (A h')" and Ah: "A h = xs @ ys"
  shows "holds (link_fresh e (last_slot (Head h) xs) L) (A(h := xs @ e # ys))"
proof -
  define s where "s = last_slot (Head h) xs"
  have p: "path L (Head h) (xs @ ys)" and d: "distinct (xs @ e # ys)"
    using L fresh by (auto simp: holds_def simp flip: Ah) (metis Ah distinct_append disjoint_iff Un_iff set_append)+
  have others: "h' \<noteq> h \<Longrightarrow> set (A h') \<inter> set (xs @ e # ys) = {}" for h'
    using L fresh Ah unfolding holds_def by (metis (no_types, lifting) Int_insert_right_if0 Un_insert_right list.set(2) set_append)
  have s: "s \<noteq> NextOf e" "\<And>h'. h' \<noteq> h \<Longrightarrow> s \<noteq> Head h'" "\<And>x. x \<notin> set xs \<Longrightarrow> s \<noteq> NextOf x"
    using d last_slot_cases [of "Head h" xs] by (auto simp: s_def)
  have pys: "path L s ys" using p by (simp add: path_append s_def)
  have ds: "deref L s = (case ys of [] \<Rightarrow> None | y # _ \<Rightarrow> Some y)"
    using pys by (cases ys) auto
  then have ne: "deref L s \<noteq> Some e" using d by (auto split: list.splits)
  note D = link_fresh_derefs [OF s(1)] and P = link_fresh_prevs [OF s(1) ne]
  let ?A = "A(h := xs @ e # ys)"
  have "path (link_fresh e s L) (Head h') (?A h') \<and> distinct (?A h')" for h'
  proof (cases "h' = h")
    case True
    then show ?thesis using path_link_fresh [OF p d] d by (simp add: s_def)
  next
    case False
    have "path (link_fresh e s L) (Head h') (A h')"
    proof (rule path_frame)
      show "path L (Head h') (A h')" using L by (simp add: holds_def)
      show "deref (link_fresh e s L) (Head h') = deref L (Head h')"
        using False s(2) by (auto simp: D)
      show "\<forall>x\<in>set (A h'). deref (link_fresh e s L) (NextOf x) = deref L (NextOf x) \<and>
          l_prev (link_fresh e s L) x = l_prev L x"
        using others [OF False] s(3) ds by (auto simp: D P split: list.splits)
    qed
    then show ?thesis using L False by (simp add: holds_def)
  qed
  moreover have "set (?A h1) \<inter> set (?A h2) = {}" if "h1 \<noteq> h2" for h1 h2
    using L that others by (auto simp: holds_def)
  moreover have "l_prev (link_fresh e s L) x = None \<and> l_next (link_fresh e s L) x = None"
    if x: "\<forall>h'. x \<notin> set (?A h')" for x
  proof -
    from x have xs: "x \<noteq> e" "x \<notin> set xs" "x \<notin> set ys" by (auto dest: spec [of _ h])
    have "\<forall>h'. x \<notin> set (A h')"
    proof
      fix h' show "x \<notin> set (A h')" using x xs Ah by (cases "h' = h") (auto dest: spec [of _ h'])
    qed
    then have "l_prev L x = None" "l_next L x = None" using L by (auto simp: holds_def)
    then show ?thesis using xs s(3) ds by (auto simp: D P split: list.splits)
  qed
  ultimately show ?thesis unfolding holds_def s_def [symmetric] by blast
qed

text \<open>The abstract operations: to the front of a list, and after an element of it.\<close>

definition pushed :: "'e \<Rightarrow> 'h \<Rightarrow> ('h \<Rightarrow> 'e list) \<Rightarrow> ('h \<Rightarrow> 'e list)" where
  "pushed e h A = (without e A)(h := e # without e A h)"

fun insert_after :: "'e \<Rightarrow> 'e \<Rightarrow> 'e list \<Rightarrow> 'e list" where
  "insert_after y e [] = []"
| "insert_after y e (x # xs) = (if x = y then x # e # xs else x # insert_after y e xs)"

lemma without_not_in: "e \<notin> set (without e A h)"
  by (simp add: without_def)

lemma holds_unlinked: "holds L A \<Longrightarrow> holds (if l_prev L e \<noteq> None then unlink e L else L) (without e A)"
  using holds_unlink [of L A e] by (auto simp: unlink_def)

lemma holds_link_front: "holds L A \<Longrightarrow> holds (link e (Head h) L) (pushed e h A)"
  using holds_link_fresh [OF holds_unlinked [of L A e], of e h "[]" "without e A h"]
  by (simp add: link_split pushed_def without_not_in)

lemma insert_after_split: "y \<notin> set xs \<Longrightarrow> insert_after y e (xs @ y # ys) = xs @ y # e # ys"
  by (induction xs) auto

lemma holds_link_after:
  assumes L: "holds L A" and y: "y \<in> set (A h)" "y \<noteq> e"
  shows "holds (link e (NextOf y) L) ((without e A)(h := insert_after y e (without e A h)))"
proof -
  have "y \<in> set (without e A h)" using y by (simp add: without_def)
  then obtain xs ys where split: "without e A h = xs @ y # ys" and nx: "y \<notin> set xs"
    by (metis split_list_first)
  from split have split': "without e A h = (xs @ [y]) @ ys" by simp
  show ?thesis
    using holds_link_fresh [OF holds_unlinked [OF L, of e] _ split'] insert_after_split [OF nx]
    by (simp add: link_split without_not_in split)
qed

section \<open>The interface\<close>

text \<open>\<^verbatim>\<open>while(list) list->unlink();\<close> with the bound on the turns as fuel.\<close>

fun drain :: "('s \<Rightarrow> 'e option) \<Rightarrow> ('e \<Rightarrow> 's \<Rightarrow> 's) \<Rightarrow> nat \<Rightarrow> 's \<Rightarrow> 's option" where
  "drain first remove n s =
     (case first s of
        None \<Rightarrow> Some s
      | Some e \<Rightarrow> (case n of 0 \<Rightarrow> None | Suc k \<Rightarrow> drain first remove k (remove e s)))"

declare drain.simps [simp del]

locale list_store =
  fixes push :: "'e \<Rightarrow> 'h \<Rightarrow> 's \<Rightarrow> 's"
    and remove :: "'e \<Rightarrow> 's \<Rightarrow> 's"
    and first :: "'h \<Rightarrow> 's \<Rightarrow> 'e option"
    and rep :: "'s \<Rightarrow> ('h \<Rightarrow> 'e list) \<Rightarrow> bool"
  assumes rep_push: "rep s A \<Longrightarrow> rep (push e h s) (pushed e h A)"
    and rep_remove: "rep s A \<Longrightarrow> rep (remove e s) (without e A)"
    and rep_first: "rep s A \<Longrightarrow> first h s = (case A h of [] \<Rightarrow> None | x # _ \<Rightarrow> Some x)"
    and rep_distinct: "rep s A \<Longrightarrow> distinct (A h)"
    and rep_disjoint: "rep s A \<Longrightarrow> h \<noteq> h' \<Longrightarrow> set (A h) \<inter> set (A h') = {}"
begin

text \<open>Draining a list ends within its length and empties that list only.\<close>

lemma drain_empties:
  "rep s A \<Longrightarrow> length (A h) \<le> n \<Longrightarrow> \<exists>s'. drain (first h) remove n s = Some s' \<and> rep s' (A(h := []))"
proof (induction n arbitrary: s A)
  case 0
  then show ?case by (auto simp: drain.simps [of _ _ 0] rep_first fun_upd_idem)
next
  case (Suc n)
  show ?case
  proof (cases "A h")
    case Nil
    with Suc.prems show ?thesis by (auto simp: drain.simps [of _ _ "Suc n"] rep_first fun_upd_idem)
  next
    case (Cons x xs)
    have x: "x \<notin> set xs" using rep_distinct [OF Suc.prems(1), of h] Cons by simp
    have wo: "without x A = A(h := xs)"
    proof
      fix h' show "without x A h' = (A(h := xs)) h'"
        using rep_disjoint [OF Suc.prems(1), of h' h] Cons x by (auto simp: without_def removeAll_id)
    qed
    have "rep (remove x s) (A(h := xs))" using rep_remove [OF Suc.prems(1), of x] by (simp add: wo)
    moreover have "length ((A(h := xs)) h) \<le> n" using Suc.prems(2) Cons by simp
    ultimately have "\<exists>s'. drain (first h) remove n (remove x s) = Some s' \<and> rep s' ((A(h := xs))(h := []))"
      by (rule Suc.IH)
    then have "\<exists>s'. drain (first h) remove n (remove x s) = Some s' \<and> rep s' (A(h := []))"
      by (simp only: fun_upd_upd)
    moreover have "drain (first h) remove (Suc n) s = drain (first h) remove n (remove x s)"
      using Suc.prems(1) Cons by (simp add: drain.simps [of _ _ "Suc n"] rep_first)
    ultimately show ?thesis by (simp only:)
  qed
qed

lemma push_first: "rep s A \<Longrightarrow> first h (push e h s) = Some e"
  by (drule rep_push [where e = e and h = h], drule rep_first [where h = h]) (simp add: pushed_def)

end

definition first_linked :: "'h \<Rightarrow> ('e, 'h) links \<Rightarrow> 'e option" where
  "first_linked h L = l_head L h"

interpretation chains: list_store "\<lambda>e h. link e (Head h)" unlink first_linked holds
proof
  fix L A e h h'
  assume L: "holds L A"
  show "holds (link e (Head h) L) (pushed e h A)" using L by (rule holds_link_front)
  show "holds (unlink e L) (without e A)" using L by (rule holds_unlink)
  show "first_linked h L = (case A h of [] \<Rightarrow> None | x # _ \<Rightarrow> Some x)"
    using L by (cases "A h") (auto simp: holds_def first_linked_def deref.simps(1) [symmetric]
        simp del: deref.simps dest: spec [of _ h])
  show "distinct (A h)" using L by (simp add: holds_def)
  show "set (A h) \<inter> set (A h') = {}" if "h \<noteq> h'" using L that by (simp add: holds_def)
qed

text \<open>C3: \<open>Event::link\<close> and \<open>Event::unlink\<close> with their raw pointers implement lists: on a store that
  holds the lists \<open>A\<close>, \<open>unlink\<close> leaves a store that holds the lists without the event, \<open>link\<close> at
  a list head one with the event taken out of its old place and put first, and \<open>link\<close> at the \<open>next\<close>
  field of another event one with it right behind that event.\<close>

theorem event_links_refine_lists:
  assumes "holds L A"
  shows "holds (unlink e L) (without e A) \<and> holds (link e (Head h) L) (pushed e h A) \<and>
    (y \<in> set (A h) \<longrightarrow> y \<noteq> e \<longrightarrow>
       holds (link e (NextOf y) L) ((without e A)(h := insert_after y e (without e A h))))"
  using chains.rep_remove [OF assms] chains.rep_push [OF assms] holds_link_after [OF assms] by blast

definition no_links :: "(nat, nat) links" where
  "no_links = \<lparr>l_head = (\<lambda>_. None), l_next = (\<lambda>_. None), l_prev = (\<lambda>_. None)\<rparr>"

lemma holds_no_links: "holds no_links (\<lambda>_. [])"
  by (simp add: holds_def no_links_def deref.simps)

theorem event_links_refine_lists_witness:
  "holds (link 7 (Head 0) no_links) (pushed 7 0 (\<lambda>_. [])) \<and>
   pushed (7 :: nat) (0 :: nat) (\<lambda>_. []) 0 = [7]"
  using event_links_refine_lists [OF holds_no_links, of 7 0] by (simp add: pushed_def without_def)

text \<open>The loop \<open>while(list) list->unlink(...)\<close> of the destructors of \<open>Source\<close> and \<open>Manager\<close> ends
  after as many turns as the list has events, leaves that list empty and every other list as it
  was.\<close>

theorem destructor_drains:
  assumes "holds L A" "n = length (A h)"
  shows "\<exists>L'. drain (first_linked h) unlink n L = Some L' \<and> holds L' (A(h := []))"
  using chains.drain_empties [OF assms(1), of h n] assms(2) by simp

theorem destructor_drains_witness:
  "\<exists>L'. drain (first_linked 0) unlink 1 (link 7 (Head 0) no_links) = Some L' \<and>
     holds L' ((pushed 7 0 (\<lambda>_. []))(0 := []))"
  using destructor_drains [OF holds_link_front [OF holds_no_links], of 1 7 0 0]
  by (simp add: pushed_def without_def)

end
