(* ===== verification/Event_Manager.thy ===== *)
theory Event_Manager
  imports Event_Links "HOL-Library.Multiset"
begin

text \<open>
  \<^verbatim>\<open>event.cpp\<close> above its pointers: events with a priority, a time and a ready flag, sources that
  switch the flag of the events linked to them, and the manager that keeps the list of events to
  look at and raises the due ones. Lists are abstract here (\<open>Event_Links\<close> shows that the
  pointer code implements them). The handlers an event calls are a parameter of
  \<open>do_events\<close>, with the contract \<open>event_handler\<close>.
\<close>

section \<open>State\<close>

record event =
  e_timeUs :: usec
  e_ready :: bool
  e_priority :: int
  e_managed :: bool  \<comment> \<open>\<open>manager\<close> and \<open>handler\<close> are set\<close>

text \<open>The events, the manager's \<open>listReady\<close>, the local list \<open>events\<close> of \<open>doEvents\<close> (link type
  \<open>LinkRaise\<close>), and the sources with their lists.\<close>

record mgr =
  m_event :: "nat \<Rightarrow> event"
  m_listReady :: "nat list"
  m_listRaise :: "nat list"
  m_sourceList :: "nat \<Rightarrow> nat list"
  m_sourceReady :: "nat \<Rightarrow> bool"

section \<open>Times\<close>

text \<open>The value of \<open>timeUs\<close> after \<^verbatim>\<open>Event::setTime\<close>: without \<open>force\<close> a time that is set can only be
  brought forward.\<close>

definition set_time_value :: "usec \<Rightarrow> usec \<Rightarrow> bool \<Rightarrow> usec" where
  "set_time_value old new force =
     (if old = new then old
      else if force \<or> (old > new \<and> new \<ge> 0) \<or> old < 0 then new
      else old)"

lemma set_time_disabled [simp]: "old < 0 \<Longrightarrow> set_time_value old new force = new"
  by (simp add: set_time_value_def)

lemma set_time_force [simp]: "set_time_value old new True = new"
  by (simp add: set_time_value_def)

lemma set_time_min: "0 \<le> old \<Longrightarrow> 0 \<le> new \<Longrightarrow> set_time_value old new False = min old new"
  by (auto simp: set_time_value_def)

section \<open>Operations\<close>

definition is_enabled :: "event \<Rightarrow> bool" where
  "is_enabled ev \<longleftrightarrow> 0 \<le> e_timeUs ev"

definition listed :: "event \<Rightarrow> bool" where
  "listed ev \<longleftrightarrow> e_ready ev \<and> is_enabled ev"

definition set_event :: "nat \<Rightarrow> event \<Rightarrow> 'z mgr_scheme \<Rightarrow> 'z mgr_scheme" where
  "set_event e ev m = m\<lparr>m_event := (m_event m)(e := ev)\<rparr>"

definition update_ready :: "nat \<Rightarrow> 'z mgr_scheme \<Rightarrow> 'z mgr_scheme" where
  "update_ready e m =
     (if listed (m_event m e)
      then (if e \<notin> set (m_listReady m) \<and> e_managed (m_event m e)
            then m\<lparr>m_listReady := e # m_listReady m\<rparr> else m)
      else m\<lparr>m_listReady := removeAll e (m_listReady m), m_listRaise := removeAll e (m_listRaise m)\<rparr>)"

definition set_ready :: "nat \<Rightarrow> bool \<Rightarrow> 'z mgr_scheme \<Rightarrow> 'z mgr_scheme" where
  "set_ready e v m =
     (if e_ready (m_event m e) \<noteq> v
      then update_ready e (set_event e ((m_event m e)\<lparr>e_ready := v\<rparr>) m) else m)"

definition set_time :: "nat \<Rightarrow> usec \<Rightarrow> bool \<Rightarrow> 'z mgr_scheme \<Rightarrow> 'z mgr_scheme" where
  "set_time e t force m =
     (let old = e_timeUs (m_event m e)
      in if old = t then m
         else if force \<or> (old > t \<and> t \<ge> 0) \<or> old < 0
         then update_ready e (set_event e ((m_event m e)\<lparr>e_timeUs := t\<rparr>) m)
         else m)"

definition disable :: "nat \<Rightarrow> 'z mgr_scheme \<Rightarrow> 'z mgr_scheme" where
  "disable e m = set_time e (-1) True m"

text \<open>\<^verbatim>\<open>setTimeRelativeNow\<close> and \<^verbatim>\<open>setTimeRelativePrev\<close>, the clock reading being an argument.\<close>

definition set_time_relative_now :: "nat \<Rightarrow> usec \<Rightarrow> usec \<Rightarrow> bool \<Rightarrow> 'z mgr_scheme \<Rightarrow> 'z mgr_scheme" where
  "set_time_relative_now e now t force m = set_time e (now + t) force m"

definition set_time_relative_prev :: "nat \<Rightarrow> usec \<Rightarrow> usec \<Rightarrow> bool \<Rightarrow> 'z mgr_scheme \<Rightarrow> 'z mgr_scheme" where
  "set_time_relative_prev e now t force m =
     (if is_enabled (m_event m e) then set_time e (e_timeUs (m_event m e) + t) force m
      else set_time_relative_now e now 0 force m)"

definition unlink_event :: "nat \<Rightarrow> 'z mgr_scheme \<Rightarrow> 'z mgr_scheme" where
  "unlink_event e m =
     set_event e ((m_event m e)\<lparr>e_timeUs := -1, e_ready := False, e_managed := False\<rparr>)
       (m\<lparr>m_listReady := removeAll e (m_listReady m), m_listRaise := removeAll e (m_listRaise m),
          m_sourceList := (\<lambda>s. removeAll e (m_sourceList m s))\<rparr>)"

definition init_event :: "nat \<Rightarrow> int \<Rightarrow> 'z mgr_scheme \<Rightarrow> 'z mgr_scheme" where
  "init_event e prio m =
     (let m1 = unlink_event e m;
          m2 = set_event e ((m_event m1 e)\<lparr>e_managed := True, e_priority := prio\<rparr>) m1
      in set_ready e True m2)"

definition init_event_source :: "nat \<Rightarrow> nat \<Rightarrow> int \<Rightarrow> 'z mgr_scheme \<Rightarrow> 'z mgr_scheme" where
  "init_event_source e s prio m =
     (let m1 = unlink_event e m;
          m2 = set_event e ((m_event m1 e)\<lparr>e_managed := True, e_priority := prio\<rparr>) m1;
          m3 = m2\<lparr>m_sourceList := (m_sourceList m2)(s := e # m_sourceList m2 s)\<rparr>
      in set_ready e (m_sourceReady m3 s) m3)"

definition source_set_ready :: "nat \<Rightarrow> bool \<Rightarrow> 'z mgr_scheme \<Rightarrow> 'z mgr_scheme" where
  "source_set_ready s v m =
     (if m_sourceReady m s = v then m
      else fold (\<lambda>e. set_ready e v) (m_sourceList m s)
             (m\<lparr>m_sourceReady := (m_sourceReady m)(s := v)\<rparr>))"

text \<open>The destructors of a source and of the manager unlink what is left on their lists.\<close>

definition source_destroy :: "nat \<Rightarrow> 'z mgr_scheme \<Rightarrow> 'z mgr_scheme" where
  "source_destroy s m =
     (let m' = source_set_ready s False m in m'\<lparr>m_sourceList := (m_sourceList m')(s := [])\<rparr>)"

fun unlink_ready :: "nat \<Rightarrow> 'z mgr_scheme \<Rightarrow> 'z mgr_scheme" where
  "unlink_ready 0 m = m"
| "unlink_ready (Suc n) m = (case m_listReady m of [] \<Rightarrow> m | e # _ \<Rightarrow> unlink_ready n (unlink_event e m))"

definition manager_destroy :: "'z mgr_scheme \<Rightarrow> 'z mgr_scheme" where
  "manager_destroy m = unlink_ready (length (m_listReady m)) m"

section \<open>Well-formedness\<close>

text \<open>The ready list holds exactly the events that are ready, enabled and managed; the raise list is
  part of it; an event linked to a source has its flag.\<close>

definition ready_ok :: "'z mgr_scheme \<Rightarrow> bool" where
  "ready_ok m \<longleftrightarrow>
     distinct (m_listReady m) \<and> distinct (m_listRaise m) \<and>
     set (m_listRaise m) \<subseteq> set (m_listReady m) \<and>
     (\<forall>e. e \<in> set (m_listReady m) \<longleftrightarrow> listed (m_event m e) \<and> e_managed (m_event m e))"

definition sources_ok :: "'z mgr_scheme \<Rightarrow> bool" where
  "sources_ok m \<longleftrightarrow>
     (\<forall>s. distinct (m_sourceList m s)) \<and>
     (\<forall>s s'. s \<noteq> s' \<longrightarrow> set (m_sourceList m s) \<inter> set (m_sourceList m s') = {}) \<and>
     (\<forall>s. \<forall>e\<in>set (m_sourceList m s). e_ready (m_event m e) = m_sourceReady m s \<and> e_managed (m_event m e))"

definition mgr_ok :: "'z mgr_scheme \<Rightarrow> bool" where
  "mgr_ok m \<longleftrightarrow> ready_ok m \<and> sources_ok m"

lemma listed_simps [simp]:
  "listed (ev\<lparr>e_timeUs := t\<rparr>) \<longleftrightarrow> e_ready ev \<and> 0 \<le> t"
  "listed (ev\<lparr>e_ready := r\<rparr>) \<longleftrightarrow> r \<and> 0 \<le> e_timeUs ev"
  "listed (ev\<lparr>e_priority := p\<rparr>) = listed ev"
  "listed (ev\<lparr>e_managed := b\<rparr>) = listed ev"
  by (simp_all add: listed_def is_enabled_def)

text \<open>\<open>update_ready\<close> repairs the lists after a change to one event.\<close>

lemma update_ready_ok:
  assumes ok: "ready_ok m" and man: "e_managed ev = e_managed (m_event m e)"
  shows "ready_ok (update_ready e (set_event e ev m))"
proof (cases "listed ev")
  case True
  then show ?thesis using ok man by (fastforce simp: ready_ok_def update_ready_def set_event_def)
next
  case False
  then show ?thesis using ok unfolding ready_ok_def update_ready_def set_event_def
    by (auto simp: distinct_removeAll)
qed

lemma update_ready_frame [simp]:
  "m_event (update_ready e m) = m_event m"
  "m_sourceList (update_ready e m) = m_sourceList m"
  "m_sourceReady (update_ready e m) = m_sourceReady m"
  by (simp_all add: update_ready_def)

lemma set_event_frame [simp]:
  "m_event (set_event e ev m) = (m_event m)(e := ev)"
  "m_sourceList (set_event e ev m) = m_sourceList m"
  "m_sourceReady (set_event e ev m) = m_sourceReady m"
  "m_listReady (set_event e ev m) = m_listReady m"
  "m_listRaise (set_event e ev m) = m_listRaise m"
  by (simp_all add: set_event_def)

lemma set_time_ready_ok: "ready_ok m \<Longrightarrow> ready_ok (set_time e t f m)"
  by (simp add: set_time_def Let_def update_ready_ok)

lemma set_ready_ready_ok: "ready_ok m \<Longrightarrow> ready_ok (set_ready e v m)"
  by (simp add: set_ready_def update_ready_ok)

lemma set_time_sources [simp]:
  "m_sourceList (set_time e t f m) = m_sourceList m"
  "m_sourceReady (set_time e t f m) = m_sourceReady m"
  "e_ready (m_event (set_time e t f m) x) = e_ready (m_event m x)"
  "e_managed (m_event (set_time e t f m) x) = e_managed (m_event m x)"
  by (simp_all add: set_time_def Let_def)

lemma set_time_ok: "mgr_ok m \<Longrightarrow> mgr_ok (set_time e t f m)"
  by (simp add: mgr_ok_def set_time_ready_ok sources_ok_def)

lemma disable_ok: "mgr_ok m \<Longrightarrow> mgr_ok (disable e m)"
  by (simp add: disable_def set_time_ok)

lemma set_ready_frame [simp]:
  "m_sourceList (set_ready e v m) = m_sourceList m"
  "m_sourceReady (set_ready e v m) = m_sourceReady m"
  "e_ready (m_event (set_ready e v m) x) = (if x = e then v else e_ready (m_event m x))"
  "e_managed (m_event (set_ready e v m) x) = e_managed (m_event m x)"
  "e_timeUs (m_event (set_ready e v m) x) = e_timeUs (m_event m x)"
  by (auto simp: set_ready_def)

lemma fold_set_ready:
  "ready_ok m \<Longrightarrow>
   ready_ok (fold (\<lambda>e. set_ready e v) es m) \<and>
   m_sourceList (fold (\<lambda>e. set_ready e v) es m) = m_sourceList m \<and>
   m_sourceReady (fold (\<lambda>e. set_ready e v) es m) = m_sourceReady m \<and>
   (\<forall>x. e_ready (m_event (fold (\<lambda>e. set_ready e v) es m) x) = (if x \<in> set es then v else e_ready (m_event m x))) \<and>
   (\<forall>x. e_managed (m_event (fold (\<lambda>e. set_ready e v) es m) x) = e_managed (m_event m x)) \<and>
   (\<forall>x. e_timeUs (m_event (fold (\<lambda>e. set_ready e v) es m) x) = e_timeUs (m_event m x))"
  by (induction es arbitrary: m) (simp_all add: set_ready_ready_ok)

lemma source_set_ready_ok:
  assumes "mgr_ok m"
  shows "mgr_ok (source_set_ready s v m)"
proof -
  let ?m = "m\<lparr>m_sourceReady := (m_sourceReady m)(s := v)\<rparr>"
  have "ready_ok ?m" using assms by (simp add: mgr_ok_def ready_ok_def)
  note F = fold_set_ready [OF this, of v "m_sourceList m s"]
  have "sources_ok (fold (\<lambda>e. set_ready e v) (m_sourceList m s) ?m)"
    unfolding sources_ok_def using assms F by (auto simp: mgr_ok_def sources_ok_def)
  with F assms show ?thesis by (simp add: source_set_ready_def mgr_ok_def)
qed

lemma unlink_event_ok:
  assumes "mgr_ok m"
  shows "mgr_ok (unlink_event e m)"
proof -
  have "ready_ok (unlink_event e m)"
    using assms by (auto simp: mgr_ok_def ready_ok_def unlink_event_def distinct_removeAll)
  moreover have "sources_ok (unlink_event e m)"
    using assms unfolding mgr_ok_def sources_ok_def unlink_event_def
    by (simp add: distinct_removeAll) blast
  ultimately show ?thesis by (simp add: mgr_ok_def)
qed

lemma unlink_event_gone [simp]:
  "e \<notin> set (m_sourceList (unlink_event e m) s)"
  "e_ready (m_event (unlink_event e m) e) = False"
  "e_timeUs (m_event (unlink_event e m) e) = -1"
  by (simp_all add: unlink_event_def)

lemma manage_ok:
  assumes "mgr_ok m" "e_timeUs (m_event m e) = -1" "\<forall>s. e \<notin> set (m_sourceList m s)"
  shows "mgr_ok (set_event e ((m_event m e)\<lparr>e_managed := True, e_priority := p\<rparr>) m)"
  using assms by (auto simp: mgr_ok_def ready_ok_def sources_ok_def listed_def is_enabled_def)

lemma set_ready_ok_unlinked:
  assumes "mgr_ok m" "\<forall>s. e \<notin> set (m_sourceList m s)"
  shows "mgr_ok (set_ready e v m)"
  using assms by (auto simp: mgr_ok_def set_ready_ready_ok sources_ok_def)

lemma init_event_ok: "mgr_ok m \<Longrightarrow> mgr_ok (init_event e p m)"
  by (simp add: init_event_def Let_def set_ready_ok_unlinked manage_ok unlink_event_ok)

lemma init_event_source_ok:
  assumes "mgr_ok m"
  shows "mgr_ok (init_event_source e s p m)"
proof -
  let ?m1 = "unlink_event e m"
  let ?m2 = "set_event e ((m_event ?m1 e)\<lparr>e_managed := True, e_priority := p\<rparr>) ?m1"
  let ?m3 = "?m2\<lparr>m_sourceList := (m_sourceList ?m2)(s := e # m_sourceList ?m2 s)\<rparr>"
  have m2: "mgr_ok ?m2" using assms by (simp add: manage_ok unlink_event_ok)
  then have "ready_ok ?m3" by (simp add: mgr_ok_def ready_ok_def)
  then have "ready_ok (set_ready e (m_sourceReady ?m3 s) ?m3)" by (rule set_ready_ready_ok)
  moreover have "sources_ok (set_ready e (m_sourceReady ?m3 s) ?m3)"
  proof -
    define m2 where "m2 = ?m2"
    have s2: "sources_ok m2" "\<And>r. e \<notin> set (m_sourceList m2 r)" "e_managed (m_event m2 e)"
      using m2 by (simp_all add: mgr_ok_def m2_def)
    have "sources_ok (set_ready e (m_sourceReady m2 s) (m2\<lparr>m_sourceList := (m_sourceList m2)(s := e # m_sourceList m2 s)\<rparr>))"
      using s2 unfolding sources_ok_def by (simp add: Ball_def)
    then show ?thesis by (simp add: m2_def)
  qed
  ultimately show ?thesis by (simp add: mgr_ok_def init_event_source_def Let_def)
qed

text \<open>The destructors: one leaves no event on the source, the other none on the ready list.\<close>

lemma source_destroy_ok: "mgr_ok m \<Longrightarrow> mgr_ok (source_destroy s m)"
  using source_set_ready_ok [of m s False]
  by (auto simp: source_destroy_def Let_def mgr_ok_def ready_ok_def sources_ok_def)

lemma unlink_ready_drains:
  "mgr_ok m \<Longrightarrow> length (m_listReady m) \<le> n \<Longrightarrow>
   mgr_ok (unlink_ready n m) \<and> m_listReady (unlink_ready n m) = []"
proof (induction n arbitrary: m)
  case (Suc n)
  show ?case
  proof (cases "m_listReady m")
    case (Cons e es)
    then have "length (m_listReady (unlink_event e m)) \<le> n"
      using Suc.prems length_removeAll_less [of e "m_listReady m"] by (simp add: unlink_event_def set_event_def)
    then show ?thesis using Suc Cons by (simp add: unlink_event_ok)
  qed (use Suc.prems in simp)
qed simp

lemma manager_destroy_drains: "mgr_ok m \<Longrightarrow> mgr_ok (manager_destroy m) \<and> m_listReady (manager_destroy m) = []"
  by (simp add: manager_destroy_def unlink_ready_drains)

section \<open>Constructing an event\<close>

text \<open>The constructors clear the members of the new object and call \<open>init\<close>. Its memory holds no event: nothing there is
  managed.\<close>

definition no_event :: event where
  "no_event = \<lparr>e_timeUs = -1, e_ready = False, e_priority = 0, e_managed = False\<rparr>"

definition event_new :: "nat \<Rightarrow> int \<Rightarrow> 'z mgr_scheme \<Rightarrow> 'z mgr_scheme" where
  "event_new e prio m = init_event e prio (set_event e no_event m)"

definition event_new_source :: "nat \<Rightarrow> nat \<Rightarrow> int \<Rightarrow> 'z mgr_scheme \<Rightarrow> 'z mgr_scheme" where
  "event_new_source e s prio m = init_event_source e s prio (set_event e no_event m)"

lemma unmanaged_unlisted:
  assumes "mgr_ok m" "\<not> e_managed (m_event m e)"
  shows "e \<notin> set (m_listReady m)" "e \<notin> set (m_listRaise m)" "e \<notin> set (m_sourceList m s)"
  using assms by (auto simp: mgr_ok_def ready_ok_def sources_ok_def)

lemma cleared_ok:
  assumes "mgr_ok m" "\<not> e_managed (m_event m e)"
  shows "mgr_ok (set_event e no_event m)"
  using assms unmanaged_unlisted [OF assms] by (auto simp: mgr_ok_def ready_ok_def sources_ok_def no_event_def)

lemma event_new_ok:
  assumes "mgr_ok m" "\<not> e_managed (m_event m e)"
  shows "mgr_ok (event_new e prio m)" "mgr_ok (event_new_source e s prio m)"
  using cleared_ok [OF assms] by (simp_all add: event_new_def event_new_source_def init_event_ok init_event_source_ok)

text \<open>What the constructor of an event with a source does to the lists, its destructor undoes.\<close>

lemma event_new_destroy:
  fixes s :: nat and prio :: int
  assumes "mgr_ok m" "\<not> e_managed (m_event m e)"
  defines "m' \<equiv> unlink_event e (event_new_source e s prio m)"
  shows "m_listReady m' = m_listReady m" "m_listRaise m' = m_listRaise m" "m_sourceList m' = m_sourceList m"
    "m_event m' x = (if x = e then (no_event\<lparr>e_priority := prio\<rparr>) else m_event m x)"
proof -
  note u = unmanaged_unlisted [OF assms(1,2)]
  have a: "removeAll e (m_listReady m) = m_listReady m" "removeAll e (m_listRaise m) = m_listRaise m"
    "removeAll e (m_sourceList m k) = m_sourceList m k" for k
    using u by (simp_all add: removeAll_id)
  show "m_listReady m' = m_listReady m" "m_listRaise m' = m_listRaise m" "m_sourceList m' = m_sourceList m"
    "m_event m' x = (if x = e then (no_event\<lparr>e_priority := prio\<rparr>) else m_event m x)"
    using a by (auto simp: m'_def event_new_source_def init_event_source_def Let_def set_ready_def update_ready_def unlink_event_def
        set_event_def no_event_def listed_def fun_eq_iff)
qed

section \<open>One round of events\<close>

text \<open>\<^verbatim>\<open>Event::Manager::doEvents\<close>. The first loop pushes a due event on the local list whenever its
  priority is the running maximum; the second loop drops those the maximum has overtaken.\<close>

definition gather_step ::
    "(nat \<Rightarrow> event) \<Rightarrow> usec \<Rightarrow> nat \<Rightarrow> int \<times> nat list \<times> nat \<Rightarrow> int \<times> nat list \<times> nat" where
  "gather_step evs timeUs e s =
     (case s of (prio, es, cnt) \<Rightarrow>
       if e_timeUs (evs e) \<le> timeUs
       then let p = e_priority (evs e); prio' = (if es = [] then p else if prio < p then p else prio)
            in if p = prio' then (prio', e # es, Suc cnt) else (prio', es, cnt)
       else s)"

definition gather :: "(nat \<Rightarrow> event) \<Rightarrow> usec \<Rightarrow> nat list \<Rightarrow> int \<times> nat list \<times> nat" where
  "gather evs timeUs ready = fold (gather_step evs timeUs) ready (0, [], 0)"

fun skip_low :: "(nat \<Rightarrow> event) \<Rightarrow> int \<Rightarrow> nat list \<Rightarrow> nat \<Rightarrow> nat list \<times> nat" where
  "skip_low evs prio [] cnt = ([], cnt)"
| "skip_low evs prio (e # es) cnt =
     (if e_priority (evs e) = prio
      then (case skip_low evs prio es cnt of (es', c) \<Rightarrow> (e # es', c))
      else skip_low evs prio es (cnt - 1))"

text \<open>The shuffle deals the events into \<open>count\<close> buckets, at the head or the tail by a coin toss, and
  chains the buckets. \<open>rnd\<close> gives the successive values of \<^verbatim>\<open>rand()\<close>.\<close>

fun deal :: "(nat \<Rightarrow> nat) \<Rightarrow> nat list \<Rightarrow> nat \<Rightarrow> nat list list \<Rightarrow> nat list list" where
  "deal rnd [] k bs = bs"
| "deal rnd (e # es) k bs =
     (let i = rnd k mod length bs; b = bs ! i
      in if b = [] then deal rnd es (k + 1) (bs[i := [e]])
         else deal rnd es (k + 2) (bs[i := (if odd (rnd (k + 1)) then e # b else b @ [e])]))"

definition shuffle_events :: "(nat \<Rightarrow> nat) \<Rightarrow> nat \<Rightarrow> nat list \<Rightarrow> nat list" where
  "shuffle_events rnd cnt es = concat (deal rnd es 0 (replicate cnt []))"

definition due_events :: "(nat \<Rightarrow> nat) \<Rightarrow> usec \<Rightarrow> 'z mgr_scheme \<Rightarrow> nat list" where
  "due_events rnd timeUs m =
     (case gather (m_event m) timeUs (m_listReady m) of (prio, es, cnt) \<Rightarrow>
       case skip_low (m_event m) prio es cnt of (es', cnt') \<Rightarrow> shuffle_events rnd cnt' es')"

text \<open>\<^verbatim>\<open>Event::raise\<close>: the planned time is saved, the event disabled, then its handler called.\<close>

definition raise_event ::
    "(nat \<Rightarrow> usec \<Rightarrow> 'z mgr_scheme \<Rightarrow> 'z mgr_scheme) \<Rightarrow> nat \<Rightarrow> 'z mgr_scheme \<Rightarrow> 'z mgr_scheme" where
  "raise_event h e m =
     (let planned = e_timeUs (m_event m e); m' = disable e m
      in if e_managed (m_event m' e) then h e planned m' else m')"

datatype round_error = AssertFailed | OutOfFuel

text \<open>The raise loop, with the code's assertion before each event. The fuel is the length of the
  list: \<open>raise_loop_total\<close> shows that it is enough.\<close>

fun raise_loop ::
    "(nat \<Rightarrow> usec \<Rightarrow> 'z mgr_scheme \<Rightarrow> 'z mgr_scheme) \<Rightarrow> nat \<Rightarrow> 'z mgr_scheme \<Rightarrow> round_error + 'z mgr_scheme" where
  "raise_loop h 0 m = (if m_listRaise m = [] then Inr m else Inl OutOfFuel)"
| "raise_loop h (Suc n) m =
     (case m_listRaise m of [] \<Rightarrow> Inr m
      | e # _ \<Rightarrow> if listed (m_event m e) then raise_loop h n (raise_event h e m) else Inl AssertFailed)"

definition next_time :: "'z mgr_scheme \<Rightarrow> usec" where
  "next_time m =
     (case m_listReady m of [] \<Rightarrow> -1
      | e # _ \<Rightarrow> fold (\<lambda>x t. if e_timeUs (m_event m x) < t then e_timeUs (m_event m x) else t)
                  (m_listReady m) (e_timeUs (m_event m e)))"

definition do_events ::
    "(nat \<Rightarrow> usec \<Rightarrow> 'z mgr_scheme \<Rightarrow> 'z mgr_scheme) \<Rightarrow> (nat \<Rightarrow> nat) \<Rightarrow> usec \<Rightarrow> 'z mgr_scheme
      \<Rightarrow> round_error + (usec \<times> 'z mgr_scheme)" where
  "do_events h rnd timeUs m =
     (let es = due_events rnd timeUs m
      in case raise_loop h (length es) (m\<lparr>m_listRaise := es\<rparr>) of
           Inl err \<Rightarrow> Inl err
         | Inr m' \<Rightarrow> Inr (next_time m', m'))"

section \<open>What a round selects\<close>

text \<open>The events due at a time, and those of them no other due event outranks.\<close>

definition due :: "(nat \<Rightarrow> event) \<Rightarrow> usec \<Rightarrow> nat list \<Rightarrow> nat list" where
  "due evs timeUs ready = filter (\<lambda>e. e_timeUs (evs e) \<le> timeUs) ready"

lemma gather_inv:
  assumes "gather evs t ready = (prio, es, cnt)"
  shows "cnt = length es \<and> set es \<subseteq> set (due evs t ready) \<and> (es = [] \<longleftrightarrow> due evs t ready = []) \<and>
    (distinct ready \<longrightarrow> distinct es) \<and>
    (due evs t ready \<noteq> [] \<longrightarrow> prio = Max (e_priority ` evs ` set (due evs t ready))) \<and>
    (\<forall>e\<in>set (due evs t ready). e_priority (evs e) = prio \<longrightarrow> e \<in> set es)"
  using assms
proof (induction ready arbitrary: prio es cnt rule: rev_induct)
  case Nil
  then show ?case by (simp add: gather_def due_def)
next
  case (snoc e ready)
  obtain p0 es0 c0 where g: "gather evs t ready = (p0, es0, c0)" by (cases "gather evs t ready") auto
  note IH = snoc.IH [OF g]
  have step: "gather_step evs t e (p0, es0, c0) = (prio, es, cnt)"
    using snoc.prems g by (simp add: gather_def)
  show ?case
  proof (cases "e_timeUs (evs e) \<le> t")
    case False
    then show ?thesis using IH step by (auto simp: gather_step_def due_def)
  next
    case True
    have d: "due evs t (ready @ [e]) = due evs t ready @ [e]" using True by (simp add: due_def)
    have sub: "set (due evs t ready) \<subseteq> set ready" by (auto simp: due_def)
    show ?thesis
    proof (cases "es0 = []")
      case True
      then show ?thesis using IH step \<open>e_timeUs (evs e) \<le> t\<close> d
        by (auto simp: gather_step_def Let_def)
    next
      case False
      then have ne: "due evs t ready \<noteq> []" using IH by blast
      then have p0: "p0 = Max (e_priority ` evs ` set (due evs t ready))" using IH by blast
      have Mx: "Max (e_priority ` evs ` set (due evs t (ready @ [e]))) = max (e_priority (evs e)) p0"
        using ne by (simp add: d p0)
      have low: "e_priority (evs x) \<le> p0" if "x \<in> set (due evs t ready)" for x
        using that by (simp add: p0)
      consider "e_priority (evs e) < p0" | "e_priority (evs e) = p0" | "p0 < e_priority (evs e)"
        by linarith
      then show ?thesis
      proof cases
        case 1
        then have "prio = p0" "es = es0" "cnt = c0"
          using step \<open>e_timeUs (evs e) \<le> t\<close> False by (auto simp: gather_step_def Let_def)
        then show ?thesis using IH Mx 1 d by auto
      next
        case 2
        then have "prio = p0" "es = e # es0" "cnt = Suc c0"
          using step \<open>e_timeUs (evs e) \<le> t\<close> False by (auto simp: gather_step_def Let_def)
        then show ?thesis using IH Mx 2 d sub by auto
      next
        case 3
        then have e: "prio = e_priority (evs e)" "es = e # es0" "cnt = Suc c0"
          using step \<open>e_timeUs (evs e) \<le> t\<close> False by (auto simp: gather_step_def Let_def)
        moreover have "x = e" if "x \<in> set (due evs t (ready @ [e]))" "e_priority (evs x) = prio" for x
          using that 3 low [of x] e d by auto
        ultimately show ?thesis using IH Mx 3 d sub by auto
      qed
    qed
  qed
qed

lemma skip_low_filter:
  "length es \<le> cnt \<Longrightarrow>
   skip_low evs prio es cnt =
     (filter (\<lambda>e. e_priority (evs e) = prio) es,
      cnt - length (filter (\<lambda>e. e_priority (evs e) \<noteq> prio) es))"
  by (induction es arbitrary: cnt) (auto)

lemma mset_concat_update:
  "i < length bs \<Longrightarrow> mset (concat (bs[i := b])) + mset (bs ! i) = mset (concat bs) + mset b"
  by (induction bs arbitrary: i) (auto simp: nth_Cons' split: nat.splits)

lemma mset_deal:
  "bs \<noteq> [] \<Longrightarrow> mset (concat (deal rnd es k bs)) = mset es + mset (concat bs)"
proof (induction rnd es k bs rule: deal.induct)
  case (2 rnd e es k bs)
  let ?i = "rnd k mod length bs"
  have i: "?i < length bs" using 2 by simp
  have upd: "mset (concat (bs[?i := b])) = mset (concat bs) + {#e#}"
    if "mset b = add_mset e (mset (bs ! ?i))" for b
    using mset_concat_update [OF i, of b] that by simp
  show ?case
    using 2 upd [of "[e]"] upd [of "e # bs ! ?i"] upd [of "bs ! ?i @ [e]"]
    by (simp add: Let_def)
qed simp

lemma mset_shuffle:
  "cnt = length es \<Longrightarrow> mset (shuffle_events rnd cnt es) = mset es"
  by (cases "es = []") (simp_all add: shuffle_events_def mset_deal del: deal.simps(2))

text \<open>The events a round raises: each once, exactly the due ones of the highest priority.\<close>

definition selected :: "usec \<Rightarrow> 'z mgr_scheme \<Rightarrow> nat set" where
  "selected t m =
     {e \<in> set (m_listReady m). e_timeUs (m_event m e) \<le> t \<and>
        (\<forall>e'\<in>set (m_listReady m). e_timeUs (m_event m e') \<le> t \<longrightarrow>
           e_priority (m_event m e') \<le> e_priority (m_event m e))}"

lemma due_events_mset:
  "\<exists>es. mset (due_events rnd t m) = mset es \<and> (distinct (m_listReady m) \<longrightarrow> distinct es) \<and> set es = selected t m"
proof -
  obtain prio es cnt where g: "gather (m_event m) t (m_listReady m) = (prio, es, cnt)"
    by (cases "gather (m_event m) t (m_listReady m)") auto
  note G = gather_inv [OF g]
  let ?D = "due (m_event m) t (m_listReady m)"
  let ?f = "filter (\<lambda>e. e_priority (m_event m e) = prio) es"
  have len: "cnt - length (filter (\<lambda>e. e_priority (m_event m e) \<noteq> prio) es) = length ?f"
    using G sum_length_filter_compl [of "\<lambda>e. e_priority (m_event m e) = prio" es] by simp
  have ms: "mset (due_events rnd t m) = mset ?f"
    using G len by (simp add: due_events_def g skip_low_filter mset_shuffle del: mset_filter)
  have "set ?f = selected t m"
  proof (cases "?D = []")
    case True
    then have "es = []" using G by blast
    moreover have "selected t m = {}" using True by (auto simp: selected_def due_def filter_empty_conv)
    ultimately show ?thesis by simp
  next
    case False
    then have mx: "prio = Max (e_priority ` m_event m ` set ?D)" using G by blast
    then have "prio \<in> e_priority ` m_event m ` set ?D" using False by simp
    then obtain w where w: "w \<in> set ?D" "e_priority (m_event m w) = prio" by blast
    have up: "e_priority (m_event m x) \<le> prio" if "x \<in> set ?D" for x using that by (simp add: mx)
    have "x \<in> set ?f \<longleftrightarrow> x \<in> set ?D \<and> e_priority (m_event m x) = prio" for x using G by auto
    moreover have "x \<in> selected t m \<longleftrightarrow> x \<in> set ?D \<and> e_priority (m_event m x) = prio" for x
      using w up [of x] up unfolding selected_def due_def by fastforce
    ultimately show ?thesis by blast
  qed
  moreover have "distinct (m_listReady m) \<longrightarrow> distinct ?f" using G by simp
  ultimately show ?thesis using ms by blast
qed

lemma due_events_selected:
  "set (due_events rnd t m) = selected t m"
  "distinct (m_listReady m) \<Longrightarrow> distinct (due_events rnd t m)"
  using due_events_mset [of rnd t m] by (metis set_mset_mset, metis mset_eq_imp_distinct_iff)

section \<open>Handlers\<close>

text \<open>What the manager needs of the handlers it calls: they keep the lists well formed and do not add
  to the events being raised.\<close>

locale event_handler =
  fixes h :: "nat \<Rightarrow> usec \<Rightarrow> 'z mgr_scheme \<Rightarrow> 'z mgr_scheme"
  assumes handler_ok: "mgr_ok m \<Longrightarrow> mgr_ok (h e t m)"
    and handler_raise: "mgr_ok m \<Longrightarrow> set (m_listRaise (h e t m)) \<subseteq> set (m_listRaise m)"
begin

lemma raise_event_ok: "mgr_ok m \<Longrightarrow> mgr_ok (raise_event h e m)"
  by (simp add: raise_event_def Let_def disable_ok handler_ok)

lemma raise_event_shrinks:
  assumes "mgr_ok m"
  shows "set (m_listRaise (raise_event h e m)) \<subseteq> set (m_listRaise m) - {e}"
proof -
  have "\<not> listed (m_event (disable e m) e)"
    by (simp add: disable_def set_time_def Let_def set_event_def listed_def is_enabled_def)
  moreover have "ready_ok (disable e m)" using assms disable_ok [of m e] by (simp add: mgr_ok_def)
  ultimately have "e \<notin> set (m_listRaise (disable e m))" by (auto simp: ready_ok_def)
  moreover have "set (m_listRaise (disable e m)) \<subseteq> set (m_listRaise m)"
    by (auto simp: disable_def set_time_def Let_def update_ready_def set_event_def split: if_splits)
  ultimately show ?thesis using handler_raise [of "disable e m"] assms
    by (auto simp: raise_event_def Let_def disable_ok)
qed

lemma raise_event_length:
  assumes "mgr_ok m" "e \<in> set (m_listRaise m)"
  shows "length (m_listRaise (raise_event h e m)) < length (m_listRaise m)"
proof -
  have "distinct (m_listRaise m)" "distinct (m_listRaise (raise_event h e m))"
    using assms raise_event_ok [of m e] by (simp_all add: mgr_ok_def ready_ok_def)
  moreover have "set (m_listRaise (raise_event h e m)) \<subset> set (m_listRaise m)"
    using raise_event_shrinks [OF assms(1), of e] assms(2) by blast
  ultimately show ?thesis by (metis List.finite_set distinct_card psubset_card_mono)
qed

lemma raise_loop_total:
  "mgr_ok m \<Longrightarrow> length (m_listRaise m) \<le> n \<Longrightarrow>
   \<exists>m'. raise_loop h n m = Inr m' \<and> mgr_ok m' \<and> m_listRaise m' = []"
proof (induction n arbitrary: m)
  case (Suc n)
  show ?case
  proof (cases "m_listRaise m")
    case (Cons e es)
    then have l: "listed (m_event m e)" using Suc.prems(1) by (auto simp: mgr_ok_def ready_ok_def)
    have "length (m_listRaise (raise_event h e m)) \<le> n"
      using raise_event_length [OF Suc.prems(1), of e] Suc.prems(2) Cons by simp
    then show ?thesis using Suc.IH [OF raise_event_ok [OF Suc.prems(1)]] Cons l by simp
  qed (use Suc.prems in simp)
qed simp

lemma do_events_total:
  assumes "mgr_ok m"
  shows "\<exists>m'. do_events h rnd t m = Inr (next_time m', m') \<and> mgr_ok m' \<and> m_listRaise m' = []"
proof -
  let ?es = "due_events rnd t m"
  have "mgr_ok (m\<lparr>m_listRaise := ?es\<rparr>)"
    using assms due_events_selected(1) [of rnd t m] due_events_selected(2) [of m rnd t]
    by (auto simp: mgr_ok_def ready_ok_def sources_ok_def selected_def)
  from raise_loop_total [OF this, of "length ?es"] show ?thesis
    by (auto simp: do_events_def Let_def)
qed

end

text \<open>A handler touches the manager through the public members of \<open>Event\<close> and \<open>Event::Source\<close>:
  it is a sequence of such calls, chosen from all it can see. (\<open>Event::setReady\<close> is public too, but
  only \<open>Event\<close> and \<open>Event::Source\<close> call it.)\<close>

datatype event_call =
    CallSetTime nat usec bool
  | CallInit nat int
  | CallInitSource nat nat int
  | CallDestroy nat
  | CallSource nat bool

definition run_call :: "event_call \<Rightarrow> 'z mgr_scheme \<Rightarrow> 'z mgr_scheme" where
  "run_call c m =
     (case c of
        CallSetTime e t f \<Rightarrow> set_time e t f m
      | CallInit e p \<Rightarrow> init_event e p m
      | CallInitSource e s p \<Rightarrow> init_event_source e s p m
      | CallDestroy e \<Rightarrow> unlink_event e m
      | CallSource s v \<Rightarrow> source_set_ready s v m)"

definition api_handler ::
    "(nat \<Rightarrow> usec \<Rightarrow> mgr \<Rightarrow> event_call list) \<Rightarrow> nat \<Rightarrow> usec \<Rightarrow> mgr \<Rightarrow> mgr" where
  "api_handler calls e t m = fold run_call (calls e t m) m"

lemma run_call_ok: "mgr_ok m \<Longrightarrow> mgr_ok (run_call c m)"
  by (simp add: run_call_def set_time_ok init_event_ok init_event_source_ok unlink_event_ok
      source_set_ready_ok split: event_call.split)

lemma update_ready_raise: "set (m_listRaise (update_ready e m)) \<subseteq> set (m_listRaise m)"
  by (auto simp: update_ready_def)

lemma set_time_raise: "set (m_listRaise (set_time e t f m)) \<subseteq> set (m_listRaise m)"
  using update_ready_raise [of e "set_event e ((m_event m e)\<lparr>e_timeUs := t\<rparr>) m"]
  by (simp add: set_time_def Let_def)

lemma set_ready_raise: "set (m_listRaise (set_ready e v m)) \<subseteq> set (m_listRaise m)"
  using update_ready_raise [of e "set_event e ((m_event m e)\<lparr>e_ready := v\<rparr>) m"]
  by (simp add: set_ready_def)

lemma unlink_event_raise: "set (m_listRaise (unlink_event e m)) \<subseteq> set (m_listRaise m)"
  by (auto simp: unlink_event_def)

lemma fold_set_ready_raise:
  "set (m_listRaise (fold (\<lambda>e. set_ready e v) es m)) \<subseteq> set (m_listRaise m)"
  by (induction es arbitrary: m) (simp_all, meson order_trans set_ready_raise)

lemma init_event_raise: "set (m_listRaise (init_event e p m)) \<subseteq> set (m_listRaise m)"
  unfolding init_event_def Let_def
  by (rule order_trans [OF set_ready_raise]) (simp add: unlink_event_raise)

lemma init_event_source_raise: "set (m_listRaise (init_event_source e s p m)) \<subseteq> set (m_listRaise m)"
  unfolding init_event_source_def Let_def
  by (rule order_trans [OF set_ready_raise]) (simp add: unlink_event_raise)

lemma source_set_ready_raise: "set (m_listRaise (source_set_ready s v m)) \<subseteq> set (m_listRaise m)"
  using fold_set_ready_raise [of v "m_sourceList m s" "m\<lparr>m_sourceReady := (m_sourceReady m)(s := v)\<rparr>"]
  by (simp add: source_set_ready_def)

lemma run_call_raise: "set (m_listRaise (run_call c m)) \<subseteq> set (m_listRaise m)"
  by (cases c) (simp_all add: run_call_def set_time_raise init_event_raise init_event_source_raise
      unlink_event_raise source_set_ready_raise)

lemma run_calls: "mgr_ok m \<Longrightarrow>
    mgr_ok (fold run_call cs m) \<and> set (m_listRaise (fold run_call cs m)) \<subseteq> set (m_listRaise m)"
proof (induction cs arbitrary: m)
  case (Cons c cs)
  then show ?case using run_call_ok [of m c] run_call_raise [of c m] by fastforce
qed simp

interpretation api: event_handler "api_handler calls" for calls
  by unfold_locales (simp_all add: api_handler_def run_calls)

lemma next_time_nil: "m_listReady m = [] \<Longrightarrow> next_time m = -1"
  by (simp add: next_time_def)

lemma fold_less_Min:
  "fold (\<lambda>x t. if f x < t then f x else t) xs (t::'a::linorder) = Min (insert t (f ` set xs))"
proof (induction xs arbitrary: t)
  case (Cons x xs)
  have "Min (insert (if f x < t then f x else t) (f ` set xs)) = Min (insert t (insert (f x) (f ` set xs)))"
    by (simp add: insert_commute Min_insert2 min_def del: Min_insert) (cases "f ` set xs = {}"; auto simp: min_def)
  with Cons show ?case by simp
qed simp

lemma next_time_Min:
  "m_listReady m \<noteq> [] \<Longrightarrow> next_time m = Min ((\<lambda>e. e_timeUs (m_event m e)) ` set (m_listReady m))"
  by (auto simp: next_time_def fold_less_Min insert_absorb split: list.split)

text \<open>The state before any event exists, and a small sample of three events, two of them on a source.\<close>

definition new_mgr :: mgr where
  "new_mgr = \<lparr>m_event = (\<lambda>e. \<lparr>e_timeUs = -1, e_ready = False, e_priority = 0, e_managed = False\<rparr>),
              m_listReady = [], m_listRaise = [], m_sourceList = (\<lambda>s. []), m_sourceReady = (\<lambda>s. False)\<rparr>"

definition sample_calls :: "event_call list" where
  "sample_calls =
     [CallInit 0 1, CallSetTime 0 5 False, CallSource 0 True, CallInitSource 1 0 1, CallInitSource 2 0 0,
      CallSetTime 1 7 False, CallSetTime 2 3 False]"

lemma new_mgr_ok: "mgr_ok new_mgr"
  by (simp add: new_mgr_def mgr_ok_def ready_ok_def sources_ok_def listed_def)

lemma sample_ok: "mgr_ok (fold run_call sample_calls new_mgr)"
  using run_calls [OF new_mgr_ok] by blast

text \<open>C23: whatever calls on the event interface a handler makes (setting times, creating and destroying
  events, switching sources), the manager's lists stay well formed: its ready list holds, once each,
  exactly the events that are ready, enabled and initialised, the raise list is part of it, and the
  events of a source have its flag.\<close>

theorem event_calls_keep_lists:
  assumes "mgr_ok m"
  shows "mgr_ok (fold run_call calls m)"
  using run_calls [OF assms] by blast

lemma event_calls_keep_lists_witness: "mgr_ok (fold run_call sample_calls new_mgr)"
  by (rule event_calls_keep_lists [OF new_mgr_ok])

text \<open>C24: a round of events terminates without violating the assertion of the raise loop, for every
  handler and every outcome of the shuffle; it leaves nothing to raise, keeps the lists well formed, and
  returns the earliest time of the events that are then ready, or -1.\<close>

theorem do_events_returns:
  assumes "mgr_ok m"
  shows "\<exists>m'. do_events (api_handler calls) rnd t m =
      Inr (if m_listReady m' = [] then -1
           else Min ((\<lambda>e. e_timeUs (m_event m' e)) ` set (m_listReady m')), m')
    \<and> mgr_ok m' \<and> m_listRaise m' = []"
proof -
  obtain m' where m': "do_events (api_handler calls) rnd t m = Inr (next_time m', m')"
      "mgr_ok m'" "m_listRaise m' = []"
    using api.do_events_total [OF assms, of calls rnd t] by blast
  then show ?thesis
    by (intro exI [of _ m']) (simp add: next_time_nil next_time_Min)
qed

lemma do_events_returns_witness:
  "\<exists>t' m'. do_events (api_handler (\<lambda>e t m. [CallSetTime e (t + 10) False, CallDestroy 0])) (\<lambda>k. k) 7
      (fold run_call sample_calls new_mgr) = Inr (t', m') \<and> mgr_ok m'"
  using do_events_returns [OF sample_ok, of "\<lambda>e t m. [CallSetTime e (t + 10) False, CallDestroy 0]" "\<lambda>k. k" 7]
  by blast

text \<open>C25: the round raises exactly the due events no due event outranks, each once, whatever the random
  numbers: the shuffle loses and duplicates nothing.\<close>

theorem round_selects:
  assumes "mgr_ok m"
  shows "distinct (due_events rnd t m) \<and>
    set (due_events rnd t m) =
      {e. listed (m_event m e) \<and> e_managed (m_event m e) \<and> e_timeUs (m_event m e) \<le> t \<and>
          (\<forall>e'. listed (m_event m e') \<and> e_managed (m_event m e') \<and> e_timeUs (m_event m e') \<le> t \<longrightarrow>
             e_priority (m_event m e') \<le> e_priority (m_event m e))}"
proof -
  have r: "distinct (m_listReady m)"
    "\<And>e. e \<in> set (m_listReady m) \<longleftrightarrow> listed (m_event m e) \<and> e_managed (m_event m e)"
    using assms by (simp_all add: mgr_ok_def ready_ok_def)
  show ?thesis
    using due_events_selected(2) [OF r(1)] by (simp add: due_events_selected(1) selected_def r(2) Ball_def imp_conjL)
qed

lemma round_selects_witness:
  "distinct (due_events (\<lambda>k. k) 7 (fold run_call sample_calls new_mgr)) \<and>
   due_events (\<lambda>k. k) 7 (fold run_call sample_calls new_mgr) = [0, 1]"
proof
  show "distinct (due_events (\<lambda>k. k) 7 (fold run_call sample_calls new_mgr))"
    using round_selects [OF sample_ok] by blast
  show "due_events (\<lambda>k. k) 7 (fold run_call sample_calls new_mgr) = [0, 1]" by code_simp
qed

text \<open>Without \<open>force\<close>, \<open>Event::setTime\<close> only brings a set time forward, and sets a time that is off; with
  it, it always sets; a negative time switches the event off only by force or when it was off.\<close>

theorem set_time_policy:
  "e_timeUs (m_event (set_time e t force m) e) =
     (if force \<or> e_timeUs (m_event m e) < 0 then t
      else if t < 0 then e_timeUs (m_event m e)
      else min t (e_timeUs (m_event m e)))"
  by (auto simp: set_time_def Let_def set_event_def)

end
