(* ===== verification/Sockets.thy ===== *)
theory Sockets
  imports Event_Manager
begin

text \<open>
  \<^verbatim>\<open>socket.h\<close> and \<^verbatim>\<open>socket.linux.cpp\<close>: the state of a non-blocking socket as the program sees it,
  which is whether its descriptor is open, its error flag and the readiness of its five event
  sources. The system calls are a parameter: each operation takes the outcome of the call it makes.
  Log output is left out.
\<close>

section \<open>State and outcomes of system calls\<close>

record sock =
  s_open :: bool        \<comment> \<open>\<open>internal->fd >= 0\<close>\<close>
  s_connected :: bool
  s_error :: bool
  s_read :: bool        \<comment> \<open>\<open>sourceRead.getReady()\<close>, and so on\<close>
  s_write :: bool
  s_closeRead :: bool
  s_closeWrite :: bool
  s_close :: bool

datatype errno = EAGAIN | EINTR | EOTHER

text \<open>\<open>recv\<close> and \<open>recvfrom\<close> return bytes (none: end of stream) or fail; \<open>send\<close> returns how
  many bytes were taken or fails.\<close>

datatype received = Got bytes | RecvFailed errno
datatype taken = Took nat | SendFailed errno

section \<open>Closing\<close>

definition sock_close :: "bool \<Rightarrow> sock \<Rightarrow> sock" where
  "sock_close err s =
     s\<lparr>s_error := (err \<or> s_error s), s_open := False, s_read := False, s_write := False,
       s_closeRead := True, s_closeWrite := True, s_close := True\<rparr>"

definition close_read :: "bool \<Rightarrow> sock \<Rightarrow> sock" where
  "close_read err s =
     (let s1 = (if err then s\<lparr>s_error := True\<rparr> else s)
      in if s_closeRead s1 then s1
         else let s2 = s1\<lparr>s_read := False, s_closeRead := True\<rparr>
              in if s_closeWrite s2 then sock_close False s2 else s2)"

definition close_write :: "bool \<Rightarrow> sock \<Rightarrow> sock" where
  "close_write err s =
     (let s1 = (if err then s\<lparr>s_error := True\<rparr> else s)
      in if s_closeWrite s1 then s1
         else let s2 = s1\<lparr>s_write := False, s_closeWrite := True\<rparr>
              in if s_closeRead s2 then sock_close False s2 else s2)"

section \<open>Opening\<close>

text \<open>The constructor, with the outcome of \<open>socket\<close> (or the descriptor it is given), of registering it
  with epoll and of making it non-blocking.\<close>

definition sock_new :: "bool \<Rightarrow> bool \<Rightarrow> bool \<Rightarrow> bool \<Rightarrow> sock" where
  "sock_new accepted fd_ok epoll_ok ioctl_ok =
     (let s = \<lparr>s_open = fd_ok, s_connected = accepted, s_error = False, s_read = False, s_write = False,
               s_closeRead = False, s_closeWrite = False, s_close = False\<rparr>
      in if \<not> fd_ok then sock_close True s
         else if \<not> epoll_ok then sock_close True (s\<lparr>s_open := False\<rparr>)
         else if \<not> ioctl_ok then sock_close True s
         else s)"

definition sock_connect :: "sock \<Rightarrow> sock" where
  "sock_connect s = s\<lparr>s_connected := True\<rparr>"

section \<open>Reading and writing\<close>

text \<open>\<open>recv\<close> puts at most \<open>size\<close> bytes into the buffer.\<close>

definition sock_read :: "received \<Rightarrow> int \<Rightarrow> sock \<Rightarrow> bytes \<times> sock" where
  "sock_read r sz s =
     (if s_closeRead s then ([], s)
      else case r of
        Got bs \<Rightarrow>
          (let bs' = take (nat sz) bs
           in if bs' = [] then ([], close_read False s) else (bs', s))
      | RecvFailed e \<Rightarrow> ([], if e = EAGAIN then s\<lparr>s_read := False\<rparr> else s))"

text \<open>\<open>send\<close> takes at most \<open>size\<close> bytes.\<close>

definition sock_write :: "taken \<Rightarrow> int \<Rightarrow> sock \<Rightarrow> int \<times> sock" where
  "sock_write r sz s =
     (if s_closeWrite s then (0, s)
      else case r of
        Took n \<Rightarrow> (min (int n) (max 0 sz), s)
      | SendFailed e \<Rightarrow> (0, if e = EAGAIN then s\<lparr>s_write := False\<rparr> else s))"

text \<open>\<open>sendto\<close> on a datagram socket takes the whole datagram (\<open>None\<close>) or fails.\<close>

definition sock_writeto :: "errno option \<Rightarrow> int \<Rightarrow> sock \<Rightarrow> int \<times> sock" where
  "sock_writeto r sz s =
     (if s_closeWrite s then (0, s)
      else case r of
        None \<Rightarrow> (max 0 sz, s)
      | Some e \<Rightarrow> (0, if e = EAGAIN then s\<lparr>s_write := False\<rparr> else s))"

text \<open>\<open>recvfrom\<close> with \<open>MSG_TRUNC\<close> returns the length of the datagram, which can exceed the buffer;
  the address stays empty when it fails.\<close>

definition sock_readfrom :: "(bytes \<times> 'a) option \<Rightarrow> errno \<Rightarrow> int \<Rightarrow> sock \<Rightarrow> int \<times> bytes \<times> 'a option \<times> sock" where
  "sock_readfrom r e sz s =
     (if s_closeRead s then (0, [], None, s)
      else case r of
        Some (bs, addr) \<Rightarrow> (int (length bs), take (nat sz) bs, Some addr, s)
      | None \<Rightarrow> (0, [], None, if e = EAGAIN then s\<lparr>s_read := False\<rparr> else s))"

text \<open>\<open>accept\<close>: the outcome is a failure, or a descriptor with the outcomes of registering it and of making it
  non-blocking; a client that is closed already is deleted again. \<open>bind\<close> and \<open>listen\<close> change nothing here.\<close>

datatype accepted = AcceptFailed errno | Accepted bool bool

definition sock_accept :: "accepted \<Rightarrow> sock \<Rightarrow> sock option \<times> sock" where
  "sock_accept r s =
     (case r of
        AcceptFailed e \<Rightarrow> (None, if e = EAGAIN then s\<lparr>s_read := False\<rparr> else s)
      | Accepted epoll_ok ioctl_ok \<Rightarrow>
          (let client = sock_new True True epoll_ok ioctl_ok
           in (if s_close client then None else Some client, s)))"

section \<open>Polling\<close>

text \<open>The body of the loop of \<open>Socket::Group::poll\<close>: the five bits of \<open>epoll_event.events\<close> it tests.\<close>

record poll_bits =
  b_in :: bool
  b_out :: bool
  b_err :: bool
  b_hup :: bool
  b_rdhup :: bool

definition poll_socket :: "poll_bits \<Rightarrow> sock \<Rightarrow> sock" where
  "poll_socket b s =
     (let s1 = (if s_connected s \<and> (b_rdhup b \<or> b_hup b) then close_write False s else s);
          s2 = (if b_err b then close_write True s1 else s1);
          s3 = (if \<not> b_in b \<and> s_closeWrite s2 then close_read False s2 else s2);
          s4 = s3\<lparr>s_read := (\<not> s_closeRead s3 \<and> b_in b)\<rparr>
      in s4\<lparr>s_write := (\<not> s_closeWrite s4 \<and> b_out b)\<rparr>)"

section \<open>Well-formed sockets\<close>

text \<open>The descriptor is open exactly as long as the close event is not due, which is as long as one of
  the directions is open; a closed direction is not ready.\<close>

definition sock_ok :: "sock \<Rightarrow> bool" where
  "sock_ok s \<longleftrightarrow>
     (s_close s = (s_closeRead s \<and> s_closeWrite s)) \<and> (s_open s = (\<not> s_close s)) \<and>
     (s_closeRead s \<longrightarrow> \<not> s_read s) \<and> (s_closeWrite s \<longrightarrow> \<not> s_write s)"

lemma sock_close_ok [step_intros]: "sock_ok (sock_close err s)"
  by (simp add: sock_ok_def sock_close_def)

lemma close_read_ok [step_intros]: "sock_ok s \<Longrightarrow> sock_ok (close_read err s)"
  by (simp add: close_read_def Let_def sock_close_ok) (simp add: sock_ok_def)

lemma close_write_ok [step_intros]: "sock_ok s \<Longrightarrow> sock_ok (close_write err s)"
  by (simp add: close_write_def Let_def sock_close_ok) (simp add: sock_ok_def)

lemma sock_new_ok [step_intros]: "sock_ok (sock_new accepted fd_ok epoll_ok ioctl_ok)"
  by (simp add: sock_new_def Let_def sock_close_ok) (simp add: sock_ok_def)

lemma sock_read_ok [step_intros]: "sock_ok s \<Longrightarrow> sock_ok (snd (sock_read r sz s))"
  by (auto simp: sock_read_def Let_def close_read_ok split: received.split) (simp add: sock_ok_def)

lemma sock_write_ok [step_intros]: "sock_ok s \<Longrightarrow> sock_ok (snd (sock_write r sz s))"
  by (auto simp: sock_write_def split: taken.split) (simp add: sock_ok_def)

lemma sock_writeto_ok [step_intros]: "sock_ok s \<Longrightarrow> sock_ok (snd (sock_writeto r sz s))"
  by (auto simp: sock_writeto_def split: option.split) (simp add: sock_ok_def)

lemma sock_readfrom_ok [step_intros]: "sock_ok s \<Longrightarrow> sock_ok (snd (snd (snd (sock_readfrom r e sz s))))"
  by (auto simp: sock_readfrom_def split: option.split) (simp add: sock_ok_def)

lemma sock_accept_ok [step_intros]: "sock_ok s \<Longrightarrow> sock_ok (snd (sock_accept r s))"
  by (auto simp: sock_accept_def Let_def split: accepted.split) (simp add: sock_ok_def)

lemma poll_socket_ok [step_intros]: "sock_ok s \<Longrightarrow> sock_ok (poll_socket b s)"
proof -
  assume ok: "sock_ok s"
  let ?s1 = "if s_connected s \<and> (b_rdhup b \<or> b_hup b) then close_write False s else s"
  let ?s2 = "if b_err b then close_write True ?s1 else ?s1"
  let ?s3 = "if \<not> b_in b \<and> s_closeWrite ?s2 then close_read False ?s2 else ?s2"
  have "sock_ok ?s3" using ok by (simp add: close_write_ok close_read_ok)
  then show ?thesis unfolding poll_socket_def Let_def by (simp add: sock_ok_def)
qed

text \<open>Closed directions stay closed, and reading and writing on them does nothing.\<close>

lemma closed_mono:
  "s_closeRead s \<Longrightarrow> s_closeRead (close_read err s) \<and> s_closeRead (close_write err s) \<and>
     s_closeRead (snd (sock_read r sz s)) \<and> s_closeRead (snd (sock_write w sz s))"
  "s_closeWrite s \<Longrightarrow> s_closeWrite (close_read err s) \<and> s_closeWrite (close_write err s) \<and>
     s_closeWrite (snd (sock_read r sz s)) \<and> s_closeWrite (snd (sock_write w sz s))"
  by (auto simp: close_read_def close_write_def sock_close_def sock_read_def sock_write_def Let_def
      split: received.split taken.split)

datatype sock_op =
    OpClose bool | OpCloseRead bool | OpCloseWrite bool | OpConnect
  | OpRead received int | OpWrite taken int | OpWriteto "errno option" int
  | OpReadfrom "(bytes \<times> nat) option" errno int | OpAccept accepted | OpPoll poll_bits

definition run_sock_op :: "sock_op \<Rightarrow> sock \<Rightarrow> sock" where
  "run_sock_op p s =
     (case p of OpClose e \<Rightarrow> sock_close e s | OpCloseRead e \<Rightarrow> close_read e s
      | OpCloseWrite e \<Rightarrow> close_write e s | OpConnect \<Rightarrow> sock_connect s
      | OpRead r n \<Rightarrow> snd (sock_read r n s) | OpWrite w n \<Rightarrow> snd (sock_write w n s)
      | OpWriteto r n \<Rightarrow> snd (sock_writeto r n s)
      | OpReadfrom r e n \<Rightarrow> snd (snd (snd (sock_readfrom r e n s)))
      | OpAccept r \<Rightarrow> snd (sock_accept r s)
      | OpPoll b \<Rightarrow> poll_socket b s)"

text \<open>C27: through any sequence of closing, reading, writing and polling of a new socket, the close event
  is due exactly when both directions are closed, which is exactly when the descriptor is closed, and
  no closed direction is reported ready; a closed socket stays closed.\<close>

theorem socket_lifecycle:
  "let s = fold run_sock_op ops (sock_new accepted fd_ok epoll_ok ioctl_ok)
   in sock_ok s \<and> (s_close s \<longrightarrow> s_close (fold run_sock_op later s))"
proof -
  have ok: "sock_ok (fold run_sock_op ops s)" if "sock_ok s" for s ops
    using that
  proof (induction ops arbitrary: s)
    case (Cons p ops)
    have "sock_ok (run_sock_op p s)"
      using Cons.prems by (cases p) (simp_all add: run_sock_op_def sock_close_ok close_read_ok close_write_ok
          sock_read_ok sock_write_ok sock_writeto_ok sock_readfrom_ok sock_accept_ok poll_socket_ok, simp add: sock_connect_def sock_ok_def)
    then show ?case using Cons.IH by simp
  qed simp
  have stay: "s_close (fold run_sock_op later s)" if "s_close s" "sock_ok s" for s later
    using that
  proof (induction later arbitrary: s)
    case (Cons p later)
    have "sock_ok (run_sock_op p s)" using ok [of s "[p]"] Cons.prems by simp
    moreover have "s_close (run_sock_op p s)"
      using Cons.prems by (cases p) (auto simp: run_sock_op_def sock_ok_def sock_connect_def close_read_def
          close_write_def sock_close_def sock_read_def sock_write_def sock_writeto_def sock_readfrom_def
          sock_accept_def poll_socket_def Let_def split: accepted.split)
    ultimately show ?case using Cons.IH by simp
  qed simp
  show ?thesis using ok [OF sock_new_ok] stay by (simp add: Let_def)
qed

theorem socket_lifecycle_witness:
  "s_close (fold run_sock_op [OpPoll \<lparr>b_in = False, b_out = True, b_err = False, b_hup = True, b_rdhup = True\<rparr>]
     (fold run_sock_op [OpConnect, OpRead (Got []) 10, OpCloseWrite False] (sock_new False True True True)))"
proof -
  let ?s = "fold run_sock_op [OpConnect, OpRead (Got []) 10, OpCloseWrite False] (sock_new False True True True)"
  have "s_close ?s" by code_simp
  then show ?thesis
    using socket_lifecycle [of "[OpConnect, OpRead (Got []) 10, OpCloseWrite False]" False True True True,
        unfolded Let_def] by blast
qed

end
