(* ===== verification/Conn_State.thy ===== *)
theory Conn_State
  imports Ordered_Map Packets Doubles Event_Manager Sockets
begin

text \<open>
  The state of \<^verbatim>\<open>Connection\<close> (\<^verbatim>\<open>connection.h\<close>) and what it shares with the rest of the process: the
  clock and the system calls (one oracle, read in order), the two sockets, the counters of \<^verbatim>\<open>Server\<close>,
  and logs of the bytes that crossed the process boundary, which the program does not have and
  no operation reads. C++ \<^verbatim>\<open>int\<close> and \<^verbatim>\<open>long long\<close> fields are unbounded here.
\<close>

section \<open>The environment\<close>

text \<open>One answer of the operating system: the clock, the outcome of a \<open>recv\<close>, of a \<open>send\<close> and of a \<open>sendto\<close>,
  and the value of a read the C++ standard leaves undefined.\<close>

record answer =
  a_time :: usec
  a_recv :: received
  a_send :: taken
  a_sendto :: "errno option"
  a_junk :: int

type_synonym os = "nat \<Rightarrow> answer"

record host =
  h_tick :: nat                      \<comment> \<open>answers used so far\<close>
  tcpSocket :: sock
  udpSocket :: sock                  \<comment> \<open>\<open>udpListener->getSocket()\<close>\<close>
  statTcpSent :: int
  statTcpReceived :: int
  statUdpSent :: int
  statUdpReceivedExtra :: int
  udpSummaryInterval :: int          \<comment> \<open>\<open>server->udpSummaryConnectionsSendIntervalUs\<close>\<close>
  log_tcpIn :: bytes                 \<comment> \<open>all bytes read from the tcp socket\<close>
  log_tcpOut :: bytes                \<comment> \<open>all bytes written to it\<close>
  log_udpOut :: "bytes list"         \<comment> \<open>all datagrams sent, latest first\<close>

definition answer_now :: "os \<Rightarrow> 'z host_scheme \<Rightarrow> answer" where
  "answer_now os h = os (h_tick h)"

definition tick :: "'z host_scheme \<Rightarrow> 'z host_scheme" where
  "tick h = h\<lparr>h_tick := Suc (h_tick h)\<rparr>"

section \<open>The connection\<close>

text \<open>The constants of a connection, fixed by its constructor.\<close>

record params =
  udpSendPacketSize :: int
  udpMaxSentBufferSize :: int
  udpMaxReceiveBufferSize :: int
  udpMaxSentMeasureSize :: int
  udpResendCount :: int
  confirmationResendCount :: int
  udpMaxSendLossPercent :: double
  udpResendUs :: usec
  buildConfirmationsUs :: usec
  buildUdpPacketsUs :: usec
  udpMaxSentMeasureUs :: usec

record measure =
  m_beginUs :: usec
  m_endUs :: usec
  m_count :: int
  m_size :: int
  m_successSize :: int
  m_failSize :: int
  m_summaryIntervalUs :: usec

definition new_measure :: measure where
  "new_measure = \<lparr>m_beginUs = -1, m_endUs = -1, m_count = 0, m_size = 0, m_successSize = 0,
     m_failSize = 0, m_summaryIntervalUs = 0\<rparr>"

datatype conn_event =
    EvTcpRead | EvTcpWrite | EvTcpClose | EvUdpWrite | EvUdpClose | EvBuildUdpPackets
  | EvBuildConfirmations | EvBuildByeBye | EvUdpResend | EvUdpCloseWait | EvClose

text \<open>\<open>fault\<close> marks a run that has divided by zero or converted a NaN or an infinity to an integer;
  \<open>deleted\<close> that the server has destroyed the connection. \<open>log_built\<close> lists the type and payload of
  every packet ever put into \<open>udpSentPackets\<close>, in the order of their indices.\<close>

record conn = host +
  par :: params
  tcpConnected :: bool
  udpConnected :: bool
  tcpNextSendIndex :: int
  udpNextSendIndex :: int
  udpReceivedMasterIndex :: int
  udpConfirmedMasterIndex :: int
  udpReceivedFinalIndex :: int
  udpSentBufferSize :: int
  udpReceiveBufferSize :: int
  udpPacketsToSendCount :: int
  remainConfirmationResendCount :: int
  remainByeByeResendCount :: int
  tcpReceivedData :: bytes
  udpSentPackets :: "(int, packet) omap"
  udpConfirmationPackets :: "packet list"
  udpReceivedPackets :: "(int, packet) omap"
  udpLastSentUs :: usec
  udpSendIntervalUs :: usec
  udpSendIntervalUsFloat :: double
  udpSendMeasureIndex :: int
  udpSendMeasures :: "(int, measure) omap"
  ev :: "conn_event \<Rightarrow> usec"
  fault :: bool
  deleted :: bool
  log_built :: "(ptype \<times> bytes) list"

text \<open>Small concrete instances, used where a property is applied to an example: the default parameters of
  \<^verbatim>\<open>Server::Server\<close>, an environment, an idle connection and a datagram with two bytes of payload.\<close>

definition sample_params :: params where
  "sample_params = \<lparr>udpSendPacketSize = 1024, udpMaxSentBufferSize = 8388608, udpMaxReceiveBufferSize = 8388608,
     udpMaxSentMeasureSize = 65536, udpResendCount = 20, confirmationResendCount = 5,
     udpMaxSendLossPercent = Fin 30, udpResendUs = 1000000, buildConfirmationsUs = 100000,
     buildUdpPacketsUs = 100000, udpMaxSentMeasureUs = 1000000\<rparr>"

definition sample_host :: host where
  "sample_host = \<lparr>h_tick = 0, tcpSocket = sock_new True True True True, udpSocket = sock_new False True True True,
     statTcpSent = 0, statTcpReceived = 0, statUdpSent = 0, statUdpReceivedExtra = 0, udpSummaryInterval = 0,
     log_tcpIn = [], log_tcpOut = [], log_udpOut = []\<rparr>"

definition sample_os :: os where
  "sample_os n = \<lparr>a_time = 1000 + int n, a_recv = Got [104, 105], a_send = Took 1, a_sendto = None, a_junk = 0\<rparr>"

definition sample_packet :: "byte \<Rightarrow> byte \<Rightarrow> packet" where
  "sample_packet t i = new_packet\<lparr>p_data := [0, 0, 0, 0, t, i, 0, 0, 0, 7, 8]\<rparr>"

definition sample_conn :: conn where
  "sample_conn =
     \<lparr>h_tick = 0, tcpSocket = sock_new True True True True, udpSocket = sock_new False True True True,
      statTcpSent = 0, statTcpReceived = 0, statUdpSent = 0, statUdpReceivedExtra = 0, udpSummaryInterval = 0,
      log_tcpIn = [], log_tcpOut = [], log_udpOut = [],
      par = sample_params, tcpConnected = True, udpConnected = True, tcpNextSendIndex = 0,
      udpNextSendIndex = 0, udpReceivedMasterIndex = 0, udpConfirmedMasterIndex = 0,
      udpReceivedFinalIndex = int_max, udpSentBufferSize = 0, udpReceiveBufferSize = 0,
      udpPacketsToSendCount = 0, remainConfirmationResendCount = 0, remainByeByeResendCount = 0,
      tcpReceivedData = [], udpSentPackets = [], udpConfirmationPackets = [],
      udpReceivedPackets = [], udpLastSentUs = 0, udpSendIntervalUs = 1000,
      udpSendIntervalUsFloat = Fin 1000, udpSendMeasureIndex = 0,
      udpSendMeasures = [], ev = (\<lambda>e. -1), fault = False, deleted = False, log_built = []\<rparr>"

section \<open>Timers\<close>

text \<open>The eleven events of a connection by their times. \<open>ev_at\<close> is \<open>setTime\<close>, \<open>ev_in\<close> is
  \<open>setTimeRelativeNow\<close>, which reads the clock.\<close>

definition ev_at :: "conn_event \<Rightarrow> usec \<Rightarrow> conn \<Rightarrow> conn" where
  "ev_at e t c = c\<lparr>ev := (ev c)(e := set_time_value (ev c e) t False)\<rparr>"

definition ev_in :: "os \<Rightarrow> conn_event \<Rightarrow> usec \<Rightarrow> conn \<Rightarrow> conn" where
  "ev_in os e d c = ev_at e (a_time (answer_now os c) + d) (tick c)"

definition ev_off :: "conn_event \<Rightarrow> conn \<Rightarrow> conn" where
  "ev_off e c = c\<lparr>ev := (ev c)(e := set_time_value (ev c e) (-1) True)\<rparr>"

definition ev_enabled :: "conn_event \<Rightarrow> conn \<Rightarrow> bool" where
  "ev_enabled e c \<longleftrightarrow> 0 \<le> ev c e"

section \<open>Tests\<close>

definition isNoMoreDataWillBeSent :: "conn \<Rightarrow> bool" where
  "isNoMoreDataWillBeSent c \<longleftrightarrow>
     (\<not> tcpConnected c \<or> udpReceivedFinalIndex c = udpReceivedMasterIndex c) \<and>
     tcpReceivedData c = [] \<and> udpSentPackets c = []"

definition isUdpFinished :: "conn \<Rightarrow> bool" where
  "isUdpFinished c \<longleftrightarrow>
     (if \<not> udpConnected c then True
      else isNoMoreDataWillBeSent c \<and> udpConfirmationPackets c = [] \<and>
        udpConfirmedMasterIndex c \<ge> udpReceivedMasterIndex c \<and>
        tcpNextSendIndex c \<ge> udpReceivedMasterIndex c \<and>
        remainConfirmationResendCount c \<le> 0 \<and> remainByeByeResendCount c \<le> 0 \<and>
        \<not> ev_enabled EvUdpCloseWait c)"

section \<open>The speed of sending\<close>

text \<open>\<open>onUdpSentBufferChanged\<close>. \<^verbatim>\<open>udpSentPackets.end()->first\<close> dereferences the end iterator
  (\<^verbatim>\<open>rbegin\<close> was meant): what it reads is the oracle's \<open>a_junk\<close>.\<close>

definition on_sent_buffer_changed :: "os \<Rightarrow> int \<Rightarrow> conn \<Rightarrow> conn" where
  "on_sent_buffer_changed os increment c0 =
     (let c = c0\<lparr>udpSentBufferSize := udpSentBufferSize c0 + increment\<rparr>;
          cnt = (case udpSentPackets c of [] \<Rightarrow> 0 | (k, _) # _ \<Rightarrow> a_junk (answer_now os c) - k);
          c' = tick c
      in if udpSendIntervalUs c' = 0 \<or> udpSendPacketSize (par c') = 0 then c'\<lparr>fault := True\<rparr>
         else let maxCount = min (cdiv 10000000 (udpSendIntervalUs c'))
                               (cdiv (udpMaxSentBufferSize (par c')) (udpSendPacketSize (par c')))
              in if cnt \<le> maxCount then ev_in os EvTcpRead 0 c' else ev_off EvTcpRead c')"

definition on_udp_sent :: "os \<Rightarrow> int \<Rightarrow> usec \<Rightarrow> int \<Rightarrow> conn \<Rightarrow> conn" where
  "on_udp_sent os measureIndex intervalUs sz c =
     (if measureIndex \<noteq> udpSendMeasureIndex c then c
      else case om_find (udpSendMeasures c) (udpSendMeasureIndex c) of
        None \<Rightarrow> c
      | Some m \<Rightarrow>
          (let m1 = m\<lparr>m_count := m_count m + 1, m_size := m_size m + sz,
                      m_summaryIntervalUs := m_summaryIntervalUs m + intervalUs\<rparr>;
               timeUs = a_time (answer_now os c);
               i = udpSendMeasureIndex c;
               c1 = (tick c)\<lparr>udpSendMeasures := om_put i m1 (udpSendMeasures c)\<rparr>
           in if m_size m1 \<ge> udpMaxSentMeasureSize (par c1)
                 \<or> timeUs - m_beginUs m1 \<ge> udpMaxSentMeasureUs (par c1)
              then let ms = om_put i (m1\<lparr>m_endUs := timeUs\<rparr>) (udpSendMeasures c1);
                       m2 = (case om_find ms (i + 1) of None \<Rightarrow> new_measure | Some x \<Rightarrow> x)
                   in c1\<lparr>udpSendMeasureIndex := i + 1,
                         udpSendMeasures := om_put (i + 1) (m2\<lparr>m_beginUs := timeUs\<rparr>) ms\<rparr>
              else c1))"

text \<open>The interval a finished measure asks for, in doubles. \<open>d_of_int (cdiv resendUs 3)\<close> is
  \<open>maxIntervalUs\<close>.\<close>

definition measured_interval :: "double \<Rightarrow> usec \<Rightarrow> measure \<Rightarrow> double" where
  "measured_interval maxLoss resendUs m =
     (let durationUs = d_of_int (m_endUs m - m_beginUs m);
          intervalUs = d_div (d_of_int (m_summaryIntervalUs m)) (d_of_int (m_count m));
          actualIntervalUs = d_div durationUs (d_of_int (m_count m));
          successPart = d_div (d_of_int (m_successSize m)) (d_of_int (m_size m));
          one = Fin 1; two = Fin 2; half = Fin (1 / 2);
          s0 = d_div successPart (d_sub one (d_mul (round64 (1 / 100)) maxLoss));
          s1 = (if m_failSize m \<le> 0 then two else s0);
          s2 = (if d_less one s1 \<and> d_less (d_mul (d_add intervalUs one) two) actualIntervalUs then one else s1);
          s3 = (if d_less s2 half then half else s2);
          s4 = (if d_less two s3 then two else s3);
          i0 = d_div intervalUs s4;
          maxIntervalUs = d_of_int (cdiv resendUs 3);
          addSpeed = d_div one maxIntervalUs;
          i1 = d_div i0 (d_add one (d_mul addSpeed i0));
          i2 = (if d_less i1 (round64 (1 / 10)) then round64 (1 / 10) else i1)
      in if d_less maxIntervalUs i2 then maxIntervalUs else i2)"

definition measure_complete :: "measure \<Rightarrow> bool" where
  "measure_complete m \<longleftrightarrow>
     m_beginUs m \<ge> 0 \<and> m_endUs m \<ge> m_beginUs m \<and> m_count m > 0 \<and>
     m_successSize m + m_failSize m \<ge> m_size m"

definition on_udp_delivered :: "bool \<Rightarrow> int \<Rightarrow> int \<Rightarrow> conn \<Rightarrow> conn" where
  "on_udp_delivered success measureIndex sz c =
     (case om_find (udpSendMeasures c) measureIndex of
        None \<Rightarrow> c
      | Some m \<Rightarrow>
          (let m1 = (if success then m\<lparr>m_successSize := m_successSize m + sz\<rparr>
                     else m\<lparr>m_failSize := m_failSize m + sz\<rparr>);
               c1 = c\<lparr>udpSendMeasures := om_put measureIndex m1 (udpSendMeasures c)\<rparr>
           in if \<not> measure_complete m1 then c1
              else let f = measured_interval (udpMaxSendLossPercent (par c)) (udpResendUs (par c)) m1;
                       c2 = c1\<lparr>udpSendIntervalUsFloat := f,
                               udpSendMeasures := filter (\<lambda>km. measureIndex < fst km) (udpSendMeasures c1)\<rparr>
                   in case d_to_ll (d_round f) of
                        None \<Rightarrow> c2\<lparr>fault := True\<rparr>
                      | Some n \<Rightarrow>
                          c2\<lparr>udpSummaryInterval := udpSummaryInterval c2 - udpSendIntervalUs c2 + n,
                             udpSendIntervalUs := n\<rparr>))"

definition set_event_udp_write :: "os \<Rightarrow> conn \<Rightarrow> conn" where
  "set_event_udp_write os c =
     (let c1 = (if \<not> ev_enabled EvUdpWrite c
                then (tick c)\<lparr>udpLastSentUs :=
                       max (udpLastSentUs c) (a_time (answer_now os c) - udpSendIntervalUs c)\<rparr>
                else c)
      in ev_at EvUdpWrite (udpLastSentUs c1 + udpSendIntervalUs c1) c1)"

section \<open>What the helpers leave alone\<close>

lemma tick_frame [simp]:
  "tcpSocket (tick c) = tcpSocket c"
  "udpSocket (tick c) = udpSocket c"
  "log_tcpIn (tick c) = log_tcpIn c"
  "log_tcpOut (tick c) = log_tcpOut c"
  "log_udpOut (tick c) = log_udpOut c"
  "par (tick c) = par c"
  "tcpConnected (tick c) = tcpConnected c"
  "udpConnected (tick c) = udpConnected c"
  "tcpNextSendIndex (tick c) = tcpNextSendIndex c"
  "udpNextSendIndex (tick c) = udpNextSendIndex c"
  "udpReceivedMasterIndex (tick c) = udpReceivedMasterIndex c"
  "udpConfirmedMasterIndex (tick c) = udpConfirmedMasterIndex c"
  "udpReceivedFinalIndex (tick c) = udpReceivedFinalIndex c"
  "udpSentBufferSize (tick c) = udpSentBufferSize c"
  "udpReceiveBufferSize (tick c) = udpReceiveBufferSize c"
  "udpPacketsToSendCount (tick c) = udpPacketsToSendCount c"
  "remainConfirmationResendCount (tick c) = remainConfirmationResendCount c"
  "remainByeByeResendCount (tick c) = remainByeByeResendCount c"
  "tcpReceivedData (tick c) = tcpReceivedData c"
  "udpSentPackets (tick c) = udpSentPackets c"
  "udpConfirmationPackets (tick c) = udpConfirmationPackets c"
  "udpReceivedPackets (tick c) = udpReceivedPackets c"
  "udpSendIntervalUs (tick c) = udpSendIntervalUs c"
  "udpSendMeasureIndex (tick c) = udpSendMeasureIndex c"
  "udpSendMeasures (tick c) = udpSendMeasures c"
  "log_built (tick c) = log_built c"
  "fault (tick c) = fault c"
  "deleted (tick c) = deleted c"
  by (simp_all add: tick_def)

lemma ev_at_frame [simp]:
  "tcpSocket (ev_at e t c) = tcpSocket c"
  "udpSocket (ev_at e t c) = udpSocket c"
  "log_tcpIn (ev_at e t c) = log_tcpIn c"
  "log_tcpOut (ev_at e t c) = log_tcpOut c"
  "log_udpOut (ev_at e t c) = log_udpOut c"
  "par (ev_at e t c) = par c"
  "tcpConnected (ev_at e t c) = tcpConnected c"
  "udpConnected (ev_at e t c) = udpConnected c"
  "tcpNextSendIndex (ev_at e t c) = tcpNextSendIndex c"
  "udpNextSendIndex (ev_at e t c) = udpNextSendIndex c"
  "udpReceivedMasterIndex (ev_at e t c) = udpReceivedMasterIndex c"
  "udpConfirmedMasterIndex (ev_at e t c) = udpConfirmedMasterIndex c"
  "udpReceivedFinalIndex (ev_at e t c) = udpReceivedFinalIndex c"
  "udpSentBufferSize (ev_at e t c) = udpSentBufferSize c"
  "udpReceiveBufferSize (ev_at e t c) = udpReceiveBufferSize c"
  "udpPacketsToSendCount (ev_at e t c) = udpPacketsToSendCount c"
  "remainConfirmationResendCount (ev_at e t c) = remainConfirmationResendCount c"
  "remainByeByeResendCount (ev_at e t c) = remainByeByeResendCount c"
  "tcpReceivedData (ev_at e t c) = tcpReceivedData c"
  "udpSentPackets (ev_at e t c) = udpSentPackets c"
  "udpConfirmationPackets (ev_at e t c) = udpConfirmationPackets c"
  "udpReceivedPackets (ev_at e t c) = udpReceivedPackets c"
  "udpSendIntervalUs (ev_at e t c) = udpSendIntervalUs c"
  "udpSendMeasureIndex (ev_at e t c) = udpSendMeasureIndex c"
  "udpSendMeasures (ev_at e t c) = udpSendMeasures c"
  "log_built (ev_at e t c) = log_built c"
  "fault (ev_at e t c) = fault c"
  "deleted (ev_at e t c) = deleted c"
  by (simp_all add: ev_at_def)

lemma ev_in_frame [simp]:
  "tcpSocket (ev_in os e d c) = tcpSocket c"
  "udpSocket (ev_in os e d c) = udpSocket c"
  "log_tcpIn (ev_in os e d c) = log_tcpIn c"
  "log_tcpOut (ev_in os e d c) = log_tcpOut c"
  "log_udpOut (ev_in os e d c) = log_udpOut c"
  "par (ev_in os e d c) = par c"
  "tcpConnected (ev_in os e d c) = tcpConnected c"
  "udpConnected (ev_in os e d c) = udpConnected c"
  "tcpNextSendIndex (ev_in os e d c) = tcpNextSendIndex c"
  "udpNextSendIndex (ev_in os e d c) = udpNextSendIndex c"
  "udpReceivedMasterIndex (ev_in os e d c) = udpReceivedMasterIndex c"
  "udpConfirmedMasterIndex (ev_in os e d c) = udpConfirmedMasterIndex c"
  "udpReceivedFinalIndex (ev_in os e d c) = udpReceivedFinalIndex c"
  "udpSentBufferSize (ev_in os e d c) = udpSentBufferSize c"
  "udpReceiveBufferSize (ev_in os e d c) = udpReceiveBufferSize c"
  "udpPacketsToSendCount (ev_in os e d c) = udpPacketsToSendCount c"
  "remainConfirmationResendCount (ev_in os e d c) = remainConfirmationResendCount c"
  "remainByeByeResendCount (ev_in os e d c) = remainByeByeResendCount c"
  "tcpReceivedData (ev_in os e d c) = tcpReceivedData c"
  "udpSentPackets (ev_in os e d c) = udpSentPackets c"
  "udpConfirmationPackets (ev_in os e d c) = udpConfirmationPackets c"
  "udpReceivedPackets (ev_in os e d c) = udpReceivedPackets c"
  "udpSendIntervalUs (ev_in os e d c) = udpSendIntervalUs c"
  "udpSendMeasureIndex (ev_in os e d c) = udpSendMeasureIndex c"
  "udpSendMeasures (ev_in os e d c) = udpSendMeasures c"
  "log_built (ev_in os e d c) = log_built c"
  "fault (ev_in os e d c) = fault c"
  "deleted (ev_in os e d c) = deleted c"
  by (simp_all add: ev_in_def)

lemma ev_off_frame [simp]:
  "tcpSocket (ev_off e c) = tcpSocket c"
  "udpSocket (ev_off e c) = udpSocket c"
  "log_tcpIn (ev_off e c) = log_tcpIn c"
  "log_tcpOut (ev_off e c) = log_tcpOut c"
  "log_udpOut (ev_off e c) = log_udpOut c"
  "par (ev_off e c) = par c"
  "tcpConnected (ev_off e c) = tcpConnected c"
  "udpConnected (ev_off e c) = udpConnected c"
  "tcpNextSendIndex (ev_off e c) = tcpNextSendIndex c"
  "udpNextSendIndex (ev_off e c) = udpNextSendIndex c"
  "udpReceivedMasterIndex (ev_off e c) = udpReceivedMasterIndex c"
  "udpConfirmedMasterIndex (ev_off e c) = udpConfirmedMasterIndex c"
  "udpReceivedFinalIndex (ev_off e c) = udpReceivedFinalIndex c"
  "udpSentBufferSize (ev_off e c) = udpSentBufferSize c"
  "udpReceiveBufferSize (ev_off e c) = udpReceiveBufferSize c"
  "udpPacketsToSendCount (ev_off e c) = udpPacketsToSendCount c"
  "remainConfirmationResendCount (ev_off e c) = remainConfirmationResendCount c"
  "remainByeByeResendCount (ev_off e c) = remainByeByeResendCount c"
  "tcpReceivedData (ev_off e c) = tcpReceivedData c"
  "udpSentPackets (ev_off e c) = udpSentPackets c"
  "udpConfirmationPackets (ev_off e c) = udpConfirmationPackets c"
  "udpReceivedPackets (ev_off e c) = udpReceivedPackets c"
  "udpSendIntervalUs (ev_off e c) = udpSendIntervalUs c"
  "udpSendMeasureIndex (ev_off e c) = udpSendMeasureIndex c"
  "udpSendMeasures (ev_off e c) = udpSendMeasures c"
  "log_built (ev_off e c) = log_built c"
  "fault (ev_off e c) = fault c"
  "deleted (ev_off e c) = deleted c"
  by (simp_all add: ev_off_def)

lemma on_sent_buffer_changed_frame [simp]:
  "tcpSocket (on_sent_buffer_changed os d c) = tcpSocket c"
  "udpSocket (on_sent_buffer_changed os d c) = udpSocket c"
  "log_tcpIn (on_sent_buffer_changed os d c) = log_tcpIn c"
  "log_tcpOut (on_sent_buffer_changed os d c) = log_tcpOut c"
  "log_udpOut (on_sent_buffer_changed os d c) = log_udpOut c"
  "par (on_sent_buffer_changed os d c) = par c"
  "tcpConnected (on_sent_buffer_changed os d c) = tcpConnected c"
  "udpConnected (on_sent_buffer_changed os d c) = udpConnected c"
  "tcpNextSendIndex (on_sent_buffer_changed os d c) = tcpNextSendIndex c"
  "udpNextSendIndex (on_sent_buffer_changed os d c) = udpNextSendIndex c"
  "udpReceivedMasterIndex (on_sent_buffer_changed os d c) = udpReceivedMasterIndex c"
  "udpConfirmedMasterIndex (on_sent_buffer_changed os d c) = udpConfirmedMasterIndex c"
  "udpReceivedFinalIndex (on_sent_buffer_changed os d c) = udpReceivedFinalIndex c"
  "udpReceiveBufferSize (on_sent_buffer_changed os d c) = udpReceiveBufferSize c"
  "udpPacketsToSendCount (on_sent_buffer_changed os d c) = udpPacketsToSendCount c"
  "remainConfirmationResendCount (on_sent_buffer_changed os d c) = remainConfirmationResendCount c"
  "remainByeByeResendCount (on_sent_buffer_changed os d c) = remainByeByeResendCount c"
  "tcpReceivedData (on_sent_buffer_changed os d c) = tcpReceivedData c"
  "udpSentPackets (on_sent_buffer_changed os d c) = udpSentPackets c"
  "udpConfirmationPackets (on_sent_buffer_changed os d c) = udpConfirmationPackets c"
  "udpReceivedPackets (on_sent_buffer_changed os d c) = udpReceivedPackets c"
  "udpSendIntervalUs (on_sent_buffer_changed os d c) = udpSendIntervalUs c"
  "udpSendMeasureIndex (on_sent_buffer_changed os d c) = udpSendMeasureIndex c"
  "udpSendMeasures (on_sent_buffer_changed os d c) = udpSendMeasures c"
  "log_built (on_sent_buffer_changed os d c) = log_built c"
  "deleted (on_sent_buffer_changed os d c) = deleted c"
  by (simp_all add: on_sent_buffer_changed_def Let_def)

lemma on_sent_buffer_changed_size [simp]:
  "udpSentBufferSize (on_sent_buffer_changed os d c) = udpSentBufferSize c + d"
  by (simp add: on_sent_buffer_changed_def Let_def)

lemma on_udp_sent_frame [simp]:
  "tcpSocket (on_udp_sent os i t n c) = tcpSocket c"
  "udpSocket (on_udp_sent os i t n c) = udpSocket c"
  "log_tcpIn (on_udp_sent os i t n c) = log_tcpIn c"
  "log_tcpOut (on_udp_sent os i t n c) = log_tcpOut c"
  "log_udpOut (on_udp_sent os i t n c) = log_udpOut c"
  "par (on_udp_sent os i t n c) = par c"
  "tcpConnected (on_udp_sent os i t n c) = tcpConnected c"
  "udpConnected (on_udp_sent os i t n c) = udpConnected c"
  "tcpNextSendIndex (on_udp_sent os i t n c) = tcpNextSendIndex c"
  "udpNextSendIndex (on_udp_sent os i t n c) = udpNextSendIndex c"
  "udpReceivedMasterIndex (on_udp_sent os i t n c) = udpReceivedMasterIndex c"
  "udpConfirmedMasterIndex (on_udp_sent os i t n c) = udpConfirmedMasterIndex c"
  "udpReceivedFinalIndex (on_udp_sent os i t n c) = udpReceivedFinalIndex c"
  "udpSentBufferSize (on_udp_sent os i t n c) = udpSentBufferSize c"
  "udpReceiveBufferSize (on_udp_sent os i t n c) = udpReceiveBufferSize c"
  "udpPacketsToSendCount (on_udp_sent os i t n c) = udpPacketsToSendCount c"
  "remainConfirmationResendCount (on_udp_sent os i t n c) = remainConfirmationResendCount c"
  "remainByeByeResendCount (on_udp_sent os i t n c) = remainByeByeResendCount c"
  "tcpReceivedData (on_udp_sent os i t n c) = tcpReceivedData c"
  "udpSentPackets (on_udp_sent os i t n c) = udpSentPackets c"
  "udpConfirmationPackets (on_udp_sent os i t n c) = udpConfirmationPackets c"
  "udpReceivedPackets (on_udp_sent os i t n c) = udpReceivedPackets c"
  "udpSendIntervalUs (on_udp_sent os i t n c) = udpSendIntervalUs c"
  "log_built (on_udp_sent os i t n c) = log_built c"
  "fault (on_udp_sent os i t n c) = fault c"
  "deleted (on_udp_sent os i t n c) = deleted c"
  by (simp_all add: on_udp_sent_def Let_def split: option.split)

lemma on_udp_delivered_frame [simp]:
  "tcpSocket (on_udp_delivered b i n c) = tcpSocket c"
  "udpSocket (on_udp_delivered b i n c) = udpSocket c"
  "log_tcpIn (on_udp_delivered b i n c) = log_tcpIn c"
  "log_tcpOut (on_udp_delivered b i n c) = log_tcpOut c"
  "log_udpOut (on_udp_delivered b i n c) = log_udpOut c"
  "par (on_udp_delivered b i n c) = par c"
  "tcpConnected (on_udp_delivered b i n c) = tcpConnected c"
  "udpConnected (on_udp_delivered b i n c) = udpConnected c"
  "tcpNextSendIndex (on_udp_delivered b i n c) = tcpNextSendIndex c"
  "udpNextSendIndex (on_udp_delivered b i n c) = udpNextSendIndex c"
  "udpReceivedMasterIndex (on_udp_delivered b i n c) = udpReceivedMasterIndex c"
  "udpConfirmedMasterIndex (on_udp_delivered b i n c) = udpConfirmedMasterIndex c"
  "udpReceivedFinalIndex (on_udp_delivered b i n c) = udpReceivedFinalIndex c"
  "udpSentBufferSize (on_udp_delivered b i n c) = udpSentBufferSize c"
  "udpReceiveBufferSize (on_udp_delivered b i n c) = udpReceiveBufferSize c"
  "udpPacketsToSendCount (on_udp_delivered b i n c) = udpPacketsToSendCount c"
  "remainConfirmationResendCount (on_udp_delivered b i n c) = remainConfirmationResendCount c"
  "remainByeByeResendCount (on_udp_delivered b i n c) = remainByeByeResendCount c"
  "tcpReceivedData (on_udp_delivered b i n c) = tcpReceivedData c"
  "udpSentPackets (on_udp_delivered b i n c) = udpSentPackets c"
  "udpConfirmationPackets (on_udp_delivered b i n c) = udpConfirmationPackets c"
  "udpReceivedPackets (on_udp_delivered b i n c) = udpReceivedPackets c"
  "udpSendMeasureIndex (on_udp_delivered b i n c) = udpSendMeasureIndex c"
  "log_built (on_udp_delivered b i n c) = log_built c"
  "deleted (on_udp_delivered b i n c) = deleted c"
  by (simp_all add: on_udp_delivered_def Let_def split: option.split)

lemma set_event_udp_write_frame [simp]:
  "tcpSocket (set_event_udp_write os c) = tcpSocket c"
  "udpSocket (set_event_udp_write os c) = udpSocket c"
  "log_tcpIn (set_event_udp_write os c) = log_tcpIn c"
  "log_tcpOut (set_event_udp_write os c) = log_tcpOut c"
  "log_udpOut (set_event_udp_write os c) = log_udpOut c"
  "par (set_event_udp_write os c) = par c"
  "tcpConnected (set_event_udp_write os c) = tcpConnected c"
  "udpConnected (set_event_udp_write os c) = udpConnected c"
  "tcpNextSendIndex (set_event_udp_write os c) = tcpNextSendIndex c"
  "udpNextSendIndex (set_event_udp_write os c) = udpNextSendIndex c"
  "udpReceivedMasterIndex (set_event_udp_write os c) = udpReceivedMasterIndex c"
  "udpConfirmedMasterIndex (set_event_udp_write os c) = udpConfirmedMasterIndex c"
  "udpReceivedFinalIndex (set_event_udp_write os c) = udpReceivedFinalIndex c"
  "udpSentBufferSize (set_event_udp_write os c) = udpSentBufferSize c"
  "udpReceiveBufferSize (set_event_udp_write os c) = udpReceiveBufferSize c"
  "udpPacketsToSendCount (set_event_udp_write os c) = udpPacketsToSendCount c"
  "remainConfirmationResendCount (set_event_udp_write os c) = remainConfirmationResendCount c"
  "remainByeByeResendCount (set_event_udp_write os c) = remainByeByeResendCount c"
  "tcpReceivedData (set_event_udp_write os c) = tcpReceivedData c"
  "udpSentPackets (set_event_udp_write os c) = udpSentPackets c"
  "udpConfirmationPackets (set_event_udp_write os c) = udpConfirmationPackets c"
  "udpReceivedPackets (set_event_udp_write os c) = udpReceivedPackets c"
  "udpSendIntervalUs (set_event_udp_write os c) = udpSendIntervalUs c"
  "udpSendMeasureIndex (set_event_udp_write os c) = udpSendMeasureIndex c"
  "udpSendMeasures (set_event_udp_write os c) = udpSendMeasures c"
  "log_built (set_event_udp_write os c) = log_built c"
  "fault (set_event_udp_write os c) = fault c"
  "deleted (set_event_udp_write os c) = deleted c"
  by (simp_all add: set_event_udp_write_def Let_def)

end
