(* ===== verification/Conn_Ops.thy ===== *)
theory Conn_Ops
  imports Conn_State
begin

text \<open>
  The operations of \<^verbatim>\<open>connection.cpp\<close>, in an order that defines before use: \<^verbatim>\<open>tcpWrite(true)\<close> and
  \<^verbatim>\<open>tcpWrite(false)\<close> are two definitions, as only the second one calls \<^verbatim>\<open>tcpClose\<close>, which calls
  the first. A loop over a map that changes it runs over the keys the map had. Bodies under the
  debugging macros of the file, all of them off, and log output are left out.
\<close>

section \<open>Packets to send\<close>

text \<open>What \<open>Connection::Connection\<close>, \<open>buildUdpPackets\<close> and \<open>tcpClose\<close> do to send a packet:
  \<^verbatim>\<open>udpSentPackets[udpNextSendIndex]\<close> is created or found, armed with its resends and encoded.\<close>

definition sent_slot :: "conn \<Rightarrow> packet" where
  "sent_slot c =
     (case om_find (udpSentPackets c) (udpNextSendIndex c) of None \<Rightarrow> new_packet | Some p \<Rightarrow> p)"

definition enqueue_packet :: "ptype \<Rightarrow> bytes \<Rightarrow> int \<Rightarrow> conn \<Rightarrow> packet \<times> conn" where
  "enqueue_packet t bs sz c =
     (let i = udpNextSendIndex c;
          p = encode t i bs sz ((sent_slot c)\<lparr>p_remainResendCount := udpResendCount (par c)\<rparr>)
      in (p, c\<lparr>udpSentPackets := om_put i p (udpSentPackets c), udpNextSendIndex := i + 1,
               udpPacketsToSendCount := udpPacketsToSendCount c + 1,
               log_built := log_built c @ [(t, take (nat sz) bs)]\<rparr>))"

text \<open>\<open>push_control\<close>: \<^verbatim>\<open>udpConfirmationPackets.push_back(Packet())\<close>, \<open>encode\<close> and
  \<open>onUdpSentBufferChanged\<close>.\<close>

definition push_control :: "os \<Rightarrow> ptype \<Rightarrow> int \<Rightarrow> bytes \<Rightarrow> int \<Rightarrow> conn \<Rightarrow> conn" where
  "push_control os t i bs sz c =
     (let p = encode t i bs sz new_packet
      in on_sent_buffer_changed os (get_size p)
           (c\<lparr>udpConfirmationPackets := udpConfirmationPackets c @ [p]\<rparr>))"

section \<open>From tcp to packets\<close>

text \<open>The loop of \<open>buildUdpPackets\<close> over the data not yet in packets; it returns what remains of the
  data: a tail shorter than a packet without \<open>flush\<close>.\<close>

function build_loop :: "os \<Rightarrow> bool \<Rightarrow> int \<Rightarrow> bytes \<Rightarrow> conn \<Rightarrow> bytes \<times> conn" where
  "build_loop os flush psize rest c =
     (let sz = min (int (length rest)) psize
      in if rest = [] \<or> (\<not> flush \<and> sz < psize) \<or> sz \<le> 0 then (rest, c)
         else case enqueue_packet Data (take (nat sz) rest) sz c of (p, c1) \<Rightarrow>
           build_loop os flush psize (drop (nat sz) rest)
             (on_sent_buffer_changed os (get_size p) (set_event_udp_write os c1)))"
  by pat_completeness auto
termination
  by (relation "measure (\<lambda>(_, _, _, rest, _). length rest)") (auto simp: Let_def)

declare build_loop.simps [simp del]

definition build_udp_packets :: "os \<Rightarrow> bool \<Rightarrow> conn \<Rightarrow> conn" where
  "build_udp_packets os flush c =
     (if \<not> udpConnected c then c
      else
        let c1 = (if udpReceivedFinalIndex c = udpReceivedMasterIndex c then c\<lparr>tcpReceivedData := []\<rparr> else c);
            all = tcpReceivedData c1
        in case build_loop os flush (udpSendPacketSize (par c1)) all c1 of (rest, c2) \<Rightarrow>
          let c3 = c2\<lparr>tcpReceivedData := rest\<rparr>;
              c4 = (if length rest < length all \<or> rest = [] then ev_off EvBuildUdpPackets c3 else c3)
          in if rest \<noteq> [] then ev_in os EvBuildUdpPackets (buildUdpPacketsUs (par c4)) c4 else c4)"

definition tcp_read :: "os \<Rightarrow> conn \<Rightarrow> conn" where
  "tcp_read os c =
     (if \<not> tcpConnected c then c
      else case sock_read (a_recv (answer_now os c)) (udpSendPacketSize (par c)) (tcpSocket c) of (bs, s) \<Rightarrow>
        let c1 = (tick c)\<lparr>tcpSocket := s, log_tcpIn := log_tcpIn c @ bs\<rparr>;
            c2 = (if bs \<noteq> []
                  then let c' = c1\<lparr>statTcpReceived := statTcpReceived c1 + int (length bs)\<rparr>
                       in if udpConnected c'
                          then build_udp_packets os False (c'\<lparr>tcpReceivedData := tcpReceivedData c' @ bs\<rparr>)
                          else c'
                  else c1)
        in on_sent_buffer_changed os 0 c2)"

section \<open>From packets to tcp\<close>

text \<open>A packet of \<open>udpReceivedPackets\<close> is used up: it is marked and, when its confirmation has been
  built, erased with its size.\<close>

definition finish_received :: "int \<Rightarrow> packet \<Rightarrow> int \<Rightarrow> conn \<Rightarrow> conn" where
  "finish_received k p sz c =
     (let p' = p\<lparr>p_sent := True\<rparr>;
          c1 = c\<lparr>udpReceivedPackets := om_put k p' (udpReceivedPackets c)\<rparr>;
          c2 = (if is_complete p'
                then c1\<lparr>udpReceiveBufferSize := udpReceiveBufferSize c1 - sz,
                        udpReceivedPackets := om_erase k (udpReceivedPackets c1)\<rparr>
                else c1)
      in c2\<lparr>tcpNextSendIndex := tcpNextSendIndex c2 + 1\<rparr>)"

text \<open>\<^verbatim>\<open>tcpWrite(true)\<close> discards the received packets of a closed tcp socket. Every turn but the last
  advances \<open>tcpNextSendIndex\<close>, so its distance to \<open>udpReceivedMasterIndex\<close> is fuel enough.\<close>

fun discard_loop :: "nat \<Rightarrow> conn \<Rightarrow> conn" where
  "discard_loop 0 c = c"
| "discard_loop (Suc n) c =
     (if tcpNextSendIndex c < udpReceivedMasterIndex c
      then case om_find (udpReceivedPackets c) (tcpNextSendIndex c) of
             None \<Rightarrow> c
           | Some p \<Rightarrow> discard_loop n (finish_received (tcpNextSendIndex c) p (get_size p) c)
      else c)"

definition write_turns :: "conn \<Rightarrow> nat" where
  "write_turns c = nat (udpReceivedMasterIndex c - tcpNextSendIndex c)"

definition tcp_discard :: "conn \<Rightarrow> conn" where
  "tcp_discard c = (if tcpConnected c then c else discard_loop (write_turns c) c)"

section \<open>Closing\<close>

definition tcp_close :: "os \<Rightarrow> bool \<Rightarrow> conn \<Rightarrow> conn" where
  "tcp_close os err c =
     (if \<not> tcpConnected c then c
      else
        let c1 = ev_off EvTcpWrite (ev_off EvTcpRead (c\<lparr>tcpConnected := False\<rparr>));
            c2 = c1\<lparr>tcpSocket := sock_close False (tcpSocket c1)\<rparr>
        in if \<not> udpConnected c2 then ev_in os EvClose 0 c2
           else
             let c3 = build_udp_packets os True (tcp_discard c2)
             in case enqueue_packet (if err then Disconnect else Bye) [] 0 c3 of (p, c4) \<Rightarrow>
               set_event_udp_write os (on_sent_buffer_changed os (get_size p) c4))"

definition udp_close :: "os \<Rightarrow> conn \<Rightarrow> conn" where
  "udp_close os c =
     (if \<not> udpConnected c then c
      else
        let c1 = ev_off EvUdpWrite (ev_off EvTcpRead (ev_off EvUdpResend (ev_off EvBuildConfirmations
                   (ev_off EvBuildUdpPackets (c\<lparr>udpConnected := False\<rparr>)))));
            c2 = c1\<lparr>tcpSocket := close_read False (tcpSocket c1), tcpReceivedData := [],
                    udpConfirmationPackets := [], udpSentPackets := []\<rparr>;
            c3 = on_sent_buffer_changed os (- udpSentBufferSize c2) c2
        in if \<not> tcpConnected c3 then ev_in os EvClose 0 c3
           else if tcpNextSendIndex c3 \<ge> udpReceivedMasterIndex c3 then tcp_close os False c3 else c3)"

section \<open>Writing to tcp\<close>

text \<open>\<^verbatim>\<open>tcpWrite()\<close>: control packets are passed over, a Bye or Disconnect closes the socket, a data packet
  is written as far as the socket takes it.\<close>

definition write_packet :: "os \<Rightarrow> int \<Rightarrow> packet \<Rightarrow> conn \<Rightarrow> conn" where
  "write_packet os k p c =
     (case sock_write (a_send (answer_now os c)) (get_size p) (tcpSocket c) of (n, s) \<Rightarrow>
        let c1 = (tick c)\<lparr>tcpSocket := s\<rparr>;
            c2 = (if n > 0
                  then
                    let p' = p\<lparr>p_data := take 9 (p_data p) @ drop (9 + nat n) (p_data p)\<rparr>;
                        c' = c1\<lparr>statTcpSent := statTcpSent c1 + n,
                                log_tcpOut := log_tcpOut c1 @ take (nat n) (get_data p),
                                udpReceivedPackets := om_put k p' (udpReceivedPackets c1),
                                udpReceiveBufferSize := udpReceiveBufferSize c1 - n\<rparr>
                    in if get_size p' \<le> 0 then finish_received k p' 0 c' else c'
                  else c1)
        in if tcpNextSendIndex c2 < udpReceivedMasterIndex c2 then ev_in os EvTcpWrite 0 c2 else c2)"

fun write_loop :: "os \<Rightarrow> nat \<Rightarrow> conn \<Rightarrow> conn" where
  "write_loop os 0 c = c"
| "write_loop os (Suc n) c =
     (let k = tcpNextSendIndex c
      in if k < udpReceivedMasterIndex c
         then case om_find (udpReceivedPackets c) k of
                None \<Rightarrow> c
              | Some p \<Rightarrow>
                  if get_type p \<noteq> Data \<or> get_size p \<le> 0
                  then let c1 = finish_received k p (get_size p) c
                       in if get_type p = Bye \<or> get_type p = Disconnect then tcp_close os False c1
                          else write_loop os n c1
                  else write_packet os k p c
         else c)"

definition tcp_write :: "os \<Rightarrow> conn \<Rightarrow> conn" where
  "tcp_write os c = (if \<not> tcpConnected c then c else write_loop os (write_turns c) c)"

section \<open>Sending datagrams\<close>

text \<open>\<open>udpWrite\<close> sends one datagram: the oldest confirmation or else the first packet not sent.\<close>

definition send_datagram :: "os \<Rightarrow> packet \<Rightarrow> conn \<Rightarrow> int \<times> conn" where
  "send_datagram os p c =
     (case sock_writeto (a_sendto (answer_now os c)) (int (length (p_data p))) (udpSocket c) of (n, s) \<Rightarrow>
        (n, (tick c)\<lparr>udpSocket := s,
               log_udpOut := (if n > 0 then p_data p # log_udpOut c else log_udpOut c)\<rparr>))"

definition write_again :: "conn \<Rightarrow> conn" where
  "write_again c = ev_at EvUdpWrite (udpLastSentUs c + udpSendIntervalUs c) c"

definition write_confirmation :: "os \<Rightarrow> usec \<Rightarrow> packet \<Rightarrow> conn \<Rightarrow> conn" where
  "write_confirmation os planned p c =
     (case send_datagram os p c of (n, c1) \<Rightarrow>
        if n > 0 \<or> p_data p = []
        then
          let c2 = on_sent_buffer_changed os (- get_size p)
                     (c1\<lparr>statUdpSent := statUdpSent c1 + n, udpLastSentUs := planned\<rparr>);
              c3 = c2\<lparr>udpConfirmationPackets := tl (udpConfirmationPackets c2)\<rparr>
          in if isUdpFinished c3 then udp_close os c3
             else if udpConfirmationPackets c3 \<noteq> [] \<or> udpPacketsToSendCount c3 > 0 then write_again c3 else c3
        else if udpConfirmationPackets c1 \<noteq> [] \<or> udpPacketsToSendCount c1 > 0 then write_again c1 else c1)"

definition write_sent_packet :: "os \<Rightarrow> usec \<Rightarrow> int \<Rightarrow> packet \<Rightarrow> conn \<Rightarrow> conn" where
  "write_sent_packet os planned k p c =
     (let again = (\<lambda>c. if udpPacketsToSendCount c > 0 then write_again c else c)
      in case send_datagram os p c of (n, c1) \<Rightarrow>
        if n > 0 \<or> p_data p = []
        then
          let timeUs = a_time (answer_now os c1);
              p' = p\<lparr>p_sent := True, p_sentTimeUs := timeUs, p_measureIndex := udpSendMeasureIndex c1\<rparr>;
              c2 = (tick c1)\<lparr>statUdpSent := statUdpSent c1 + n,
                     udpSentPackets := om_put k p' (udpSentPackets c1), udpLastSentUs := planned\<rparr>;
              c3 = on_udp_sent os (udpSendMeasureIndex c2) (udpSendIntervalUs c2) (get_size p') c2;
              c4 = c3\<lparr>udpPacketsToSendCount := udpPacketsToSendCount c3 - 1\<rparr>
          in if is_complete p'
             then
               let c5 = on_sent_buffer_changed os (- get_size p') c4;
                   c6 = c5\<lparr>udpSentPackets := om_erase k (udpSentPackets c5)\<rparr>
               in if isUdpFinished c6 then udp_close os c6 else again c6
             else again (ev_in os EvUdpResend (udpResendUs (par c4)) c4)
        else again c1)"

definition udp_write :: "os \<Rightarrow> usec \<Rightarrow> conn \<Rightarrow> conn" where
  "udp_write os planned c =
     (if \<not> udpConnected c then c
      else case udpConfirmationPackets c of
        p # _ \<Rightarrow> write_confirmation os planned p c
      | [] \<Rightarrow> (case find (\<lambda>kp. \<not> p_sent (snd kp)) (udpSentPackets c) of
                None \<Rightarrow> c
              | Some (k, p) \<Rightarrow> write_sent_packet os planned k p c))"

section \<open>Confirmations\<close>

definition is_confirmation :: "packet \<Rightarrow> bool" where
  "is_confirmation p \<longleftrightarrow> get_type p = Confirmation"

text \<open>The loop that throws away the confirmations not sent yet (in \<open>buildConfirmations\<close> and, on a
  ByeBye, in \<open>udpRead\<close>).\<close>

definition drop_confirmations :: "os \<Rightarrow> conn \<Rightarrow> conn" where
  "drop_confirmations os c =
     (let ps = udpConfirmationPackets c;
          c1 = fold (\<lambda>p. on_sent_buffer_changed os (- get_size p)) (filter is_confirmation ps) c
      in c1\<lparr>udpConfirmationPackets := filter (\<lambda>p. \<not> is_confirmation p) ps\<rparr>)"

text \<open>The indices that follow each other from \<open>e\<close> on: where they end, and the others.\<close>

fun take_run :: "int \<Rightarrow> int list \<Rightarrow> int \<times> int list" where
  "take_run e [] = (e, [])"
| "take_run e (k # ks) = (if k = e then take_run (e + 1) ks else (e, k # ks))"

lemma take_run_shorter: "length (snd (take_run e ks)) \<le> length ks"
  by (induction e ks rule: take_run.induct) auto

text \<open>The packing loop. \<open>buf\<close> is what \<open>confirmationData\<close> holds, \<open>sz\<close> the room left in it; a full
  buffer becomes a packet. The result is the last, unsent buffer with its room.\<close>

function confirm_loop ::
    "os \<Rightarrow> int \<Rightarrow> int \<Rightarrow> int list \<Rightarrow> int \<Rightarrow> bytes \<Rightarrow> int \<Rightarrow> conn \<Rightarrow> bytes \<times> int \<times> conn" where
  "confirm_loop os psize master [] prev buf sz c = (buf, sz, c)"
| "confirm_loop os psize master (b # ks) prev buf sz c =
     (case take_run (b + 1) ks of (e, ks') \<Rightarrow>
        case pack_int_pair (b - prev) (e - b) sz of
          Some (bs, sz') \<Rightarrow> confirm_loop os psize master ks' e (buf @ bs) sz' c
        | None \<Rightarrow>
            let c1 = push_control os Confirmation master buf (psize - sz) c
            in case pack_int_pair (b - master) (e - b) psize of
                 Some (bs, sz') \<Rightarrow> confirm_loop os psize master ks' e bs sz' c1
               | None \<Rightarrow> ([], psize, c1))"
  by pat_completeness auto
termination
  by (relation "measure (\<lambda>(_, _, _, ks, _). length ks)")
    (auto simp: less_Suc_eq_le, (metis snd_conv take_run_shorter)+)

text \<open>Received packets that are both written to tcp and below the confirmed master index go.\<close>

fun trim_received :: "int \<Rightarrow> int \<Rightarrow> (int, packet) omap \<Rightarrow> (int, packet) omap \<times> int" where
  "trim_received next master [] = ([], 0)"
| "trim_received next master ((k, p) # m) =
     (if k < next
      then let p' = p\<lparr>p_confirmed := k < master\<rparr>
           in case trim_received next master m of (m', freed) \<Rightarrow>
             if is_complete p' then (m', freed + get_size p') else ((k, p') # m', freed)
      else ((k, p) # m, 0))"

definition build_confirmations :: "os \<Rightarrow> conn \<Rightarrow> conn" where
  "build_confirmations os c =
     (if \<not> udpConnected c then c
      else
        let c1 = drop_confirmations os c;
            psize = udpSendPacketSize (par c1);
            master = udpReceivedMasterIndex c1
        in case confirm_loop os psize master (om_keys (om_lower_bound (udpReceivedPackets c1) master))
                  master [] psize c1 of (buf, sz, c2) \<Rightarrow>
          let c3 = push_control os Confirmation master buf (psize - sz) c2;
              c4 = set_event_udp_write os (c3\<lparr>udpConfirmedMasterIndex := master\<rparr>)
          in case trim_received (tcpNextSendIndex c4) master (udpReceivedPackets c4) of (m, freed) \<Rightarrow>
            let c5 = c4\<lparr>udpReceivedPackets := m, udpReceiveBufferSize := udpReceiveBufferSize c4 - freed\<rparr>;
                c6 = c5\<lparr>remainConfirmationResendCount := remainConfirmationResendCount c5 - 1\<rparr>
            in if remainConfirmationResendCount c6 > 0
               then ev_in os EvBuildConfirmations (buildConfirmationsUs (par c6)) c6 else c6)"

definition build_bye_bye :: "os \<Rightarrow> conn \<Rightarrow> conn" where
  "build_bye_bye os c =
     (if \<not> udpConnected c then c
      else
        let c1 = set_event_udp_write os (push_control os ByeBye (udpNextSendIndex c) [] 0 c);
            c2 = c1\<lparr>remainByeByeResendCount := remainByeByeResendCount c1 - 1\<rparr>
        in if remainByeByeResendCount c2 > 0
           then ev_in os EvBuildByeBye (buildConfirmationsUs (par c2)) c2 else c2)"

section \<open>Resending\<close>

fun resend_loop :: "os \<Rightarrow> usec \<Rightarrow> int list \<Rightarrow> conn \<Rightarrow> conn" where
  "resend_loop os timeUs [] c = c"
| "resend_loop os timeUs (k # ks) c =
     (case om_find (udpSentPackets c) k of
        None \<Rightarrow> c
      | Some p \<Rightarrow>
          if \<not> p_sent p then resend_loop os timeUs ks c
          else if p_sentTimeUs p + udpResendUs (par c) \<le> timeUs
          then if p_remainResendCount p > 0
               then
                 let p' = p\<lparr>p_sent := False, p_remainResendCount := p_remainResendCount p - 1\<rparr>;
                     c1 = c\<lparr>udpPacketsToSendCount := udpPacketsToSendCount c + 1,
                            udpSentPackets := om_put k p' (udpSentPackets c)\<rparr>
                 in resend_loop os timeUs ks
                      (set_event_udp_write os (on_udp_delivered False (p_measureIndex p') (get_size p') c1))
               else udp_close os c
          else resend_loop os timeUs ks (ev_at EvUdpResend (p_sentTimeUs p + udpResendUs (par c)) c))"

definition udp_resend :: "os \<Rightarrow> conn \<Rightarrow> conn" where
  "udp_resend os c =
     (if \<not> udpConnected c then c
      else resend_loop os (a_time (answer_now os c)) (om_keys (udpSentPackets c)) (tick c))"

section \<open>Receiving datagrams\<close>

text \<open>What both loops of the confirmation branch do with a confirmed index.\<close>

definition confirm_packet :: "os \<Rightarrow> int \<Rightarrow> conn \<Rightarrow> conn" where
  "confirm_packet os k c =
     (case om_find (udpSentPackets c) k of
        None \<Rightarrow> c
      | Some p \<Rightarrow>
          (let c1 = (if \<not> p_confirmed p then on_udp_delivered True (p_measureIndex p) (get_size p) c else c);
               c2 = (if \<not> p_sent p then c1\<lparr>udpPacketsToSendCount := udpPacketsToSendCount c1 - 1\<rparr> else c1);
               p' = p\<lparr>p_sent := True, p_confirmed := True\<rparr>;
               c3 = c2\<lparr>udpSentPackets := om_put k p' (udpSentPackets c2)\<rparr>
           in if is_complete p'
              then let c4 = on_sent_buffer_changed os (- get_size p') c3
                   in c4\<lparr>udpSentPackets := om_erase k (udpSentPackets c4)\<rparr>
              else c3))"

text \<open>The indices a confirmation packet lists after its master index.\<close>

fun pair_indices :: "int \<Rightarrow> (int \<times> int) list \<Rightarrow> int list" where
  "pair_indices cur [] = []"
| "pair_indices cur ((a, b) # ps) = [cur + a..cur + a + b - 1] @ pair_indices (cur + a + b) ps"

definition read_confirmation :: "os \<Rightarrow> packet \<Rightarrow> conn \<Rightarrow> conn" where
  "read_confirmation os p c =
     (let prev = isNoMoreDataWillBeSent c;
          master = get_index p;
          c1 = fold (confirm_packet os) (takeWhile (\<lambda>k. k < master) (om_keys (udpSentPackets c))) c;
          c2 = fold (confirm_packet os) (pair_indices master (fst (unpack_pairs (get_data p)))) c1;
          c3 = c2\<lparr>statUdpReceivedExtra := statUdpReceivedExtra c2 + int (length (p_data p))\<rparr>;
          c4 = (if udpPacketsToSendCount c3 \<ge> int (length (udpSentPackets c3)) then ev_off EvUdpResend c3 else c3)
      in if isNoMoreDataWillBeSent c4 \<and> \<not> prev
         then ev_in os EvBuildByeBye 0 (c4\<lparr>remainByeByeResendCount := confirmationResendCount (par c4)\<rparr>)
         else c4)"

text \<open>The loop that moves the master index over the packets that are there.\<close>

fun advance_master :: "nat \<Rightarrow> conn \<Rightarrow> conn" where
  "advance_master 0 c = c"
| "advance_master (Suc n) c =
     (let k = udpReceivedMasterIndex c
      in case om_find (udpReceivedPackets c) k of
           None \<Rightarrow> c
         | Some p \<Rightarrow>
             if k < udpReceivedFinalIndex c
             then advance_master n
                    (c\<lparr>udpReceivedMasterIndex := k + 1,
                       udpReceivedFinalIndex :=
                         (if get_type p = Bye \<or> get_type p = Disconnect then k + 1 else udpReceivedFinalIndex c)\<rparr>)
             else c)"

definition accepts :: "packet \<Rightarrow> conn \<Rightarrow> bool" where
  "accepts p c \<longleftrightarrow>
     get_index p \<ge> udpReceivedMasterIndex c \<and> get_index p < udpReceivedFinalIndex c \<and>
     get_index p - tcpNextSendIndex c
       \<le> cdiv (2 * udpMaxReceiveBufferSize (par c)) (udpSendPacketSize (par c)) \<and>
     (get_type p = Hello \<and> get_index p = 0 \<or> get_type p = Bye \<or> get_type p = Disconnect \<or> get_type p = Data)"

definition store_received :: "os \<Rightarrow> packet \<Rightarrow> conn \<Rightarrow> conn" where
  "store_received os p c =
     (let c1 = c\<lparr>udpReceivedPackets := om_put (get_index p) p (udpReceivedPackets c),
                 udpReceiveBufferSize := udpReceiveBufferSize c + get_size p\<rparr>;
          c2 = tcp_discard (advance_master (length (udpReceivedPackets c1)) c1);
          c3 = (if tcpNextSendIndex c2 < udpReceivedMasterIndex c2 then ev_in os EvTcpWrite 0 c2 else c2)
      in if udpReceivedMasterIndex c3 \<ge> udpReceivedFinalIndex c3
         then ev_in os EvUdpCloseWait (udpResendUs (par c3) * udpResendCount (par c3) + udpResendUs (par c3)) c3
         else c3)"

definition read_extra :: "packet \<Rightarrow> conn \<Rightarrow> conn" where
  "read_extra p c = c\<lparr>statUdpReceivedExtra := statUdpReceivedExtra c + int (length (p_data p))\<rparr>"

definition read_bye_bye :: "os \<Rightarrow> conn \<Rightarrow> conn" where
  "read_bye_bye os c =
     (let c1 = drop_confirmations os (ev_off EvBuildConfirmations (c\<lparr>remainConfirmationResendCount := 0\<rparr>))
      in if ev_enabled EvUdpCloseWait c1
         then ev_in os EvUdpCloseWait
                (cdiv (udpResendUs (par c1) * confirmationResendCount (par c1)) 3 + udpResendUs (par c1)) c1
         else c1)"

text \<open>\<open>udp_dispatch\<close> is the chain of conditions of \<open>udpRead\<close>; the last lines of \<open>udpRead\<close> follow it.\<close>

definition udp_dispatch :: "os \<Rightarrow> packet \<Rightarrow> conn \<Rightarrow> conn" where
  "udp_dispatch os p c =
     (if get_type p = Confirmation then read_confirmation os p c
      else if udpReceivedMasterIndex c \<le> get_index p \<and> get_index p < udpReceivedFinalIndex c
              \<and> udpSendPacketSize (par c) = 0 then c\<lparr>fault := True\<rparr>
      else if accepts p c
      then
        let c' = (if om_find (udpReceivedPackets c) (get_index p) = None then store_received os p c
                  else read_extra p c)
        in ev_in os EvBuildConfirmations (buildConfirmationsUs (par c'))
             (c'\<lparr>remainConfirmationResendCount := confirmationResendCount (par c')\<rparr>)
      else if get_type p = ByeBye \<and> get_index p = udpReceivedMasterIndex c
              \<and> get_index p = udpReceivedFinalIndex c
      then read_bye_bye os c
      else read_extra p c)"

definition udp_read :: "os \<Rightarrow> packet \<Rightarrow> conn \<Rightarrow> conn" where
  "udp_read os p c =
     (if \<not> udpConnected c then c
      else let c1 = udp_dispatch os p c in if isUdpFinished c1 then udp_close os c1 else c1)"

section \<open>Opening, dispatching, deleting\<close>

definition conn_new :: "os \<Rightarrow> params \<Rightarrow> usec \<Rightarrow> host \<Rightarrow> conn" where
  "conn_new os ps initialUs h =
     (let c0 =
            \<lparr>h_tick = h_tick h, tcpSocket = tcpSocket h, udpSocket = udpSocket h,
             statTcpSent = statTcpSent h, statTcpReceived = statTcpReceived h, statUdpSent = statUdpSent h,
             statUdpReceivedExtra = statUdpReceivedExtra h, udpSummaryInterval = udpSummaryInterval h,
             log_tcpIn = log_tcpIn h, log_tcpOut = log_tcpOut h, log_udpOut = log_udpOut h,
             par = ps, tcpConnected = True, udpConnected = True, tcpNextSendIndex = 0,
             udpNextSendIndex = 0, udpReceivedMasterIndex = 0, udpConfirmedMasterIndex = 0,
             udpReceivedFinalIndex = int_max, udpSentBufferSize = 0, udpReceiveBufferSize = 0,
             udpPacketsToSendCount = 0, remainConfirmationResendCount = 0, remainByeByeResendCount = 0,
             tcpReceivedData = [], udpSentPackets = [], udpConfirmationPackets = [],
             udpReceivedPackets = [], udpLastSentUs = 0, udpSendIntervalUs = initialUs,
             udpSendIntervalUsFloat = d_of_int initialUs, udpSendMeasureIndex = 0,
             udpSendMeasures = [], ev = (\<lambda>e. -1), fault = False, deleted = False, log_built = []\<rparr>;
          c1 = (tick c0)\<lparr>udpSendMeasures := [(0, new_measure\<lparr>m_beginUs := a_time (answer_now os c0)\<rparr>)],
                         udpSummaryInterval := udpSummaryInterval c0 + initialUs\<rparr>
      in case enqueue_packet Hello [] 0 c1 of (p, c2) \<Rightarrow>
        ev_in os EvUdpClose 0 (ev_in os EvTcpClose 0 (ev_in os EvUdpWrite 0
          (on_sent_buffer_changed os (get_size p) c2))))"

text \<open>\<open>Server::onConnectionClosed\<close> deletes the connection; the destructor closes the tcp socket.\<close>

definition conn_delete :: "conn \<Rightarrow> conn" where
  "conn_delete c =
     c\<lparr>udpSummaryInterval := udpSummaryInterval c - udpSendIntervalUs c,
       tcpSocket := sock_close False (tcpSocket c), deleted := True\<rparr>"

definition handle :: "os \<Rightarrow> conn_event \<Rightarrow> usec \<Rightarrow> conn \<Rightarrow> conn" where
  "handle os e planned c =
     (case e of
        EvTcpRead \<Rightarrow> tcp_read os c
      | EvTcpWrite \<Rightarrow> tcp_write os c
      | EvTcpClose \<Rightarrow> tcp_close os (s_error (tcpSocket c)) c
      | EvUdpWrite \<Rightarrow> udp_write os planned c
      | EvUdpClose \<Rightarrow> udp_close os c
      | EvBuildUdpPackets \<Rightarrow> build_udp_packets os True c
      | EvBuildConfirmations \<Rightarrow> build_confirmations os c
      | EvBuildByeBye \<Rightarrow> build_bye_bye os c
      | EvUdpResend \<Rightarrow> udp_resend os c
      | EvUdpCloseWait \<Rightarrow> (if isUdpFinished c then udp_close os c else c)
      | EvClose \<Rightarrow> conn_delete c)"

text \<open>\<open>Event::raise\<close> switches the event off before it calls the handler.\<close>

definition raise_conn_event :: "os \<Rightarrow> conn_event \<Rightarrow> conn \<Rightarrow> conn" where
  "raise_conn_event os e c = handle os e (ev c e) (ev_off e c)"

end
