(* ===== verification/Conn_Frames.thy ===== *)
theory Conn_Frames
  imports Conn_Ops
begin

text \<open>
  Which fields each operation of \<open>Conn_Ops\<close> leaves alone, as simplification rules, and the
  induction principle of the packet building loop. Generated by going through the fields of the
  state in order; an operation's rule omits exactly the fields it can change.
\<close>

section \<open>What the operations leave alone\<close>

lemma enqueue_packet_frame [simp]:
  "tcpSocket (snd (enqueue_packet t bs n c)) = tcpSocket c"
  "udpSocket (snd (enqueue_packet t bs n c)) = udpSocket c"
  "log_tcpIn (snd (enqueue_packet t bs n c)) = log_tcpIn c"
  "log_tcpOut (snd (enqueue_packet t bs n c)) = log_tcpOut c"
  "log_udpOut (snd (enqueue_packet t bs n c)) = log_udpOut c"
  "par (snd (enqueue_packet t bs n c)) = par c"
  "tcpConnected (snd (enqueue_packet t bs n c)) = tcpConnected c"
  "udpConnected (snd (enqueue_packet t bs n c)) = udpConnected c"
  "tcpNextSendIndex (snd (enqueue_packet t bs n c)) = tcpNextSendIndex c"
  "udpReceivedMasterIndex (snd (enqueue_packet t bs n c)) = udpReceivedMasterIndex c"
  "udpConfirmedMasterIndex (snd (enqueue_packet t bs n c)) = udpConfirmedMasterIndex c"
  "udpReceivedFinalIndex (snd (enqueue_packet t bs n c)) = udpReceivedFinalIndex c"
  "udpSentBufferSize (snd (enqueue_packet t bs n c)) = udpSentBufferSize c"
  "udpReceiveBufferSize (snd (enqueue_packet t bs n c)) = udpReceiveBufferSize c"
  "remainConfirmationResendCount (snd (enqueue_packet t bs n c)) = remainConfirmationResendCount c"
  "remainByeByeResendCount (snd (enqueue_packet t bs n c)) = remainByeByeResendCount c"
  "tcpReceivedData (snd (enqueue_packet t bs n c)) = tcpReceivedData c"
  "udpConfirmationPackets (snd (enqueue_packet t bs n c)) = udpConfirmationPackets c"
  "udpReceivedPackets (snd (enqueue_packet t bs n c)) = udpReceivedPackets c"
  "udpSendIntervalUs (snd (enqueue_packet t bs n c)) = udpSendIntervalUs c"
  "udpSendMeasureIndex (snd (enqueue_packet t bs n c)) = udpSendMeasureIndex c"
  "udpSendMeasures (snd (enqueue_packet t bs n c)) = udpSendMeasures c"
  "fault (snd (enqueue_packet t bs n c)) = fault c"
  "deleted (snd (enqueue_packet t bs n c)) = deleted c"
  by (simp_all add: enqueue_packet_def Let_def)

lemma push_control_frame [simp]:
  "tcpSocket (push_control os t i bs n c) = tcpSocket c"
  "udpSocket (push_control os t i bs n c) = udpSocket c"
  "log_tcpIn (push_control os t i bs n c) = log_tcpIn c"
  "log_tcpOut (push_control os t i bs n c) = log_tcpOut c"
  "log_udpOut (push_control os t i bs n c) = log_udpOut c"
  "par (push_control os t i bs n c) = par c"
  "tcpConnected (push_control os t i bs n c) = tcpConnected c"
  "udpConnected (push_control os t i bs n c) = udpConnected c"
  "tcpNextSendIndex (push_control os t i bs n c) = tcpNextSendIndex c"
  "udpNextSendIndex (push_control os t i bs n c) = udpNextSendIndex c"
  "udpReceivedMasterIndex (push_control os t i bs n c) = udpReceivedMasterIndex c"
  "udpConfirmedMasterIndex (push_control os t i bs n c) = udpConfirmedMasterIndex c"
  "udpReceivedFinalIndex (push_control os t i bs n c) = udpReceivedFinalIndex c"
  "udpReceiveBufferSize (push_control os t i bs n c) = udpReceiveBufferSize c"
  "udpPacketsToSendCount (push_control os t i bs n c) = udpPacketsToSendCount c"
  "remainConfirmationResendCount (push_control os t i bs n c) = remainConfirmationResendCount c"
  "remainByeByeResendCount (push_control os t i bs n c) = remainByeByeResendCount c"
  "tcpReceivedData (push_control os t i bs n c) = tcpReceivedData c"
  "udpSentPackets (push_control os t i bs n c) = udpSentPackets c"
  "udpReceivedPackets (push_control os t i bs n c) = udpReceivedPackets c"
  "udpSendIntervalUs (push_control os t i bs n c) = udpSendIntervalUs c"
  "udpSendMeasureIndex (push_control os t i bs n c) = udpSendMeasureIndex c"
  "udpSendMeasures (push_control os t i bs n c) = udpSendMeasures c"
  "log_built (push_control os t i bs n c) = log_built c"
  "deleted (push_control os t i bs n c) = deleted c"
  by (simp_all add: push_control_def Let_def)

lemma build_loop_stop:
  "rest = [] \<or> (\<not> flush \<and> min (int (length rest)) psize < psize) \<or> min (int (length rest)) psize \<le> 0 \<Longrightarrow>
   build_loop os flush psize rest c = (rest, c)"
  by (subst build_loop.simps) (simp only: Let_def if_True)

lemma build_loop_turn:
  "\<not> (rest = [] \<or> (\<not> flush \<and> min (int (length rest)) psize < psize) \<or> min (int (length rest)) psize \<le> 0) \<Longrightarrow>
   build_loop os flush psize rest c =
     (let sz = min (int (length rest)) psize; pc = enqueue_packet Data (take (nat sz) rest) sz c
      in build_loop os flush psize (drop (nat sz) rest)
           (on_sent_buffer_changed os (get_size (fst pc)) (set_event_udp_write os (snd pc))))"
  by (subst build_loop.simps) (simp only: Let_def if_False split_def)

lemma build_loop_invariant:
  assumes "Q rest c"
    and "\<And>rest c sz pc. Q rest c \<Longrightarrow> 0 < sz \<Longrightarrow> sz \<le> length rest \<Longrightarrow> int sz \<le> psize \<Longrightarrow>
      pc = enqueue_packet Data (take sz rest) (int sz) c \<Longrightarrow>
      Q (drop sz rest) (on_sent_buffer_changed os (get_size (fst pc)) (set_event_udp_write os (snd pc)))"
  shows "Q (fst (build_loop os flush psize rest c)) (snd (build_loop os flush psize rest c))"
  using assms
proof (induction os flush psize rest c rule: build_loop.induct)
  case (1 os flush psize rest c)
  let ?stop = "rest = [] \<or> (\<not> flush \<and> min (int (length rest)) psize < psize) \<or> min (int (length rest)) psize \<le> 0"
  show ?case
  proof (cases ?stop)
    case True
    then show ?thesis using 1 by (simp add: build_loop_stop)
  next
    case False
    define sz where "sz = nat (min (int (length rest)) psize)"
    have sz: "min (int (length rest)) psize = int sz" using False by (auto simp: sz_def)
    let ?pc = "enqueue_packet Data (take sz rest) (int sz) c"
    have "0 < sz" "sz \<le> length rest" "int sz \<le> psize" using False sz by auto
    from 1(3) [OF 1(2) this refl]
    have "Q (drop sz rest) (on_sent_buffer_changed os (get_size (fst ?pc)) (set_event_udp_write os (snd ?pc)))" .
    from 1(1) [OF refl False prod.collapse, unfolded sz nat_int, OF this 1(3)]
    show ?thesis using build_loop_turn [OF False, of os c] by (simp add: Let_def sz)
  qed
qed

lemma build_loop_frame_aux:
  "tcpSocket (snd (build_loop os flush psize rest c)) = tcpSocket c \<and>
   udpSocket (snd (build_loop os flush psize rest c)) = udpSocket c \<and>
   log_tcpIn (snd (build_loop os flush psize rest c)) = log_tcpIn c \<and>
   log_tcpOut (snd (build_loop os flush psize rest c)) = log_tcpOut c \<and>
   log_udpOut (snd (build_loop os flush psize rest c)) = log_udpOut c \<and>
   par (snd (build_loop os flush psize rest c)) = par c \<and>
   tcpConnected (snd (build_loop os flush psize rest c)) = tcpConnected c \<and>
   udpConnected (snd (build_loop os flush psize rest c)) = udpConnected c \<and>
   tcpNextSendIndex (snd (build_loop os flush psize rest c)) = tcpNextSendIndex c \<and>
   udpReceivedMasterIndex (snd (build_loop os flush psize rest c)) = udpReceivedMasterIndex c \<and>
   udpConfirmedMasterIndex (snd (build_loop os flush psize rest c)) = udpConfirmedMasterIndex c \<and>
   udpReceivedFinalIndex (snd (build_loop os flush psize rest c)) = udpReceivedFinalIndex c \<and>
   udpReceiveBufferSize (snd (build_loop os flush psize rest c)) = udpReceiveBufferSize c \<and>
   remainConfirmationResendCount (snd (build_loop os flush psize rest c)) = remainConfirmationResendCount c \<and>
   remainByeByeResendCount (snd (build_loop os flush psize rest c)) = remainByeByeResendCount c \<and>
   tcpReceivedData (snd (build_loop os flush psize rest c)) = tcpReceivedData c \<and>
   udpConfirmationPackets (snd (build_loop os flush psize rest c)) = udpConfirmationPackets c \<and>
   udpReceivedPackets (snd (build_loop os flush psize rest c)) = udpReceivedPackets c \<and>
   udpSendIntervalUs (snd (build_loop os flush psize rest c)) = udpSendIntervalUs c \<and>
   udpSendMeasureIndex (snd (build_loop os flush psize rest c)) = udpSendMeasureIndex c \<and>
   udpSendMeasures (snd (build_loop os flush psize rest c)) = udpSendMeasures c \<and>
   deleted (snd (build_loop os flush psize rest c)) = deleted c"
  by (rule build_loop_invariant [where Q = "\<lambda>_ x.
   tcpSocket x = tcpSocket c \<and>
   udpSocket x = udpSocket c \<and>
   log_tcpIn x = log_tcpIn c \<and>
   log_tcpOut x = log_tcpOut c \<and>
   log_udpOut x = log_udpOut c \<and>
   par x = par c \<and>
   tcpConnected x = tcpConnected c \<and>
   udpConnected x = udpConnected c \<and>
   tcpNextSendIndex x = tcpNextSendIndex c \<and>
   udpReceivedMasterIndex x = udpReceivedMasterIndex c \<and>
   udpConfirmedMasterIndex x = udpConfirmedMasterIndex c \<and>
   udpReceivedFinalIndex x = udpReceivedFinalIndex c \<and>
   udpReceiveBufferSize x = udpReceiveBufferSize c \<and>
   remainConfirmationResendCount x = remainConfirmationResendCount c \<and>
   remainByeByeResendCount x = remainByeByeResendCount c \<and>
   tcpReceivedData x = tcpReceivedData c \<and>
   udpConfirmationPackets x = udpConfirmationPackets c \<and>
   udpReceivedPackets x = udpReceivedPackets c \<and>
   udpSendIntervalUs x = udpSendIntervalUs c \<and>
   udpSendMeasureIndex x = udpSendMeasureIndex c \<and>
   udpSendMeasures x = udpSendMeasures c \<and>
   deleted x = deleted c"])
    simp_all

lemma build_loop_frame [simp]:
  "tcpSocket (snd (build_loop os flush psize rest c)) = tcpSocket c"
  "udpSocket (snd (build_loop os flush psize rest c)) = udpSocket c"
  "log_tcpIn (snd (build_loop os flush psize rest c)) = log_tcpIn c"
  "log_tcpOut (snd (build_loop os flush psize rest c)) = log_tcpOut c"
  "log_udpOut (snd (build_loop os flush psize rest c)) = log_udpOut c"
  "par (snd (build_loop os flush psize rest c)) = par c"
  "tcpConnected (snd (build_loop os flush psize rest c)) = tcpConnected c"
  "udpConnected (snd (build_loop os flush psize rest c)) = udpConnected c"
  "tcpNextSendIndex (snd (build_loop os flush psize rest c)) = tcpNextSendIndex c"
  "udpReceivedMasterIndex (snd (build_loop os flush psize rest c)) = udpReceivedMasterIndex c"
  "udpConfirmedMasterIndex (snd (build_loop os flush psize rest c)) = udpConfirmedMasterIndex c"
  "udpReceivedFinalIndex (snd (build_loop os flush psize rest c)) = udpReceivedFinalIndex c"
  "udpReceiveBufferSize (snd (build_loop os flush psize rest c)) = udpReceiveBufferSize c"
  "remainConfirmationResendCount (snd (build_loop os flush psize rest c)) = remainConfirmationResendCount c"
  "remainByeByeResendCount (snd (build_loop os flush psize rest c)) = remainByeByeResendCount c"
  "tcpReceivedData (snd (build_loop os flush psize rest c)) = tcpReceivedData c"
  "udpConfirmationPackets (snd (build_loop os flush psize rest c)) = udpConfirmationPackets c"
  "udpReceivedPackets (snd (build_loop os flush psize rest c)) = udpReceivedPackets c"
  "udpSendIntervalUs (snd (build_loop os flush psize rest c)) = udpSendIntervalUs c"
  "udpSendMeasureIndex (snd (build_loop os flush psize rest c)) = udpSendMeasureIndex c"
  "udpSendMeasures (snd (build_loop os flush psize rest c)) = udpSendMeasures c"
  "deleted (snd (build_loop os flush psize rest c)) = deleted c"
  using build_loop_frame_aux [of os flush psize rest c] by simp_all

lemma build_udp_packets_frame [simp]:
  "tcpSocket (build_udp_packets os flush c) = tcpSocket c"
  "udpSocket (build_udp_packets os flush c) = udpSocket c"
  "log_tcpIn (build_udp_packets os flush c) = log_tcpIn c"
  "log_tcpOut (build_udp_packets os flush c) = log_tcpOut c"
  "log_udpOut (build_udp_packets os flush c) = log_udpOut c"
  "par (build_udp_packets os flush c) = par c"
  "tcpConnected (build_udp_packets os flush c) = tcpConnected c"
  "udpConnected (build_udp_packets os flush c) = udpConnected c"
  "tcpNextSendIndex (build_udp_packets os flush c) = tcpNextSendIndex c"
  "udpReceivedMasterIndex (build_udp_packets os flush c) = udpReceivedMasterIndex c"
  "udpConfirmedMasterIndex (build_udp_packets os flush c) = udpConfirmedMasterIndex c"
  "udpReceivedFinalIndex (build_udp_packets os flush c) = udpReceivedFinalIndex c"
  "udpReceiveBufferSize (build_udp_packets os flush c) = udpReceiveBufferSize c"
  "remainConfirmationResendCount (build_udp_packets os flush c) = remainConfirmationResendCount c"
  "remainByeByeResendCount (build_udp_packets os flush c) = remainByeByeResendCount c"
  "udpConfirmationPackets (build_udp_packets os flush c) = udpConfirmationPackets c"
  "udpReceivedPackets (build_udp_packets os flush c) = udpReceivedPackets c"
  "udpSendIntervalUs (build_udp_packets os flush c) = udpSendIntervalUs c"
  "udpSendMeasureIndex (build_udp_packets os flush c) = udpSendMeasureIndex c"
  "udpSendMeasures (build_udp_packets os flush c) = udpSendMeasures c"
  "deleted (build_udp_packets os flush c) = deleted c"
  by (simp_all add: build_udp_packets_def Let_def split_def)

lemma tcp_read_frame [simp]:
  "udpSocket (tcp_read os c) = udpSocket c"
  "log_tcpOut (tcp_read os c) = log_tcpOut c"
  "log_udpOut (tcp_read os c) = log_udpOut c"
  "par (tcp_read os c) = par c"
  "tcpConnected (tcp_read os c) = tcpConnected c"
  "udpConnected (tcp_read os c) = udpConnected c"
  "tcpNextSendIndex (tcp_read os c) = tcpNextSendIndex c"
  "udpReceivedMasterIndex (tcp_read os c) = udpReceivedMasterIndex c"
  "udpConfirmedMasterIndex (tcp_read os c) = udpConfirmedMasterIndex c"
  "udpReceivedFinalIndex (tcp_read os c) = udpReceivedFinalIndex c"
  "udpReceiveBufferSize (tcp_read os c) = udpReceiveBufferSize c"
  "remainConfirmationResendCount (tcp_read os c) = remainConfirmationResendCount c"
  "remainByeByeResendCount (tcp_read os c) = remainByeByeResendCount c"
  "udpConfirmationPackets (tcp_read os c) = udpConfirmationPackets c"
  "udpReceivedPackets (tcp_read os c) = udpReceivedPackets c"
  "udpSendIntervalUs (tcp_read os c) = udpSendIntervalUs c"
  "udpSendMeasureIndex (tcp_read os c) = udpSendMeasureIndex c"
  "udpSendMeasures (tcp_read os c) = udpSendMeasures c"
  "deleted (tcp_read os c) = deleted c"
  by (simp_all add: tcp_read_def Let_def split_def)

lemma finish_received_frame [simp]:
  "tcpSocket (finish_received k p n c) = tcpSocket c"
  "udpSocket (finish_received k p n c) = udpSocket c"
  "log_tcpIn (finish_received k p n c) = log_tcpIn c"
  "log_tcpOut (finish_received k p n c) = log_tcpOut c"
  "log_udpOut (finish_received k p n c) = log_udpOut c"
  "par (finish_received k p n c) = par c"
  "tcpConnected (finish_received k p n c) = tcpConnected c"
  "udpConnected (finish_received k p n c) = udpConnected c"
  "udpNextSendIndex (finish_received k p n c) = udpNextSendIndex c"
  "udpReceivedMasterIndex (finish_received k p n c) = udpReceivedMasterIndex c"
  "udpConfirmedMasterIndex (finish_received k p n c) = udpConfirmedMasterIndex c"
  "udpReceivedFinalIndex (finish_received k p n c) = udpReceivedFinalIndex c"
  "udpSentBufferSize (finish_received k p n c) = udpSentBufferSize c"
  "udpPacketsToSendCount (finish_received k p n c) = udpPacketsToSendCount c"
  "remainConfirmationResendCount (finish_received k p n c) = remainConfirmationResendCount c"
  "remainByeByeResendCount (finish_received k p n c) = remainByeByeResendCount c"
  "tcpReceivedData (finish_received k p n c) = tcpReceivedData c"
  "udpSentPackets (finish_received k p n c) = udpSentPackets c"
  "udpConfirmationPackets (finish_received k p n c) = udpConfirmationPackets c"
  "udpSendIntervalUs (finish_received k p n c) = udpSendIntervalUs c"
  "udpSendMeasureIndex (finish_received k p n c) = udpSendMeasureIndex c"
  "udpSendMeasures (finish_received k p n c) = udpSendMeasures c"
  "log_built (finish_received k p n c) = log_built c"
  "fault (finish_received k p n c) = fault c"
  "deleted (finish_received k p n c) = deleted c"
  by (simp_all add: finish_received_def Let_def)

lemma discard_loop_frame_aux:
  "tcpSocket (discard_loop n c) = tcpSocket c \<and>
   udpSocket (discard_loop n c) = udpSocket c \<and>
   log_tcpIn (discard_loop n c) = log_tcpIn c \<and>
   log_tcpOut (discard_loop n c) = log_tcpOut c \<and>
   log_udpOut (discard_loop n c) = log_udpOut c \<and>
   par (discard_loop n c) = par c \<and>
   tcpConnected (discard_loop n c) = tcpConnected c \<and>
   udpConnected (discard_loop n c) = udpConnected c \<and>
   udpNextSendIndex (discard_loop n c) = udpNextSendIndex c \<and>
   udpReceivedMasterIndex (discard_loop n c) = udpReceivedMasterIndex c \<and>
   udpConfirmedMasterIndex (discard_loop n c) = udpConfirmedMasterIndex c \<and>
   udpReceivedFinalIndex (discard_loop n c) = udpReceivedFinalIndex c \<and>
   udpSentBufferSize (discard_loop n c) = udpSentBufferSize c \<and>
   udpPacketsToSendCount (discard_loop n c) = udpPacketsToSendCount c \<and>
   remainConfirmationResendCount (discard_loop n c) = remainConfirmationResendCount c \<and>
   remainByeByeResendCount (discard_loop n c) = remainByeByeResendCount c \<and>
   tcpReceivedData (discard_loop n c) = tcpReceivedData c \<and>
   udpSentPackets (discard_loop n c) = udpSentPackets c \<and>
   udpConfirmationPackets (discard_loop n c) = udpConfirmationPackets c \<and>
   udpSendIntervalUs (discard_loop n c) = udpSendIntervalUs c \<and>
   udpSendMeasureIndex (discard_loop n c) = udpSendMeasureIndex c \<and>
   udpSendMeasures (discard_loop n c) = udpSendMeasures c \<and>
   log_built (discard_loop n c) = log_built c \<and>
   fault (discard_loop n c) = fault c \<and>
   deleted (discard_loop n c) = deleted c"
by (induction n arbitrary: c) (simp_all split: option.split)

lemma discard_loop_frame [simp]:
  "tcpSocket (discard_loop n c) = tcpSocket c"
  "udpSocket (discard_loop n c) = udpSocket c"
  "log_tcpIn (discard_loop n c) = log_tcpIn c"
  "log_tcpOut (discard_loop n c) = log_tcpOut c"
  "log_udpOut (discard_loop n c) = log_udpOut c"
  "par (discard_loop n c) = par c"
  "tcpConnected (discard_loop n c) = tcpConnected c"
  "udpConnected (discard_loop n c) = udpConnected c"
  "udpNextSendIndex (discard_loop n c) = udpNextSendIndex c"
  "udpReceivedMasterIndex (discard_loop n c) = udpReceivedMasterIndex c"
  "udpConfirmedMasterIndex (discard_loop n c) = udpConfirmedMasterIndex c"
  "udpReceivedFinalIndex (discard_loop n c) = udpReceivedFinalIndex c"
  "udpSentBufferSize (discard_loop n c) = udpSentBufferSize c"
  "udpPacketsToSendCount (discard_loop n c) = udpPacketsToSendCount c"
  "remainConfirmationResendCount (discard_loop n c) = remainConfirmationResendCount c"
  "remainByeByeResendCount (discard_loop n c) = remainByeByeResendCount c"
  "tcpReceivedData (discard_loop n c) = tcpReceivedData c"
  "udpSentPackets (discard_loop n c) = udpSentPackets c"
  "udpConfirmationPackets (discard_loop n c) = udpConfirmationPackets c"
  "udpSendIntervalUs (discard_loop n c) = udpSendIntervalUs c"
  "udpSendMeasureIndex (discard_loop n c) = udpSendMeasureIndex c"
  "udpSendMeasures (discard_loop n c) = udpSendMeasures c"
  "log_built (discard_loop n c) = log_built c"
  "fault (discard_loop n c) = fault c"
  "deleted (discard_loop n c) = deleted c"
  using discard_loop_frame_aux [of n c] by simp_all

lemma tcp_discard_frame [simp]:
  "tcpSocket (tcp_discard c) = tcpSocket c"
  "udpSocket (tcp_discard c) = udpSocket c"
  "log_tcpIn (tcp_discard c) = log_tcpIn c"
  "log_tcpOut (tcp_discard c) = log_tcpOut c"
  "log_udpOut (tcp_discard c) = log_udpOut c"
  "par (tcp_discard c) = par c"
  "tcpConnected (tcp_discard c) = tcpConnected c"
  "udpConnected (tcp_discard c) = udpConnected c"
  "udpNextSendIndex (tcp_discard c) = udpNextSendIndex c"
  "udpReceivedMasterIndex (tcp_discard c) = udpReceivedMasterIndex c"
  "udpConfirmedMasterIndex (tcp_discard c) = udpConfirmedMasterIndex c"
  "udpReceivedFinalIndex (tcp_discard c) = udpReceivedFinalIndex c"
  "udpSentBufferSize (tcp_discard c) = udpSentBufferSize c"
  "udpPacketsToSendCount (tcp_discard c) = udpPacketsToSendCount c"
  "remainConfirmationResendCount (tcp_discard c) = remainConfirmationResendCount c"
  "remainByeByeResendCount (tcp_discard c) = remainByeByeResendCount c"
  "tcpReceivedData (tcp_discard c) = tcpReceivedData c"
  "udpSentPackets (tcp_discard c) = udpSentPackets c"
  "udpConfirmationPackets (tcp_discard c) = udpConfirmationPackets c"
  "udpSendIntervalUs (tcp_discard c) = udpSendIntervalUs c"
  "udpSendMeasureIndex (tcp_discard c) = udpSendMeasureIndex c"
  "udpSendMeasures (tcp_discard c) = udpSendMeasures c"
  "log_built (tcp_discard c) = log_built c"
  "fault (tcp_discard c) = fault c"
  "deleted (tcp_discard c) = deleted c"
  by (simp_all add: tcp_discard_def)

lemma tcp_close_frame [simp]:
  "udpSocket (tcp_close os err c) = udpSocket c"
  "log_tcpIn (tcp_close os err c) = log_tcpIn c"
  "log_tcpOut (tcp_close os err c) = log_tcpOut c"
  "log_udpOut (tcp_close os err c) = log_udpOut c"
  "par (tcp_close os err c) = par c"
  "udpConnected (tcp_close os err c) = udpConnected c"
  "udpReceivedMasterIndex (tcp_close os err c) = udpReceivedMasterIndex c"
  "udpConfirmedMasterIndex (tcp_close os err c) = udpConfirmedMasterIndex c"
  "udpReceivedFinalIndex (tcp_close os err c) = udpReceivedFinalIndex c"
  "remainConfirmationResendCount (tcp_close os err c) = remainConfirmationResendCount c"
  "remainByeByeResendCount (tcp_close os err c) = remainByeByeResendCount c"
  "udpConfirmationPackets (tcp_close os err c) = udpConfirmationPackets c"
  "udpSendIntervalUs (tcp_close os err c) = udpSendIntervalUs c"
  "udpSendMeasureIndex (tcp_close os err c) = udpSendMeasureIndex c"
  "udpSendMeasures (tcp_close os err c) = udpSendMeasures c"
  "deleted (tcp_close os err c) = deleted c"
  by (simp_all add: tcp_close_def Let_def split_def)

lemma tcp_close_disconnected:
  "\<not> udpConnected c \<Longrightarrow> tcp_close os err c =
     (if tcpConnected c
      then ev_in os EvClose 0 (ev_off EvTcpWrite (ev_off EvTcpRead (c\<lparr>tcpConnected := False\<rparr>))
             \<lparr>tcpSocket := sock_close False (tcpSocket c)\<rparr>)
      else c)"
  by (simp add: tcp_close_def Let_def)

lemma udp_close_frame [simp]:
  "udpSocket (udp_close os c) = udpSocket c"
  "log_tcpIn (udp_close os c) = log_tcpIn c"
  "log_tcpOut (udp_close os c) = log_tcpOut c"
  "log_udpOut (udp_close os c) = log_udpOut c"
  "par (udp_close os c) = par c"
  "tcpNextSendIndex (udp_close os c) = tcpNextSendIndex c"
  "udpNextSendIndex (udp_close os c) = udpNextSendIndex c"
  "udpReceivedMasterIndex (udp_close os c) = udpReceivedMasterIndex c"
  "udpConfirmedMasterIndex (udp_close os c) = udpConfirmedMasterIndex c"
  "udpReceivedFinalIndex (udp_close os c) = udpReceivedFinalIndex c"
  "udpReceiveBufferSize (udp_close os c) = udpReceiveBufferSize c"
  "udpPacketsToSendCount (udp_close os c) = udpPacketsToSendCount c"
  "remainConfirmationResendCount (udp_close os c) = remainConfirmationResendCount c"
  "remainByeByeResendCount (udp_close os c) = remainByeByeResendCount c"
  "udpReceivedPackets (udp_close os c) = udpReceivedPackets c"
  "udpSendIntervalUs (udp_close os c) = udpSendIntervalUs c"
  "udpSendMeasureIndex (udp_close os c) = udpSendMeasureIndex c"
  "udpSendMeasures (udp_close os c) = udpSendMeasures c"
  "log_built (udp_close os c) = log_built c"
  "deleted (udp_close os c) = deleted c"
  by (simp_all add: udp_close_def Let_def tcp_close_disconnected)

lemma write_again_frame [simp]:
  "tcpSocket (write_again c) = tcpSocket c"
  "udpSocket (write_again c) = udpSocket c"
  "log_tcpIn (write_again c) = log_tcpIn c"
  "log_tcpOut (write_again c) = log_tcpOut c"
  "log_udpOut (write_again c) = log_udpOut c"
  "par (write_again c) = par c"
  "tcpConnected (write_again c) = tcpConnected c"
  "udpConnected (write_again c) = udpConnected c"
  "tcpNextSendIndex (write_again c) = tcpNextSendIndex c"
  "udpNextSendIndex (write_again c) = udpNextSendIndex c"
  "udpReceivedMasterIndex (write_again c) = udpReceivedMasterIndex c"
  "udpConfirmedMasterIndex (write_again c) = udpConfirmedMasterIndex c"
  "udpReceivedFinalIndex (write_again c) = udpReceivedFinalIndex c"
  "udpSentBufferSize (write_again c) = udpSentBufferSize c"
  "udpReceiveBufferSize (write_again c) = udpReceiveBufferSize c"
  "udpPacketsToSendCount (write_again c) = udpPacketsToSendCount c"
  "remainConfirmationResendCount (write_again c) = remainConfirmationResendCount c"
  "remainByeByeResendCount (write_again c) = remainByeByeResendCount c"
  "tcpReceivedData (write_again c) = tcpReceivedData c"
  "udpSentPackets (write_again c) = udpSentPackets c"
  "udpConfirmationPackets (write_again c) = udpConfirmationPackets c"
  "udpReceivedPackets (write_again c) = udpReceivedPackets c"
  "udpSendIntervalUs (write_again c) = udpSendIntervalUs c"
  "udpSendMeasureIndex (write_again c) = udpSendMeasureIndex c"
  "udpSendMeasures (write_again c) = udpSendMeasures c"
  "log_built (write_again c) = log_built c"
  "fault (write_again c) = fault c"
  "deleted (write_again c) = deleted c"
  by (simp_all add: write_again_def)

lemma send_datagram_frame [simp]:
  "tcpSocket (snd (send_datagram os p c)) = tcpSocket c"
  "log_tcpIn (snd (send_datagram os p c)) = log_tcpIn c"
  "log_tcpOut (snd (send_datagram os p c)) = log_tcpOut c"
  "par (snd (send_datagram os p c)) = par c"
  "tcpConnected (snd (send_datagram os p c)) = tcpConnected c"
  "udpConnected (snd (send_datagram os p c)) = udpConnected c"
  "tcpNextSendIndex (snd (send_datagram os p c)) = tcpNextSendIndex c"
  "udpNextSendIndex (snd (send_datagram os p c)) = udpNextSendIndex c"
  "udpReceivedMasterIndex (snd (send_datagram os p c)) = udpReceivedMasterIndex c"
  "udpConfirmedMasterIndex (snd (send_datagram os p c)) = udpConfirmedMasterIndex c"
  "udpReceivedFinalIndex (snd (send_datagram os p c)) = udpReceivedFinalIndex c"
  "udpSentBufferSize (snd (send_datagram os p c)) = udpSentBufferSize c"
  "udpReceiveBufferSize (snd (send_datagram os p c)) = udpReceiveBufferSize c"
  "udpPacketsToSendCount (snd (send_datagram os p c)) = udpPacketsToSendCount c"
  "remainConfirmationResendCount (snd (send_datagram os p c)) = remainConfirmationResendCount c"
  "remainByeByeResendCount (snd (send_datagram os p c)) = remainByeByeResendCount c"
  "tcpReceivedData (snd (send_datagram os p c)) = tcpReceivedData c"
  "udpSentPackets (snd (send_datagram os p c)) = udpSentPackets c"
  "udpConfirmationPackets (snd (send_datagram os p c)) = udpConfirmationPackets c"
  "udpReceivedPackets (snd (send_datagram os p c)) = udpReceivedPackets c"
  "udpSendIntervalUs (snd (send_datagram os p c)) = udpSendIntervalUs c"
  "udpSendMeasureIndex (snd (send_datagram os p c)) = udpSendMeasureIndex c"
  "udpSendMeasures (snd (send_datagram os p c)) = udpSendMeasures c"
  "log_built (snd (send_datagram os p c)) = log_built c"
  "fault (snd (send_datagram os p c)) = fault c"
  "deleted (snd (send_datagram os p c)) = deleted c"
  by (simp_all add: send_datagram_def Let_def split_def)

lemma write_confirmation_frame [simp]:
  "log_tcpIn (write_confirmation os t p c) = log_tcpIn c"
  "log_tcpOut (write_confirmation os t p c) = log_tcpOut c"
  "par (write_confirmation os t p c) = par c"
  "tcpNextSendIndex (write_confirmation os t p c) = tcpNextSendIndex c"
  "udpNextSendIndex (write_confirmation os t p c) = udpNextSendIndex c"
  "udpReceivedMasterIndex (write_confirmation os t p c) = udpReceivedMasterIndex c"
  "udpConfirmedMasterIndex (write_confirmation os t p c) = udpConfirmedMasterIndex c"
  "udpReceivedFinalIndex (write_confirmation os t p c) = udpReceivedFinalIndex c"
  "udpReceiveBufferSize (write_confirmation os t p c) = udpReceiveBufferSize c"
  "udpPacketsToSendCount (write_confirmation os t p c) = udpPacketsToSendCount c"
  "remainConfirmationResendCount (write_confirmation os t p c) = remainConfirmationResendCount c"
  "remainByeByeResendCount (write_confirmation os t p c) = remainByeByeResendCount c"
  "udpReceivedPackets (write_confirmation os t p c) = udpReceivedPackets c"
  "udpSendIntervalUs (write_confirmation os t p c) = udpSendIntervalUs c"
  "udpSendMeasureIndex (write_confirmation os t p c) = udpSendMeasureIndex c"
  "udpSendMeasures (write_confirmation os t p c) = udpSendMeasures c"
  "log_built (write_confirmation os t p c) = log_built c"
  "deleted (write_confirmation os t p c) = deleted c"
  by (simp_all add: write_confirmation_def Let_def split_def)

lemma write_sent_packet_frame [simp]:
  "log_tcpIn (write_sent_packet os t k p c) = log_tcpIn c"
  "log_tcpOut (write_sent_packet os t k p c) = log_tcpOut c"
  "par (write_sent_packet os t k p c) = par c"
  "tcpNextSendIndex (write_sent_packet os t k p c) = tcpNextSendIndex c"
  "udpNextSendIndex (write_sent_packet os t k p c) = udpNextSendIndex c"
  "udpReceivedMasterIndex (write_sent_packet os t k p c) = udpReceivedMasterIndex c"
  "udpConfirmedMasterIndex (write_sent_packet os t k p c) = udpConfirmedMasterIndex c"
  "udpReceivedFinalIndex (write_sent_packet os t k p c) = udpReceivedFinalIndex c"
  "udpReceiveBufferSize (write_sent_packet os t k p c) = udpReceiveBufferSize c"
  "remainConfirmationResendCount (write_sent_packet os t k p c) = remainConfirmationResendCount c"
  "remainByeByeResendCount (write_sent_packet os t k p c) = remainByeByeResendCount c"
  "udpReceivedPackets (write_sent_packet os t k p c) = udpReceivedPackets c"
  "udpSendIntervalUs (write_sent_packet os t k p c) = udpSendIntervalUs c"
  "log_built (write_sent_packet os t k p c) = log_built c"
  "deleted (write_sent_packet os t k p c) = deleted c"
  by (simp_all add: write_sent_packet_def Let_def split_def)

lemma udp_write_frame [simp]:
  "log_tcpIn (udp_write os t c) = log_tcpIn c"
  "log_tcpOut (udp_write os t c) = log_tcpOut c"
  "par (udp_write os t c) = par c"
  "tcpNextSendIndex (udp_write os t c) = tcpNextSendIndex c"
  "udpNextSendIndex (udp_write os t c) = udpNextSendIndex c"
  "udpReceivedMasterIndex (udp_write os t c) = udpReceivedMasterIndex c"
  "udpConfirmedMasterIndex (udp_write os t c) = udpConfirmedMasterIndex c"
  "udpReceivedFinalIndex (udp_write os t c) = udpReceivedFinalIndex c"
  "udpReceiveBufferSize (udp_write os t c) = udpReceiveBufferSize c"
  "remainConfirmationResendCount (udp_write os t c) = remainConfirmationResendCount c"
  "remainByeByeResendCount (udp_write os t c) = remainByeByeResendCount c"
  "udpReceivedPackets (udp_write os t c) = udpReceivedPackets c"
  "udpSendIntervalUs (udp_write os t c) = udpSendIntervalUs c"
  "log_built (udp_write os t c) = log_built c"
  "deleted (udp_write os t c) = deleted c"
  by (simp_all add: udp_write_def split: list.split option.split)

lemma fold_changed_frame_aux:
  "tcpSocket (fold (\<lambda>p. on_sent_buffer_changed os (g p)) ps c) = tcpSocket c \<and>
   udpSocket (fold (\<lambda>p. on_sent_buffer_changed os (g p)) ps c) = udpSocket c \<and>
   log_tcpIn (fold (\<lambda>p. on_sent_buffer_changed os (g p)) ps c) = log_tcpIn c \<and>
   log_tcpOut (fold (\<lambda>p. on_sent_buffer_changed os (g p)) ps c) = log_tcpOut c \<and>
   log_udpOut (fold (\<lambda>p. on_sent_buffer_changed os (g p)) ps c) = log_udpOut c \<and>
   par (fold (\<lambda>p. on_sent_buffer_changed os (g p)) ps c) = par c \<and>
   tcpConnected (fold (\<lambda>p. on_sent_buffer_changed os (g p)) ps c) = tcpConnected c \<and>
   udpConnected (fold (\<lambda>p. on_sent_buffer_changed os (g p)) ps c) = udpConnected c \<and>
   tcpNextSendIndex (fold (\<lambda>p. on_sent_buffer_changed os (g p)) ps c) = tcpNextSendIndex c \<and>
   udpNextSendIndex (fold (\<lambda>p. on_sent_buffer_changed os (g p)) ps c) = udpNextSendIndex c \<and>
   udpReceivedMasterIndex (fold (\<lambda>p. on_sent_buffer_changed os (g p)) ps c) = udpReceivedMasterIndex c \<and>
   udpConfirmedMasterIndex (fold (\<lambda>p. on_sent_buffer_changed os (g p)) ps c) = udpConfirmedMasterIndex c \<and>
   udpReceivedFinalIndex (fold (\<lambda>p. on_sent_buffer_changed os (g p)) ps c) = udpReceivedFinalIndex c \<and>
   udpReceiveBufferSize (fold (\<lambda>p. on_sent_buffer_changed os (g p)) ps c) = udpReceiveBufferSize c \<and>
   udpPacketsToSendCount (fold (\<lambda>p. on_sent_buffer_changed os (g p)) ps c) = udpPacketsToSendCount c \<and>
   remainConfirmationResendCount (fold (\<lambda>p. on_sent_buffer_changed os (g p)) ps c) = remainConfirmationResendCount c \<and>
   remainByeByeResendCount (fold (\<lambda>p. on_sent_buffer_changed os (g p)) ps c) = remainByeByeResendCount c \<and>
   tcpReceivedData (fold (\<lambda>p. on_sent_buffer_changed os (g p)) ps c) = tcpReceivedData c \<and>
   udpSentPackets (fold (\<lambda>p. on_sent_buffer_changed os (g p)) ps c) = udpSentPackets c \<and>
   udpConfirmationPackets (fold (\<lambda>p. on_sent_buffer_changed os (g p)) ps c) = udpConfirmationPackets c \<and>
   udpReceivedPackets (fold (\<lambda>p. on_sent_buffer_changed os (g p)) ps c) = udpReceivedPackets c \<and>
   udpSendIntervalUs (fold (\<lambda>p. on_sent_buffer_changed os (g p)) ps c) = udpSendIntervalUs c \<and>
   udpSendMeasureIndex (fold (\<lambda>p. on_sent_buffer_changed os (g p)) ps c) = udpSendMeasureIndex c \<and>
   udpSendMeasures (fold (\<lambda>p. on_sent_buffer_changed os (g p)) ps c) = udpSendMeasures c \<and>
   log_built (fold (\<lambda>p. on_sent_buffer_changed os (g p)) ps c) = log_built c \<and>
   deleted (fold (\<lambda>p. on_sent_buffer_changed os (g p)) ps c) = deleted c"
  by (induction ps arbitrary: c) simp_all

lemma fold_changed_frame [simp]:
  "tcpSocket (fold (\<lambda>p. on_sent_buffer_changed os (g p)) ps c) = tcpSocket c"
  "udpSocket (fold (\<lambda>p. on_sent_buffer_changed os (g p)) ps c) = udpSocket c"
  "log_tcpIn (fold (\<lambda>p. on_sent_buffer_changed os (g p)) ps c) = log_tcpIn c"
  "log_tcpOut (fold (\<lambda>p. on_sent_buffer_changed os (g p)) ps c) = log_tcpOut c"
  "log_udpOut (fold (\<lambda>p. on_sent_buffer_changed os (g p)) ps c) = log_udpOut c"
  "par (fold (\<lambda>p. on_sent_buffer_changed os (g p)) ps c) = par c"
  "tcpConnected (fold (\<lambda>p. on_sent_buffer_changed os (g p)) ps c) = tcpConnected c"
  "udpConnected (fold (\<lambda>p. on_sent_buffer_changed os (g p)) ps c) = udpConnected c"
  "tcpNextSendIndex (fold (\<lambda>p. on_sent_buffer_changed os (g p)) ps c) = tcpNextSendIndex c"
  "udpNextSendIndex (fold (\<lambda>p. on_sent_buffer_changed os (g p)) ps c) = udpNextSendIndex c"
  "udpReceivedMasterIndex (fold (\<lambda>p. on_sent_buffer_changed os (g p)) ps c) = udpReceivedMasterIndex c"
  "udpConfirmedMasterIndex (fold (\<lambda>p. on_sent_buffer_changed os (g p)) ps c) = udpConfirmedMasterIndex c"
  "udpReceivedFinalIndex (fold (\<lambda>p. on_sent_buffer_changed os (g p)) ps c) = udpReceivedFinalIndex c"
  "udpReceiveBufferSize (fold (\<lambda>p. on_sent_buffer_changed os (g p)) ps c) = udpReceiveBufferSize c"
  "udpPacketsToSendCount (fold (\<lambda>p. on_sent_buffer_changed os (g p)) ps c) = udpPacketsToSendCount c"
  "remainConfirmationResendCount (fold (\<lambda>p. on_sent_buffer_changed os (g p)) ps c) = remainConfirmationResendCount c"
  "remainByeByeResendCount (fold (\<lambda>p. on_sent_buffer_changed os (g p)) ps c) = remainByeByeResendCount c"
  "tcpReceivedData (fold (\<lambda>p. on_sent_buffer_changed os (g p)) ps c) = tcpReceivedData c"
  "udpSentPackets (fold (\<lambda>p. on_sent_buffer_changed os (g p)) ps c) = udpSentPackets c"
  "udpConfirmationPackets (fold (\<lambda>p. on_sent_buffer_changed os (g p)) ps c) = udpConfirmationPackets c"
  "udpReceivedPackets (fold (\<lambda>p. on_sent_buffer_changed os (g p)) ps c) = udpReceivedPackets c"
  "udpSendIntervalUs (fold (\<lambda>p. on_sent_buffer_changed os (g p)) ps c) = udpSendIntervalUs c"
  "udpSendMeasureIndex (fold (\<lambda>p. on_sent_buffer_changed os (g p)) ps c) = udpSendMeasureIndex c"
  "udpSendMeasures (fold (\<lambda>p. on_sent_buffer_changed os (g p)) ps c) = udpSendMeasures c"
  "log_built (fold (\<lambda>p. on_sent_buffer_changed os (g p)) ps c) = log_built c"
  "deleted (fold (\<lambda>p. on_sent_buffer_changed os (g p)) ps c) = deleted c"
  using fold_changed_frame_aux [of os g ps c] by simp_all

lemma drop_confirmations_frame [simp]:
  "tcpSocket (drop_confirmations os c) = tcpSocket c"
  "udpSocket (drop_confirmations os c) = udpSocket c"
  "log_tcpIn (drop_confirmations os c) = log_tcpIn c"
  "log_tcpOut (drop_confirmations os c) = log_tcpOut c"
  "log_udpOut (drop_confirmations os c) = log_udpOut c"
  "par (drop_confirmations os c) = par c"
  "tcpConnected (drop_confirmations os c) = tcpConnected c"
  "udpConnected (drop_confirmations os c) = udpConnected c"
  "tcpNextSendIndex (drop_confirmations os c) = tcpNextSendIndex c"
  "udpNextSendIndex (drop_confirmations os c) = udpNextSendIndex c"
  "udpReceivedMasterIndex (drop_confirmations os c) = udpReceivedMasterIndex c"
  "udpConfirmedMasterIndex (drop_confirmations os c) = udpConfirmedMasterIndex c"
  "udpReceivedFinalIndex (drop_confirmations os c) = udpReceivedFinalIndex c"
  "udpReceiveBufferSize (drop_confirmations os c) = udpReceiveBufferSize c"
  "udpPacketsToSendCount (drop_confirmations os c) = udpPacketsToSendCount c"
  "remainConfirmationResendCount (drop_confirmations os c) = remainConfirmationResendCount c"
  "remainByeByeResendCount (drop_confirmations os c) = remainByeByeResendCount c"
  "tcpReceivedData (drop_confirmations os c) = tcpReceivedData c"
  "udpSentPackets (drop_confirmations os c) = udpSentPackets c"
  "udpReceivedPackets (drop_confirmations os c) = udpReceivedPackets c"
  "udpSendIntervalUs (drop_confirmations os c) = udpSendIntervalUs c"
  "udpSendMeasureIndex (drop_confirmations os c) = udpSendMeasureIndex c"
  "udpSendMeasures (drop_confirmations os c) = udpSendMeasures c"
  "log_built (drop_confirmations os c) = log_built c"
  "deleted (drop_confirmations os c) = deleted c"
  by (simp_all add: drop_confirmations_def Let_def)

lemma confirm_loop_frame_aux:
  "tcpSocket (snd (snd (confirm_loop os psize master ks prev buf sz c))) = tcpSocket c \<and>
   udpSocket (snd (snd (confirm_loop os psize master ks prev buf sz c))) = udpSocket c \<and>
   log_tcpIn (snd (snd (confirm_loop os psize master ks prev buf sz c))) = log_tcpIn c \<and>
   log_tcpOut (snd (snd (confirm_loop os psize master ks prev buf sz c))) = log_tcpOut c \<and>
   log_udpOut (snd (snd (confirm_loop os psize master ks prev buf sz c))) = log_udpOut c \<and>
   par (snd (snd (confirm_loop os psize master ks prev buf sz c))) = par c \<and>
   tcpConnected (snd (snd (confirm_loop os psize master ks prev buf sz c))) = tcpConnected c \<and>
   udpConnected (snd (snd (confirm_loop os psize master ks prev buf sz c))) = udpConnected c \<and>
   tcpNextSendIndex (snd (snd (confirm_loop os psize master ks prev buf sz c))) = tcpNextSendIndex c \<and>
   udpNextSendIndex (snd (snd (confirm_loop os psize master ks prev buf sz c))) = udpNextSendIndex c \<and>
   udpReceivedMasterIndex (snd (snd (confirm_loop os psize master ks prev buf sz c))) = udpReceivedMasterIndex c \<and>
   udpConfirmedMasterIndex (snd (snd (confirm_loop os psize master ks prev buf sz c))) = udpConfirmedMasterIndex c \<and>
   udpReceivedFinalIndex (snd (snd (confirm_loop os psize master ks prev buf sz c))) = udpReceivedFinalIndex c \<and>
   udpReceiveBufferSize (snd (snd (confirm_loop os psize master ks prev buf sz c))) = udpReceiveBufferSize c \<and>
   udpPacketsToSendCount (snd (snd (confirm_loop os psize master ks prev buf sz c))) = udpPacketsToSendCount c \<and>
   remainConfirmationResendCount (snd (snd (confirm_loop os psize master ks prev buf sz c))) = remainConfirmationResendCount c \<and>
   remainByeByeResendCount (snd (snd (confirm_loop os psize master ks prev buf sz c))) = remainByeByeResendCount c \<and>
   tcpReceivedData (snd (snd (confirm_loop os psize master ks prev buf sz c))) = tcpReceivedData c \<and>
   udpSentPackets (snd (snd (confirm_loop os psize master ks prev buf sz c))) = udpSentPackets c \<and>
   udpReceivedPackets (snd (snd (confirm_loop os psize master ks prev buf sz c))) = udpReceivedPackets c \<and>
   udpSendIntervalUs (snd (snd (confirm_loop os psize master ks prev buf sz c))) = udpSendIntervalUs c \<and>
   udpSendMeasureIndex (snd (snd (confirm_loop os psize master ks prev buf sz c))) = udpSendMeasureIndex c \<and>
   udpSendMeasures (snd (snd (confirm_loop os psize master ks prev buf sz c))) = udpSendMeasures c \<and>
   log_built (snd (snd (confirm_loop os psize master ks prev buf sz c))) = log_built c \<and>
   deleted (snd (snd (confirm_loop os psize master ks prev buf sz c))) = deleted c"
  by (induction os psize master ks prev buf sz c rule: confirm_loop.induct)
    (simp_all add: Let_def split: prod.split option.split)

lemma confirm_loop_frame [simp]:
  "tcpSocket (snd (snd (confirm_loop os psize master ks prev buf sz c))) = tcpSocket c"
  "udpSocket (snd (snd (confirm_loop os psize master ks prev buf sz c))) = udpSocket c"
  "log_tcpIn (snd (snd (confirm_loop os psize master ks prev buf sz c))) = log_tcpIn c"
  "log_tcpOut (snd (snd (confirm_loop os psize master ks prev buf sz c))) = log_tcpOut c"
  "log_udpOut (snd (snd (confirm_loop os psize master ks prev buf sz c))) = log_udpOut c"
  "par (snd (snd (confirm_loop os psize master ks prev buf sz c))) = par c"
  "tcpConnected (snd (snd (confirm_loop os psize master ks prev buf sz c))) = tcpConnected c"
  "udpConnected (snd (snd (confirm_loop os psize master ks prev buf sz c))) = udpConnected c"
  "tcpNextSendIndex (snd (snd (confirm_loop os psize master ks prev buf sz c))) = tcpNextSendIndex c"
  "udpNextSendIndex (snd (snd (confirm_loop os psize master ks prev buf sz c))) = udpNextSendIndex c"
  "udpReceivedMasterIndex (snd (snd (confirm_loop os psize master ks prev buf sz c))) = udpReceivedMasterIndex c"
  "udpConfirmedMasterIndex (snd (snd (confirm_loop os psize master ks prev buf sz c))) = udpConfirmedMasterIndex c"
  "udpReceivedFinalIndex (snd (snd (confirm_loop os psize master ks prev buf sz c))) = udpReceivedFinalIndex c"
  "udpReceiveBufferSize (snd (snd (confirm_loop os psize master ks prev buf sz c))) = udpReceiveBufferSize c"
  "udpPacketsToSendCount (snd (snd (confirm_loop os psize master ks prev buf sz c))) = udpPacketsToSendCount c"
  "remainConfirmationResendCount (snd (snd (confirm_loop os psize master ks prev buf sz c))) = remainConfirmationResendCount c"
  "remainByeByeResendCount (snd (snd (confirm_loop os psize master ks prev buf sz c))) = remainByeByeResendCount c"
  "tcpReceivedData (snd (snd (confirm_loop os psize master ks prev buf sz c))) = tcpReceivedData c"
  "udpSentPackets (snd (snd (confirm_loop os psize master ks prev buf sz c))) = udpSentPackets c"
  "udpReceivedPackets (snd (snd (confirm_loop os psize master ks prev buf sz c))) = udpReceivedPackets c"
  "udpSendIntervalUs (snd (snd (confirm_loop os psize master ks prev buf sz c))) = udpSendIntervalUs c"
  "udpSendMeasureIndex (snd (snd (confirm_loop os psize master ks prev buf sz c))) = udpSendMeasureIndex c"
  "udpSendMeasures (snd (snd (confirm_loop os psize master ks prev buf sz c))) = udpSendMeasures c"
  "log_built (snd (snd (confirm_loop os psize master ks prev buf sz c))) = log_built c"
  "deleted (snd (snd (confirm_loop os psize master ks prev buf sz c))) = deleted c"
  using confirm_loop_frame_aux [of os psize master ks prev buf sz c] by simp_all

lemma build_confirmations_frame [simp]:
  "tcpSocket (build_confirmations os c) = tcpSocket c"
  "udpSocket (build_confirmations os c) = udpSocket c"
  "log_tcpIn (build_confirmations os c) = log_tcpIn c"
  "log_tcpOut (build_confirmations os c) = log_tcpOut c"
  "log_udpOut (build_confirmations os c) = log_udpOut c"
  "par (build_confirmations os c) = par c"
  "tcpConnected (build_confirmations os c) = tcpConnected c"
  "udpConnected (build_confirmations os c) = udpConnected c"
  "tcpNextSendIndex (build_confirmations os c) = tcpNextSendIndex c"
  "udpNextSendIndex (build_confirmations os c) = udpNextSendIndex c"
  "udpReceivedMasterIndex (build_confirmations os c) = udpReceivedMasterIndex c"
  "udpReceivedFinalIndex (build_confirmations os c) = udpReceivedFinalIndex c"
  "udpPacketsToSendCount (build_confirmations os c) = udpPacketsToSendCount c"
  "remainByeByeResendCount (build_confirmations os c) = remainByeByeResendCount c"
  "tcpReceivedData (build_confirmations os c) = tcpReceivedData c"
  "udpSentPackets (build_confirmations os c) = udpSentPackets c"
  "udpSendIntervalUs (build_confirmations os c) = udpSendIntervalUs c"
  "udpSendMeasureIndex (build_confirmations os c) = udpSendMeasureIndex c"
  "udpSendMeasures (build_confirmations os c) = udpSendMeasures c"
  "log_built (build_confirmations os c) = log_built c"
  "deleted (build_confirmations os c) = deleted c"
  by (simp_all add: build_confirmations_def Let_def split_def)

lemma build_bye_bye_frame [simp]:
  "tcpSocket (build_bye_bye os c) = tcpSocket c"
  "udpSocket (build_bye_bye os c) = udpSocket c"
  "log_tcpIn (build_bye_bye os c) = log_tcpIn c"
  "log_tcpOut (build_bye_bye os c) = log_tcpOut c"
  "log_udpOut (build_bye_bye os c) = log_udpOut c"
  "par (build_bye_bye os c) = par c"
  "tcpConnected (build_bye_bye os c) = tcpConnected c"
  "udpConnected (build_bye_bye os c) = udpConnected c"
  "tcpNextSendIndex (build_bye_bye os c) = tcpNextSendIndex c"
  "udpNextSendIndex (build_bye_bye os c) = udpNextSendIndex c"
  "udpReceivedMasterIndex (build_bye_bye os c) = udpReceivedMasterIndex c"
  "udpConfirmedMasterIndex (build_bye_bye os c) = udpConfirmedMasterIndex c"
  "udpReceivedFinalIndex (build_bye_bye os c) = udpReceivedFinalIndex c"
  "udpReceiveBufferSize (build_bye_bye os c) = udpReceiveBufferSize c"
  "udpPacketsToSendCount (build_bye_bye os c) = udpPacketsToSendCount c"
  "remainConfirmationResendCount (build_bye_bye os c) = remainConfirmationResendCount c"
  "tcpReceivedData (build_bye_bye os c) = tcpReceivedData c"
  "udpSentPackets (build_bye_bye os c) = udpSentPackets c"
  "udpReceivedPackets (build_bye_bye os c) = udpReceivedPackets c"
  "udpSendIntervalUs (build_bye_bye os c) = udpSendIntervalUs c"
  "udpSendMeasureIndex (build_bye_bye os c) = udpSendMeasureIndex c"
  "udpSendMeasures (build_bye_bye os c) = udpSendMeasures c"
  "log_built (build_bye_bye os c) = log_built c"
  "deleted (build_bye_bye os c) = deleted c"
  by (simp_all add: build_bye_bye_def Let_def)

lemma resend_loop_frame_aux:
  "udpSocket (resend_loop os t ks c) = udpSocket c \<and>
   log_tcpIn (resend_loop os t ks c) = log_tcpIn c \<and>
   log_tcpOut (resend_loop os t ks c) = log_tcpOut c \<and>
   log_udpOut (resend_loop os t ks c) = log_udpOut c \<and>
   par (resend_loop os t ks c) = par c \<and>
   tcpNextSendIndex (resend_loop os t ks c) = tcpNextSendIndex c \<and>
   udpNextSendIndex (resend_loop os t ks c) = udpNextSendIndex c \<and>
   udpReceivedMasterIndex (resend_loop os t ks c) = udpReceivedMasterIndex c \<and>
   udpConfirmedMasterIndex (resend_loop os t ks c) = udpConfirmedMasterIndex c \<and>
   udpReceivedFinalIndex (resend_loop os t ks c) = udpReceivedFinalIndex c \<and>
   udpReceiveBufferSize (resend_loop os t ks c) = udpReceiveBufferSize c \<and>
   remainConfirmationResendCount (resend_loop os t ks c) = remainConfirmationResendCount c \<and>
   remainByeByeResendCount (resend_loop os t ks c) = remainByeByeResendCount c \<and>
   udpReceivedPackets (resend_loop os t ks c) = udpReceivedPackets c \<and>
   udpSendMeasureIndex (resend_loop os t ks c) = udpSendMeasureIndex c \<and>
   log_built (resend_loop os t ks c) = log_built c \<and>
   deleted (resend_loop os t ks c) = deleted c"
  by (induction ks arbitrary: c) (simp_all add: Let_def split: option.split)

lemma resend_loop_frame [simp]:
  "udpSocket (resend_loop os t ks c) = udpSocket c"
  "log_tcpIn (resend_loop os t ks c) = log_tcpIn c"
  "log_tcpOut (resend_loop os t ks c) = log_tcpOut c"
  "log_udpOut (resend_loop os t ks c) = log_udpOut c"
  "par (resend_loop os t ks c) = par c"
  "tcpNextSendIndex (resend_loop os t ks c) = tcpNextSendIndex c"
  "udpNextSendIndex (resend_loop os t ks c) = udpNextSendIndex c"
  "udpReceivedMasterIndex (resend_loop os t ks c) = udpReceivedMasterIndex c"
  "udpConfirmedMasterIndex (resend_loop os t ks c) = udpConfirmedMasterIndex c"
  "udpReceivedFinalIndex (resend_loop os t ks c) = udpReceivedFinalIndex c"
  "udpReceiveBufferSize (resend_loop os t ks c) = udpReceiveBufferSize c"
  "remainConfirmationResendCount (resend_loop os t ks c) = remainConfirmationResendCount c"
  "remainByeByeResendCount (resend_loop os t ks c) = remainByeByeResendCount c"
  "udpReceivedPackets (resend_loop os t ks c) = udpReceivedPackets c"
  "udpSendMeasureIndex (resend_loop os t ks c) = udpSendMeasureIndex c"
  "log_built (resend_loop os t ks c) = log_built c"
  "deleted (resend_loop os t ks c) = deleted c"
  using resend_loop_frame_aux [of os t ks c] by simp_all

lemma udp_resend_frame [simp]:
  "udpSocket (udp_resend os c) = udpSocket c"
  "log_tcpIn (udp_resend os c) = log_tcpIn c"
  "log_tcpOut (udp_resend os c) = log_tcpOut c"
  "log_udpOut (udp_resend os c) = log_udpOut c"
  "par (udp_resend os c) = par c"
  "tcpNextSendIndex (udp_resend os c) = tcpNextSendIndex c"
  "udpNextSendIndex (udp_resend os c) = udpNextSendIndex c"
  "udpReceivedMasterIndex (udp_resend os c) = udpReceivedMasterIndex c"
  "udpConfirmedMasterIndex (udp_resend os c) = udpConfirmedMasterIndex c"
  "udpReceivedFinalIndex (udp_resend os c) = udpReceivedFinalIndex c"
  "udpReceiveBufferSize (udp_resend os c) = udpReceiveBufferSize c"
  "remainConfirmationResendCount (udp_resend os c) = remainConfirmationResendCount c"
  "remainByeByeResendCount (udp_resend os c) = remainByeByeResendCount c"
  "udpReceivedPackets (udp_resend os c) = udpReceivedPackets c"
  "udpSendMeasureIndex (udp_resend os c) = udpSendMeasureIndex c"
  "log_built (udp_resend os c) = log_built c"
  "deleted (udp_resend os c) = deleted c"
  by (simp_all add: udp_resend_def)

lemma confirm_packet_frame [simp]:
  "tcpSocket (confirm_packet os k c) = tcpSocket c"
  "udpSocket (confirm_packet os k c) = udpSocket c"
  "log_tcpIn (confirm_packet os k c) = log_tcpIn c"
  "log_tcpOut (confirm_packet os k c) = log_tcpOut c"
  "log_udpOut (confirm_packet os k c) = log_udpOut c"
  "par (confirm_packet os k c) = par c"
  "tcpConnected (confirm_packet os k c) = tcpConnected c"
  "udpConnected (confirm_packet os k c) = udpConnected c"
  "tcpNextSendIndex (confirm_packet os k c) = tcpNextSendIndex c"
  "udpNextSendIndex (confirm_packet os k c) = udpNextSendIndex c"
  "udpReceivedMasterIndex (confirm_packet os k c) = udpReceivedMasterIndex c"
  "udpConfirmedMasterIndex (confirm_packet os k c) = udpConfirmedMasterIndex c"
  "udpReceivedFinalIndex (confirm_packet os k c) = udpReceivedFinalIndex c"
  "udpReceiveBufferSize (confirm_packet os k c) = udpReceiveBufferSize c"
  "remainConfirmationResendCount (confirm_packet os k c) = remainConfirmationResendCount c"
  "remainByeByeResendCount (confirm_packet os k c) = remainByeByeResendCount c"
  "tcpReceivedData (confirm_packet os k c) = tcpReceivedData c"
  "udpConfirmationPackets (confirm_packet os k c) = udpConfirmationPackets c"
  "udpReceivedPackets (confirm_packet os k c) = udpReceivedPackets c"
  "udpSendMeasureIndex (confirm_packet os k c) = udpSendMeasureIndex c"
  "log_built (confirm_packet os k c) = log_built c"
  "deleted (confirm_packet os k c) = deleted c"
  by (simp_all add: confirm_packet_def Let_def split: option.split)

lemma fold_confirm_frame_aux:
  "tcpSocket (fold (confirm_packet os) ks c) = tcpSocket c \<and>
   udpSocket (fold (confirm_packet os) ks c) = udpSocket c \<and>
   log_tcpIn (fold (confirm_packet os) ks c) = log_tcpIn c \<and>
   log_tcpOut (fold (confirm_packet os) ks c) = log_tcpOut c \<and>
   log_udpOut (fold (confirm_packet os) ks c) = log_udpOut c \<and>
   par (fold (confirm_packet os) ks c) = par c \<and>
   tcpConnected (fold (confirm_packet os) ks c) = tcpConnected c \<and>
   udpConnected (fold (confirm_packet os) ks c) = udpConnected c \<and>
   tcpNextSendIndex (fold (confirm_packet os) ks c) = tcpNextSendIndex c \<and>
   udpNextSendIndex (fold (confirm_packet os) ks c) = udpNextSendIndex c \<and>
   udpReceivedMasterIndex (fold (confirm_packet os) ks c) = udpReceivedMasterIndex c \<and>
   udpConfirmedMasterIndex (fold (confirm_packet os) ks c) = udpConfirmedMasterIndex c \<and>
   udpReceivedFinalIndex (fold (confirm_packet os) ks c) = udpReceivedFinalIndex c \<and>
   udpReceiveBufferSize (fold (confirm_packet os) ks c) = udpReceiveBufferSize c \<and>
   remainConfirmationResendCount (fold (confirm_packet os) ks c) = remainConfirmationResendCount c \<and>
   remainByeByeResendCount (fold (confirm_packet os) ks c) = remainByeByeResendCount c \<and>
   tcpReceivedData (fold (confirm_packet os) ks c) = tcpReceivedData c \<and>
   udpConfirmationPackets (fold (confirm_packet os) ks c) = udpConfirmationPackets c \<and>
   udpReceivedPackets (fold (confirm_packet os) ks c) = udpReceivedPackets c \<and>
   udpSendMeasureIndex (fold (confirm_packet os) ks c) = udpSendMeasureIndex c \<and>
   log_built (fold (confirm_packet os) ks c) = log_built c \<and>
   deleted (fold (confirm_packet os) ks c) = deleted c"
  by (induction ks arbitrary: c) simp_all

lemma fold_confirm_frame [simp]:
  "tcpSocket (fold (confirm_packet os) ks c) = tcpSocket c"
  "udpSocket (fold (confirm_packet os) ks c) = udpSocket c"
  "log_tcpIn (fold (confirm_packet os) ks c) = log_tcpIn c"
  "log_tcpOut (fold (confirm_packet os) ks c) = log_tcpOut c"
  "log_udpOut (fold (confirm_packet os) ks c) = log_udpOut c"
  "par (fold (confirm_packet os) ks c) = par c"
  "tcpConnected (fold (confirm_packet os) ks c) = tcpConnected c"
  "udpConnected (fold (confirm_packet os) ks c) = udpConnected c"
  "tcpNextSendIndex (fold (confirm_packet os) ks c) = tcpNextSendIndex c"
  "udpNextSendIndex (fold (confirm_packet os) ks c) = udpNextSendIndex c"
  "udpReceivedMasterIndex (fold (confirm_packet os) ks c) = udpReceivedMasterIndex c"
  "udpConfirmedMasterIndex (fold (confirm_packet os) ks c) = udpConfirmedMasterIndex c"
  "udpReceivedFinalIndex (fold (confirm_packet os) ks c) = udpReceivedFinalIndex c"
  "udpReceiveBufferSize (fold (confirm_packet os) ks c) = udpReceiveBufferSize c"
  "remainConfirmationResendCount (fold (confirm_packet os) ks c) = remainConfirmationResendCount c"
  "remainByeByeResendCount (fold (confirm_packet os) ks c) = remainByeByeResendCount c"
  "tcpReceivedData (fold (confirm_packet os) ks c) = tcpReceivedData c"
  "udpConfirmationPackets (fold (confirm_packet os) ks c) = udpConfirmationPackets c"
  "udpReceivedPackets (fold (confirm_packet os) ks c) = udpReceivedPackets c"
  "udpSendMeasureIndex (fold (confirm_packet os) ks c) = udpSendMeasureIndex c"
  "log_built (fold (confirm_packet os) ks c) = log_built c"
  "deleted (fold (confirm_packet os) ks c) = deleted c"
  using fold_confirm_frame_aux [of os ks c] by simp_all

lemma read_confirmation_frame [simp]:
  "tcpSocket (read_confirmation os p c) = tcpSocket c"
  "udpSocket (read_confirmation os p c) = udpSocket c"
  "log_tcpIn (read_confirmation os p c) = log_tcpIn c"
  "log_tcpOut (read_confirmation os p c) = log_tcpOut c"
  "log_udpOut (read_confirmation os p c) = log_udpOut c"
  "par (read_confirmation os p c) = par c"
  "tcpConnected (read_confirmation os p c) = tcpConnected c"
  "udpConnected (read_confirmation os p c) = udpConnected c"
  "tcpNextSendIndex (read_confirmation os p c) = tcpNextSendIndex c"
  "udpNextSendIndex (read_confirmation os p c) = udpNextSendIndex c"
  "udpReceivedMasterIndex (read_confirmation os p c) = udpReceivedMasterIndex c"
  "udpConfirmedMasterIndex (read_confirmation os p c) = udpConfirmedMasterIndex c"
  "udpReceivedFinalIndex (read_confirmation os p c) = udpReceivedFinalIndex c"
  "udpReceiveBufferSize (read_confirmation os p c) = udpReceiveBufferSize c"
  "remainConfirmationResendCount (read_confirmation os p c) = remainConfirmationResendCount c"
  "tcpReceivedData (read_confirmation os p c) = tcpReceivedData c"
  "udpConfirmationPackets (read_confirmation os p c) = udpConfirmationPackets c"
  "udpReceivedPackets (read_confirmation os p c) = udpReceivedPackets c"
  "udpSendMeasureIndex (read_confirmation os p c) = udpSendMeasureIndex c"
  "log_built (read_confirmation os p c) = log_built c"
  "deleted (read_confirmation os p c) = deleted c"
  by (simp_all add: read_confirmation_def Let_def)

lemma read_bye_bye_frame [simp]:
  "tcpSocket (read_bye_bye os c) = tcpSocket c"
  "udpSocket (read_bye_bye os c) = udpSocket c"
  "log_tcpIn (read_bye_bye os c) = log_tcpIn c"
  "log_tcpOut (read_bye_bye os c) = log_tcpOut c"
  "log_udpOut (read_bye_bye os c) = log_udpOut c"
  "par (read_bye_bye os c) = par c"
  "tcpConnected (read_bye_bye os c) = tcpConnected c"
  "udpConnected (read_bye_bye os c) = udpConnected c"
  "tcpNextSendIndex (read_bye_bye os c) = tcpNextSendIndex c"
  "udpNextSendIndex (read_bye_bye os c) = udpNextSendIndex c"
  "udpReceivedMasterIndex (read_bye_bye os c) = udpReceivedMasterIndex c"
  "udpConfirmedMasterIndex (read_bye_bye os c) = udpConfirmedMasterIndex c"
  "udpReceivedFinalIndex (read_bye_bye os c) = udpReceivedFinalIndex c"
  "udpReceiveBufferSize (read_bye_bye os c) = udpReceiveBufferSize c"
  "udpPacketsToSendCount (read_bye_bye os c) = udpPacketsToSendCount c"
  "remainByeByeResendCount (read_bye_bye os c) = remainByeByeResendCount c"
  "tcpReceivedData (read_bye_bye os c) = tcpReceivedData c"
  "udpSentPackets (read_bye_bye os c) = udpSentPackets c"
  "udpReceivedPackets (read_bye_bye os c) = udpReceivedPackets c"
  "udpSendIntervalUs (read_bye_bye os c) = udpSendIntervalUs c"
  "udpSendMeasureIndex (read_bye_bye os c) = udpSendMeasureIndex c"
  "udpSendMeasures (read_bye_bye os c) = udpSendMeasures c"
  "log_built (read_bye_bye os c) = log_built c"
  "deleted (read_bye_bye os c) = deleted c"
  by (simp_all add: read_bye_bye_def Let_def)

lemma advance_master_frame_aux:
  "tcpSocket (advance_master n c) = tcpSocket c \<and>
   udpSocket (advance_master n c) = udpSocket c \<and>
   log_tcpIn (advance_master n c) = log_tcpIn c \<and>
   log_tcpOut (advance_master n c) = log_tcpOut c \<and>
   log_udpOut (advance_master n c) = log_udpOut c \<and>
   par (advance_master n c) = par c \<and>
   tcpConnected (advance_master n c) = tcpConnected c \<and>
   udpConnected (advance_master n c) = udpConnected c \<and>
   tcpNextSendIndex (advance_master n c) = tcpNextSendIndex c \<and>
   udpNextSendIndex (advance_master n c) = udpNextSendIndex c \<and>
   udpConfirmedMasterIndex (advance_master n c) = udpConfirmedMasterIndex c \<and>
   udpSentBufferSize (advance_master n c) = udpSentBufferSize c \<and>
   udpReceiveBufferSize (advance_master n c) = udpReceiveBufferSize c \<and>
   udpPacketsToSendCount (advance_master n c) = udpPacketsToSendCount c \<and>
   remainConfirmationResendCount (advance_master n c) = remainConfirmationResendCount c \<and>
   remainByeByeResendCount (advance_master n c) = remainByeByeResendCount c \<and>
   tcpReceivedData (advance_master n c) = tcpReceivedData c \<and>
   udpSentPackets (advance_master n c) = udpSentPackets c \<and>
   udpConfirmationPackets (advance_master n c) = udpConfirmationPackets c \<and>
   udpReceivedPackets (advance_master n c) = udpReceivedPackets c \<and>
   udpSendIntervalUs (advance_master n c) = udpSendIntervalUs c \<and>
   udpSendMeasureIndex (advance_master n c) = udpSendMeasureIndex c \<and>
   udpSendMeasures (advance_master n c) = udpSendMeasures c \<and>
   log_built (advance_master n c) = log_built c \<and>
   fault (advance_master n c) = fault c \<and>
   deleted (advance_master n c) = deleted c"
  by (induction n arbitrary: c) (simp_all add: Let_def split: option.split)

lemma advance_master_frame [simp]:
  "tcpSocket (advance_master n c) = tcpSocket c"
  "udpSocket (advance_master n c) = udpSocket c"
  "log_tcpIn (advance_master n c) = log_tcpIn c"
  "log_tcpOut (advance_master n c) = log_tcpOut c"
  "log_udpOut (advance_master n c) = log_udpOut c"
  "par (advance_master n c) = par c"
  "tcpConnected (advance_master n c) = tcpConnected c"
  "udpConnected (advance_master n c) = udpConnected c"
  "tcpNextSendIndex (advance_master n c) = tcpNextSendIndex c"
  "udpNextSendIndex (advance_master n c) = udpNextSendIndex c"
  "udpConfirmedMasterIndex (advance_master n c) = udpConfirmedMasterIndex c"
  "udpSentBufferSize (advance_master n c) = udpSentBufferSize c"
  "udpReceiveBufferSize (advance_master n c) = udpReceiveBufferSize c"
  "udpPacketsToSendCount (advance_master n c) = udpPacketsToSendCount c"
  "remainConfirmationResendCount (advance_master n c) = remainConfirmationResendCount c"
  "remainByeByeResendCount (advance_master n c) = remainByeByeResendCount c"
  "tcpReceivedData (advance_master n c) = tcpReceivedData c"
  "udpSentPackets (advance_master n c) = udpSentPackets c"
  "udpConfirmationPackets (advance_master n c) = udpConfirmationPackets c"
  "udpReceivedPackets (advance_master n c) = udpReceivedPackets c"
  "udpSendIntervalUs (advance_master n c) = udpSendIntervalUs c"
  "udpSendMeasureIndex (advance_master n c) = udpSendMeasureIndex c"
  "udpSendMeasures (advance_master n c) = udpSendMeasures c"
  "log_built (advance_master n c) = log_built c"
  "fault (advance_master n c) = fault c"
  "deleted (advance_master n c) = deleted c"
  using advance_master_frame_aux [of n c] by simp_all

lemma store_received_frame [simp]:
  "tcpSocket (store_received os p c) = tcpSocket c"
  "udpSocket (store_received os p c) = udpSocket c"
  "log_tcpIn (store_received os p c) = log_tcpIn c"
  "log_tcpOut (store_received os p c) = log_tcpOut c"
  "log_udpOut (store_received os p c) = log_udpOut c"
  "par (store_received os p c) = par c"
  "tcpConnected (store_received os p c) = tcpConnected c"
  "udpConnected (store_received os p c) = udpConnected c"
  "udpNextSendIndex (store_received os p c) = udpNextSendIndex c"
  "udpConfirmedMasterIndex (store_received os p c) = udpConfirmedMasterIndex c"
  "udpSentBufferSize (store_received os p c) = udpSentBufferSize c"
  "udpPacketsToSendCount (store_received os p c) = udpPacketsToSendCount c"
  "remainConfirmationResendCount (store_received os p c) = remainConfirmationResendCount c"
  "remainByeByeResendCount (store_received os p c) = remainByeByeResendCount c"
  "tcpReceivedData (store_received os p c) = tcpReceivedData c"
  "udpSentPackets (store_received os p c) = udpSentPackets c"
  "udpConfirmationPackets (store_received os p c) = udpConfirmationPackets c"
  "udpSendIntervalUs (store_received os p c) = udpSendIntervalUs c"
  "udpSendMeasureIndex (store_received os p c) = udpSendMeasureIndex c"
  "udpSendMeasures (store_received os p c) = udpSendMeasures c"
  "log_built (store_received os p c) = log_built c"
  "fault (store_received os p c) = fault c"
  "deleted (store_received os p c) = deleted c"
  by (simp_all add: store_received_def Let_def)

lemma write_packet_frame [simp]:
  "udpSocket (write_packet os k p c) = udpSocket c"
  "log_tcpIn (write_packet os k p c) = log_tcpIn c"
  "log_udpOut (write_packet os k p c) = log_udpOut c"
  "par (write_packet os k p c) = par c"
  "tcpConnected (write_packet os k p c) = tcpConnected c"
  "udpConnected (write_packet os k p c) = udpConnected c"
  "udpNextSendIndex (write_packet os k p c) = udpNextSendIndex c"
  "udpReceivedMasterIndex (write_packet os k p c) = udpReceivedMasterIndex c"
  "udpConfirmedMasterIndex (write_packet os k p c) = udpConfirmedMasterIndex c"
  "udpReceivedFinalIndex (write_packet os k p c) = udpReceivedFinalIndex c"
  "udpSentBufferSize (write_packet os k p c) = udpSentBufferSize c"
  "udpPacketsToSendCount (write_packet os k p c) = udpPacketsToSendCount c"
  "remainConfirmationResendCount (write_packet os k p c) = remainConfirmationResendCount c"
  "remainByeByeResendCount (write_packet os k p c) = remainByeByeResendCount c"
  "tcpReceivedData (write_packet os k p c) = tcpReceivedData c"
  "udpSentPackets (write_packet os k p c) = udpSentPackets c"
  "udpConfirmationPackets (write_packet os k p c) = udpConfirmationPackets c"
  "udpSendIntervalUs (write_packet os k p c) = udpSendIntervalUs c"
  "udpSendMeasureIndex (write_packet os k p c) = udpSendMeasureIndex c"
  "udpSendMeasures (write_packet os k p c) = udpSendMeasures c"
  "log_built (write_packet os k p c) = log_built c"
  "fault (write_packet os k p c) = fault c"
  "deleted (write_packet os k p c) = deleted c"
  by (simp_all add: write_packet_def Let_def split_def)

lemma read_extra_frame [simp]:
  "tcpSocket (read_extra p c) = tcpSocket c"
  "udpSocket (read_extra p c) = udpSocket c"
  "log_tcpIn (read_extra p c) = log_tcpIn c"
  "log_tcpOut (read_extra p c) = log_tcpOut c"
  "log_udpOut (read_extra p c) = log_udpOut c"
  "par (read_extra p c) = par c"
  "tcpConnected (read_extra p c) = tcpConnected c"
  "udpConnected (read_extra p c) = udpConnected c"
  "tcpNextSendIndex (read_extra p c) = tcpNextSendIndex c"
  "udpNextSendIndex (read_extra p c) = udpNextSendIndex c"
  "udpReceivedMasterIndex (read_extra p c) = udpReceivedMasterIndex c"
  "udpConfirmedMasterIndex (read_extra p c) = udpConfirmedMasterIndex c"
  "udpReceivedFinalIndex (read_extra p c) = udpReceivedFinalIndex c"
  "udpSentBufferSize (read_extra p c) = udpSentBufferSize c"
  "udpReceiveBufferSize (read_extra p c) = udpReceiveBufferSize c"
  "udpPacketsToSendCount (read_extra p c) = udpPacketsToSendCount c"
  "remainConfirmationResendCount (read_extra p c) = remainConfirmationResendCount c"
  "remainByeByeResendCount (read_extra p c) = remainByeByeResendCount c"
  "tcpReceivedData (read_extra p c) = tcpReceivedData c"
  "udpSentPackets (read_extra p c) = udpSentPackets c"
  "udpConfirmationPackets (read_extra p c) = udpConfirmationPackets c"
  "udpReceivedPackets (read_extra p c) = udpReceivedPackets c"
  "udpSendIntervalUs (read_extra p c) = udpSendIntervalUs c"
  "udpSendMeasureIndex (read_extra p c) = udpSendMeasureIndex c"
  "udpSendMeasures (read_extra p c) = udpSendMeasures c"
  "log_built (read_extra p c) = log_built c"
  "fault (read_extra p c) = fault c"
  "deleted (read_extra p c) = deleted c"
  by (simp_all add: read_extra_def)

end
