(* ===== verification/Conn_Receive.thy ===== *)
theory Conn_Receive
  imports Conn_Frames
begin

text \<open>
  The receiving half of a connection: the window of received packets, the indices that bound it and
  the buffer account. Every operation keeps \<open>recv_ok\<close>; the loops of \<open>tcpWrite(true)\<close> and of the
  master index end where the code's do; \<open>buildConfirmations\<close> frees exactly what tcp has taken.
\<close>

section \<open>The invariant of the receiving half\<close>

text \<open>\<open>udpReceivedPackets\<close> holds every index from \<open>tcpNextSendIndex\<close> up to \<open>udpReceivedMasterIndex\<close>; a
  packet in it is marked sent when its index is below \<open>tcpNextSendIndex\<close>, and never stays there
  once it is confirmed; \<open>udpReceiveBufferSize\<close> is the sum of the payload sizes.\<close>

definition recv_ok :: "conn \<Rightarrow> bool" where
  "recv_ok c \<longleftrightarrow>
     om_ok (udpReceivedPackets c) \<and>
     udpReceiveBufferSize c = om_sum get_size (udpReceivedPackets c) \<and>
     0 \<le> tcpNextSendIndex c \<and> tcpNextSendIndex c \<le> udpReceivedMasterIndex c \<and>
     udpReceivedMasterIndex c \<le> udpReceivedFinalIndex c \<and>
     (\<forall>k. tcpNextSendIndex c \<le> k \<and> k < udpReceivedMasterIndex c \<longrightarrow> om_find (udpReceivedPackets c) k \<noteq> None) \<and>
     (\<forall>k p. om_find (udpReceivedPackets c) k = Some p \<longrightarrow>
        0 \<le> k \<and> \<not> p_confirmed p \<and> p_sent p = (k < tcpNextSendIndex c))"

lemma recv_ok_frame [simp]:
  "recv_ok (tick c) = recv_ok c" "recv_ok (ev_at e t c) = recv_ok c" "recv_ok (ev_in os e t c) = recv_ok c"
  "recv_ok (ev_off e c) = recv_ok c" "recv_ok (on_sent_buffer_changed os n c) = recv_ok c"
  "recv_ok (set_event_udp_write os c) = recv_ok c" "recv_ok (snd (enqueue_packet t' bs n c)) = recv_ok c"
  "recv_ok (push_control os t' i bs n c) = recv_ok c" "recv_ok (build_udp_packets os b c) = recv_ok c"
  "recv_ok (tcp_read os c) = recv_ok c" "recv_ok (udp_close os c) = recv_ok c"
  "recv_ok (udp_write os t c) = recv_ok c" "recv_ok (drop_confirmations os c) = recv_ok c"
  "recv_ok (build_bye_bye os c) = recv_ok c" "recv_ok (udp_resend os c) = recv_ok c"
  "recv_ok (read_confirmation os p c) = recv_ok c" "recv_ok (read_bye_bye os c) = recv_ok c"
  "recv_ok (read_extra p c) = recv_ok c"
  by (simp_all only: recv_ok_def tick_frame ev_at_frame ev_in_frame ev_off_frame on_sent_buffer_changed_frame
      set_event_udp_write_frame enqueue_packet_frame push_control_frame build_udp_packets_frame tcp_read_frame
      udp_close_frame udp_write_frame drop_confirmations_frame build_bye_bye_frame udp_resend_frame
      read_confirmation_frame read_bye_bye_frame read_extra_frame)

lemma get_size_flags [simp]:
  "get_size (p\<lparr>p_sent := b\<rparr>) = get_size p" "get_size (p\<lparr>p_confirmed := b\<rparr>) = get_size p"
  "get_size (p\<lparr>p_sentTimeUs := t\<rparr>) = get_size p" "get_size (p\<lparr>p_measureIndex := i\<rparr>) = get_size p"
  "get_size (p\<lparr>p_remainResendCount := i\<rparr>) = get_size p"
  by (simp_all add: get_size_def)

lemma get_data_flags [simp]:
  "get_data (p\<lparr>p_sent := b\<rparr>) = get_data p" "get_data (p\<lparr>p_confirmed := b\<rparr>) = get_data p"
  by (simp_all add: get_data_def)

lemma get_type_flags [simp]:
  "get_type (p\<lparr>p_sent := b\<rparr>) = get_type p" "get_type (p\<lparr>p_confirmed := b\<rparr>) = get_type p"
  by (simp_all add: get_type_def get_u8_def)

lemma get_size_data: "get_size p = int (length (get_data p))"
  by (simp add: get_size_def get_data_def of_nat_diff)

lemma get_size_nonneg [simp]: "0 \<le> get_size p"
  by (simp add: get_size_data)

text \<open>With the invariant, finishing a packet never erases it: that is left to \<open>buildConfirmations\<close>.\<close>

lemma finish_received_unconfirmed:
  "\<not> p_confirmed p \<Longrightarrow>
   finish_received k p n c =
     c\<lparr>udpReceivedPackets := om_put k (p\<lparr>p_sent := True\<rparr>) (udpReceivedPackets c),
       tcpNextSendIndex := tcpNextSendIndex c + 1\<rparr>"
  by (simp add: finish_received_def Let_def is_complete_def)

lemma finish_received_ok [step_intros]:
  assumes "recv_ok c" "om_find (udpReceivedPackets c) (tcpNextSendIndex c) = Some p"
    "tcpNextSendIndex c < udpReceivedMasterIndex c"
  shows "recv_ok (finish_received (tcpNextSendIndex c) p n c)"
proof -
  have "\<not> p_confirmed p" using assms by (simp add: recv_ok_def)
  then show ?thesis using assms
    by (auto simp: finish_received_unconfirmed recv_ok_def split: if_splits)
qed

lemma discard_loop_ok [step_intros]: "recv_ok c \<Longrightarrow> recv_ok (discard_loop n c)"
  by (induction n arbitrary: c) (auto simp: finish_received_ok split: option.split)

lemma tcp_discard_ok [step_intros]: "recv_ok c \<Longrightarrow> recv_ok (tcp_discard c)"
  by (simp add: tcp_discard_def discard_loop_ok)

text \<open>The fuel of the discarding loop is enough: it ends where the loop of the code does.\<close>

lemma discard_loop_ends:
  "recv_ok c \<Longrightarrow> write_turns c \<le> n \<Longrightarrow> tcpNextSendIndex (discard_loop n c) = udpReceivedMasterIndex c"
proof (induction n arbitrary: c)
  case 0
  then show ?case by (simp add: write_turns_def recv_ok_def)
next
  case (Suc n)
  show ?case
  proof (cases "tcpNextSendIndex c < udpReceivedMasterIndex c")
    case True
    then obtain p where p: "om_find (udpReceivedPackets c) (tcpNextSendIndex c) = Some p"
      using Suc.prems(1) by (auto simp: recv_ok_def)
    let ?c = "finish_received (tcpNextSendIndex c) p (get_size p) c"
    have "tcpNextSendIndex ?c = tcpNextSendIndex c + 1" by (simp add: finish_received_def Let_def)
    then have "write_turns ?c \<le> n" using Suc.prems(2) True by (simp add: write_turns_def)
    with Suc.IH [OF finish_received_ok [OF Suc.prems(1) p True, of "get_size p"]] True p
    show ?thesis by simp
  qed (use Suc.prems in \<open>simp add: recv_ok_def\<close>)
qed

lemma tcp_discard_ends:
  "recv_ok c \<Longrightarrow> \<not> tcpConnected c \<Longrightarrow> tcpNextSendIndex (tcp_discard c) = udpReceivedMasterIndex c"
  by (simp add: tcp_discard_def discard_loop_ends)

text \<open>What a partial write leaves of a packet.\<close>

lemma cut_payload:
  assumes "0 < n" "n \<le> get_size p"
  shows "get_data (p\<lparr>p_data := take 9 (p_data p) @ drop (9 + nat n) (p_data p)\<rparr>) = drop (nat n) (get_data p)"
    and "get_size (p\<lparr>p_data := take 9 (p_data p) @ drop (9 + nat n) (p_data p)\<rparr>) = get_size p - n"
proof -
  have len: "9 < length (p_data p)" "nat n \<le> length (p_data p) - 9"
    using assms by (auto simp: get_size_def split: if_splits)
  show 1: "get_data (p\<lparr>p_data := take 9 (p_data p) @ drop (9 + nat n) (p_data p)\<rparr>) = drop (nat n) (get_data p)"
    using len by (auto simp: get_data_def add.commute)
  show "get_size (p\<lparr>p_data := take 9 (p_data p) @ drop (9 + nat n) (p_data p)\<rparr>) = get_size p - n"
    using assms 1 by (simp add: get_size_data)
qed

lemma sock_write_bounds:
  "sock_write r n s = (m, s') \<Longrightarrow> 0 \<le> n \<Longrightarrow> 0 \<le> m \<and> m \<le> n"
  by (auto simp: sock_write_def split: if_splits taken.splits)

lemma write_packet_ok [step_intros]:
  assumes ok: "recv_ok c" and p: "om_find (udpReceivedPackets c) (tcpNextSendIndex c) = Some p"
    and lt: "tcpNextSendIndex c < udpReceivedMasterIndex c"
  shows "recv_ok (write_packet os (tcpNextSendIndex c) p c)"
proof -
  obtain n s where w: "sock_write (a_send (answer_now os c)) (get_size p) (tcpSocket c) = (n, s)" by fastforce
  have n: "0 \<le> n" "n \<le> get_size p" using sock_write_bounds [OF w] by simp_all
  define c1 where "c1 = (tick c)\<lparr>tcpSocket := s\<rparr>"
  have c1: "recv_ok c1" using ok by (simp add: c1_def recv_ok_def)
  show ?thesis
  proof (cases "0 < n")
    case False
    then show ?thesis using c1 by (simp add: write_packet_def w Let_def c1_def [symmetric])
  next
    case True
    define p' where "p' = p\<lparr>p_data := take 9 (p_data p) @ drop (9 + nat n) (p_data p)\<rparr>"
    define c' where "c' = c1\<lparr>statTcpSent := statTcpSent c1 + n,
        log_tcpOut := log_tcpOut c1 @ take (nat n) (get_data p),
        udpReceivedPackets := om_put (tcpNextSendIndex c) p' (udpReceivedPackets c1),
        udpReceiveBufferSize := udpReceiveBufferSize c1 - n\<rparr>"
    have c': "recv_ok c'"
      using ok p lt cut_payload(2) [OF True n(2)] by (auto simp: c'_def c1_def recv_ok_def p'_def)
    have f: "om_find (udpReceivedPackets c') (tcpNextSendIndex c') = Some p'"
      using ok by (simp add: c'_def c1_def recv_ok_def)
    have "recv_ok (finish_received (tcpNextSendIndex c) p' 0 c')"
      using finish_received_ok [OF c' f, of 0] lt by (simp add: c'_def c1_def)
    then show ?thesis
      using True c' by (simp add: write_packet_def w Let_def c1_def [symmetric] p'_def [symmetric] c'_def [symmetric])
  qed
qed

lemma tcp_close_recv_ok [step_intros]: "recv_ok c \<Longrightarrow> recv_ok (tcp_close os err c)"
proof -
  assume ok: "recv_ok c"
  let ?c2 = "(ev_off EvTcpWrite (ev_off EvTcpRead (c\<lparr>tcpConnected := False\<rparr>)))\<lparr>tcpSocket := sock_close False (tcpSocket c)\<rparr>"
  have c2: "recv_ok ?c2" using ok by (simp add: recv_ok_def)
  show ?thesis
    using ok c2 tcp_discard_ok [OF c2] by (simp add: tcp_close_def Let_def split_def)
qed

lemma write_loop_recv_ok [step_intros]: "recv_ok c \<Longrightarrow> recv_ok (write_loop os n c)"
proof (induction n arbitrary: c)
  case (Suc n)
  show ?case
  proof (cases "om_find (udpReceivedPackets c) (tcpNextSendIndex c)")
    case (Some p)
    show ?thesis
    proof (cases "tcpNextSendIndex c < udpReceivedMasterIndex c")
      case True
      then show ?thesis
        using Some Suc.prems Suc.IH finish_received_ok [OF Suc.prems Some True] write_packet_ok [OF Suc.prems Some True]
        by (simp add: Let_def tcp_close_recv_ok)
    qed (use Suc.prems in \<open>simp add: Let_def\<close>)
  qed (use Suc.prems in \<open>simp add: Let_def\<close>)
qed simp

lemma tcp_write_recv_ok [step_intros]: "recv_ok c \<Longrightarrow> recv_ok (tcp_write os c)"
  by (simp add: tcp_write_def write_loop_recv_ok)

lemma advance_master_ok [step_intros]: "recv_ok c \<Longrightarrow> recv_ok (advance_master n c)"
proof (induction n arbitrary: c)
  case (Suc n)
  show ?case
  proof (cases "om_find (udpReceivedPackets c) (udpReceivedMasterIndex c)")
    case (Some p)
    let ?c = "c\<lparr>udpReceivedMasterIndex := udpReceivedMasterIndex c + 1,
        udpReceivedFinalIndex := (if get_type p = Bye \<or> get_type p = Disconnect
          then udpReceivedMasterIndex c + 1 else udpReceivedFinalIndex c)\<rparr>"
    have all: "om_find (udpReceivedPackets c) k \<noteq> None"
      if "tcpNextSendIndex c \<le> k" "k < udpReceivedMasterIndex c + 1" for k
      using that Some Suc.prems by (cases "k = udpReceivedMasterIndex c") (auto simp: recv_ok_def)
    have "recv_ok ?c" if "udpReceivedMasterIndex c < udpReceivedFinalIndex c"
      using Suc.prems that all unfolding recv_ok_def by simp
    then show ?thesis using Suc Some by (auto simp: Let_def)
  qed (use Suc.prems in simp)
qed simp

text \<open>The advancing loop ends at the first gap, or at the final index: its fuel is enough.\<close>

lemma advance_master_ends:
  assumes "om_ok (udpReceivedPackets c)"
    and "card {k \<in> set (om_keys (udpReceivedPackets c)). udpReceivedMasterIndex c \<le> k} \<le> n"
  shows "om_find (udpReceivedPackets c) (udpReceivedMasterIndex (advance_master n c)) = None \<or>
    udpReceivedFinalIndex (advance_master n c) \<le> udpReceivedMasterIndex (advance_master n c)"
  using assms
proof (induction n arbitrary: c)
  case 0
  then have "{k \<in> set (om_keys (udpReceivedPackets c)). udpReceivedMasterIndex c \<le> k} = {}" by simp
  then have "udpReceivedMasterIndex c \<notin> set (om_keys (udpReceivedPackets c))" by blast
  then show ?case by (simp add: om.keys_find [OF 0(1)])
next
  case (Suc n)
  show ?case
  proof (cases "om_find (udpReceivedPackets c) (udpReceivedMasterIndex c)")
    case (Some p)
    let ?K = "\<lambda>m. {k \<in> set (om_keys (udpReceivedPackets c)). m \<le> k}"
    let ?m = "udpReceivedMasterIndex c"
    have "?m \<in> ?K ?m" using Some by (simp add: om.keys_find [OF Suc.prems(1)])
    then have "?K ?m = insert ?m (?K (?m + 1))" "?m \<notin> ?K (?m + 1)" by auto
    then have card: "card (?K (?m + 1)) \<le> n" using Suc.prems(2) by simp
    let ?c = "c\<lparr>udpReceivedMasterIndex := ?m + 1,
        udpReceivedFinalIndex := (if get_type p = Bye \<or> get_type p = Disconnect then ?m + 1
          else udpReceivedFinalIndex c)\<rparr>"
    have "udpReceivedPackets ?c = udpReceivedPackets c" "udpReceivedMasterIndex ?c = ?m + 1" by simp_all
    with Suc.IH [of ?c] Suc.prems(1) card Some show ?thesis by (simp add: Let_def)
  qed simp
qed

lemma store_received_ok [step_intros]:
  assumes "recv_ok c" "om_find (udpReceivedPackets c) (get_index p) = None"
    "udpReceivedMasterIndex c \<le> get_index p" "\<not> p_sent p" "\<not> p_confirmed p"
  shows "recv_ok (store_received os p c)"
proof -
  define c1 where "c1 = c\<lparr>udpReceivedPackets := om_put (get_index p) p (udpReceivedPackets c),
      udpReceiveBufferSize := udpReceiveBufferSize c + get_size p\<rparr>"
  have "recv_ok c1" using assms by (auto simp: c1_def recv_ok_def split: if_splits)
  then have "recv_ok (tcp_discard (advance_master (length (udpReceivedPackets c1)) c1))"
    by (intro tcp_discard_ok advance_master_ok)
  then show ?thesis by (simp add: store_received_def Let_def c1_def [symmetric])
qed

text \<open>Trimming removes exactly the packets already written to tcp.\<close>

lemma trim_received_eq:
  assumes "om_ok m" "next \<le> master"
    and "\<forall>(k, p)\<in>set m. p_sent p = (k < next)"
  shows "trim_received next master m =
    (filter (\<lambda>kp. next \<le> fst kp) m, om_sum get_size (filter (\<lambda>kp. fst kp < next) m))"
  using assms
proof (induction m)
  case (Cons kp m)
  obtain k p where kp: "kp = (k, p)" by fastforce
  show ?case
  proof (cases "k < next")
    case True
    then show ?thesis using Cons by (auto simp: kp om_ok_Cons is_complete_def om_sum_def)
  next
    case False
    then have "\<forall>kp\<in>set m. next \<le> fst kp" using Cons.prems(1) kp by (fastforce simp: om_ok_Cons om_keys_def)
    then have "filter (\<lambda>kp. next \<le> fst kp) m = m" "filter (\<lambda>kp. fst kp < next) m = []"
      by (auto simp: filter_id_conv filter_empty_conv not_less)
    with False show ?thesis by (simp add: kp om_sum_def)
  qed
qed (simp add: om_sum_def)

lemma om_find_filter: "om_find (filter (\<lambda>kp. P (fst kp)) m) k = (if P k then om_find m k else None)"
  by (induction m) (auto simp: om_find_def)

lemma om_ok_filter: "om_ok m \<Longrightarrow> om_ok (filter P m)"
  by (auto simp: om_ok_def sorted_wrt_map intro: sorted_wrt_filter)

lemma om_sum_split: "om_sum w (filter P m) + om_sum w (filter (\<lambda>x. \<not> P x) m) = om_sum w m"
  by (induction m) (auto simp: om_sum_def)

lemma build_confirmations_recv:
  assumes "recv_ok c" "udpConnected c"
  shows "recv_ok (build_confirmations os c) \<and>
    udpReceivedPackets (build_confirmations os c) =
      filter (\<lambda>kp. tcpNextSendIndex c \<le> fst kp) (udpReceivedPackets c)"
proof -
  let ?R = "udpReceivedPackets c" and ?n = "tcpNextSendIndex c" and ?m = "udpReceivedMasterIndex c"
  have ok: "om_ok ?R" "?n \<le> ?m" and "\<forall>(k, p)\<in>set ?R. p_sent p = (k < ?n)"
    using assms(1) by (auto simp: recv_ok_def om_find_in_set)
  then have t: "trim_received ?n ?m ?R = (filter (\<lambda>kp. ?n \<le> fst kp) ?R, om_sum get_size (filter (\<lambda>kp. fst kp < ?n) ?R))"
    by (rule trim_received_eq)
  have R: "udpReceivedPackets (build_confirmations os c) = filter (\<lambda>kp. ?n \<le> fst kp) ?R"
    using assms(2) by (simp add: build_confirmations_def Let_def split_def t)
  have B: "udpReceiveBufferSize (build_confirmations os c) = om_sum get_size (filter (\<lambda>kp. ?n \<le> fst kp) ?R)"
    using assms om_sum_split [of get_size "\<lambda>kp. fst kp < ?n" ?R]
    by (simp add: build_confirmations_def Let_def split_def t recv_ok_def not_less)
  show ?thesis
    using assms(1) by (auto simp: recv_ok_def R B om_ok_filter om_find_filter)
qed

lemma build_confirmations_recv_ok [step_intros]: "recv_ok c \<Longrightarrow> recv_ok (build_confirmations os c)"
  by (cases "udpConnected c") (simp_all add: build_confirmations_recv, simp add: build_confirmations_def)

text \<open>A datagram as the listener hands it over: a fresh packet object, its flags unset.\<close>

definition fresh_flags :: "packet \<Rightarrow> bool" where
  "fresh_flags p \<longleftrightarrow> \<not> p_sent p \<and> \<not> p_confirmed p"

lemma udp_read_recv_ok [step_intros]:
  assumes "recv_ok c" "fresh_flags p"
  shows "recv_ok (udp_read os p c)"
proof -
  have upd: "recv_ok (c'\<lparr>remainConfirmationResendCount := n\<rparr>) = recv_ok c'" "recv_ok (c'\<lparr>fault := b\<rparr>) = recv_ok c'" for c' n b
    by (simp_all add: recv_ok_def)
  have st: "accepts p c \<Longrightarrow> om_find (udpReceivedPackets c) (get_index p) = None \<Longrightarrow> recv_ok (store_received os p c)"
    using assms by (intro store_received_ok) (auto simp: accepts_def fresh_flags_def)
  show ?thesis using assms(1) by (simp add: udp_read_def udp_dispatch_def Let_def upd st)
qed

lemma conn_delete_recv_ok [simp]: "recv_ok (conn_delete c) = recv_ok c"
  by (simp add: recv_ok_def conn_delete_def)

lemma handle_recv_ok [step_intros]: "recv_ok c \<Longrightarrow> recv_ok (handle os e planned c)"
  by (simp add: handle_def tcp_write_recv_ok tcp_close_recv_ok build_confirmations_recv_ok split: conn_event.split)

lemma conn_new_recv_ok: "recv_ok (conn_new os ps iv h)"
proof -
  have "recv_ok c" if "udpReceivedPackets c = []" "udpReceiveBufferSize c = 0" "tcpNextSendIndex c = 0"
    "udpReceivedMasterIndex c = 0" "udpReceivedFinalIndex c = int_max" for c
    using that by (simp add: recv_ok_def int_max_def)
  then show ?thesis by (simp add: conn_new_def Let_def split_def)
qed

end
