(* ===== verification/Conn_Send.thy ===== *)
theory Conn_Send
  imports Conn_Receive
begin

text \<open>
  The sending half of a connection: the packets waiting for confirmation, the control packets, and
  the accounts kept of them. \<open>send_inv d\<close> is the invariant with the buffer account \<open>d\<close> short, which
  is how it stands between a change of a queue and the call of \<open>onUdpSentBufferChanged\<close>.
\<close>

section \<open>The invariant of the sending half\<close>

definition stream_type :: "ptype \<Rightarrow> bool" where
  "stream_type t \<longleftrightarrow> t \<in> {Hello, Bye, Data, Disconnect}"

definition control_type :: "ptype \<Rightarrow> bool" where
  "control_type t \<longleftrightarrow> t \<in> {Confirmation, ByeBye}"

text \<open>The datagram of a built packet, and a datagram of the control types.\<close>

definition frame_of :: "ptype \<times> bytes \<Rightarrow> int \<Rightarrow> bytes" where
  "frame_of tb k = frame (fst tb) k (snd tb)"

definition control_frame :: "bytes \<Rightarrow> bool" where
  "control_frame d \<longleftrightarrow> (\<exists>t i bs. control_type t \<and> d = frame t i bs)"

definition unsent :: "packet \<Rightarrow> int" where
  "unsent p = (if p_sent p then 0 else 1)"

definition send_inv :: "int \<Rightarrow> conn \<Rightarrow> bool" where
  "send_inv d c \<longleftrightarrow>
     om_ok (udpSentPackets c) \<and> udpNextSendIndex c = int (length (log_built c)) \<and>
     (\<forall>k p. om_find (udpSentPackets c) k = Some p \<longrightarrow>
        0 \<le> k \<and> k < udpNextSendIndex c \<and> \<not> p_confirmed p \<and> p_data p = frame_of (log_built c ! nat k) k) \<and>
     (\<forall>tb\<in>set (log_built c). stream_type (fst tb)) \<and>
     (\<forall>p\<in>set (udpConfirmationPackets c). control_frame (p_data p)) \<and>
     (\<forall>x\<in>set (log_udpOut c). control_frame x \<or> (\<exists>k<length (log_built c). x = frame_of (log_built c ! k) (int k))) \<and>
     (udpConnected c \<longrightarrow>
        udpSentBufferSize c + d =
          om_sum get_size (udpSentPackets c) + sum_list (map get_size (udpConfirmationPackets c)) \<and>
        udpPacketsToSendCount c = om_sum unsent (udpSentPackets c)) \<and>
     (\<not> udpConnected c \<longrightarrow> udpSentPackets c = [] \<and> udpConfirmationPackets c = [] \<and> tcpReceivedData c = [])"

lemma send_inv_transfer:
  assumes "send_inv d c"
    and "udpSentPackets c' = udpSentPackets c" "udpNextSendIndex c' = udpNextSendIndex c"
    "log_built c' = log_built c" "udpConfirmationPackets c' = udpConfirmationPackets c"
    "log_udpOut c' = log_udpOut c" "udpConnected c' = udpConnected c"
    "udpSentBufferSize c' = udpSentBufferSize c" "udpPacketsToSendCount c' = udpPacketsToSendCount c"
    "tcpReceivedData c' = tcpReceivedData c"
  shows "send_inv d c'"
  using assms(1) unfolding send_inv_def assms(2-10) .

lemma send_inv_frame [simp]:
  "send_inv d (tick c) = send_inv d c" "send_inv d (ev_at e t c) = send_inv d c"
  "send_inv d (ev_in os e t c) = send_inv d c" "send_inv d (ev_off e c) = send_inv d c"
  "send_inv d (on_udp_sent os i u n c) = send_inv d c" "send_inv d (on_udp_delivered b i n c) = send_inv d c"
  "send_inv d (set_event_udp_write os c) = send_inv d c" "send_inv d (write_again c) = send_inv d c"
  "send_inv d (finish_received k p n c) = send_inv d c" "send_inv d (tcp_discard c) = send_inv d c"
  "send_inv d (store_received os p c) = send_inv d c" "send_inv d (write_packet os k p c) = send_inv d c"
  "send_inv d (read_extra p c) = send_inv d c"
  by (simp_all only: send_inv_def tick_frame ev_at_frame ev_in_frame ev_off_frame on_udp_sent_frame
      on_udp_delivered_frame set_event_udp_write_frame write_again_frame finish_received_frame tcp_discard_frame
      store_received_frame write_packet_frame read_extra_frame)

lemma send_inv_buffer [simp]:
  "send_inv d (on_sent_buffer_changed os n c) = send_inv (d + n) c"
  by (simp add: send_inv_def algebra_simps)

lemma send_inv_update [simp]:
  "send_inv d (c\<lparr>tcpConnected := x0\<rparr>) = send_inv d c"
  "send_inv d (c\<lparr>tcpSocket := x1\<rparr>) = send_inv d c"
  "send_inv d (c\<lparr>udpSocket := x2\<rparr>) = send_inv d c"
  "send_inv d (c\<lparr>statTcpSent := x3\<rparr>) = send_inv d c"
  "send_inv d (c\<lparr>statTcpReceived := x4\<rparr>) = send_inv d c"
  "send_inv d (c\<lparr>statUdpSent := x5\<rparr>) = send_inv d c"
  "send_inv d (c\<lparr>statUdpReceivedExtra := x6\<rparr>) = send_inv d c"
  "send_inv d (c\<lparr>udpSummaryInterval := x7\<rparr>) = send_inv d c"
  "send_inv d (c\<lparr>log_tcpIn := x8\<rparr>) = send_inv d c"
  "send_inv d (c\<lparr>log_tcpOut := x9\<rparr>) = send_inv d c"
  "send_inv d (c\<lparr>udpLastSentUs := x10\<rparr>) = send_inv d c"
  "send_inv d (c\<lparr>udpConfirmedMasterIndex := x11\<rparr>) = send_inv d c"
  "send_inv d (c\<lparr>udpReceivedMasterIndex := x12\<rparr>) = send_inv d c"
  "send_inv d (c\<lparr>udpReceivedFinalIndex := x13\<rparr>) = send_inv d c"
  "send_inv d (c\<lparr>tcpNextSendIndex := x14\<rparr>) = send_inv d c"
  "send_inv d (c\<lparr>remainConfirmationResendCount := x15\<rparr>) = send_inv d c"
  "send_inv d (c\<lparr>remainByeByeResendCount := x16\<rparr>) = send_inv d c"
  "send_inv d (c\<lparr>udpReceivedPackets := x17\<rparr>) = send_inv d c"
  "send_inv d (c\<lparr>udpReceiveBufferSize := x18\<rparr>) = send_inv d c"
  "send_inv d (c\<lparr>fault := x19\<rparr>) = send_inv d c"
  "send_inv d (c\<lparr>deleted := x20\<rparr>) = send_inv d c"
  by (simp_all add: send_inv_def)

lemma send_inv_data: "udpConnected c \<Longrightarrow> send_inv d (c\<lparr>tcpReceivedData := x\<rparr>) = send_inv d c"
  by (simp add: send_inv_def)

lemma get_size_frame: "p_data p = frame t i bs \<Longrightarrow> get_size p = int (length bs)"
  by (simp add: frame_payload)

lemma send_inv_queue:
  assumes "send_inv d c"
  shows "om_ok (udpSentPackets c)"
    and "om_find (udpSentPackets c) k = Some p \<Longrightarrow> \<not> p_confirmed p"
    and "udpConnected c \<Longrightarrow> udpSentBufferSize c + d =
          om_sum get_size (udpSentPackets c) + sum_list (map get_size (udpConfirmationPackets c))"
    and "udpConnected c \<Longrightarrow> udpPacketsToSendCount c = om_sum unsent (udpSentPackets c)"
  using assms by (simp_all add: send_inv_def)

lemma sent_slot_new:
  assumes "send_inv d c"
  shows "sent_slot c = new_packet"
proof -
  have "om_find (udpSentPackets c) (udpNextSendIndex c) = None"
    using assms unfolding send_inv_def by (cases "om_find (udpSentPackets c) (udpNextSendIndex c)") force+
  then show ?thesis by (simp add: sent_slot_def)
qed

lemma enqueue_packet_inv [step_intros]:
  assumes inv: "send_inv d c" and con: "udpConnected c" and t: "stream_type t" and n: "n = int (length bs)"
  shows "send_inv (d + n) (snd (enqueue_packet t bs n c))" "get_size (fst (enqueue_packet t bs n c)) = n"
proof -
  let ?i = "udpNextSendIndex c"
  define p where "p = encode t ?i bs n (new_packet\<lparr>p_remainResendCount := udpResendCount (par c)\<rparr>)"
  have p: "p_data p = frame t ?i bs" by (simp add: p_def n encode_data)
  have flags: "\<not> p_sent p" "\<not> p_confirmed p" by (simp_all add: p_def new_packet_def)
  have fresh: "om_find (udpSentPackets c) ?i = None"
    using inv unfolding send_inv_def by (cases "om_find (udpSentPackets c) ?i") force+
  have e: "enqueue_packet t bs n c =
      (p, c\<lparr>udpSentPackets := om_put ?i p (udpSentPackets c), udpNextSendIndex := ?i + 1,
            udpPacketsToSendCount := udpPacketsToSendCount c + 1, log_built := log_built c @ [(t, bs)]\<rparr>)"
    by (simp add: enqueue_packet_def Let_def sent_slot_new [OF inv] p_def n)
  show "get_size (fst (enqueue_packet t bs n c)) = n" unfolding e using get_size_frame [OF p] n by simp
  have old: "log_built c ! nat k = (log_built c @ [(t, bs)]) ! nat k"
    if "0 \<le> k" "k < udpNextSendIndex c" for k
    using that inv by (auto simp: send_inv_def nth_append nat_less_iff)
  have out: "\<forall>x\<in>set (log_udpOut c). control_frame x \<or>
      (\<exists>k<length (log_built c @ [(t, bs)]). x = frame_of ((log_built c @ [(t, bs)]) ! k) (int k))"
  proof
    fix x assume "x \<in> set (log_udpOut c)"
    then consider "control_frame x" | k where "k < length (log_built c)" "x = frame_of (log_built c ! k) (int k)"
      using inv unfolding send_inv_def by blast
    then show "control_frame x \<or>
      (\<exists>k<length (log_built c @ [(t, bs)]). x = frame_of ((log_built c @ [(t, bs)]) ! k) (int k))"
      by cases (auto simp: nth_append intro!: exI [of _ k for k])
  qed
  have S: "om_ok (udpSentPackets c)" "udpNextSendIndex c = int (length (log_built c))"
    "\<And>k q. om_find (udpSentPackets c) k = Some q \<Longrightarrow>
       0 \<le> k \<and> k < udpNextSendIndex c \<and> \<not> p_confirmed q \<and> p_data q = frame_of (log_built c ! nat k) k"
    "\<forall>tb\<in>set (log_built c). stream_type (fst tb)"
    "\<forall>q\<in>set (udpConfirmationPackets c). control_frame (p_data q)"
    using inv unfolding send_inv_def by blast+
  have items: "0 \<le> k \<and> k < ?i + 1 \<and> \<not> p_confirmed q \<and> p_data q = frame_of ((log_built c @ [(t, bs)]) ! nat k) k"
    if "om_find (om_put ?i p (udpSentPackets c)) k = Some q" for k q
  proof (cases "k = ?i")
    case True
    then show ?thesis using that S(1,2) p flags by (simp add: frame_of_def)
  next
    case False
    then have "om_find (udpSentPackets c) k = Some q" using that S(1) by simp
    then show ?thesis using S(3) [of k q] old [of k] by auto
  qed
  have "udpSentBufferSize c + (d + n) =
      om_sum get_size (om_put ?i p (udpSentPackets c)) + sum_list (map get_size (udpConfirmationPackets c))"
    "udpPacketsToSendCount c + 1 = om_sum unsent (om_put ?i p (udpSentPackets c))"
    using send_inv_queue(3,4) [OF inv con] S(1) fresh get_size_frame [OF p] flags by (simp_all add: n unsent_def)
  then show "send_inv (d + n) (snd (enqueue_packet t bs n c))"
    using S(1,2,4,5) items out con t unfolding e send_inv_def by simp
qed

lemma push_control_inv [step_intros]:
  assumes "send_inv d c" "udpConnected c" "control_type t" "n = int (length bs)"
  shows "send_inv d (push_control os t i bs n c)"
proof -
  let ?p = "encode t i bs n new_packet"
  have p: "p_data ?p = frame t i bs" by (simp add: assms(4) encode_data)
  show ?thesis using assms p
    by (auto simp: push_control_def Let_def send_inv_def control_frame_def)
qed

lemma build_loop_inv:
  assumes "send_inv d c" "udpConnected c"
  shows "send_inv d (snd (build_loop os flush psize rest c))"
proof -
  have "send_inv d (snd (build_loop os flush psize rest c)) \<and> udpConnected (snd (build_loop os flush psize rest c))"
  proof (rule build_loop_invariant [where Q = "\<lambda>_ c. send_inv d c \<and> udpConnected c"])
    fix rest c sz pc
    assume "send_inv d c \<and> udpConnected c" "0 < sz" "sz \<le> length rest" "int sz \<le> psize"
      and pc: "pc = enqueue_packet Data (take sz rest) (int sz) c"
    then show "send_inv d (on_sent_buffer_changed os (get_size (fst pc)) (set_event_udp_write os (snd pc))) \<and>
        udpConnected (on_sent_buffer_changed os (get_size (fst pc)) (set_event_udp_write os (snd pc)))"
      using enqueue_packet_inv [of d c Data "int sz" "take sz rest"] by (simp add: stream_type_def)
  qed (use assms in simp)
  then show ?thesis by blast
qed

lemma build_udp_packets_inv [step_intros]:
  assumes "send_inv d c"
  shows "send_inv d (build_udp_packets os flush c)"
proof (cases "udpConnected c")
  case True
  define c1 where "c1 = (if udpReceivedFinalIndex c = udpReceivedMasterIndex c then c\<lparr>tcpReceivedData := []\<rparr> else c)"
  have "send_inv d c1" "udpConnected c1" using assms True by (simp_all add: c1_def send_inv_data)
  from build_loop_inv [OF this] this(2) True show ?thesis
    by (simp add: build_udp_packets_def c1_def [symmetric] Let_def split_def send_inv_data)
qed (use assms in \<open>simp add: build_udp_packets_def\<close>)

lemma tcp_close_send_inv [step_intros]:
  assumes "send_inv 0 c"
  shows "send_inv 0 (tcp_close os err c)"
proof (cases "udpConnected c")
  case True
  define c2 where "c2 = (ev_off EvTcpWrite (ev_off EvTcpRead (c\<lparr>tcpConnected := False\<rparr>)))
      \<lparr>tcpSocket := sock_close False (tcpSocket c)\<rparr>"
  have "send_inv 0 c2" using assms by (simp add: c2_def)
  then have "send_inv 0 (build_udp_packets os True (tcp_discard c2))"
    by (simp add: build_udp_packets_inv)
  from enqueue_packet_inv [OF this, of "if err then Disconnect else Bye" 0 "[]"]
  show ?thesis using assms True
    by (simp add: tcp_close_def c2_def Let_def split_def stream_type_def)
next
  case False
  then show ?thesis using assms by (simp add: tcp_close_disconnected)
qed

lemma udp_close_send_inv [step_intros]:
  assumes "send_inv d c"
  shows "send_inv 0 (udp_close os c)"
proof (cases "udpConnected c")
  case True
  have "\<not> udpConnected (udp_close os c) \<and> udpSentPackets (udp_close os c) = [] \<and>
      udpConfirmationPackets (udp_close os c) = [] \<and> tcpReceivedData (udp_close os c) = []"
    using True by (simp add: udp_close_def Let_def tcp_close_disconnected)
  then show ?thesis using assms by (simp add: send_inv_def)
qed (use assms in \<open>simp add: udp_close_def send_inv_def\<close>)

text \<open>Replacing a packet by one with the same bytes, and erasing one.\<close>

lemma send_inv_put:
  assumes "send_inv d c" "om_find (udpSentPackets c) k = Some p" "p_data p' = p_data p" "\<not> p_confirmed p'"
  shows "send_inv d (c\<lparr>udpSentPackets := om_put k p' (udpSentPackets c),
           udpPacketsToSendCount := udpPacketsToSendCount c + unsent p' - unsent p\<rparr>)"
  using assms by (auto simp: send_inv_def get_size_def)

lemma send_inv_erase:
  assumes "send_inv d c" "om_find (udpSentPackets c) k = Some p"
  shows "send_inv (d - get_size p) (c\<lparr>udpSentPackets := om_erase k (udpSentPackets c),
           udpPacketsToSendCount := udpPacketsToSendCount c - unsent p\<rparr>)"
  using assms by (auto simp: send_inv_def)

lemma erase_after_put:
  "om_ok m \<Longrightarrow> om_erase k (om_put k v m) = om_erase k m"
  by (induction k v m rule: om_put.induct) (auto simp: om_erase_def om_ok_Cons)

lemma send_datagram_inv [step_intros]:
  assumes "send_inv d c"
    and "p \<in> set (udpConfirmationPackets c) \<or> (\<exists>k. om_find (udpSentPackets c) k = Some p)"
  shows "send_inv d (snd (send_datagram os p c))"
proof -
  have "control_frame (p_data p) \<or> (\<exists>k<length (log_built c). p_data p = frame_of (log_built c ! k) (int k))"
    using assms(2)
  proof
    assume "\<exists>k. om_find (udpSentPackets c) k = Some p"
    then obtain k where k: "om_find (udpSentPackets c) k = Some p" by blast
    then have "0 \<le> k \<and> k < udpNextSendIndex c \<and> p_data p = frame_of (log_built c ! nat k) k"
      using assms(1) unfolding send_inv_def by blast
    moreover have "udpNextSendIndex c = int (length (log_built c))" using assms(1) by (simp add: send_inv_def)
    ultimately show ?thesis by (intro disjI2 exI [of _ "nat k"]) auto
  qed (use assms(1) in \<open>simp add: send_inv_def\<close>)
  then show ?thesis using assms(1)
    by (auto simp: send_datagram_def Let_def split_def send_inv_def)
qed

lemma write_confirmation_inv [step_intros]:
  assumes inv: "send_inv 0 c" and con: "udpConnected c" and p: "udpConfirmationPackets c = p # ps"
  shows "send_inv 0 (write_confirmation os t p c)"
proof -
  obtain n c1 where s: "send_datagram os p c = (n, c1)" by fastforce
  have c1: "c1 = snd (send_datagram os p c)" using s by simp
  have i1: "send_inv 0 c1" using send_datagram_inv [OF inv, of p os] p by (simp add: c1)
  define c2 where "c2 = on_sent_buffer_changed os (- get_size p)
      (c1\<lparr>statUdpSent := statUdpSent c1 + n, udpLastSentUs := t\<rparr>)"
  have "send_inv (get_size p) c2" using i1 by (simp add: c2_def)
  moreover define c3 where "c3 = c2\<lparr>udpConfirmationPackets := tl (udpConfirmationPackets c2)\<rparr>"
  ultimately have "send_inv 0 c3"
    using p con by (auto simp: send_inv_def c2_def c1)
  then show ?thesis using i1
    by (simp only: write_confirmation_def s Let_def c2_def [symmetric] c3_def [symmetric] prod.case)
      (simp add: udp_close_send_inv)
qed

lemma write_sent_packet_inv [step_intros]:
  assumes inv: "send_inv 0 c" and f: "om_find (udpSentPackets c) k = Some p" and uns: "\<not> p_sent p"
  shows "send_inv 0 (write_sent_packet os t k p c)"
proof -
  obtain n c1 where s: "send_datagram os p c = (n, c1)" by fastforce
  have c1: "c1 = snd (send_datagram os p c)" using s by simp
  have i1: "send_inv 0 c1" using send_datagram_inv [OF inv, of p os] f by (auto simp: c1)
  define p' where "p' = p\<lparr>p_sent := True, p_sentTimeUs := a_time (answer_now os c1),
      p_measureIndex := udpSendMeasureIndex c1\<rparr>"
  have cf: "\<not> p_confirmed p" "\<not> p_confirmed p'" using send_inv_queue(2) [OF inv f] by (simp_all add: p'_def)
  define c2 where "c2 = (tick c1)\<lparr>statUdpSent := statUdpSent c1 + n,
      udpSentPackets := om_put k p' (udpSentPackets c1), udpLastSentUs := t\<rparr>"
  define c3 where "c3 = on_udp_sent os (udpSendMeasureIndex c2) (udpSendIntervalUs c2) (get_size p') c2"
  have "send_inv 0 (c1\<lparr>udpSentPackets := om_put k p' (udpSentPackets c1),
      udpPacketsToSendCount := udpPacketsToSendCount c1 + unsent p' - unsent p\<rparr>)"
    using i1 f cf by (intro send_inv_put) (simp_all add: c1 p'_def)
  then have "send_inv 0 (c3\<lparr>udpPacketsToSendCount := udpPacketsToSendCount c3 - 1\<rparr>)"
    by (rule send_inv_transfer) (simp_all add: c3_def c2_def unsent_def p'_def uns)
  then show ?thesis using i1 cf
    by (simp add: write_sent_packet_def s Let_def p'_def [symmetric] c2_def [symmetric]
        c3_def [symmetric] is_complete_def)
qed

lemma find_in_map:
  "om_ok m \<Longrightarrow> find P m = Some (k, p) \<Longrightarrow> om_find m k = Some p \<and> P (k, p)"
  by (auto simp: find_Some_iff om_find_in_set [symmetric])

lemma udp_write_send_inv [step_intros]:
  assumes "send_inv 0 c"
  shows "send_inv 0 (udp_write os t c)"
proof (cases "udpConnected c")
  case con: True
  show ?thesis
  proof (cases "udpConfirmationPackets c")
    case Nil
    show ?thesis
    proof (cases "find (\<lambda>kp. \<not> p_sent (snd kp)) (udpSentPackets c)")
      case (Some kp)
      obtain k p where kp: "kp = (k, p)" by fastforce
      have "om_find (udpSentPackets c) k = Some p \<and> \<not> p_sent p"
        using find_in_map [OF send_inv_queue(1) [OF assms] Some [unfolded kp]] by simp
      then show ?thesis using assms Nil Some kp con by (simp add: udp_write_def write_sent_packet_inv)
    qed (use assms Nil con in \<open>simp add: udp_write_def\<close>)
  next
    case (Cons p ps)
    then show ?thesis using assms con by (simp add: udp_write_def write_confirmation_inv)
  qed
qed (use assms in \<open>simp add: udp_write_def\<close>)

lemma drop_confirmations_inv [step_intros]:
  assumes "send_inv d c"
  shows "send_inv d (drop_confirmations os c)"
proof -
  let ?f = "\<lambda>ps. fold (\<lambda>p. on_sent_buffer_changed os (- get_size p)) ps"
  have fold: "send_inv d' (?f ps c) = send_inv (d' - sum_list (map get_size ps)) c" for d' ps c
    by (induction ps arbitrary: c d') (simp_all add: algebra_simps)
  have parts: "sum_list (map get_size (filter is_confirmation ps)) + sum_list (map get_size (filter (\<lambda>p. \<not> is_confirmation p) ps))
      = sum_list (map get_size ps)" for ps
    by (induction ps) auto
  let ?ps = "udpConfirmationPackets c"
  let ?c = "?f (filter is_confirmation ?ps) c"
  have "send_inv (d + sum_list (map get_size (filter is_confirmation ?ps))) ?c" using assms by (simp add: fold)
  then show ?thesis
    using parts [of ?ps] by (auto simp: drop_confirmations_def Let_def send_inv_def)
qed

lemma confirm_loop_inv [step_intros]:
  "send_inv d c \<Longrightarrow> udpConnected c \<Longrightarrow> psize - sz = int (length buf) \<Longrightarrow>
   (case confirm_loop os psize master ks prev buf sz c of (buf', sz', c') \<Rightarrow>
      send_inv d c' \<and> psize - sz' = int (length buf'))"
proof (induction os psize master ks prev buf sz c rule: confirm_loop.induct)
  case (2 os psize master b ks prev buf sz c)
  obtain e ks' where r: "take_run (b + 1) ks = (e, ks')" by fastforce
  show ?case
  proof (cases "pack_int_pair (b - prev) (e - b) sz")
    case (Some x)
    obtain bs sz' where x: "x = (bs, sz')" by fastforce
    then have "int (length bs) = sz - sz'" using Some codec.pack_size by blast
    then show ?thesis using 2(2) [OF r [symmetric] Some [unfolded x] refl] 2(3-5) r Some x by simp
  next
    case None
    let ?c = "push_control os Confirmation master buf (psize - sz) c"
    have c: "send_inv d ?c" "udpConnected ?c"
      using 2(3-5) by (auto intro!: push_control_inv simp: control_type_def)
    show ?thesis
    proof (cases "pack_int_pair (b - master) (e - b) psize")
      case N: None
      then show ?thesis using None r c by (simp add: Let_def)
    next
      case (Some x)
      obtain bs sz' where x: "x = (bs, sz')" by fastforce
      then have "int (length bs) = psize - sz'" using Some codec.pack_size by blast
      then show ?thesis using 2(1) [OF r [symmetric] None refl Some [unfolded x] refl] c r Some x None
        by (simp add: Let_def)
    qed
  qed
qed simp

lemma tcp_read_send_inv [step_intros]:
  assumes "send_inv 0 c"
  shows "send_inv 0 (tcp_read os c)"
  using assms by (simp add: tcp_read_def Let_def split_def send_inv_data build_udp_packets_inv)

lemma write_loop_send_inv [step_intros]: "send_inv 0 c \<Longrightarrow> send_inv 0 (write_loop os n c)"
  by (induction n arbitrary: c) (simp_all add: Let_def tcp_close_send_inv split: option.split)

lemma tcp_write_send_inv [step_intros]: "send_inv 0 c \<Longrightarrow> send_inv 0 (tcp_write os c)"
  by (simp add: tcp_write_def write_loop_send_inv)

lemma build_confirmations_send_inv [step_intros]:
  assumes "send_inv 0 c"
  shows "send_inv 0 (build_confirmations os c)"
proof (cases "udpConnected c")
  case True
  let ?c1 = "drop_confirmations os c"
  obtain buf sz c2 where l: "confirm_loop os (udpSendPacketSize (par c)) (udpReceivedMasterIndex c)
      (om_keys (om_lower_bound (udpReceivedPackets c) (udpReceivedMasterIndex c)))
      (udpReceivedMasterIndex c) [] (udpSendPacketSize (par c)) ?c1 = (buf, sz, c2)"
    by (metis prod.exhaust)
  have i1: "send_inv 0 ?c1" using assms by (rule drop_confirmations_inv)
  have c2: "send_inv 0 c2 \<and> udpSendPacketSize (par c) - sz = int (length buf)"
    using confirm_loop_inv [OF i1, of "udpSendPacketSize (par c)" "udpSendPacketSize (par c)" "[]" os
        "udpReceivedMasterIndex c" "om_keys (om_lower_bound (udpReceivedPackets c) (udpReceivedMasterIndex c))"
        "udpReceivedMasterIndex c"] True l by simp
  have "c2 = snd (snd (confirm_loop os (udpSendPacketSize (par c)) (udpReceivedMasterIndex c)
      (om_keys (om_lower_bound (udpReceivedPackets c) (udpReceivedMasterIndex c)))
      (udpReceivedMasterIndex c) [] (udpSendPacketSize (par c)) ?c1))"
    by (simp add: l)
  then have con: "udpConnected c2" using True by simp
  have "send_inv 0 (push_control os Confirmation (udpReceivedMasterIndex c) buf (udpSendPacketSize (par c) - sz) c2)"
    using c2 con by (intro push_control_inv) (simp_all add: control_type_def)
  then show ?thesis using True by (simp add: build_confirmations_def Let_def split_def l)
qed (use assms in \<open>simp add: build_confirmations_def\<close>)

lemma build_bye_bye_inv [step_intros]: "send_inv 0 c \<Longrightarrow> send_inv 0 (build_bye_bye os c)"
  by (simp add: build_bye_bye_def Let_def push_control_inv control_type_def)

lemma resend_loop_inv [step_intros]: "send_inv 0 c \<Longrightarrow> send_inv 0 (resend_loop os t ks c)"
proof (induction ks arbitrary: c)
  case (Cons k ks)
  show ?case
  proof (cases "om_find (udpSentPackets c) k")
    case (Some p)
    define p' where "p' = p\<lparr>p_sent := False, p_remainResendCount := p_remainResendCount p - 1\<rparr>"
    have cf: "\<not> p_confirmed p'" using send_inv_queue(2) [OF Cons.prems Some] by (simp add: p'_def)
    have put: "send_inv 0 (c\<lparr>udpPacketsToSendCount := udpPacketsToSendCount c + 1,
        udpSentPackets := om_put k p' (udpSentPackets c)\<rparr>)" if "p_sent p"
      by (rule send_inv_transfer [OF send_inv_put [OF Cons.prems Some _ cf]]) (simp_all add: p'_def unsent_def that)
    show ?thesis using Cons.prems Some
      by (simp add: Let_def p'_def [symmetric] Cons.IH put udp_close_send_inv)
  qed (use Cons.prems in simp)
qed simp

lemma udp_resend_inv [step_intros]: "send_inv 0 c \<Longrightarrow> send_inv 0 (udp_resend os c)"
  by (simp add: udp_resend_def resend_loop_inv)

text \<open>A confirmed packet leaves the queue at once.\<close>

lemma confirm_packet_eq:
  assumes inv: "send_inv 0 c" and f: "om_find (udpSentPackets c) k = Some p"
  shows "send_inv 0 (confirm_packet os k c)"
    and "udpSentPackets (confirm_packet os k c) = om_erase k (udpSentPackets c)"
proof -
  have cf: "\<not> p_confirmed p" using inv f by (rule send_inv_queue(2))
  let ?c1 = "on_udp_delivered True (p_measureIndex p) (get_size p) c"
  have ok: "om_ok (udpSentPackets c)" using inv by (rule send_inv_queue(1))
  define r where "r = confirm_packet os k c"
  have r: "udpSentPackets r = om_erase k (udpSentPackets c)"
    using f cf ok by (simp add: r_def confirm_packet_def Let_def is_complete_def erase_after_put)
  have part: "send_inv (0 - get_size p) (?c1\<lparr>udpSentPackets := om_erase k (udpSentPackets ?c1),
      udpPacketsToSendCount := udpPacketsToSendCount ?c1 - unsent p\<rparr>)"
    using inv f by (intro send_inv_erase) simp_all
  have "send_inv 0 r"
    by (rule send_inv_transfer [where c = "on_sent_buffer_changed os (- get_size p) (?c1\<lparr>udpSentPackets := om_erase k (udpSentPackets ?c1),
      udpPacketsToSendCount := udpPacketsToSendCount ?c1 - unsent p\<rparr>)"])
      (use part f cf ok in \<open>simp_all add: r, simp_all add: r_def confirm_packet_def Let_def is_complete_def unsent_def\<close>)
  then show "send_inv 0 (confirm_packet os k c)" by (simp add: r_def)
  show "udpSentPackets (confirm_packet os k c) = om_erase k (udpSentPackets c)" using r by (simp add: r_def)
qed

lemma confirm_packet_none: "om_find (udpSentPackets c) k = None \<Longrightarrow> confirm_packet os k c = c"
  by (simp add: confirm_packet_def)

lemma confirm_packet_inv [step_intros]: "send_inv 0 c \<Longrightarrow> send_inv 0 (confirm_packet os k c)"
  by (cases "om_find (udpSentPackets c) k") (simp_all add: confirm_packet_none confirm_packet_eq)

text \<open>Confirming a list of indices removes exactly those from the queue.\<close>

lemma fold_confirm_inv:
  "send_inv 0 c \<Longrightarrow>
   send_inv 0 (fold (confirm_packet os) ks c) \<and>
   (\<forall>k. om_find (udpSentPackets (fold (confirm_packet os) ks c)) k =
      (if k \<in> set ks then None else om_find (udpSentPackets c) k))"
proof (induction ks arbitrary: c)
  case (Cons i ks)
  have "om_find (udpSentPackets (confirm_packet os i c)) k = (if k = i then None else om_find (udpSentPackets c) k)" for k
    using confirm_packet_eq(2) [OF Cons.prems] send_inv_queue(1) [OF Cons.prems]
    by (cases "om_find (udpSentPackets c) i") (auto simp: confirm_packet_none)
  then show ?case using Cons.IH [OF confirm_packet_inv [OF Cons.prems, of os i]] by simp
qed simp

lemma takeWhile_below: "om_ok m \<Longrightarrow> set (takeWhile (\<lambda>k. k < b) (om_keys m)) = {k. om_find m k \<noteq> None \<and> k < b}"
proof -
  assume ok: "om_ok m"
  then have "sorted_wrt (<) (om_keys m)" by (rule om.keys_sorted)
  then have "takeWhile (\<lambda>k. k < b) ks = filter (\<lambda>k. k < b) ks" if "sorted_wrt (<) ks" for ks
    using that by (induction ks) (fastforce simp: filter_empty_conv eq_commute [of "[]"])+
  with \<open>sorted_wrt (<) (om_keys m)\<close> show ?thesis using om.keys_find [OF ok] by auto
qed

text \<open>The indices a confirmation packet acknowledges.\<close>

definition acknowledged :: "packet \<Rightarrow> int \<Rightarrow> bool" where
  "acknowledged p k \<longleftrightarrow>
     k < get_index p \<or> k \<in> set (pair_indices (get_index p) (fst (unpack_pairs (get_data p))))"

lemma read_confirmation_inv:
  assumes "send_inv 0 c"
  shows "send_inv 0 (read_confirmation os p c)"
    and "om_find (udpSentPackets (read_confirmation os p c)) k =
      (if acknowledged p k then None else om_find (udpSentPackets c) k)"
proof -
  let ?ks = "takeWhile (\<lambda>k. k < get_index p) (om_keys (udpSentPackets c))"
  let ?is = "pair_indices (get_index p) (fst (unpack_pairs (get_data p)))"
  define c1 where "c1 = fold (confirm_packet os) ?ks c"
  define c2 where "c2 = fold (confirm_packet os) ?is c1"
  have c1: "send_inv 0 c1" "\<And>k. om_find (udpSentPackets c1) k = (if k \<in> set ?ks then None else om_find (udpSentPackets c) k)"
    using fold_confirm_inv [OF assms, of os ?ks] by (simp_all add: c1_def)
  have c2: "send_inv 0 c2" "\<And>k. om_find (udpSentPackets c2) k = (if k \<in> set ?is then None else om_find (udpSentPackets c1) k)"
    using fold_confirm_inv [OF c1(1), of os ?is] by (simp_all add: c2_def)
  have r: "udpSentPackets (read_confirmation os p c) = udpSentPackets c2"
    by (simp add: read_confirmation_def Let_def c1_def [symmetric] c2_def [symmetric])
  show "send_inv 0 (read_confirmation os p c)" using c2(1)
    by (simp add: read_confirmation_def Let_def c1_def [symmetric] c2_def [symmetric])
  show "om_find (udpSentPackets (read_confirmation os p c)) k =
      (if acknowledged p k then None else om_find (udpSentPackets c) k)"
    unfolding r c2(2) c1(2) takeWhile_below [OF send_inv_queue(1) [OF assms]] acknowledged_def
    by (cases "om_find (udpSentPackets c) k") auto
qed

lemma read_bye_bye_inv [step_intros]: "send_inv 0 c \<Longrightarrow> send_inv 0 (read_bye_bye os c)"
  by (simp add: read_bye_bye_def Let_def drop_confirmations_inv)

lemma udp_dispatch_send_inv [step_intros]: "send_inv 0 c \<Longrightarrow> send_inv 0 (udp_dispatch os p c)"
  by (simp add: udp_dispatch_def Let_def read_confirmation_inv read_bye_bye_inv)

lemma udp_read_send_inv [step_intros]: "send_inv 0 c \<Longrightarrow> send_inv 0 (udp_read os p c)"
  using udp_close_send_inv [of 0 "udp_dispatch os p c" os] udp_dispatch_send_inv [of c os p]
  by (simp add: udp_read_def Let_def)

lemma handle_send_inv [step_intros]: "send_inv 0 c \<Longrightarrow> send_inv 0 (handle os e planned c)"
  by (simp add: handle_def conn_delete_def tcp_read_send_inv tcp_write_send_inv tcp_close_send_inv
      udp_write_send_inv udp_close_send_inv build_udp_packets_inv build_confirmations_send_inv
      build_bye_bye_inv udp_resend_inv split: conn_event.split)

text \<open>A host whose logs are empty, as they are before the connection exists.\<close>

definition fresh_host :: "'z host_scheme \<Rightarrow> bool" where
  "fresh_host h \<longleftrightarrow> log_tcpIn h = [] \<and> log_tcpOut h = [] \<and> log_udpOut h = []"

lemma conn_new_send_inv: "log_udpOut h = [] \<Longrightarrow> send_inv 0 (conn_new os ps iv h)"
proof -
  assume h: "log_udpOut h = []"
  have "send_inv 0 c" if "udpSentPackets c = []" "udpNextSendIndex c = 0" "log_built c = []"
    "udpConfirmationPackets c = []" "log_udpOut c = []" "udpConnected c" "udpSentBufferSize c = 0"
    "udpPacketsToSendCount c = 0" for c
    using that by (simp add: send_inv_def)
  from enqueue_packet_inv [OF this, of _ Hello 0 "[]"] h show ?thesis
    by (simp add: conn_new_def Let_def split_def stream_type_def)
qed

end
