(* ===== verification/Confirmations.thy ===== *)
theory Confirmations
  imports Conn_Send
begin

text \<open>
  What the confirmation packets of \<open>buildConfirmations\<close> say: decoded the way \<open>udpRead\<close> of the other
  side decodes them, they list exactly the received indices from the master index on. This is the
  check the program has under \<open>CHECK_CONFIRMATIONS\<close>, as a theorem.
\<close>

section \<open>Runs and pairs\<close>

lemma take_run_upto: "take_run e ks = (e', ks') \<Longrightarrow> e \<le> e' \<and> ks = [e..e' - 1] @ ks'"
proof (induction e ks rule: take_run.induct)
  case (2 e k ks)
  show ?case
  proof (cases "k = e")
    case True
    then have "e + 1 \<le> e' \<and> ks = [e + 1..e' - 1] @ ks'" using 2 by simp
    then show ?thesis using True by (simp add: upto_rec1 [of e])
  qed (use 2 in simp)
qed simp

fun pair_end :: "int \<Rightarrow> (int \<times> int) list \<Rightarrow> int" where
  "pair_end cur [] = cur"
| "pair_end cur ((a, b) # ps) = pair_end (cur + a + b) ps"

lemma pair_snoc:
  "pair_end cur (ps @ [(a, b)]) = pair_end cur ps + a + b"
  "pair_indices cur (ps @ [(a, b)]) =
     pair_indices cur ps @ [pair_end cur ps + a..pair_end cur ps + a + b - 1]"
  by (induction cur ps rule: pair_end.induct) simp_all

text \<open>A buffer into which the pairs for the indices \<open>K\<close> have been packed, the last run ending at
  \<open>prev\<close>.\<close>

definition holds_pairs :: "int \<Rightarrow> int \<Rightarrow> bytes \<Rightarrow> int set \<Rightarrow> bool" where
  "holds_pairs m prev buf K \<longleftrightarrow>
     (\<exists>ps. packed pack_int_pair ps buf \<and> (\<forall>(a, b)\<in>set ps. c_nonneg a \<and> c_nonneg b) \<and>
        pair_end m ps = prev \<and> set (pair_indices m ps) = K)"

lemma holds_pairs_Nil: "holds_pairs m m [] {}"
  unfolding holds_pairs_def by (rule exI [of _ "[]"]) simp

lemma holds_pairs_snoc:
  assumes "holds_pairs m prev buf K" "pack_int_pair (b - prev) (e - b) sz = Some (bs, sz')"
    "prev \<le> b" "b \<le> e" "e \<le> int_max" "0 \<le> prev"
  shows "holds_pairs m e (buf @ bs) (K \<union> {b..e - 1})"
proof -
  obtain ps where ps: "packed pack_int_pair ps buf" "\<forall>(a, b)\<in>set ps. c_nonneg a \<and> c_nonneg b"
      "pair_end m ps = prev" "set (pair_indices m ps) = K"
    using assms(1) unfolding holds_pairs_def by blast
  have c: "c_nonneg (b - prev)" "c_nonneg (e - b)" using assms(3-6) by (auto simp: c_nonneg_def)
  show ?thesis unfolding holds_pairs_def
    by (rule exI [of _ "ps @ [(b - prev, e - b)]"])
      (use codec.packed_snoc [OF ps(1) assms(2)] ps c in \<open>auto simp: pair_snoc\<close>)
qed

lemma holds_pairs_decode:
  "holds_pairs m prev buf K \<Longrightarrow> set (pair_indices m (fst (unpack_pairs buf))) = K \<and> snd (unpack_pairs buf) = []"
  unfolding holds_pairs_def unpack_pairs_def
  using codec.decode_all_packed [of _ buf "length buf"] by fastforce

section \<open>The packing loop\<close>

definition acks :: "packet \<Rightarrow> int set" where
  "acks p = set (pair_indices (get_index p) (fst (unpack_pairs (get_data p))))"

definition confirms :: "int \<Rightarrow> packet \<Rightarrow> int set \<Rightarrow> bool" where
  "confirms m p K \<longleftrightarrow>
     (\<exists>bs prev. p_data p = frame Confirmation m bs \<and> holds_pairs m prev bs K)"

lemma confirms_reads:
  assumes "confirms m p K" "0 \<le> m" "m < 2 ^ 31"
  shows "get_type p = Confirmation" "get_index p = m" "acks p = K" "snd (unpack_pairs (get_data p)) = []"
proof -
  obtain bs prev where p: "p_data p = frame Confirmation m bs" and h: "holds_pairs m prev bs K"
    using assms(1) unfolding confirms_def by blast
  show "get_type p = Confirmation" by (rule frame_type [OF p]) simp
  show i: "get_index p = m" by (rule frame_index [OF p]) (use assms in simp_all)
  have d: "get_data p = bs" using frame_payload [OF p] by simp
  show "acks p = K" "snd (unpack_pairs (get_data p)) = []"
    using holds_pairs_decode [OF h] by (simp_all add: acks_def i d)
qed

lemma push_control_packets:
  "n = int (length bs) \<Longrightarrow>
   \<exists>p. udpConfirmationPackets (push_control os t i bs n c) = udpConfirmationPackets c @ [p] \<and>
     p_data p = frame t i bs \<and> fresh_flags p"
  by (simp add: push_control_def Let_def encode_data fresh_flags_def new_packet_def)

lemma confirm_loop_covers:
  assumes "sorted_wrt (<) ks" "\<forall>k\<in>set ks. prev \<le> k \<and> k < int_max" "0 \<le> m" "m \<le> prev"
    "holds_pairs m prev buf K" "psize - sz = int (length buf)"
    "confirm_loop os psize m ks prev buf sz c = (buf', sz', c')"
  shows "\<exists>news Ks prev' K'. udpConfirmationPackets c' = udpConfirmationPackets c @ news \<and>
     list_all2 (confirms m) news Ks \<and> holds_pairs m prev' buf' K' \<and> psize - sz' = int (length buf') \<and>
     K' \<union> \<Union> (set Ks) \<subseteq> K \<union> set ks \<and> (10 \<le> psize \<longrightarrow> K \<union> set ks \<subseteq> K' \<union> \<Union> (set Ks))"
  using assms
proof (induction os psize m ks prev buf sz c arbitrary: K buf' sz' c' rule: confirm_loop.induct)
  case (1 os psize m prev buf sz c)
  then show ?case by (intro exI [of _ "[]"] exI [of _ prev] exI [of _ K]) auto
next
  case (2 os psize m b ks prev buf sz c)
  obtain e ks' where r: "take_run (b + 1) ks = (e, ks')" by fastforce
  have e: "b + 1 \<le> e" and ks: "ks = [b + 1..e - 1] @ ks'" using take_run_upto [OF r] by auto
  have run: "set (b # ks) = {b..e - 1} \<union> set ks'" using e by (auto simp: ks)
  have below: "e \<le> int_max"
  proof (cases "e = b + 1")
    case False
    then have "e - 1 \<in> set ks" using e by (simp add: ks)
    then show ?thesis using 2(4) by fastforce
  qed (use 2(4) in simp)
  have srt: "sorted_wrt (<) ks'" using 2(3) by (simp add: ks sorted_wrt_append)
  have "sorted_wrt (<) ((b # [b + 1..e - 1]) @ ks')" using 2(3) by (simp add: ks)
  then have far: "\<forall>x\<in>set (b # [b + 1..e - 1]). \<forall>k\<in>set ks'. x < k"
    unfolding sorted_wrt_append by blast
  have "e - 1 \<in> set (b # [b + 1..e - 1])" using e by auto
  then have ge: "\<forall>k\<in>set ks'. e - 1 < k" using far by blast
  have sub: "set ks' \<subseteq> set (b # ks)" unfolding ks by (simp only: set_append set_simps) blast
  have later: "\<forall>k\<in>set ks'. e \<le> k \<and> k < int_max"
  proof
    fix k assume k: "k \<in> set ks'"
    then have "e - 1 < k" "k < int_max" using ge sub 2(4) by blast+
    then show "e \<le> k \<and> k < int_max" by simp
  qed
  have b: "prev \<le> b" "b \<le> e" "0 \<le> prev" "m \<le> e" using 2(4-6) e by auto
  show ?case
  proof (cases "pack_int_pair (b - prev) (e - b) sz")
    case (Some x)
    obtain bs sz1 where x: "x = (bs, sz1)" by fastforce
    have len: "int (length bs) = sz - sz1" using codec.pack_size Some x by blast
    have h: "holds_pairs m e (buf @ bs) (K \<union> {b..e - 1})"
      using holds_pairs_snoc [OF 2(7) Some [unfolded x] b(1,2) below b(3)] .
    have eq: "confirm_loop os psize m ks' e (buf @ bs) sz1 c = (buf', sz', c')"
      using 2(9) by (simp add: r Some x)
    have "psize - sz1 = int (length (buf @ bs))" using 2(8) len by simp
    from 2(2) [OF r [symmetric] Some [unfolded x] refl srt later 2(5) b(4) h this eq]
    show ?thesis unfolding run by (simp only: Un_assoc)
  next
    case None
    let ?c1 = "push_control os Confirmation m buf (psize - sz) c"
    obtain q where q: "udpConfirmationPackets ?c1 = udpConfirmationPackets c @ [q]" "p_data q = frame Confirmation m buf"
      using push_control_packets [OF 2(8), of os Confirmation m c] by blast
    have cq: "confirms m q K" unfolding confirms_def using q(2) 2(7) by blast
    show ?thesis
    proof (cases "pack_int_pair (b - m) (e - b) psize")
      case N: None
      have "\<not> 10 \<le> psize"
        using codec.pack_room [of "b - m" "e - b" psize] N b 2(5,6) below by (auto simp: c_nonneg_def)
      moreover have "buf' = []" "sz' = psize" "c' = ?c1" using 2(9) by (auto simp: r None N Let_def)
      ultimately show ?thesis using q cq
        by (intro exI [of _ "[q]"] exI [of _ "[K]"] exI [of _ m] exI [of _ "{}"]) (auto simp: holds_pairs_Nil)
    next
      case (Some x)
      obtain bs sz1 where x: "x = (bs, sz1)" by fastforce
      have len: "int (length bs) = psize - sz1" using codec.pack_size Some x by blast
      have h: "holds_pairs m e bs {b..e - 1}"
        using holds_pairs_snoc [OF holds_pairs_Nil Some [unfolded x] _ b(2) below 2(5)] b(1) 2(6) by simp
      have eq: "confirm_loop os psize m ks' e bs sz1 ?c1 = (buf', sz', c')"
        using 2(9) by (simp add: r None Some x Let_def)
      have "psize - sz1 = int (length bs)" using len by simp
      from 2(1) [OF r [symmetric] None refl Some [unfolded x] refl srt later 2(5) b(4) h this eq]
      obtain news Ks prev' K' where n: "udpConfirmationPackets c' = udpConfirmationPackets ?c1 @ news"
          "list_all2 (confirms m) news Ks" "holds_pairs m prev' buf' K'" "psize - sz' = int (length buf')"
          "K' \<union> \<Union> (set Ks) \<subseteq> {b..e - 1} \<union> set ks'"
          "10 \<le> psize \<longrightarrow> {b..e - 1} \<union> set ks' \<subseteq> K' \<union> \<Union> (set Ks)"
        by auto
      show ?thesis
        by (rule exI [of _ "q # news"], rule exI [of _ "K # Ks"], rule exI [of _ prev'], rule exI [of _ K'])
          (use n q cq run in auto)
    qed
  qed
qed

section \<open>All confirmations of one build\<close>

text \<open>The control packets after \<open>buildConfirmations\<close>: the ByeBye packets that were waiting, then
  confirmations of disjoint runs that make up the received indices from the master index on.\<close>

lemma build_confirmations_covers:
  assumes con: "udpConnected c" and ok: "recv_ok c"
    and keys: "\<forall>k\<in>set (om_keys (udpReceivedPackets c)). k < int_max"
  shows "\<exists>news Ks. udpConfirmationPackets (build_confirmations os c) =
        filter (\<lambda>p. \<not> is_confirmation p) (udpConfirmationPackets c) @ news \<and> news \<noteq> [] \<and>
      list_all2 (confirms (udpReceivedMasterIndex c)) news Ks \<and>
      \<Union> (set Ks) \<subseteq> {k. om_find (udpReceivedPackets c) k \<noteq> None \<and> udpReceivedMasterIndex c \<le> k} \<and>
      (10 \<le> udpSendPacketSize (par c) \<longrightarrow>
         {k. om_find (udpReceivedPackets c) k \<noteq> None \<and> udpReceivedMasterIndex c \<le> k} \<subseteq> \<Union> (set Ks))"
proof -
  let ?R = "udpReceivedPackets c" and ?m = "udpReceivedMasterIndex c" and ?n = "udpSendPacketSize (par c)"
  let ?ks = "om_keys (om_lower_bound ?R ?m)"
  let ?c1 = "drop_confirmations os c"
  have R: "om_ok ?R" "0 \<le> ?m" using ok by (auto simp: recv_ok_def)
  have srt: "sorted_wrt (<) ?ks"
    unfolding om.lower_filter [OF R(1)] using om.keys_sorted [OF R(1)] by (rule sorted_wrt_filter)
  have set: "set ?ks = {k. om_find ?R k \<noteq> None \<and> ?m \<le> k}" by (rule om.lower_set [OF R(1)])
  then have "\<forall>k\<in>set ?ks. ?m \<le> k \<and> k < int_max" using keys om.keys_find [OF R(1)] by blast
  note cover = confirm_loop_covers [OF srt this R(2) order_refl holds_pairs_Nil]
  obtain buf sz c2 where l: "confirm_loop os ?n ?m ?ks ?m [] ?n ?c1 = (buf, sz, c2)" by (metis prod.exhaust)
  obtain news Ks prev' K' where n: "udpConfirmationPackets c2 = udpConfirmationPackets ?c1 @ news"
      "list_all2 (confirms ?m) news Ks" "holds_pairs ?m prev' buf K'" "?n - sz = int (length buf)"
      "K' \<union> \<Union> (set Ks) \<subseteq> set ?ks" "10 \<le> ?n \<longrightarrow> set ?ks \<subseteq> K' \<union> \<Union> (set Ks)"
    using cover [OF _ l] by auto
  obtain q where q: "udpConfirmationPackets (push_control os Confirmation ?m buf (?n - sz) c2) =
      udpConfirmationPackets c2 @ [q]" "p_data q = frame Confirmation ?m buf"
    using push_control_packets [OF n(4), of os Confirmation ?m c2] by blast
  have "confirms ?m q K'" unfolding confirms_def using q(2) n(3) by blast
  then have all: "list_all2 (confirms ?m) (news @ [q]) (Ks @ [K'])"
    using n(2) by (simp add: list_all2_appendI)
  have dc: "udpConfirmationPackets ?c1 = filter (\<lambda>p. \<not> is_confirmation p) (udpConfirmationPackets c)"
    by (simp add: drop_confirmations_def Let_def)
  have "udpConfirmationPackets (build_confirmations os c) =
      udpConfirmationPackets (push_control os Confirmation ?m buf (?n - sz) c2)"
    using con l by (simp add: build_confirmations_def Let_def split_def)
  also have "\<dots> = filter (\<lambda>p. \<not> is_confirmation p) (udpConfirmationPackets c) @ (news @ [q])"
    unfolding q(1) n(1) dc by simp
  finally have eq: "udpConfirmationPackets (build_confirmations os c) = \<dots>" .
  show ?thesis
    by (rule exI [of _ "news @ [q]"], rule exI [of _ "Ks @ [K']"]) (use eq all n(5,6) set in auto)
qed

text \<open>C26: the confirmations \<open>buildConfirmations\<close> leaves in the queue carry the master index, decode without
  a rest, and list together exactly the received packets from the master index on, so that nothing
  that was not received is confirmed and nothing received is left out, however many packets the list
  is spread over (given ten bytes of room in a packet and indices below the largest \<open>int\<close>).\<close>

theorem confirmations_exact:
  assumes "udpConnected c" "recv_ok c" "10 \<le> udpSendPacketSize (par c)"
    and "udpReceivedMasterIndex c < 2 ^ 31"
    and "\<forall>k\<in>set (om_keys (udpReceivedPackets c)). k < int_max"
  shows "(\<Union>p\<in>{p \<in> set (udpConfirmationPackets (build_confirmations os c)). is_confirmation p}. acks p) =
      {k. om_find (udpReceivedPackets c) k \<noteq> None \<and> udpReceivedMasterIndex c \<le> k}
    \<and> (\<forall>p\<in>set (udpConfirmationPackets (build_confirmations os c)). is_confirmation p \<longrightarrow>
        get_index p = udpReceivedMasterIndex c \<and> snd (unpack_pairs (get_data p)) = [])"
proof -
  let ?m = "udpReceivedMasterIndex c" and ?S = "udpConfirmationPackets (build_confirmations os c)"
  obtain news Ks where n: "?S = filter (\<lambda>p. \<not> is_confirmation p) (udpConfirmationPackets c) @ news"
      "list_all2 (confirms ?m) news Ks"
      "\<Union> (set Ks) = {k. om_find (udpReceivedPackets c) k \<noteq> None \<and> ?m \<le> k}"
    using build_confirmations_covers [OF assms(1,2,5), of os] assms(3) by (auto intro: that)
  have m: "0 \<le> ?m" using assms(2) by (auto simp: recv_ok_def)
  have each: "is_confirmation p \<and> get_index p = ?m \<and> acks p = K \<and> snd (unpack_pairs (get_data p)) = []"
    if "confirms ?m p K" for p K
    using confirms_reads [OF that m assms(4)] by (simp add: is_confirmation_def)
  have "\<Union> (acks ` set news) = \<Union> (set Ks) \<and> (\<forall>p\<in>set news. is_confirmation p \<and> get_index p = ?m \<and> snd (unpack_pairs (get_data p)) = [])"
    using n(2) by (induction rule: list_all2_induct) (auto dest: each)
  then have N: "\<Union> (acks ` set news) = \<Union> (set Ks)"
      "\<forall>p\<in>set news. is_confirmation p \<and> get_index p = ?m \<and> snd (unpack_pairs (get_data p)) = []"
    by blast+
  have S: "{p \<in> set ?S. is_confirmation p} = set news" using n(1) N(2) by auto
  show ?thesis
  proof
    show "(\<Union>p\<in>{p \<in> set ?S. is_confirmation p}. acks p) =
        {k. om_find (udpReceivedPackets c) k \<noteq> None \<and> ?m \<le> k}"
      by (simp only: S N(1) n(3))
    show "\<forall>p\<in>set ?S. is_confirmation p \<longrightarrow> get_index p = ?m \<and> snd (unpack_pairs (get_data p)) = []"
      using N(2) S by blast
  qed
qed

theorem confirmations_exact_witness:
  "(\<Union>p\<in>{p \<in> set (udpConfirmationPackets (build_confirmations sample_os (sample_conn
       \<lparr>udpReceivedPackets := [(2, sample_packet 2 2), (3, sample_packet 2 3), (5, sample_packet 2 5)],
        udpReceiveBufferSize := 6\<rparr>))). is_confirmation p}. acks p) = {2, 3, 5}"
proof -
  let ?c = "sample_conn\<lparr>udpReceivedPackets := [(2, sample_packet 2 2), (3, sample_packet 2 3), (5, sample_packet 2 5)],
        udpReceiveBufferSize := 6\<rparr>"
  have "recv_ok ?c"
    by (auto simp: recv_ok_def sample_conn_def om_ok_def om_sum_def sample_packet_def get_size_def new_packet_def int_max_def
        split: if_splits)
  from confirmations_exact [of ?c sample_os, OF _ this]
  show ?thesis by (auto simp: sample_conn_def sample_params_def int_max_def split: if_splits)
qed

end
