(* ===== verification/Streams.thy ===== *)
theory Streams
  imports Confirmations
begin

text \<open>
  The byte streams of the two tcp connections at the ends of the tunnel. \<open>sends_stream\<close>: the payloads
  of the packets built so far, with the bytes not yet in a packet, are what was read from tcp.
  \<open>receives_stream L\<close>: what was written to tcp is the payloads of the first packets of the list \<open>L\<close>
  of packets built at the other end.
\<close>

section \<open>The sending end\<close>

definition payload_of :: "ptype \<times> bytes \<Rightarrow> bytes" where
  "payload_of tb = (if fst tb = Data then snd tb else [])"

definition stream_of :: "(ptype \<times> bytes) list \<Rightarrow> bytes" where
  "stream_of L = concat (map payload_of L)"

lemma stream_of_simps [simp]:
  "stream_of [] = []" "stream_of (L @ M) = stream_of L @ stream_of M"
  "stream_of [(t, bs)] = (if t = Data then bs else [])"
  by (simp_all add: stream_of_def payload_of_def)

definition peer_finished :: "conn \<Rightarrow> bool" where
  "peer_finished c \<longleftrightarrow> udpReceivedFinalIndex c = udpReceivedMasterIndex c"

text \<open>Until the other end has sent its last packet nothing read is lost; afterwards, or when udp is
  closed, what is still unsent is dropped.\<close>

definition sends_stream :: "conn \<Rightarrow> bool" where
  "sends_stream c \<longleftrightarrow>
     prefix (stream_of (log_built c) @ tcpReceivedData c) (log_tcpIn c) \<and>
     (udpConnected c \<and> \<not> peer_finished c \<longrightarrow> stream_of (log_built c) @ tcpReceivedData c = log_tcpIn c)"

lemma log_built_enqueue [simp]:
  "log_built (snd (enqueue_packet t bs n c)) = log_built c @ [(t, take (nat n) bs)]"
  by (simp add: enqueue_packet_def Let_def)

lemma build_loop_stream:
  "stream_of (log_built (snd (build_loop os flush psize rest c))) @ fst (build_loop os flush psize rest c) =
   stream_of (log_built c) @ rest"
  by (rule build_loop_invariant [where Q = "\<lambda>r x. stream_of (log_built x) @ r = stream_of (log_built c) @ rest"])
    (auto simp: append_take_drop_id)

lemma build_udp_packets_stream:
  assumes "udpConnected c"
  shows "stream_of (log_built (build_udp_packets os flush c)) @ tcpReceivedData (build_udp_packets os flush c) =
    stream_of (log_built c) @ (if peer_finished c then [] else tcpReceivedData c)"
proof -
  define c1 where "c1 = (if udpReceivedFinalIndex c = udpReceivedMasterIndex c then c\<lparr>tcpReceivedData := []\<rparr> else c)"
  have "stream_of (log_built (build_udp_packets os flush c)) @ tcpReceivedData (build_udp_packets os flush c) =
      stream_of (log_built c1) @ tcpReceivedData c1"
    using assms build_loop_stream [of os flush "udpSendPacketSize (par c1)" "tcpReceivedData c1" c1]
    by (auto simp: build_udp_packets_def c1_def [symmetric] Let_def split_def)
  then show ?thesis by (simp add: c1_def peer_finished_def)
qed

lemma sends_stream_frame [simp]:
  "sends_stream (tick c) = sends_stream c" "sends_stream (ev_at e t c) = sends_stream c"
  "sends_stream (ev_in os e t c) = sends_stream c" "sends_stream (ev_off e c) = sends_stream c"
  "sends_stream (on_sent_buffer_changed os n c) = sends_stream c"
  "sends_stream (set_event_udp_write os c) = sends_stream c"
  "sends_stream (write_packet os k p c) = sends_stream c" "sends_stream (finish_received k p n c) = sends_stream c"
  "sends_stream (tcp_discard c) = sends_stream c" "sends_stream (build_confirmations os c) = sends_stream c"
  "sends_stream (build_bye_bye os c) = sends_stream c" "sends_stream (read_confirmation os p c) = sends_stream c"
  "sends_stream (read_bye_bye os c) = sends_stream c" "sends_stream (read_extra p c) = sends_stream c"
  by (simp_all only: sends_stream_def peer_finished_def tick_frame ev_at_frame ev_in_frame ev_off_frame
      on_sent_buffer_changed_frame set_event_udp_write_frame write_packet_frame finish_received_frame
      tcp_discard_frame build_confirmations_frame build_bye_bye_frame read_confirmation_frame
      read_bye_bye_frame read_extra_frame)

lemma build_udp_packets_sends [step_intros]:
  assumes "sends_stream c"
  shows "sends_stream (build_udp_packets os flush c)"
proof (cases "udpConnected c")
  case True
  have "peer_finished (build_udp_packets os flush c) = peer_finished c" by (simp add: peer_finished_def)
  then show ?thesis
    using assms True append_prefixD [of "stream_of (log_built c)" "tcpReceivedData c" "log_tcpIn c"]
    by (simp add: sends_stream_def build_udp_packets_stream)
qed (use assms in \<open>simp add: build_udp_packets_def\<close>)

lemma tcp_read_sends [step_intros]:
  assumes "sends_stream c"
  shows "sends_stream (tcp_read os c)"
proof -
  obtain bs s where r: "sock_read (a_recv (answer_now os c)) (udpSendPacketSize (par c)) (tcpSocket c) = (bs, s)"
    by fastforce
  define c1 where "c1 = (tick c)\<lparr>tcpSocket := s, log_tcpIn := log_tcpIn c @ bs\<rparr>"
  define c2 where "c2 = c1\<lparr>statTcpReceived := statTcpReceived c1 + int (length bs)\<rparr>"
  define c3 where "c3 = c2\<lparr>tcpReceivedData := tcpReceivedData c2 @ bs\<rparr>"
  have f: "peer_finished c3 = peer_finished c" "udpConnected c3 = udpConnected c" "log_built c3 = log_built c"
    "tcpReceivedData c3 = tcpReceivedData c @ bs" "log_tcpIn c3 = log_tcpIn c @ bs"
    by (simp_all add: c3_def c2_def c1_def peer_finished_def)
  have pre: "prefix (stream_of (log_built c)) (log_tcpIn c)"
    using assms append_prefixD [of "stream_of (log_built c)"] by (auto simp: sends_stream_def)
  have fin: "peer_finished (build_udp_packets os False c3) = peer_finished c" using f(1) by (simp add: peer_finished_def)
  have con: "sends_stream (build_udp_packets os False c3)" if u: "udpConnected c"
  proof (cases "peer_finished c")
    case True
    then show ?thesis using u fin prefix_append_drop [OF pre, of bs]
      by (simp add: sends_stream_def build_udp_packets_stream f)
  next
    case False
    then have e: "log_tcpIn c = stream_of (log_built c) @ tcpReceivedData c"
      using u assms by (simp add: sends_stream_def)
    show ?thesis using u False by (simp add: sends_stream_def build_udp_packets_stream f e)
  qed
  have dis: "sends_stream c2" if "\<not> udpConnected c"
    using that assms prefix_append_drop by (auto simp: sends_stream_def c2_def c1_def peer_finished_def)
  have "sends_stream c1" if "bs = []"
    using that assms by (simp add: sends_stream_def c1_def peer_finished_def)
  then show ?thesis
    using assms con dis by (simp add: tcp_read_def r Let_def c1_def [symmetric] c2_def [symmetric] c3_def [symmetric])
      (simp add: c2_def c1_def)
qed

lemma tcp_close_sends [step_intros]:
  assumes "sends_stream c"
  shows "sends_stream (tcp_close os err c)"
proof -
  define c2 where "c2 = (ev_off EvTcpWrite (ev_off EvTcpRead (c\<lparr>tcpConnected := False\<rparr>)))
      \<lparr>tcpSocket := sock_close False (tcpSocket c)\<rparr>"
  have c2: "sends_stream c2" using assms by (simp add: sends_stream_def c2_def peer_finished_def)
  define c3 where "c3 = build_udp_packets os True (tcp_discard c2)"
  have c3: "sends_stream c3" using c2 by (simp add: c3_def build_udp_packets_sends)
  have enq: "sends_stream (snd (enqueue_packet t [] 0 c3))" if "t \<noteq> Data" for t
    using c3 that by (simp add: sends_stream_def peer_finished_def)
  show ?thesis using assms c2
    by (simp add: tcp_close_def Let_def split_def enq c2_def [symmetric] c3_def [symmetric])
qed

lemma udp_close_sends [step_intros]:
  assumes "sends_stream c"
  shows "sends_stream (udp_close os c)"
proof (cases "udpConnected c")
  case True
  have "tcpReceivedData (udp_close os c) = []" "\<not> udpConnected (udp_close os c)"
    using True by (simp_all add: udp_close_def Let_def tcp_close_disconnected)
  then show ?thesis
    using assms append_prefixD [of "stream_of (log_built c)"] by (auto simp: sends_stream_def)
qed (use assms in \<open>simp add: udp_close_def\<close>)

lemma write_loop_sends [step_intros]: "sends_stream c \<Longrightarrow> sends_stream (write_loop os n c)"
  by (induction n arbitrary: c) (simp_all add: Let_def tcp_close_sends split: option.split)

lemma tcp_write_sends [step_intros]: "sends_stream c \<Longrightarrow> sends_stream (tcp_write os c)"
  by (simp add: tcp_write_def write_loop_sends)

lemma sends_stream_update [simp]:
  "sends_stream (c\<lparr>tcpConnected := x0\<rparr>) = sends_stream c"
  "sends_stream (c\<lparr>tcpSocket := x1\<rparr>) = sends_stream c"
  "sends_stream (c\<lparr>udpSocket := x2\<rparr>) = sends_stream c"
  "sends_stream (c\<lparr>statTcpSent := x3\<rparr>) = sends_stream c"
  "sends_stream (c\<lparr>statTcpReceived := x4\<rparr>) = sends_stream c"
  "sends_stream (c\<lparr>statUdpSent := x5\<rparr>) = sends_stream c"
  "sends_stream (c\<lparr>statUdpReceivedExtra := x6\<rparr>) = sends_stream c"
  "sends_stream (c\<lparr>udpSummaryInterval := x7\<rparr>) = sends_stream c"
  "sends_stream (c\<lparr>log_tcpOut := x8\<rparr>) = sends_stream c"
  "sends_stream (c\<lparr>log_udpOut := x9\<rparr>) = sends_stream c"
  "sends_stream (c\<lparr>udpLastSentUs := x10\<rparr>) = sends_stream c"
  "sends_stream (c\<lparr>udpConfirmedMasterIndex := x11\<rparr>) = sends_stream c"
  "sends_stream (c\<lparr>tcpNextSendIndex := x12\<rparr>) = sends_stream c"
  "sends_stream (c\<lparr>remainConfirmationResendCount := x13\<rparr>) = sends_stream c"
  "sends_stream (c\<lparr>remainByeByeResendCount := x14\<rparr>) = sends_stream c"
  "sends_stream (c\<lparr>udpReceivedPackets := x15\<rparr>) = sends_stream c"
  "sends_stream (c\<lparr>udpReceiveBufferSize := x16\<rparr>) = sends_stream c"
  "sends_stream (c\<lparr>udpSentPackets := x17\<rparr>) = sends_stream c"
  "sends_stream (c\<lparr>udpConfirmationPackets := x18\<rparr>) = sends_stream c"
  "sends_stream (c\<lparr>udpPacketsToSendCount := x19\<rparr>) = sends_stream c"
  "sends_stream (c\<lparr>udpSentBufferSize := x20\<rparr>) = sends_stream c"
  "sends_stream (c\<lparr>fault := x21\<rparr>) = sends_stream c"
  "sends_stream (c\<lparr>deleted := x22\<rparr>) = sends_stream c"
  by (simp_all add: sends_stream_def peer_finished_def)

lemma sends_stream_frame2 [simp]:
  "sends_stream (snd (send_datagram os p c)) = sends_stream c" "sends_stream (write_again c) = sends_stream c"
  "sends_stream (on_udp_sent os i t n c) = sends_stream c" "sends_stream (on_udp_delivered b i n c) = sends_stream c"
  by (simp_all only: sends_stream_def peer_finished_def send_datagram_frame write_again_frame
      on_udp_sent_frame on_udp_delivered_frame)

lemma write_confirmation_sends: "sends_stream c \<Longrightarrow> sends_stream (write_confirmation os t p c)"
  by (simp add: write_confirmation_def split_def Let_def udp_close_sends)

lemma write_sent_packet_sends: "sends_stream c \<Longrightarrow> sends_stream (write_sent_packet os t k p c)"
  by (simp add: write_sent_packet_def split_def Let_def udp_close_sends)

lemma udp_write_sends [step_intros]: "sends_stream c \<Longrightarrow> sends_stream (udp_write os t c)"
  by (simp add: udp_write_def write_confirmation_sends write_sent_packet_sends split: list.split option.split)

lemma resend_loop_sends: "sends_stream c \<Longrightarrow> sends_stream (resend_loop os t ks c)"
  by (induction ks arbitrary: c) (simp_all add: Let_def udp_close_sends split: option.split)

lemma udp_resend_sends [step_intros]: "sends_stream c \<Longrightarrow> sends_stream (udp_resend os c)"
  by (simp add: udp_resend_def resend_loop_sends)

lemma store_received_sends:
  assumes "sends_stream c" "udpReceivedMasterIndex c < udpReceivedFinalIndex c"
  shows "sends_stream (store_received os p c)"
  using assms by (auto simp: sends_stream_def peer_finished_def)

lemma udp_dispatch_sends [step_intros]:
  assumes "sends_stream c"
  shows "sends_stream (udp_dispatch os p c)"
proof -
  have "accepts p c \<Longrightarrow> sends_stream (store_received os p c)"
    using assms by (intro store_received_sends) (auto simp: accepts_def)
  then show ?thesis using assms by (simp add: udp_dispatch_def Let_def)
qed

lemma udp_read_sends [step_intros]: "sends_stream c \<Longrightarrow> sends_stream (udp_read os p c)"
  by (simp add: udp_read_def Let_def udp_close_sends udp_dispatch_sends)

lemma handle_sends [step_intros]: "sends_stream c \<Longrightarrow> sends_stream (handle os e planned c)"
  by (simp add: handle_def conn_delete_def tcp_read_sends tcp_write_sends tcp_close_sends udp_write_sends
      udp_close_sends build_udp_packets_sends udp_resend_sends split: conn_event.split)

lemma conn_new_sends: "log_tcpIn h = [] \<Longrightarrow> sends_stream (conn_new os ps iv h)"
  by (simp add: conn_new_def Let_def split_def sends_stream_def)

section \<open>The receiving end\<close>

text \<open>A packet in \<open>udpReceivedPackets\<close> is one of the list \<open>L\<close>, whole unless it is the one being
  written. \<open>used\<close> is the part of that one already written.\<close>

definition from_list :: "(ptype \<times> bytes) list \<Rightarrow> conn \<Rightarrow> bool" where
  "from_list L c \<longleftrightarrow>
     udpReceivedMasterIndex c \<le> int (length L) \<and>
     (\<forall>k p. om_find (udpReceivedPackets c) k = Some p \<longrightarrow>
        k < int (length L) \<and> get_type p = fst (L ! nat k) \<and>
        (tcpNextSendIndex c < k \<longrightarrow> get_data p = snd (L ! nat k)))"

definition written :: "(ptype \<times> bytes) list \<Rightarrow> conn \<Rightarrow> bytes \<Rightarrow> bool" where
  "written L c used \<longleftrightarrow>
     log_tcpOut c = stream_of (take (nat (tcpNextSendIndex c)) L) @ used \<and>
     (case om_find (udpReceivedPackets c) (tcpNextSendIndex c) of
        None \<Rightarrow> used = []
      | Some p \<Rightarrow> snd (L ! nat (tcpNextSendIndex c)) = used @ get_data p \<and> (get_type p \<noteq> Data \<longrightarrow> used = []))"

definition receives_stream :: "(ptype \<times> bytes) list \<Rightarrow> conn \<Rightarrow> bool" where
  "receives_stream L c \<longleftrightarrow>
     from_list L c \<and> prefix (log_tcpOut c) (stream_of L) \<and> (tcpConnected c \<longrightarrow> (\<exists>used. written L c used))"

lemma stream_of_take: "prefix (stream_of (take n L)) (stream_of L)"
  using prefix_concat_take [of n "map payload_of L"] by (simp add: stream_of_def take_map)

lemma written_prefix:
  assumes "recv_ok c" "from_list L c" "written L c used"
  shows "prefix (log_tcpOut c) (stream_of L)"
proof (cases "om_find (udpReceivedPackets c) (tcpNextSendIndex c)")
  case None
  then show ?thesis using assms(3) stream_of_take by (simp add: written_def)
next
  case (Some p)
  let ?n = "nat (tcpNextSendIndex c)"
  have n: "?n < length L" "get_type p = fst (L ! ?n)" "0 \<le> tcpNextSendIndex c"
    using assms(1,2) Some by (auto simp: from_list_def recv_ok_def nat_less_iff)
  have "stream_of (take (Suc ?n) L) = stream_of (take ?n L) @ payload_of (L ! ?n)"
    using n(1) by (simp add: take_Suc_conv_app_nth) (simp add: stream_of_def)
  moreover have "prefix used (payload_of (L ! ?n))"
    using assms(3) Some n(2) by (auto simp: written_def payload_of_def)
  ultimately have "prefix (log_tcpOut c) (stream_of (take (Suc ?n) L))"
    using assms(3) by (simp add: written_def)
  then show ?thesis using stream_of_take prefix_order.trans by blast
qed

lemma receives_frame [simp]:
  "receives_stream L (tick c) = receives_stream L c" "receives_stream L (ev_at e t c) = receives_stream L c"
  "receives_stream L (ev_in os e t c) = receives_stream L c" "receives_stream L (ev_off e c) = receives_stream L c"
  "receives_stream L (on_sent_buffer_changed os n c) = receives_stream L c"
  "receives_stream L (set_event_udp_write os c) = receives_stream L c"
  "receives_stream L (snd (enqueue_packet t' bs n c)) = receives_stream L c"
  "receives_stream L (push_control os t' i bs n c) = receives_stream L c"
  "receives_stream L (build_udp_packets os b c) = receives_stream L c"
  "receives_stream L (tcp_read os c) = receives_stream L c"
  "receives_stream L (build_bye_bye os c) = receives_stream L c"
  "receives_stream L (read_confirmation os p c) = receives_stream L c"
  "receives_stream L (read_bye_bye os c) = receives_stream L c"
  "receives_stream L (read_extra p c) = receives_stream L c"
  by (simp_all only: receives_stream_def from_list_def written_def tick_frame ev_at_frame ev_in_frame ev_off_frame
      on_sent_buffer_changed_frame set_event_udp_write_frame enqueue_packet_frame push_control_frame
      build_udp_packets_frame tcp_read_frame build_bye_bye_frame
      read_confirmation_frame read_bye_bye_frame read_extra_frame)

lemma receives_transfer:
  assumes "receives_stream L c"
    and "udpReceivedPackets c' = udpReceivedPackets c" "udpReceivedMasterIndex c' = udpReceivedMasterIndex c"
    "tcpNextSendIndex c' = tcpNextSendIndex c" "log_tcpOut c' = log_tcpOut c"
    "tcpConnected c' \<Longrightarrow> tcpConnected c"
  shows "receives_stream L c'"
  using assms(1,6) unfolding receives_stream_def from_list_def written_def assms(2-5) by blast

text \<open>The written part when the next packet begins.\<close>

lemma written_step:
  assumes ok: "recv_ok c" and L: "from_list L c" and w: "written L c used"
    and p: "om_find (udpReceivedPackets c) (tcpNextSendIndex c) = Some p"
    and fin: "get_type p \<noteq> Data \<or> get_data p = []"
  shows "log_tcpOut c = stream_of (take (Suc (nat (tcpNextSendIndex c))) L)"
proof -
  let ?n = "nat (tcpNextSendIndex c)"
  have n: "?n < length L" "get_type p = fst (L ! ?n)"
    using L ok p by (auto simp: from_list_def recv_ok_def nat_less_iff)
  have u: "snd (L ! ?n) = used @ get_data p" "get_type p \<noteq> Data \<longrightarrow> used = []"
      "log_tcpOut c = stream_of (take ?n L) @ used"
    using w p by (auto simp: written_def)
  have "stream_of (take (Suc ?n) L) = stream_of (take ?n L) @ payload_of (L ! ?n)"
    using n(1) by (simp add: take_Suc_conv_app_nth) (simp add: stream_of_def)
  moreover have "payload_of (L ! ?n) = used" using u(1,2) n(2) fin by (auto simp: payload_of_def)
  ultimately show ?thesis using u(3) by simp
qed

lemma finish_received_receives:
  assumes ok: "recv_ok c" and r: "receives_stream L c"
    and p: "om_find (udpReceivedPackets c) (tcpNextSendIndex c) = Some p"
    and fin: "tcpConnected c \<Longrightarrow> get_type p \<noteq> Data \<or> get_data p = []"
  shows "receives_stream L (finish_received (tcpNextSendIndex c) p n c)"
proof -
  let ?k = "tcpNextSendIndex c"
  have cf: "\<not> p_confirmed p" and R: "om_ok (udpReceivedPackets c)" and k0: "0 \<le> ?k"
    using ok p by (auto simp: recv_ok_def)
  let ?c = "finish_received ?k p n c"
  have f: "from_list L ?c"
    using r p R by (auto simp: receives_stream_def from_list_def finish_received_unconfirmed [OF cf] split: if_splits)
  have "written L ?c []" if con: "tcpConnected c"
  proof -
    obtain used where "written L c used" using r con by (auto simp: receives_stream_def)
    from written_step [OF ok _ this p fin [OF con]] r
    have "log_tcpOut c = stream_of (take (Suc (nat ?k)) L)" by (simp add: receives_stream_def)
    moreover have "get_data q = snd (L ! nat (?k + 1))" if "om_find (udpReceivedPackets c) (?k + 1) = Some q" for q
      using r that by (auto simp: receives_stream_def from_list_def)
    ultimately show ?thesis
      using R k0 by (auto simp: written_def finish_received_unconfirmed [OF cf] nat_add_distrib split: option.split)
  qed
  then show ?thesis using f r by (auto simp: receives_stream_def)
qed

lemma discard_loop_receives:
  "recv_ok c \<Longrightarrow> receives_stream L c \<Longrightarrow> \<not> tcpConnected c \<Longrightarrow> receives_stream L (discard_loop n c)"
proof (induction n arbitrary: c)
  case (Suc n)
  show ?case
  proof (cases "om_find (udpReceivedPackets c) (tcpNextSendIndex c)")
    case (Some p)
    let ?c = "finish_received (tcpNextSendIndex c) p (get_size p) c"
    have "recv_ok ?c" if "tcpNextSendIndex c < udpReceivedMasterIndex c"
      using Suc.prems(1) Some that by (rule finish_received_ok)
    moreover have "receives_stream L ?c"
      using Suc.prems(1,2) Some by (rule finish_received_receives) (use Suc.prems(3) in simp)
    ultimately show ?thesis using Suc Some by simp
  qed (use Suc.prems in simp)
qed simp

lemma tcp_discard_receives:
  "recv_ok c \<Longrightarrow> receives_stream L c \<Longrightarrow> receives_stream L (tcp_discard c)"
  by (simp add: tcp_discard_def discard_loop_receives)

lemma tcp_close_receives [step_intros]:
  assumes "recv_ok c" "receives_stream L c"
  shows "receives_stream L (tcp_close os err c)"
proof -
  define c2 where "c2 = (ev_off EvTcpWrite (ev_off EvTcpRead (c\<lparr>tcpConnected := False\<rparr>)))
      \<lparr>tcpSocket := sock_close False (tcpSocket c)\<rparr>"
  have "receives_stream L c2" by (rule receives_transfer [OF assms(2)]) (simp_all add: c2_def)
  moreover have "recv_ok c2" using assms(1) by (simp add: c2_def recv_ok_def)
  ultimately show ?thesis using assms(2)
    by (simp add: tcp_close_def Let_def split_def c2_def [symmetric] tcp_discard_receives)
qed

lemma udp_close_receives [step_intros]:
  assumes "receives_stream L c"
  shows "receives_stream L (udp_close os c)"
proof -
  have "tcpConnected (udp_close os c) \<Longrightarrow> tcpConnected c"
    by (auto simp: udp_close_def Let_def tcp_close_disconnected split: if_splits)
  then show ?thesis by (intro receives_transfer [OF assms]) simp_all
qed

lemma udp_close_connected: "tcpConnected (udp_close os c) \<Longrightarrow> tcpConnected c"
  by (auto simp: udp_close_def Let_def tcp_close_disconnected split: if_splits)

lemma udp_write_connected: "tcpConnected (udp_write os t c) \<Longrightarrow> tcpConnected c"
proof -
  have 1: "tcpConnected (write_confirmation os t p c) \<Longrightarrow> tcpConnected c" for p
    by (auto simp: write_confirmation_def Let_def split_def split: if_splits dest!: udp_close_connected)
  have 2: "tcpConnected (write_sent_packet os t k p c) \<Longrightarrow> tcpConnected c" for k p
    by (auto simp: write_sent_packet_def Let_def split_def split: if_splits dest!: udp_close_connected)
  show "tcpConnected (udp_write os t c) \<Longrightarrow> tcpConnected c"
    using 1 2 by (auto simp: udp_write_def split: if_splits list.splits option.splits)
qed

lemma resend_loop_connected: "tcpConnected (resend_loop os t ks c) \<Longrightarrow> tcpConnected c"
proof (induction ks arbitrary: c)
  case (Cons k ks)
  show ?case
  proof (cases "om_find (udpSentPackets c) k")
    case (Some p)
    then show ?thesis using Cons.prems udp_close_connected [of os c]
      by (auto simp: Let_def split: if_splits dest!: Cons.IH)
  qed (use Cons.prems in simp)
qed simp

lemma udp_resend_connected: "tcpConnected (udp_resend os c) \<Longrightarrow> tcpConnected c"
  using resend_loop_connected [of os _ _ "tick c"] by (simp add: udp_resend_def split: if_splits)

lemma udp_write_receives [step_intros]: "receives_stream L c \<Longrightarrow> receives_stream L (udp_write os t c)"
  by (erule receives_transfer) (simp_all add: udp_write_connected)

lemma udp_resend_receives [step_intros]: "receives_stream L c \<Longrightarrow> receives_stream L (udp_resend os c)"
  by (erule receives_transfer) (simp_all add: udp_resend_connected)

lemma written_cong:
  assumes "udpReceivedPackets c' = udpReceivedPackets c" "tcpNextSendIndex c' = tcpNextSendIndex c"
    "log_tcpOut c' = log_tcpOut c"
  shows "written L c' used = written L c used"
  unfolding written_def assms ..

lemma cut_type: "get_size p > 0 \<Longrightarrow> get_type (p\<lparr>p_data := take 9 (p_data p) @ drop (9 + n) (p_data p)\<rparr>) = get_type p"
  by (auto simp: get_type_def get_u8_def nth_append get_size_def split: if_splits)

lemma write_packet_receives [step_intros]:
  assumes ok: "recv_ok c" and r: "receives_stream L c" and con: "tcpConnected c"
    and p: "om_find (udpReceivedPackets c) (tcpNextSendIndex c) = Some p"
    and lt: "tcpNextSendIndex c < udpReceivedMasterIndex c"
    and data: "get_type p = Data" "0 < get_size p"
  shows "receives_stream L (write_packet os (tcpNextSendIndex c) p c)"
proof -
  let ?k = "tcpNextSendIndex c"
  obtain n s where w: "sock_write (a_send (answer_now os c)) (get_size p) (tcpSocket c) = (n, s)" by fastforce
  have n: "0 \<le> n" "n \<le> get_size p" using sock_write_bounds [OF w] by simp_all
  define c1 where "c1 = (tick c)\<lparr>tcpSocket := s\<rparr>"
  have c1: "receives_stream L c1" by (rule receives_transfer [OF r]) (simp_all add: c1_def)
  show ?thesis
  proof (cases "0 < n")
    case False
    then show ?thesis using c1 by (simp add: write_packet_def w Let_def c1_def [symmetric])
  next
    case True
    define p' where "p' = p\<lparr>p_data := take 9 (p_data p) @ drop (9 + nat n) (p_data p)\<rparr>"
    have p': "get_data p' = drop (nat n) (get_data p)" "get_size p' = get_size p - n" "get_type p' = Data"
      "\<not> p_confirmed p'" "p_sent p' = p_sent p"
      using cut_payload [OF True n(2)] cut_type [OF data(2), of "nat n"] data ok p
      by (simp_all add: p'_def recv_ok_def)
    define c' where "c' = c1\<lparr>statTcpSent := statTcpSent c1 + n,
        log_tcpOut := log_tcpOut c1 @ take (nat n) (get_data p),
        udpReceivedPackets := om_put ?k p' (udpReceivedPackets c1),
        udpReceiveBufferSize := udpReceiveBufferSize c1 - n\<rparr>"
    have R: "om_ok (udpReceivedPackets c)" using ok by (simp add: recv_ok_def)
    have c': "recv_ok c'" using ok p lt p' by (auto simp: c'_def c1_def recv_ok_def)
    have fl: "from_list L c'"
      using r p R p'(3) data(1) by (auto simp: receives_stream_def from_list_def c'_def c1_def)
    obtain used where u: "written L c used" using r con by (auto simp: receives_stream_def)
    have "snd (L ! nat ?k) = used @ get_data p" "log_tcpOut c = stream_of (take (nat ?k) L) @ used"
      using u p by (simp_all add: written_def)
    then have wr: "written L c' (used @ take (nat n) (get_data p))"
      using R p' by (simp add: written_def c'_def c1_def)
    have rs: "receives_stream L c'"
      using fl wr written_prefix [OF c' fl wr] by (auto simp: receives_stream_def)
    have "receives_stream L (finish_received ?k p' 0 c')" if "get_size p' \<le> 0"
    proof -
      have "om_find (udpReceivedPackets c') (tcpNextSendIndex c') = Some p'" using R by (simp add: c'_def c1_def)
      moreover have "get_data p' = []" using that by (simp add: get_size_data)
      ultimately have "receives_stream L (finish_received (tcpNextSendIndex c') p' 0 c')"
        using c' rs by (intro finish_received_receives) simp_all
      then show ?thesis by (simp add: c'_def c1_def)
    qed
    then show ?thesis
      using True rs by (simp add: write_packet_def w Let_def c1_def [symmetric] p'_def [symmetric] c'_def [symmetric])
  qed
qed

lemma write_loop_receives [step_intros]:
  "recv_ok c \<Longrightarrow> receives_stream L c \<Longrightarrow> tcpConnected c \<Longrightarrow> receives_stream L (write_loop os n c)"
proof (induction n arbitrary: c)
  case (Suc n)
  show ?case
  proof (cases "om_find (udpReceivedPackets c) (tcpNextSendIndex c)")
    case (Some p)
    show ?thesis
    proof (cases "tcpNextSendIndex c < udpReceivedMasterIndex c")
      case True
      let ?c = "finish_received (tcpNextSendIndex c) p (get_size p) c"
      have ok: "recv_ok ?c" using Suc.prems(1) Some True by (rule finish_received_ok)
      have rs: "receives_stream L ?c" if "get_type p \<noteq> Data \<or> get_size p \<le> 0"
        by (rule finish_received_receives [OF Suc.prems(1,2) Some]) (use that in \<open>simp add: get_size_data\<close>)
      show ?thesis
        using Suc.IH [OF ok] rs ok Suc.prems Some True write_packet_receives [OF Suc.prems(1-3) Some True]
        by (simp add: Let_def tcp_close_receives not_le)
    qed (use Suc.prems in \<open>simp add: Let_def\<close>)
  qed (use Suc.prems in \<open>simp add: Let_def\<close>)
qed simp

lemma tcp_write_receives [step_intros]:
  "recv_ok c \<Longrightarrow> receives_stream L c \<Longrightarrow> receives_stream L (tcp_write os c)"
  by (simp add: tcp_write_def write_loop_receives)

lemma advance_master_receives:
  "receives_stream L c \<Longrightarrow> receives_stream L (advance_master n c)"
proof (induction n arbitrary: c)
  case (Suc n)
  show ?case
  proof (cases "om_find (udpReceivedPackets c) (udpReceivedMasterIndex c)")
    case (Some p)
    let ?c = "c\<lparr>udpReceivedMasterIndex := udpReceivedMasterIndex c + 1,
        udpReceivedFinalIndex := (if get_type p = Bye \<or> get_type p = Disconnect
          then udpReceivedMasterIndex c + 1 else udpReceivedFinalIndex c)\<rparr>"
    have "udpReceivedMasterIndex c < int (length L)"
      using Suc.prems Some by (auto simp: receives_stream_def from_list_def)
    then have "receives_stream L ?c"
      using Suc.prems written_cong [of ?c c L] by (simp add: receives_stream_def from_list_def)
    then show ?thesis using Suc Some by (auto simp: Let_def)
  qed (use Suc.prems in simp)
qed simp

text \<open>A datagram that carries a packet of the list.\<close>

definition carries :: "(ptype \<times> bytes) list \<Rightarrow> packet \<Rightarrow> bool" where
  "carries L p \<longleftrightarrow>
     stream_type (get_type p) \<longrightarrow>
     get_index p < int (length L) \<and> get_type p = fst (L ! nat (get_index p)) \<and> get_data p = snd (L ! nat (get_index p))"

lemma store_received_receives:
  assumes ok: "recv_ok c" and r: "receives_stream L c" and new: "om_find (udpReceivedPackets c) (get_index p) = None"
    and ge: "udpReceivedMasterIndex c \<le> get_index p" and fl: "fresh_flags p"
    and car: "carries L p" "stream_type (get_type p)"
  shows "receives_stream L (store_received os p c)"
proof -
  define c1 where "c1 = c\<lparr>udpReceivedPackets := om_put (get_index p) p (udpReceivedPackets c),
      udpReceiveBufferSize := udpReceiveBufferSize c + get_size p\<rparr>"
  have R: "om_ok (udpReceivedPackets c)" using ok by (simp add: recv_ok_def)
  have c1: "recv_ok c1" using ok new ge fl by (auto simp: c1_def recv_ok_def fresh_flags_def split: if_splits)
  have p: "get_index p < int (length L)" "get_type p = fst (L ! nat (get_index p))" "get_data p = snd (L ! nat (get_index p))"
    using car by (auto simp: carries_def)
  have "from_list L c1"
    using r R p by (auto simp: receives_stream_def from_list_def c1_def split: if_splits)
  moreover have "\<exists>used. written L c1 used" if con: "tcpConnected c"
  proof -
    obtain used where u: "written L c used" using r con by (auto simp: receives_stream_def)
    have "written L c1 used"
    proof (cases "get_index p = tcpNextSendIndex c")
      case True
      then have "used = []" using u new by (simp add: written_def)
      then show ?thesis using u True R p(3) by (simp add: written_def c1_def)
    next
      case False
      then show ?thesis using u R by (simp add: written_def c1_def cong: option.case_cong)
    qed
    then show ?thesis ..
  qed
  ultimately have "receives_stream L c1" using r by (auto simp: receives_stream_def c1_def)
  then have "receives_stream L (tcp_discard (advance_master (length (udpReceivedPackets c1)) c1))"
    using c1 by (intro tcp_discard_receives advance_master_ok advance_master_receives)
  then show ?thesis by (simp add: store_received_def Let_def c1_def [symmetric])
qed

lemma build_confirmations_receives [step_intros]:
  assumes "recv_ok c" "receives_stream L c"
  shows "receives_stream L (build_confirmations os c)"
proof (cases "udpConnected c")
  case True
  have "udpReceivedPackets (build_confirmations os c) = filter (\<lambda>kp. tcpNextSendIndex c \<le> fst kp) (udpReceivedPackets c)"
    using build_confirmations_recv [OF assms(1) True] by blast
  then have f: "om_find (udpReceivedPackets (build_confirmations os c)) k =
      (if tcpNextSendIndex c \<le> k then om_find (udpReceivedPackets c) k else None)" for k
    by (simp add: om_find_filter)
  have "written L (build_confirmations os c) used = written L c used" for used
    unfolding written_def by (simp add: f cong: option.case_cong)
  then show ?thesis using assms(2) by (simp add: receives_stream_def from_list_def f)
qed (use assms in \<open>simp add: build_confirmations_def\<close>)

lemma udp_dispatch_receives:
  assumes "recv_ok c" "receives_stream L c" "fresh_flags p" "carries L p"
  shows "receives_stream L (udp_dispatch os p c)"
proof -
  have upd: "receives_stream L (c'\<lparr>remainConfirmationResendCount := n\<rparr>) = receives_stream L c'"
    "receives_stream L (c'\<lparr>fault := b\<rparr>) = receives_stream L c'" for c' n b
    using written_cong [of "c'\<lparr>remainConfirmationResendCount := n\<rparr>" c' L] written_cong [of "c'\<lparr>fault := b\<rparr>" c' L]
    by (simp_all add: receives_stream_def from_list_def)
  have "receives_stream L (store_received os p c)"
    if "accepts p c" "om_find (udpReceivedPackets c) (get_index p) = None"
    using assms that by (intro store_received_receives) (auto simp: accepts_def stream_type_def)
  then show ?thesis using assms(2) by (simp add: udp_dispatch_def Let_def upd)
qed

lemma udp_read_receives [step_intros]:
  assumes "recv_ok c" "receives_stream L c" "fresh_flags p" "carries L p"
  shows "receives_stream L (udp_read os p c)"
  using assms(2) udp_dispatch_receives [OF assms, of os] udp_close_receives
  by (simp add: udp_read_def Let_def)

lemma handle_receives [step_intros]:
  assumes "recv_ok c" "receives_stream L c"
  shows "receives_stream L (handle os e planned c)"
proof -
  have "receives_stream L (conn_delete c)"
    using assms(2) by (rule receives_transfer) (simp_all add: conn_delete_def)
  then show ?thesis using assms
    by (simp add: handle_def tcp_write_receives tcp_close_receives udp_close_receives udp_write_receives
        udp_resend_receives build_confirmations_receives split: conn_event.split)
qed

text \<open>The other end building more packets changes nothing.\<close>

lemma receives_stream_append:
  assumes "recv_ok c" "receives_stream L c"
  shows "receives_stream (L @ M) c"
proof -
  have len: "udpReceivedMasterIndex c \<le> int (length L)" "0 \<le> tcpNextSendIndex c" "tcpNextSendIndex c \<le> udpReceivedMasterIndex c"
    and old: "\<And>k p. om_find (udpReceivedPackets c) k = Some p \<Longrightarrow> 0 \<le> k \<and> k < int (length L)"
    using assms by (auto simp: receives_stream_def from_list_def recv_ok_def)
  have nth: "(L @ M) ! nat k = L ! nat k" if "om_find (udpReceivedPackets c) k = Some p" for k p
    using old [OF that] by (simp add: nth_append nat_less_iff)
  have "from_list (L @ M) c" using assms(2) len nth by (fastforce simp: receives_stream_def from_list_def)
  moreover have "written (L @ M) c used" if "written L c used" for used
    using that len nth by (simp add: written_def split: option.splits)
  moreover have "prefix (log_tcpOut c) (stream_of (L @ M))"
    using assms(2) prefix_append_drop by (simp add: receives_stream_def)
  ultimately show ?thesis using assms(2) by (auto simp: receives_stream_def)
qed

lemma conn_new_receives: "log_tcpOut h = [] \<Longrightarrow> receives_stream L (conn_new os ps iv h)"
  by (simp add: conn_new_def Let_def split_def receives_stream_def from_list_def written_def)

end
