(* ===== verification/Acknowledgements.thy ===== *)
theory Acknowledgements
  imports Streams
begin

text \<open>
  Why a packet may be forgotten: the receiving end never loses an index it has (\<open>has\<close>), what it
  confirms in any datagram it has (\<open>sound_data\<close>), and the sending end releases an index only when a
  confirmation names it (\<open>released\<close>).
\<close>

section \<open>The receiving end keeps what it has\<close>

definition has :: "conn \<Rightarrow> int \<Rightarrow> bool" where
  "has c k \<longleftrightarrow> k < udpReceivedMasterIndex c \<or> om_find (udpReceivedPackets c) k \<noteq> None"

definition keeps :: "conn \<Rightarrow> conn \<Rightarrow> bool" where
  "keeps c c' \<longleftrightarrow> (\<forall>k. has c k \<longrightarrow> has c' k)"

lemma keeps_refl [simp]: "keeps c c"
  by (simp add: keeps_def)

lemma keeps_trans: "keeps c c' \<Longrightarrow> keeps c' c'' \<Longrightarrow> keeps c c''"
  by (simp add: keeps_def)

lemma keeps_same:
  "udpReceivedPackets c' = udpReceivedPackets c \<Longrightarrow> udpReceivedMasterIndex c' = udpReceivedMasterIndex c \<Longrightarrow> keeps c c'"
  by (simp add: keeps_def has_def)

lemma finish_received_keeps:
  assumes "recv_ok c" "om_find (udpReceivedPackets c) (tcpNextSendIndex c) = Some p"
  shows "keeps c (finish_received (tcpNextSendIndex c) p n c)"
proof -
  have "\<not> p_confirmed p" "om_ok (udpReceivedPackets c)" using assms by (auto simp: recv_ok_def)
  then show ?thesis by (simp add: keeps_def has_def finish_received_unconfirmed)
qed

lemma discard_loop_keeps: "recv_ok c \<Longrightarrow> keeps c (discard_loop n c)"
proof (induction n arbitrary: c)
  case (Suc n)
  show ?case
  proof (cases "om_find (udpReceivedPackets c) (tcpNextSendIndex c)")
    case (Some p)
    then show ?thesis
      using Suc.IH [OF finish_received_ok [OF Suc.prems Some, of "get_size p"]] finish_received_keeps [OF Suc.prems Some]
      by (auto intro: keeps_trans)
  qed simp
qed simp

lemma tcp_discard_keeps: "recv_ok c \<Longrightarrow> keeps c (tcp_discard c)"
  by (simp add: tcp_discard_def discard_loop_keeps)

lemma tcp_close_keeps:
  assumes "recv_ok c"
  shows "keeps c (tcp_close os err c)"
proof -
  define c2 where "c2 = (ev_off EvTcpWrite (ev_off EvTcpRead (c\<lparr>tcpConnected := False\<rparr>)))
      \<lparr>tcpSocket := sock_close False (tcpSocket c)\<rparr>"
  have "recv_ok c2" using assms by (simp add: c2_def recv_ok_def)
  then have "keeps c2 (tcp_discard c2)" by (rule tcp_discard_keeps)
  moreover have "keeps c c2" by (rule keeps_same) (simp_all add: c2_def)
  ultimately have d: "keeps c (tcp_discard c2)" by (rule keeps_trans [rotated])
  have "keeps (tcp_discard c2) (tcp_close os err c)" if "tcpConnected c" "udpConnected c"
    by (rule keeps_same) (simp_all add: tcp_close_def Let_def split_def c2_def that)
  note con = keeps_trans [OF d this]
  have dis: "keeps c (tcp_close os err c)" if "\<not> udpConnected c"
    by (rule keeps_same) (simp_all add: tcp_close_disconnected that)
  have "tcp_close os err c = c" if "\<not> tcpConnected c" using that by (simp add: tcp_close_def)
  then show ?thesis using con dis keeps_refl by metis
qed

lemma write_packet_keeps:
  assumes "recv_ok c" "om_find (udpReceivedPackets c) (tcpNextSendIndex c) = Some p"
  shows "keeps c (write_packet os (tcpNextSendIndex c) p c)"
proof -
  have p: "\<not> p_confirmed p" "om_ok (udpReceivedPackets c)" using assms by (auto simp: recv_ok_def)
  then have fin: "udpReceivedPackets (finish_received k (p\<lparr>p_data := d\<rparr>) 0 c') =
      om_put k (p\<lparr>p_data := d, p_sent := True\<rparr>) (udpReceivedPackets c')" for k d c'
    by (subst finish_received_unconfirmed) simp_all
  show ?thesis using p(2) assms(2)
    by (simp add: keeps_def has_def write_packet_def Let_def split_def fin)
qed

lemma write_loop_keeps: "recv_ok c \<Longrightarrow> keeps c (write_loop os n c)"
proof (induction n arbitrary: c)
  case (Suc n)
  show ?case
  proof (cases "om_find (udpReceivedPackets c) (tcpNextSendIndex c)")
    case (Some p)
    let ?c = "finish_received (tcpNextSendIndex c) p (get_size p) c"
    show ?thesis
    proof (cases "tcpNextSendIndex c < udpReceivedMasterIndex c")
      case True
      have ok: "recv_ok ?c" using Suc.prems Some True by (rule finish_received_ok)
      have k: "keeps c ?c" using Suc.prems Some by (rule finish_received_keeps)
      show ?thesis
        using keeps_trans [OF k Suc.IH [OF ok]] keeps_trans [OF k tcp_close_keeps [OF ok]]
          write_packet_keeps [OF Suc.prems Some] Some True by (simp add: Let_def)
    qed (simp add: Let_def)
  qed (simp add: Let_def)
qed simp

lemma advance_master_keeps: "keeps c (advance_master n c)"
proof (induction n arbitrary: c)
  case (Suc n)
  show ?case
  proof (cases "om_find (udpReceivedPackets c) (udpReceivedMasterIndex c)")
    case (Some p)
    let ?c = "c\<lparr>udpReceivedMasterIndex := udpReceivedMasterIndex c + 1,
        udpReceivedFinalIndex := (if get_type p = Bye \<or> get_type p = Disconnect
          then udpReceivedMasterIndex c + 1 else udpReceivedFinalIndex c)\<rparr>"
    have "keeps c ?c" by (auto simp: keeps_def has_def)
    from keeps_trans [OF this Suc.IH] Some show ?thesis by (simp add: Let_def)
  qed simp
qed simp

lemma store_received_keeps:
  assumes "recv_ok c" "om_find (udpReceivedPackets c) (get_index p) = None"
    "udpReceivedMasterIndex c \<le> get_index p" "fresh_flags p"
  shows "keeps c (store_received os p c)"
proof -
  define c1 where "c1 = c\<lparr>udpReceivedPackets := om_put (get_index p) p (udpReceivedPackets c),
      udpReceiveBufferSize := udpReceiveBufferSize c + get_size p\<rparr>"
  have c1: "recv_ok c1" using assms by (auto simp: c1_def recv_ok_def fresh_flags_def split: if_splits)
  let ?c2 = "tcp_discard (advance_master (length (udpReceivedPackets c1)) c1)"
  have "keeps c c1" using assms(1) by (auto simp: keeps_def has_def c1_def recv_ok_def)
  moreover have "keeps c1 ?c2"
    using advance_master_keeps [of c1 "length (udpReceivedPackets c1)"]
      tcp_discard_keeps [OF advance_master_ok [OF c1, of "length (udpReceivedPackets c1)"]] keeps_trans by blast
  moreover have "keeps ?c2 (store_received os p c)"
    by (rule keeps_same) (simp_all add: store_received_def Let_def c1_def [symmetric])
  ultimately show ?thesis using keeps_trans by blast
qed

lemma build_confirmations_keeps:
  assumes "recv_ok c"
  shows "keeps c (build_confirmations os c)"
proof (cases "udpConnected c")
  case True
  have "udpReceivedPackets (build_confirmations os c) = filter (\<lambda>kp. tcpNextSendIndex c \<le> fst kp) (udpReceivedPackets c)"
    using build_confirmations_recv [OF assms True] by blast
  moreover have "tcpNextSendIndex c \<le> udpReceivedMasterIndex c" using assms by (simp add: recv_ok_def)
  ultimately show ?thesis by (auto simp: keeps_def has_def om_find_filter)
qed (simp add: build_confirmations_def)

lemma udp_dispatch_keeps:
  assumes "recv_ok c" "fresh_flags p"
  shows "keeps c (udp_dispatch os p c)"
proof -
  have st: "keeps c (store_received os p c)" if "accepts p c" "om_find (udpReceivedPackets c) (get_index p) = None"
    using assms that by (intro store_received_keeps) (auto simp: accepts_def)
  have upd: "keeps c (ev_in os e t (c'\<lparr>remainConfirmationResendCount := n\<rparr>)) = keeps c c'" for e t c' n
    by (simp add: keeps_def has_def)
  have "keeps c (read_confirmation os p c)" "keeps c (read_bye_bye os c)" "keeps c (read_extra p c)"
      "keeps c (c\<lparr>fault := True\<rparr>)"
    by (rule keeps_same; simp)+
  then show ?thesis using st by (simp add: udp_dispatch_def Let_def upd)
qed

lemma udp_close_keeps: "keeps c (udp_close os c)"
  by (rule keeps_same) simp_all

lemma udp_read_keeps: "recv_ok c \<Longrightarrow> fresh_flags p \<Longrightarrow> keeps c (udp_read os p c)"
  using udp_dispatch_keeps udp_close_keeps keeps_trans by (fastforce simp: udp_read_def Let_def)

lemma handle_keeps:
  assumes "recv_ok c"
  shows "keeps c (handle os e planned c)"
proof -
  have "keeps c (tcp_write os c)" using assms by (simp add: tcp_write_def write_loop_keeps)
  moreover have "keeps c (tcp_read os c)" "keeps c (udp_write os planned c)" "keeps c (build_udp_packets os True c)"
      "keeps c (build_bye_bye os c)" "keeps c (udp_resend os c)" "keeps c (conn_delete c)"
    by (rule keeps_same; simp add: conn_delete_def)+
  ultimately show ?thesis using assms
    by (simp add: handle_def tcp_close_keeps udp_close_keeps build_confirmations_keeps split: conn_event.split)
qed

section \<open>The receiving end confirms only what it has\<close>

definition sound_data :: "(int \<Rightarrow> bool) \<Rightarrow> bytes \<Rightarrow> bool" where
  "sound_data H d \<longleftrightarrow>
     (\<forall>p. p_data p = d \<longrightarrow> get_type p = Confirmation \<longrightarrow> (\<forall>k. 0 \<le> k \<longrightarrow> acknowledged p k \<longrightarrow> H k))"

text \<open>Everything a connection has sent or is about to send as a control packet.\<close>

definition outgoing :: "conn \<Rightarrow> bytes set" where
  "outgoing c = p_data ` set (udpConfirmationPackets c) \<union> set (log_udpOut c)"

definition confirms_soundly :: "conn \<Rightarrow> bool" where
  "confirms_soundly c \<longleftrightarrow> (\<forall>d\<in>outgoing c. sound_data (has c) d)"

lemma sound_data_mono: "sound_data H d \<Longrightarrow> (\<And>k. H k \<Longrightarrow> H' k) \<Longrightarrow> sound_data H' d"
  by (simp add: sound_data_def)

lemma sound_data_other:
  assumes "d = frame t i bs" "t \<noteq> Confirmation" "stream_type t \<or> control_type t"
  shows "sound_data H d"
proof -
  have "get_type p = t" if "p_data p = d" for p
    by (rule frame_type) (use that assms in \<open>auto simp: stream_type_def control_type_def\<close>)
  then show ?thesis using assms(2) by (simp add: sound_data_def)
qed

lemma confirms_soundly_step:
  assumes "confirms_soundly c" "keeps c c'" "\<forall>d\<in>outgoing c' - outgoing c. sound_data (has c') d"
  shows "confirms_soundly c'"
  using assms sound_data_mono [of "has c" _ "has c'"] unfolding confirms_soundly_def keeps_def by blast

lemma outgoing_frame:
  "udpConfirmationPackets c' = udpConfirmationPackets c \<Longrightarrow> log_udpOut c' = log_udpOut c \<Longrightarrow> outgoing c' = outgoing c"
  by (simp add: outgoing_def)

lemma udp_close_outgoing: "outgoing (udp_close os c) \<subseteq> outgoing c"
  by (cases "udpConnected c") (auto simp: outgoing_def udp_close_def Let_def tcp_close_disconnected)

lemma send_datagram_outgoing:
  "outgoing (snd (send_datagram os p c)) \<subseteq> outgoing c \<union> {p_data p}"
  by (auto simp: outgoing_def send_datagram_def Let_def split_def)

lemma write_confirmation_outgoing:
  assumes "udpConfirmationPackets c = p # ps"
  shows "outgoing (write_confirmation os t p c) \<subseteq> outgoing c"
proof -
  obtain n c1 where s: "send_datagram os p c = (n, c1)" by fastforce
  have c1: "c1 = snd (send_datagram os p c)" using s by simp
  have o1: "outgoing c1 \<subseteq> outgoing c" using send_datagram_outgoing [of os p c] assms by (auto simp: c1 outgoing_def)
  define c3 where "c3 = (on_sent_buffer_changed os (- get_size p)
      (c1\<lparr>statUdpSent := statUdpSent c1 + n, udpLastSentUs := t\<rparr>))\<lparr>udpConfirmationPackets := tl (udpConfirmationPackets c1)\<rparr>"
  have "set (tl (udpConfirmationPackets c1)) \<subseteq> set (udpConfirmationPackets c1)" by (cases "udpConfirmationPackets c1") auto
  then have "outgoing c3 \<subseteq> outgoing c1" by (auto simp: outgoing_def c3_def)
  then have o3: "outgoing c3 \<subseteq> outgoing c" using o1 by blast
  have again: "outgoing (write_again x) = outgoing x" for x by (simp add: outgoing_def)
  show ?thesis
    using o1 o3 udp_close_outgoing [of os c3]
    by (simp add: write_confirmation_def s Let_def c3_def [symmetric] again) blast
qed

lemma write_sent_packet_outgoing:
  "outgoing (write_sent_packet os t k p c) \<subseteq> outgoing c \<union> {p_data p}"
proof -
  obtain n c1 where s: "send_datagram os p c = (n, c1)" by fastforce
  have c1: "c1 = snd (send_datagram os p c)" using s by simp
  have o1: "outgoing c1 \<subseteq> outgoing c \<union> {p_data p}" using send_datagram_outgoing [of os p c] by (simp add: c1)
  define p' where "p' = p\<lparr>p_sent := True, p_sentTimeUs := a_time (answer_now os c1), p_measureIndex := udpSendMeasureIndex c1\<rparr>"
  define c2 where "c2 = (tick c1)\<lparr>statUdpSent := statUdpSent c1 + n,
      udpSentPackets := om_put k p' (udpSentPackets c1), udpLastSentUs := t\<rparr>"
  define c3 where "c3 = on_udp_sent os (udpSendMeasureIndex c2) (udpSendIntervalUs c2) (get_size p') c2"
  define c4 where "c4 = c3\<lparr>udpPacketsToSendCount := udpPacketsToSendCount c3 - 1\<rparr>"
  define c5 where "c5 = on_sent_buffer_changed os (- get_size p') c4"
  define c6 where "c6 = c5\<lparr>udpSentPackets := om_erase k (udpSentPackets c5)\<rparr>"
  have c4: "outgoing c4 = outgoing c1" by (simp add: c4_def c3_def c2_def outgoing_def)
  then have c6: "outgoing c6 = outgoing c1" by (simp add: c6_def c5_def outgoing_def)
  have f: "outgoing (write_again x) = outgoing x" "outgoing (ev_in os e d x) = outgoing x" for x e d
    by (simp_all add: outgoing_def)
  have g: "outgoing (if b then write_again x else x) = outgoing x" for b x by (simp add: f)
  have "outgoing (write_sent_packet os t k p c) \<subseteq> outgoing c1"
    unfolding write_sent_packet_def s Let_def prod.case
      p'_def [symmetric] c2_def [symmetric] c3_def [symmetric] c4_def [symmetric] c5_def [symmetric] c6_def [symmetric]
    using udp_close_outgoing [of os c6] by (simp only: g f c4 c6 order.refl split: if_split) simp
  then show ?thesis using o1 by blast
qed

lemma udp_write_outgoing:
  assumes "send_inv 0 c"
  shows "\<forall>d\<in>outgoing (udp_write os t c) - outgoing c. sound_data H d"
proof -
  have "outgoing (udp_write os t c) \<subseteq> outgoing c \<union> {d. \<exists>k tb. stream_type (fst tb) \<and> d = frame_of tb k}"
  proof (cases "udpConnected c")
    case True
    show ?thesis
    proof (cases "udpConfirmationPackets c")
      case Nil
      show ?thesis
      proof (cases "find (\<lambda>kp. \<not> p_sent (snd kp)) (udpSentPackets c)")
        case (Some kp)
        obtain k p where kp: "kp = (k, p)" by fastforce
        have f: "om_find (udpSentPackets c) k = Some p"
          using find_in_map [OF send_inv_queue(1) [OF assms] Some [unfolded kp]] by simp
        then have k: "0 \<le> k \<and> k < udpNextSendIndex c \<and> p_data p = frame_of (log_built c ! nat k) k"
          using assms unfolding send_inv_def by blast
        then have "nat k < length (log_built c)" using assms by (auto simp: send_inv_def nat_less_iff)
        then have "stream_type (fst (log_built c ! nat k))" using assms unfolding send_inv_def by (meson nth_mem)
        then have "\<exists>k tb. stream_type (fst tb) \<and> p_data p = frame_of tb k" using k by blast
        then show ?thesis using write_sent_packet_outgoing [of os t k p c] True Nil Some kp
          by (simp add: udp_write_def) blast
      qed (use True Nil in \<open>simp add: udp_write_def\<close>)
    next
      case (Cons p ps)
      then show ?thesis using True write_confirmation_outgoing [OF Cons, of os t] by (auto simp: udp_write_def)
    qed
  qed (simp add: udp_write_def)
  moreover have "sound_data H (frame_of tb k)" if "stream_type (fst tb)" for tb k
    by (rule sound_data_other [of _ "fst tb" k "snd tb"]) (use that in \<open>auto simp: frame_of_def stream_type_def\<close>)
  ultimately show ?thesis by blast
qed

lemma build_bye_bye_outgoing: "\<forall>d\<in>outgoing (build_bye_bye os c) - outgoing c. sound_data H d"
proof -
  obtain p where p: "udpConfirmationPackets (push_control os ByeBye (udpNextSendIndex c) [] 0 c) = udpConfirmationPackets c @ [p]"
      "p_data p = frame ByeBye (udpNextSendIndex c) []"
    using push_control_packets [of 0 "[]" os ByeBye "udpNextSendIndex c" c] by auto
  have "outgoing (build_bye_bye os c) \<subseteq> outgoing c \<union> {p_data p}"
    using p(1) by (auto simp: build_bye_bye_def Let_def outgoing_def)
  then show ?thesis using sound_data_other [OF p(2)] by (auto simp: control_type_def)
qed

lemma build_confirmations_outgoing:
  assumes ok: "recv_ok c" and m: "udpReceivedMasterIndex c < 2 ^ 31"
    and keys: "\<forall>k\<in>set (om_keys (udpReceivedPackets c)). k < int_max"
  shows "\<forall>d\<in>outgoing (build_confirmations os c) - outgoing c. sound_data (has c) d"
proof (cases "udpConnected c")
  case True
  let ?m = "udpReceivedMasterIndex c"
  obtain news Ks where n: "udpConfirmationPackets (build_confirmations os c) =
        filter (\<lambda>p. \<not> is_confirmation p) (udpConfirmationPackets c) @ news"
      "list_all2 (confirms ?m) news Ks"
      "\<Union> (set Ks) \<subseteq> {k. om_find (udpReceivedPackets c) k \<noteq> None \<and> ?m \<le> k}"
    using build_confirmations_covers [OF True ok keys, of os] by blast
  have m0: "0 \<le> ?m" using ok by (auto simp: recv_ok_def)
  have each: "sound_data (has c) (p_data p)" if p: "p \<in> set news" for p
  proof -
    obtain i where i: "i < length news" "p = news ! i" using p by (auto simp: in_set_conv_nth)
    then have "confirms ?m p (Ks ! i)" "Ks ! i \<in> set Ks" using n(2) by (auto simp: list_all2_conv_all_nth)
    then obtain bs prev where d: "p_data p = frame Confirmation ?m bs" "holds_pairs ?m prev bs (Ks ! i)"
      unfolding confirms_def by blast
    have "confirms ?m q (Ks ! i)" if "p_data q = p_data p" for q
      using that d unfolding confirms_def by metis
    then have "get_index q = ?m \<and> acks q = Ks ! i" if "p_data q = p_data p" for q
      using confirms_reads [OF _ m0 m] that by blast
    note q = this
    have sub: "Ks ! i \<subseteq> {k. om_find (udpReceivedPackets c) k \<noteq> None \<and> ?m \<le> k}"
      using n(3) \<open>Ks ! i \<in> set Ks\<close> by blast
    show ?thesis unfolding sound_data_def
    proof (intro allI impI)
      fix q k assume a: "p_data q = p_data p" "acknowledged q k"
      then have "k < ?m \<or> k \<in> Ks ! i" using q [OF a(1)] by (auto simp: acknowledged_def acks_def)
      then show "has c k" using sub by (auto simp: has_def)
    qed
  qed
  have "outgoing (build_confirmations os c) \<subseteq> outgoing c \<union> p_data ` set news"
    using n(1) by (auto simp: outgoing_def)
  then show ?thesis using each by blast
qed (simp add: build_confirmations_def)

lemma write_packet_outgoing: "outgoing (write_packet os k p c) = outgoing c"
  by (rule outgoing_frame) simp_all

lemma tcp_close_outgoing: "outgoing (tcp_close os err c) = outgoing c"
  by (rule outgoing_frame) simp_all

lemma write_loop_outgoing: "outgoing (write_loop os n c) = outgoing c"
proof (induction n arbitrary: c)
  case (Suc n)
  have f: "outgoing (finish_received k p z c) = outgoing c" for k p z by (rule outgoing_frame) simp_all
  show ?case
    by (cases "om_find (udpReceivedPackets c) (tcpNextSendIndex c)")
      (simp_all add: Let_def Suc.IH f write_packet_outgoing tcp_close_outgoing)
qed simp

lemma resend_loop_outgoing: "outgoing (resend_loop os t ks c) \<subseteq> outgoing c"
proof (induction ks arbitrary: c)
  case (Cons k ks)
  show ?case
  proof (cases "om_find (udpSentPackets c) k")
    case (Some p)
    define c1 where "c1 = set_event_udp_write os (on_udp_delivered False (p_measureIndex p)
        (get_size (p\<lparr>p_sent := False, p_remainResendCount := p_remainResendCount p - 1\<rparr>))
        (c\<lparr>udpPacketsToSendCount := udpPacketsToSendCount c + 1,
           udpSentPackets := om_put k (p\<lparr>p_sent := False, p_remainResendCount := p_remainResendCount p - 1\<rparr>) (udpSentPackets c)\<rparr>))"
    define c2 where "c2 = ev_at EvUdpResend (p_sentTimeUs p + udpResendUs (par c)) c"
    have "outgoing c1 = outgoing c" "outgoing c2 = outgoing c"
      by (rule outgoing_frame; simp add: c1_def c2_def)+
    then have "outgoing (resend_loop os t ks c1) \<subseteq> outgoing c" "outgoing (resend_loop os t ks c2) \<subseteq> outgoing c"
      using Cons.IH by blast+
    then show ?thesis using Some Cons.IH [of c] udp_close_outgoing [of os c]
      by (simp add: Let_def c1_def c2_def)
  qed simp
qed simp

lemma udp_resend_outgoing: "outgoing (udp_resend os c) \<subseteq> outgoing c"
proof -
  have "outgoing (tick c) = outgoing c" by (rule outgoing_frame) simp_all
  then show ?thesis
    using resend_loop_outgoing [of os "a_time (answer_now os c)" "om_keys (udpSentPackets c)" "tick c"]
    by (simp add: udp_resend_def)
qed

lemma handle_outgoing:
  "outgoing (handle os EvTcpRead t c) = outgoing c" "outgoing (handle os EvTcpWrite t c) = outgoing c"
  "outgoing (handle os EvTcpClose t c) = outgoing c" "outgoing (handle os EvBuildUdpPackets t c) = outgoing c"
  "outgoing (handle os EvClose t c) = outgoing c" "outgoing (handle os EvUdpResend t c) \<subseteq> outgoing c"
  "outgoing (handle os EvUdpClose t c) \<subseteq> outgoing c" "outgoing (handle os EvUdpCloseWait t c) \<subseteq> outgoing c"
proof -
  show "outgoing (handle os EvTcpRead t c) = outgoing c" "outgoing (handle os EvBuildUdpPackets t c) = outgoing c"
      "outgoing (handle os EvClose t c) = outgoing c"
    by (rule outgoing_frame; simp add: handle_def conn_delete_def)+
qed (simp_all add: handle_def tcp_write_def write_loop_outgoing tcp_close_outgoing udp_resend_outgoing udp_close_outgoing)

lemma handle_confirms_soundly:
  assumes inv: "recv_ok c" "send_inv 0 c" and snd: "confirms_soundly c"
    and m: "udpReceivedMasterIndex c < 2 ^ 31" "\<forall>k\<in>set (om_keys (udpReceivedPackets c)). k < int_max"
  shows "confirms_soundly (handle os e planned c)"
proof (rule confirms_soundly_step [OF snd handle_keeps [OF inv(1)]])
  let ?c = "handle os e planned c"
  have bc: "\<forall>d\<in>outgoing (build_confirmations os c) - outgoing c. sound_data (has (build_confirmations os c)) d"
    using build_confirmations_outgoing [OF inv(1) m, of os] build_confirmations_keeps [OF inv(1), of os]
    unfolding keeps_def by (meson sound_data_mono)
  have bb: "\<forall>d\<in>outgoing (build_bye_bye os c) - outgoing c. sound_data (has (build_bye_bye os c)) d"
    by (rule build_bye_bye_outgoing)
  have uw: "\<forall>d\<in>outgoing (udp_write os planned c) - outgoing c. sound_data (has (udp_write os planned c)) d"
    by (rule udp_write_outgoing [OF inv(2)])
  have rest: "\<forall>d\<in>outgoing ?c - outgoing c. sound_data (has ?c) d" if "outgoing ?c \<subseteq> outgoing c"
    using that by blast
  show "\<forall>d\<in>outgoing ?c - outgoing c. sound_data (has ?c) d"
  proof (cases e)
    case EvBuildConfirmations then show ?thesis using bc by (simp add: handle_def)
  next
    case EvBuildByeBye then show ?thesis using bb by (simp add: handle_def)
  next
    case EvUdpWrite then show ?thesis using uw by (simp add: handle_def)
  qed (rule rest; simp add: handle_outgoing)+
qed

lemma udp_read_confirms_soundly:
  assumes "recv_ok c" "fresh_flags p" "confirms_soundly c"
  shows "confirms_soundly (udp_read os p c)"
proof (rule confirms_soundly_step [OF assms(3) udp_read_keeps [OF assms(1,2)]])
  have "outgoing (read_bye_bye os c) \<subseteq> outgoing c"
    by (auto simp: outgoing_def read_bye_bye_def drop_confirmations_def Let_def)
  moreover have "outgoing (read_confirmation os p c) = outgoing c" "outgoing (read_extra p c) = outgoing c"
      "outgoing (store_received os p c) = outgoing c" "outgoing (c\<lparr>fault := True\<rparr>) = outgoing c"
    by (rule outgoing_frame; simp)+
  moreover have "outgoing (ev_in os e t (x\<lparr>remainConfirmationResendCount := n\<rparr>)) = outgoing x" for e t x n
    by (rule outgoing_frame) simp_all
  ultimately have "outgoing (udp_dispatch os p c) \<subseteq> outgoing c" by (simp add: udp_dispatch_def Let_def)
  then have "outgoing (udp_read os p c) \<subseteq> outgoing c"
    using udp_close_outgoing [of os "udp_dispatch os p c"] by (auto simp: udp_read_def Let_def)
  then show "\<forall>d\<in>outgoing (udp_read os p c) - outgoing c. sound_data (has (udp_read os p c)) d" by blast
qed

lemma conn_new_confirms_soundly: "log_udpOut h = [] \<Longrightarrow> confirms_soundly (conn_new os ps iv h)"
  by (simp add: confirms_soundly_def outgoing_def conn_new_def Let_def split_def)

end
