(* ===== verification/Conn_Runs.thy ===== *)
theory Conn_Runs
  imports Acknowledgements
begin

text \<open>
  How a connection develops over its whole life: the list of packets it has built only grows and ends
  with the packet that announces the end of the tcp stream (\<open>closing\<close>); the receiving end has always
  moved its master index as far as it can (\<open>caught_up\<close>), and its final index is the one of that last
  packet (\<open>final_ok\<close>); a packet leaves the queue of the sending end only when the other end has
  confirmed it (\<open>released\<close>).
\<close>

section \<open>The packets built\<close>

definition ended :: "ptype \<times> bytes \<Rightarrow> bool" where
  "ended tb \<longleftrightarrow> fst tb = Bye \<or> fst tb = Disconnect"

text \<open>No more data follows.\<close>

definition no_more :: "conn \<Rightarrow> bool" where
  "no_more c \<longleftrightarrow> \<not> tcpConnected c \<and> (tcpReceivedData c = [] \<or> udpSendPacketSize (par c) \<le> 0)"

definition closing :: "conn \<Rightarrow> bool" where
  "closing c \<longleftrightarrow>
     (\<forall>i<length (log_built c). ended (log_built c ! i) \<longrightarrow> Suc i = length (log_built c) \<and> no_more c)"

text \<open>A step that only appends data packets, or nothing once the end has been announced, and leaves the tcp
  side alone.\<close>

definition appends :: "conn \<Rightarrow> conn \<Rightarrow> bool" where
  "appends c c' \<longleftrightarrow>
     (\<exists>news. log_built c' = log_built c @ news \<and> (\<forall>tb\<in>set news. \<not> ended tb) \<and> (no_more c \<longrightarrow> news = [] \<and> no_more c'))"

lemma appends_refl [simp]: "appends c c"
  by (simp add: appends_def)

lemma appends_same:
  "log_built c' = log_built c \<Longrightarrow> (no_more c \<Longrightarrow> no_more c') \<Longrightarrow> appends c c'"
  by (simp add: appends_def)

lemma appends_closing:
  assumes "closing c" "appends c c'"
  shows "closing c'" "prefix (log_built c) (log_built c')"
proof -
  obtain news where n: "log_built c' = log_built c @ news" "\<forall>tb\<in>set news. \<not> ended tb"
      "no_more c \<Longrightarrow> news = [] \<and> no_more c'"
    using assms(2) unfolding appends_def by blast
  show "prefix (log_built c) (log_built c')" by (simp add: n(1))
  show "closing c'" unfolding closing_def
  proof (intro allI impI)
    fix i assume i: "i < length (log_built c')" "ended (log_built c' ! i)"
    have "i < length (log_built c)"
    proof (rule ccontr)
      assume "\<not> i < length (log_built c)"
      then have "log_built c' ! i \<in> set news" using i(1) by (simp add: n(1) nth_append)
      then show False using n(2) i(2) by blast
    qed
    then have "Suc i = length (log_built c) \<and> no_more c" using assms(1) i(2) by (simp add: closing_def n(1) nth_append)
    then show "Suc i = length (log_built c') \<and> no_more c'" using n(1,3) by simp
  qed
qed

lemma build_loop_appends:
  "\<exists>news. log_built (snd (build_loop os flush psize rest c)) = log_built c @ news \<and> (\<forall>tb\<in>set news. \<not> ended tb)"
proof (rule build_loop_invariant [where Q = "\<lambda>_ x. \<exists>news. log_built x = log_built c @ news \<and> (\<forall>tb\<in>set news. \<not> ended tb)"])
  fix rest' x sz pc
  assume "\<exists>news. log_built x = log_built c @ news \<and> (\<forall>tb\<in>set news. \<not> ended tb)"
    and pc: "pc = enqueue_packet Data (take sz rest') (int sz) x"
  then obtain news where "log_built x = log_built c @ news" "\<forall>tb\<in>set news. \<not> ended tb" by blast
  then have "log_built (snd pc) = log_built c @ (news @ [(Data, take sz rest')]) \<and>
      (\<forall>tb\<in>set (news @ [(Data, take sz rest')]). \<not> ended tb)" by (simp add: pc ended_def)
  then show "\<exists>news. log_built (on_sent_buffer_changed os (get_size (fst pc)) (set_event_udp_write os (snd pc))) =
      log_built c @ news \<and> (\<forall>tb\<in>set news. \<not> ended tb)" by auto
qed simp

lemma build_udp_packets_appends: "appends c (build_udp_packets os flush c)"
proof (cases "udpConnected c")
  case True
  define c1 where "c1 = (if udpReceivedFinalIndex c = udpReceivedMasterIndex c then c\<lparr>tcpReceivedData := []\<rparr> else c)"
  obtain rest c2 where l: "build_loop os flush (udpSendPacketSize (par c1)) (tcpReceivedData c1) c1 = (rest, c2)" by fastforce
  have c2: "c2 = snd (build_loop os flush (udpSendPacketSize (par c1)) (tcpReceivedData c1) c1)" by (simp add: l)
  obtain news where news: "log_built c2 = log_built c1 @ news" "\<forall>tb\<in>set news. \<not> ended tb"
    using build_loop_appends [of os flush "udpSendPacketSize (par c1)" "tcpReceivedData c1" c1] l by auto
  let ?c = "build_udp_packets os flush c"
  have r: "log_built ?c = log_built c2" "tcpReceivedData ?c = rest" "tcpConnected ?c = tcpConnected c" "par ?c = par c"
    using True by (simp_all add: build_udp_packets_def c1_def [symmetric] Let_def l) (simp_all add: c2 c1_def)
  have none: "c2 = c1 \<and> (rest = [] \<or> udpSendPacketSize (par c) \<le> 0)" if "no_more c"
  proof -
    have d: "tcpReceivedData c1 = [] \<or> udpSendPacketSize (par c1) \<le> 0" using that by (auto simp: no_more_def c1_def)
    then have "build_loop os flush (udpSendPacketSize (par c1)) (tcpReceivedData c1) c1 = (tcpReceivedData c1, c1)"
      by (intro build_loop_stop) auto
    then show ?thesis using l d by (auto simp: c1_def split: if_splits)
  qed
  have "log_built ?c = log_built c @ news" by (simp add: r(1) news(1)) (simp add: c1_def)
  moreover have "news = [] \<and> no_more ?c" if "no_more c"
    using none [OF that] news(1) that by (auto simp: no_more_def r)
  ultimately show ?thesis using news(2) unfolding appends_def by blast
qed (simp add: build_udp_packets_def)

lemma tcp_read_appends: "appends c (tcp_read os c)"
proof (cases "tcpConnected c")
  case True
  then have n: "\<not> no_more c" by (simp add: no_more_def)
  obtain bs s where r: "sock_read (a_recv (answer_now os c)) (udpSendPacketSize (par c)) (tcpSocket c) = (bs, s)" by fastforce
  define c2 where "c2 = (tick c)\<lparr>tcpSocket := s, log_tcpIn := log_tcpIn c @ bs,
      statTcpReceived := statTcpReceived (tick c) + int (length bs), tcpReceivedData := tcpReceivedData c @ bs\<rparr>"
  have "log_built (tcp_read os c) = log_built c \<or> log_built (tcp_read os c) = log_built (build_udp_packets os False c2)"
    using True by (simp add: tcp_read_def r Let_def c2_def)
  moreover have "log_built c2 = log_built c" by (simp add: c2_def)
  ultimately show ?thesis using build_udp_packets_appends [of c2 os False] n by (auto simp: appends_def)
qed (simp add: tcp_read_def)

lemma no_more_frame [simp]:
  "no_more (tick c) = no_more c" "no_more (ev_at e t c) = no_more c" "no_more (ev_in os e t c) = no_more c"
  "no_more (ev_off e c) = no_more c" "no_more (set_event_udp_write os c) = no_more c"
  "no_more (on_sent_buffer_changed os n c) = no_more c" "no_more (snd (enqueue_packet ty bs z c)) = no_more c"
  by (simp_all add: no_more_def)

lemma build_loop_all:
  "0 < psize \<Longrightarrow> fst (build_loop os True psize rest c) = []"
proof (induction os "True" psize rest c rule: build_loop.induct)
  case (1 os psize rest c)
  show ?case
  proof (cases "rest = []")
    case False
    let ?sz = "min (int (length rest)) psize"
    have t: "\<not> (rest = [] \<or> (\<not> True \<and> ?sz < psize) \<or> ?sz \<le> 0)" using False 1(2) by (cases rest) auto
    obtain p c1 where e: "enqueue_packet Data (take (nat ?sz) rest) ?sz c = (p, c1)" by fastforce
    from 1(1) [OF refl t e [symmetric] 1(2)] build_loop_turn [OF t, of os c] e
    show ?thesis by (simp add: Let_def)
  qed (simp add: build_loop_stop)
qed

lemma tcp_close_closing:
  assumes "closing c"
  shows "closing (tcp_close os err c)" "prefix (log_built c) (log_built (tcp_close os err c))"
    "no_more c \<Longrightarrow> no_more (tcp_close os err c)"
proof -
  define c2 where "c2 = (ev_off EvTcpWrite (ev_off EvTcpRead (c\<lparr>tcpConnected := False\<rparr>)))
      \<lparr>tcpSocket := sock_close False (tcpSocket c)\<rparr>"
  define c3 where "c3 = build_udp_packets os True (tcp_discard c2)"
  define ty where "ty = (if err then Disconnect else Bye)"
  define c4 where "c4 = snd (enqueue_packet ty [] 0 c3)"
  have same: "tcp_close os err c = c" if "\<not> tcpConnected c" using that by (simp add: tcp_close_def)
  show "no_more c \<Longrightarrow> no_more (tcp_close os err c)" using same by (auto simp: no_more_def)
  show "closing (tcp_close os err c)" "prefix (log_built c) (log_built (tcp_close os err c))"
  proof -
    consider (off) "\<not> tcpConnected c" | (dis) "tcpConnected c" "\<not> udpConnected c" | (con) "tcpConnected c" "udpConnected c" by blast
    then have "closing (tcp_close os err c) \<and> prefix (log_built c) (log_built (tcp_close os err c))"
    proof cases
      case off then show ?thesis using assms same by simp
    next
      case dis
      then have "log_built (tcp_close os err c) = log_built c" by (simp add: tcp_close_disconnected)
      moreover have "\<not> ended (log_built c ! i)" if "i < length (log_built c)" for i
        using that assms dis by (auto simp: closing_def no_more_def)
      ultimately show ?thesis by (simp add: closing_def)
    next
      case con
      have open_: "\<not> ended (log_built c ! i)" if "i < length (log_built c)" for i
        using that assms con by (auto simp: closing_def no_more_def)
      have "log_built (tcp_discard c2) = log_built c" by (simp add: c2_def)
      then obtain news where n: "log_built c3 = log_built c @ news" "\<forall>tb\<in>set news. \<not> ended tb"
        using build_udp_packets_appends [of "tcp_discard c2" os True] by (auto simp: appends_def c3_def)
      have all: "tcpReceivedData c3 = [] \<or> udpSendPacketSize (par c3) \<le> 0"
        using con by (cases "0 < udpSendPacketSize (par c)")
          (simp_all add: c3_def build_udp_packets_def c2_def Let_def split_def build_loop_all)
      have "no_more c4" using all by (simp add: no_more_def c4_def c3_def c2_def)
      moreover have "log_built c4 = log_built c @ news @ [(ty, [])]" by (simp add: c4_def n(1))
      moreover have "Suc i = length (log_built c @ news @ [(ty, [])])"
        if "i < length (log_built c @ news @ [(ty, [])])" "ended ((log_built c @ news @ [(ty, [])]) ! i)" for i
      proof (rule ccontr)
        assume "Suc i \<noteq> length (log_built c @ news @ [(ty, [])])"
        then have "i < length (log_built c @ news)" using that(1) by simp
        then have "(log_built c @ news @ [(ty, [])]) ! i \<in> set news \<or>
            i < length (log_built c) \<and> (log_built c @ news @ [(ty, [])]) ! i = log_built c ! i"
          by (auto simp: nth_append)
        then show False using n(2) open_ that(2) by metis
      qed
      ultimately have c4: "closing c4 \<and> prefix (log_built c) (log_built c4)" unfolding closing_def by simp
      have "tcp_close os err c = set_event_udp_write os (on_sent_buffer_changed os (get_size (fst (enqueue_packet ty [] 0 c3))) c4)"
        using con by (simp add: tcp_close_def c4_def c3_def c2_def ty_def Let_def split_def)
      then show ?thesis using c4 by (simp add: closing_def)
    qed
    then show "closing (tcp_close os err c)" "prefix (log_built c) (log_built (tcp_close os err c))" by blast+
  qed
qed

lemma udp_close_no_more: "no_more c \<Longrightarrow> no_more (udp_close os c)"
proof (cases "udpConnected c")
  case True
  assume "no_more c"
  then have "\<not> tcpConnected (udp_close os c)" using udp_close_connected no_more_def by blast
  moreover have "tcpReceivedData (udp_close os c) = []"
    using True by (simp add: udp_close_def Let_def tcp_close_disconnected)
  ultimately show ?thesis by (simp add: no_more_def)
qed (simp add: udp_close_def)

lemma no_more_update [simp]:
  "no_more (c\<lparr>statUdpSent := x1\<rparr>) = no_more c" "no_more (c\<lparr>udpLastSentUs := x2\<rparr>) = no_more c"
  "no_more (c\<lparr>udpConfirmationPackets := x3\<rparr>) = no_more c" "no_more (c\<lparr>udpSentPackets := x4\<rparr>) = no_more c"
  "no_more (c\<lparr>udpPacketsToSendCount := x5\<rparr>) = no_more c" "no_more (c\<lparr>remainConfirmationResendCount := x6\<rparr>) = no_more c"
  "no_more (c\<lparr>fault := x7\<rparr>) = no_more c" "no_more (snd (send_datagram os p c)) = no_more c"
  "no_more (on_udp_sent os a b d c) = no_more c" "no_more (on_udp_delivered f a b c) = no_more c"
  "no_more (write_again c) = no_more c" "no_more (finish_received k p z c) = no_more c"
  "no_more (write_packet os k p c) = no_more c" "no_more (build_confirmations os c) = no_more c"
  "no_more (build_bye_bye os c) = no_more c" "no_more (read_confirmation os p c) = no_more c"
  "no_more (read_bye_bye os c) = no_more c" "no_more (read_extra p c) = no_more c"
  "no_more (store_received os p c) = no_more c" "no_more (conn_delete c) = no_more c"
  by (simp_all add: no_more_def conn_delete_def)

lemma conn_delete_built [simp]: "log_built (conn_delete c) = log_built c"
  by (simp add: conn_delete_def)

lemma closing_frame2:
  "log_built c' = log_built c \<Longrightarrow> no_more c' = no_more c \<Longrightarrow> closing c' = closing c"
  by (simp add: closing_def)

lemma finish_received_closing [simp]: "closing (finish_received k p z c) = closing c"
  by (rule closing_frame2) simp_all

lemma write_packet_closing [simp]: "closing (write_packet os k p c) = closing c"
  by (rule closing_frame2) simp_all

lemma write_loop_closing:
  "closing c \<Longrightarrow> closing (write_loop os n c)"
  by (induction n arbitrary: c) (simp_all add: Let_def tcp_close_closing(1) split: option.split)

lemma write_loop_built:
  "closing c \<Longrightarrow> prefix (log_built c) (log_built (write_loop os n c))"
proof (induction n arbitrary: c)
  case (Suc n)
  let ?c = "\<lambda>p. finish_received (tcpNextSendIndex c) p (get_size p) c"
  have k: "closing (?c p)" "log_built (?c p) = log_built c" for p using Suc.prems by simp_all
  have "prefix (log_built c) (log_built (write_loop os n (?c p)))" "prefix (log_built c) (log_built (tcp_close os False (?c p)))" for p
    using Suc.IH [OF k(1)] tcp_close_closing(2) [OF k(1)] k(2) by simp_all
  then show ?case by (simp add: Let_def split: option.split)
qed simp

lemma write_confirmation_no_more: "no_more c \<Longrightarrow> no_more (write_confirmation os t p c)"
  by (simp add: write_confirmation_def Let_def split_def udp_close_no_more)

lemma write_sent_packet_no_more: "no_more c \<Longrightarrow> no_more (write_sent_packet os t k p c)"
  by (simp add: write_sent_packet_def Let_def split_def udp_close_no_more)

lemma udp_write_no_more: "no_more c \<Longrightarrow> no_more (udp_write os t c)"
  by (simp add: udp_write_def write_confirmation_no_more write_sent_packet_no_more split: list.split option.split)

lemma resend_loop_no_more: "no_more c \<Longrightarrow> no_more (resend_loop os t ks c)"
  by (induction ks arbitrary: c) (simp_all add: Let_def udp_close_no_more split: option.split)

lemma udp_resend_no_more: "no_more c \<Longrightarrow> no_more (udp_resend os c)"
  by (simp add: udp_resend_def resend_loop_no_more)

lemma handle_appends:
  assumes "e \<noteq> EvTcpWrite" "e \<noteq> EvTcpClose"
  shows "appends c (handle os e t c)"
proof -
  have "appends c (udp_write os t c)" "appends c (udp_close os c)" "appends c (build_confirmations os c)"
      "appends c (build_bye_bye os c)" "appends c (udp_resend os c)" "appends c (conn_delete c)"
    by (rule appends_same; simp add: udp_write_no_more udp_resend_no_more udp_close_no_more)+
  then show ?thesis using assms
    by (cases e) (simp_all add: handle_def build_udp_packets_appends tcp_read_appends)
qed

lemma handle_closing:
  assumes "closing c"
  shows "closing (handle os e t c)" "prefix (log_built c) (log_built (handle os e t c))"
proof -
  have "closing (tcp_write os c)" "prefix (log_built c) (log_built (tcp_write os c))"
    using assms by (simp_all add: tcp_write_def write_loop_closing write_loop_built)
  moreover have "closing (tcp_close os b c)" "prefix (log_built c) (log_built (tcp_close os b c))" for b
    using tcp_close_closing [OF assms] by blast+
  moreover have "closing (handle os e t c) \<and> prefix (log_built c) (log_built (handle os e t c))"
      if "e \<noteq> EvTcpWrite" "e \<noteq> EvTcpClose"
    using appends_closing [OF assms handle_appends [OF that]] by blast
  moreover have "handle os EvTcpWrite t c = tcp_write os c" "handle os EvTcpClose t c = tcp_close os (s_error (tcpSocket c)) c"
    by (simp_all add: handle_def)
  ultimately show "closing (handle os e t c)" "prefix (log_built c) (log_built (handle os e t c))" by metis+
qed

lemma udp_read_closing:
  assumes "closing c"
  shows "closing (udp_read os p c)" "log_built (udp_read os p c) = log_built c"
proof -
  have d: "log_built (udp_dispatch os p c) = log_built c" "no_more (udp_dispatch os p c) = no_more c"
    by (simp_all add: udp_dispatch_def Let_def)
  then show l: "log_built (udp_read os p c) = log_built c" by (simp add: udp_read_def Let_def)
  have "no_more c \<Longrightarrow> no_more (udp_read os p c)" by (simp add: udp_read_def Let_def d udp_close_no_more)
  then show "closing (udp_read os p c)" using assms l by (auto simp: closing_def)
qed

lemma conn_new_closing: "closing (conn_new os ps iv h)"
  by (simp add: closing_def conn_new_def Let_def split_def ended_def)

section \<open>The receiving end\<close>

definition caught_up :: "conn \<Rightarrow> bool" where
  "caught_up c \<longleftrightarrow>
     om_find (udpReceivedPackets c) (udpReceivedMasterIndex c) = None \<or> udpReceivedFinalIndex c \<le> udpReceivedMasterIndex c"

text \<open>\<open>L\<close> is the list of packets the other end has built.\<close>

definition final_ok :: "(ptype \<times> bytes) list \<Rightarrow> conn \<Rightarrow> bool" where
  "final_ok L c \<longleftrightarrow>
     udpReceivedFinalIndex c = int_max \<or>
     udpReceivedFinalIndex c = udpReceivedMasterIndex c \<and> 0 < udpReceivedMasterIndex c \<and>
       udpReceivedMasterIndex c \<le> int (length L) \<and> ended (L ! nat (udpReceivedMasterIndex c - 1))"

lemma caught_up_same:
  "udpReceivedMasterIndex c' = udpReceivedMasterIndex c \<Longrightarrow> udpReceivedFinalIndex c' = udpReceivedFinalIndex c \<Longrightarrow>
   (om_find (udpReceivedPackets c) (udpReceivedMasterIndex c) = None \<Longrightarrow>
    om_find (udpReceivedPackets c') (udpReceivedMasterIndex c) = None) \<Longrightarrow> caught_up c \<Longrightarrow> caught_up c'"
  by (auto simp: caught_up_def)

lemma final_ok_same:
  "udpReceivedMasterIndex c' = udpReceivedMasterIndex c \<Longrightarrow> udpReceivedFinalIndex c' = udpReceivedFinalIndex c \<Longrightarrow>
   final_ok L c' = final_ok L c"
  by (simp add: final_ok_def)

lemma final_ok_append: "final_ok L c \<Longrightarrow> final_ok (L @ M) c"
  by (auto simp: final_ok_def nth_append nat_less_iff)

lemma advance_master_final:
  "final_ok L c \<Longrightarrow> from_list L c \<Longrightarrow> recv_ok c \<Longrightarrow> final_ok L (advance_master n c)"
proof (induction n arbitrary: c)
  case (Suc n)
  show ?case
  proof (cases "om_find (udpReceivedPackets c) (udpReceivedMasterIndex c)")
    case (Some p)
    let ?m = "udpReceivedMasterIndex c"
    let ?c = "c\<lparr>udpReceivedMasterIndex := ?m + 1,
        udpReceivedFinalIndex := (if get_type p = Bye \<or> get_type p = Disconnect then ?m + 1 else udpReceivedFinalIndex c)\<rparr>"
    have t: "?m < int (length L)" "get_type p = fst (L ! nat ?m)" "0 \<le> ?m"
      using Suc.prems(2,3) Some by (auto simp: from_list_def recv_ok_def)
    have "final_ok L (advance_master n ?c)" if lt: "?m < udpReceivedFinalIndex c"
    proof (rule Suc.IH)
      have "udpReceivedFinalIndex c = int_max" using Suc.prems(1) lt by (auto simp: final_ok_def)
      then show "final_ok L ?c" using t by (auto simp: final_ok_def ended_def)
      show "from_list L ?c" using Suc.prems(2) t by (auto simp: from_list_def)
      show "recv_ok ?c" using advance_master_ok [OF Suc.prems(3), of 1] Some lt by (simp add: Let_def)
    qed
    then show ?thesis using Suc.prems(1) Some by (simp add: Let_def)
  qed (use Suc.prems in simp)
qed simp

lemma discard_loop_none:
  "recv_ok c \<Longrightarrow> om_find (udpReceivedPackets c) k = None \<Longrightarrow> om_find (udpReceivedPackets (discard_loop n c)) k = None"
proof (induction n arbitrary: c)
  case (Suc n)
  show ?case
  proof (cases "om_find (udpReceivedPackets c) (tcpNextSendIndex c)")
    case (Some p)
    let ?c = "finish_received (tcpNextSendIndex c) p (get_size p) c"
    have p: "\<not> p_confirmed p" "om_ok (udpReceivedPackets c)" using Suc.prems(1) Some by (auto simp: recv_ok_def)
    have "om_find (udpReceivedPackets ?c) k = None"
      using p Suc.prems(2) Some by (auto simp: finish_received_unconfirmed)
    then show ?thesis using Suc Some finish_received_ok [OF Suc.prems(1) Some] by simp
  qed (use Suc.prems in simp)
qed simp

lemma tcp_discard_none:
  "recv_ok c \<Longrightarrow> om_find (udpReceivedPackets c) k = None \<Longrightarrow> om_find (udpReceivedPackets (tcp_discard c)) k = None"
  by (simp add: tcp_discard_def discard_loop_none)

lemma tcp_close_none:
  assumes "recv_ok c" "om_find (udpReceivedPackets c) k = None"
  shows "om_find (udpReceivedPackets (tcp_close os err c)) k = None"
proof -
  define c2 where "c2 = (ev_off EvTcpWrite (ev_off EvTcpRead (c\<lparr>tcpConnected := False\<rparr>)))
      \<lparr>tcpSocket := sock_close False (tcpSocket c)\<rparr>"
  have "recv_ok c2" "om_find (udpReceivedPackets c2) k = None" using assms by (simp_all add: c2_def recv_ok_def)
  then have "om_find (udpReceivedPackets (tcp_discard c2)) k = None" by (rule tcp_discard_none)
  then show ?thesis using assms(2) by (simp add: tcp_close_def Let_def split_def c2_def [symmetric]) (simp add: c2_def)
qed

lemma write_packet_none:
  assumes "recv_ok c" "om_find (udpReceivedPackets c) k = None" "om_find (udpReceivedPackets c) i = Some p"
  shows "om_find (udpReceivedPackets (write_packet os i p c)) k = None"
proof -
  have p: "\<not> p_confirmed p" "om_ok (udpReceivedPackets c)" using assms by (auto simp: recv_ok_def)
  have "i \<noteq> k" using assms by auto
  moreover have "udpReceivedPackets (finish_received i (p\<lparr>p_data := d\<rparr>) 0 c') =
      om_put i (p\<lparr>p_data := d, p_sent := True\<rparr>) (udpReceivedPackets c')" for d c'
    using p(1) by (subst finish_received_unconfirmed) simp_all
  ultimately show ?thesis using assms(2) p(2) by (simp add: write_packet_def Let_def split_def)
qed

lemma write_loop_none:
  "recv_ok c \<Longrightarrow> om_find (udpReceivedPackets c) k = None \<Longrightarrow> om_find (udpReceivedPackets (write_loop os n c)) k = None"
proof (induction n arbitrary: c)
  case (Suc n)
  show ?case
  proof (cases "om_find (udpReceivedPackets c) (tcpNextSendIndex c)")
    case (Some p)
    let ?c = "finish_received (tcpNextSendIndex c) p (get_size p) c"
    have p: "\<not> p_confirmed p" "om_ok (udpReceivedPackets c)" using Suc.prems(1) Some by (auto simp: recv_ok_def)
    have n: "om_find (udpReceivedPackets ?c) k = None"
      using p Suc.prems(2) Some by (auto simp: finish_received_unconfirmed)
    have ok: "recv_ok ?c" if "tcpNextSendIndex c < udpReceivedMasterIndex c"
      using finish_received_ok [OF Suc.prems(1) Some that] .
    show ?thesis
      using Suc.IH [OF ok n] tcp_close_none [OF ok n] write_packet_none [OF Suc.prems Some] Suc.prems(2) Some
      by (simp add: Let_def)
  qed (use Suc.prems in \<open>simp add: Let_def\<close>)
qed simp

lemma handle_caught_up:
  assumes ok: "recv_ok c" and up: "caught_up c"
  shows "caught_up (handle os e t c)"
proof -
  have bc: "om_find (udpReceivedPackets (build_confirmations os c)) k = None" if "om_find (udpReceivedPackets c) k = None" for k
  proof (cases "udpConnected c")
    case True
    have "udpReceivedPackets (build_confirmations os c) = filter (\<lambda>kp. tcpNextSendIndex c \<le> fst kp) (udpReceivedPackets c)"
      using build_confirmations_recv [OF ok True] by blast
    then show ?thesis using that by (simp add: om_find_filter)
  qed (use that in \<open>simp add: build_confirmations_def\<close>)
  have wf: "udpReceivedFinalIndex (write_loop os n c) = udpReceivedFinalIndex c \<and>
      udpReceivedMasterIndex (write_loop os n c) = udpReceivedMasterIndex c" for n c
    by (induction n arbitrary: c) (simp_all add: Let_def split: option.split)
  have "caught_up (tcp_write os c)" "caught_up (tcp_close os b c)" "caught_up (build_confirmations os c)" for b
    by (rule caught_up_same [OF _ _ _ up]; simp add: tcp_write_def wf write_loop_none [OF ok] tcp_close_none [OF ok] bc)+
  moreover have "caught_up (tcp_read os c)" "caught_up (udp_write os t c)" "caught_up (udp_close os c)"
      "caught_up (build_udp_packets os f c)" "caught_up (build_bye_bye os c)" "caught_up (udp_resend os c)"
      "caught_up (conn_delete c)" for f
    by (rule caught_up_same [OF _ _ _ up]; simp add: conn_delete_def)+
  ultimately show ?thesis using up by (simp add: handle_def split: conn_event.split)
qed

lemma handle_indices [simp]:
  "udpReceivedFinalIndex (handle os e t c) = udpReceivedFinalIndex c"
  "udpReceivedMasterIndex (handle os e t c) = udpReceivedMasterIndex c"
proof -
  have w: "udpReceivedFinalIndex (write_loop os n c) = udpReceivedFinalIndex c \<and>
      udpReceivedMasterIndex (write_loop os n c) = udpReceivedMasterIndex c" for n
    by (induction n arbitrary: c) (simp_all add: Let_def split: option.split)
  show "udpReceivedFinalIndex (handle os e t c) = udpReceivedFinalIndex c"
    "udpReceivedMasterIndex (handle os e t c) = udpReceivedMasterIndex c"
    by (simp_all add: handle_def tcp_write_def w conn_delete_def split: conn_event.split)
qed

lemma handle_final_ok: "final_ok L (handle os e t c) = final_ok L c"
  by (simp add: final_ok_def)

lemma store_received_parts:
  assumes ok: "recv_ok c" "om_find (udpReceivedPackets c) (get_index p) = None"
    "udpReceivedMasterIndex c \<le> get_index p" "fresh_flags p"
  defines "c1 \<equiv> c\<lparr>udpReceivedPackets := om_put (get_index p) p (udpReceivedPackets c),
      udpReceiveBufferSize := udpReceiveBufferSize c + get_size p\<rparr>"
  defines "c2 \<equiv> advance_master (length (udpReceivedPackets c1)) c1"
  shows "recv_ok c1" "recv_ok c2"
    "udpReceivedPackets (store_received os p c) = udpReceivedPackets (tcp_discard c2)"
    "udpReceivedMasterIndex (store_received os p c) = udpReceivedMasterIndex c2"
    "udpReceivedFinalIndex (store_received os p c) = udpReceivedFinalIndex c2"
proof -
  show c1: "recv_ok c1" using ok by (auto simp: c1_def recv_ok_def fresh_flags_def split: if_splits)
  then show "recv_ok c2" by (simp add: c2_def advance_master_ok)
  show "udpReceivedPackets (store_received os p c) = udpReceivedPackets (tcp_discard c2)"
    "udpReceivedMasterIndex (store_received os p c) = udpReceivedMasterIndex c2"
    "udpReceivedFinalIndex (store_received os p c) = udpReceivedFinalIndex c2"
    by (simp_all add: store_received_def Let_def c1_def [symmetric] c2_def [symmetric])
qed

lemma store_received_caught_up:
  assumes ok: "recv_ok c" "om_find (udpReceivedPackets c) (get_index p) = None"
    "udpReceivedMasterIndex c \<le> get_index p" "fresh_flags p"
  shows "caught_up (store_received os p c)"
proof -
  define c1 where "c1 = c\<lparr>udpReceivedPackets := om_put (get_index p) p (udpReceivedPackets c),
      udpReceiveBufferSize := udpReceiveBufferSize c + get_size p\<rparr>"
  define c2 where "c2 = advance_master (length (udpReceivedPackets c1)) c1"
  note parts = store_received_parts [OF ok, folded c1_def, folded c2_def]
  have "card {k \<in> set (om_keys (udpReceivedPackets c1)). udpReceivedMasterIndex c1 \<le> k} \<le> length (udpReceivedPackets c1)"
    using card_mono [of "set (om_keys (udpReceivedPackets c1))" "{k \<in> set (om_keys (udpReceivedPackets c1)). udpReceivedMasterIndex c1 \<le> k}"]
      card_length [of "om_keys (udpReceivedPackets c1)"] by (simp add: om_keys_def)
  then have "om_find (udpReceivedPackets c1) (udpReceivedMasterIndex c2) = None \<or> udpReceivedFinalIndex c2 \<le> udpReceivedMasterIndex c2"
    unfolding c2_def by (intro advance_master_ends) (use parts(1) in \<open>auto simp: recv_ok_def\<close>)
  then have "caught_up c2" by (simp add: caught_up_def) (simp add: c2_def)
  then show ?thesis using tcp_discard_none [OF parts(2)] parts(3-5) by (auto simp: caught_up_def)
qed

lemma store_received_final:
  assumes ok: "recv_ok c" "om_find (udpReceivedPackets c) (get_index p) = None"
    "udpReceivedMasterIndex c \<le> get_index p" "fresh_flags p"
    and r: "from_list L c" "final_ok L c" and car: "carries L p" "stream_type (get_type p)"
  shows "final_ok L (store_received os p c)"
proof -
  define c1 where "c1 = c\<lparr>udpReceivedPackets := om_put (get_index p) p (udpReceivedPackets c),
      udpReceiveBufferSize := udpReceiveBufferSize c + get_size p\<rparr>"
  define c2 where "c2 = advance_master (length (udpReceivedPackets c1)) c1"
  note parts = store_received_parts [OF ok, folded c1_def, folded c2_def]
  have "om_ok (udpReceivedPackets c)" using ok(1) by (simp add: recv_ok_def)
  then have "from_list L c1" using r car by (auto simp: from_list_def carries_def c1_def split: if_splits)
  moreover have "final_ok L c1" using r(2) by (simp add: final_ok_def c1_def)
  ultimately have "final_ok L c2" unfolding c2_def using parts(1) by (intro advance_master_final)
  then show ?thesis using parts(4,5) by (simp add: final_ok_def)
qed

lemma udp_close_caught_up [simp]: "caught_up (udp_close os c) = caught_up c" "final_ok L (udp_close os c) = final_ok L c"
  by (simp_all add: caught_up_def final_ok_def)

lemma udp_read_receiver:
  assumes ok: "recv_ok c" "fresh_flags p" and up: "caught_up c"
    and r: "from_list L c" "final_ok L c" and car: "carries L p"
  shows "caught_up (udp_read os p c)" "final_ok L (udp_read os p c)"
proof -
  have st: "caught_up (store_received os p c) \<and> final_ok L (store_received os p c)"
    if "accepts p c" "om_find (udpReceivedPackets c) (get_index p) = None"
    using that store_received_caught_up [OF ok(1) that(2) _ ok(2)] store_received_final [OF ok(1) that(2) _ ok(2) r car]
    by (auto simp: accepts_def stream_type_def)
  have upd: "caught_up (ev_in os e t (c'\<lparr>remainConfirmationResendCount := n\<rparr>)) = caught_up c'"
    "final_ok L (ev_in os e t (c'\<lparr>remainConfirmationResendCount := n\<rparr>)) = final_ok L c'" for e t c' n
    by (simp_all add: caught_up_def final_ok_def)
  have "caught_up (read_confirmation os p c)" "caught_up (read_bye_bye os c)" "caught_up (read_extra p c)" "caught_up (c\<lparr>fault := True\<rparr>)"
    "final_ok L (read_confirmation os p c)" "final_ok L (read_bye_bye os c)" "final_ok L (read_extra p c)" "final_ok L (c\<lparr>fault := True\<rparr>)"
    using up r(2) by (simp_all add: caught_up_def final_ok_def)
  then have "caught_up (udp_dispatch os p c) \<and> final_ok L (udp_dispatch os p c)"
    using st by (simp add: udp_dispatch_def Let_def upd)
  then show "caught_up (udp_read os p c)" "final_ok L (udp_read os p c)"
    using up r(2) by (simp_all add: udp_read_def Let_def)
qed

lemma conn_new_receiver: "caught_up (conn_new os ps iv h)" "final_ok L (conn_new os ps iv h)"
  by (simp_all add: caught_up_def final_ok_def conn_new_def Let_def split_def)

section \<open>What the sending end forgets\<close>

definition released :: "conn \<Rightarrow> int \<Rightarrow> bool" where
  "released c k \<longleftrightarrow> 0 \<le> k \<and> k < udpNextSendIndex c \<and> om_find (udpSentPackets c) k = None"

text \<open>No step of an open connection forgets a packet, whatever it does to it, except reading a confirmation.\<close>

definition holds_all :: "conn \<Rightarrow> conn \<Rightarrow> bool" where
  "holds_all c c' \<longleftrightarrow> udpNextSendIndex c \<le> udpNextSendIndex c' \<and> (\<forall>k. released c' k \<longrightarrow> released c k)"

lemma holds_all_refl [simp]: "holds_all c c"
  by (simp add: holds_all_def)

lemma holds_all_trans: "holds_all c c' \<Longrightarrow> holds_all c' c'' \<Longrightarrow> holds_all c c''"
  by (auto simp: holds_all_def)

lemma holds_all_same:
  "udpSentPackets c' = udpSentPackets c \<Longrightarrow> udpNextSendIndex c' = udpNextSendIndex c \<Longrightarrow> holds_all c c'"
  by (simp add: holds_all_def released_def)

lemma holds_all_put:
  "om_ok (udpSentPackets c) \<Longrightarrow> udpSentPackets c' = om_put k p (udpSentPackets c) \<Longrightarrow>
   udpNextSendIndex c' = udpNextSendIndex c \<Longrightarrow> holds_all c c'"
  by (auto simp: holds_all_def released_def split: if_splits)

lemma enqueue_holds_all: "om_ok (udpSentPackets c) \<Longrightarrow> holds_all c (snd (enqueue_packet t bs n c))"
  by (auto simp: holds_all_def released_def enqueue_packet_def Let_def split: if_splits)

lemma build_loop_holds_all:
  assumes "send_inv d c" "udpConnected c"
  shows "holds_all c (snd (build_loop os flush psize rest c))"
proof -
  let ?Q = "\<lambda>r x. holds_all c x \<and> om_ok (udpSentPackets x)"
  have "?Q (fst (build_loop os flush psize rest c)) (snd (build_loop os flush psize rest c))"
  proof (rule build_loop_invariant [where Q = ?Q])
    show "holds_all c c \<and> om_ok (udpSentPackets c)" using assms(1) by (simp add: send_inv_def)
    fix rest' x sz pc assume q: "holds_all c x \<and> om_ok (udpSentPackets x)" and pc: "pc = enqueue_packet Data (take sz rest') (int sz) x"
    let ?x = "on_sent_buffer_changed os (get_size (fst pc)) (set_event_udp_write os (snd pc))"
    have "holds_all x (snd pc)" using q by (simp add: pc enqueue_holds_all)
    moreover have "holds_all (snd pc) ?x" by (rule holds_all_same) simp_all
    moreover have "om_ok (udpSentPackets ?x)" using q by (simp add: pc enqueue_packet_def Let_def)
    ultimately show "holds_all c ?x \<and> om_ok (udpSentPackets ?x)" using q holds_all_trans by blast
  qed
  then show ?thesis by blast
qed

lemma build_udp_packets_holds_all:
  assumes "send_inv 0 c"
  shows "holds_all c (build_udp_packets os flush c)"
proof (cases "udpConnected c")
  case True
  define c1 where "c1 = (if udpReceivedFinalIndex c = udpReceivedMasterIndex c then c\<lparr>tcpReceivedData := []\<rparr> else c)"
  have c1: "send_inv 0 c1" "udpConnected c1" "holds_all c c1"
    using assms True by (auto simp: c1_def send_inv_data intro: holds_all_same)
  let ?r = "build_loop os flush (udpSendPacketSize (par c1)) (tcpReceivedData c1) c1"
  have "holds_all c1 (snd ?r)" using c1 by (intro build_loop_holds_all)
  moreover have "holds_all (snd ?r) (build_udp_packets os flush c)"
    by (rule holds_all_same) (simp_all add: build_udp_packets_def c1_def [symmetric] Let_def split_def True)
  ultimately show ?thesis using c1(3) holds_all_trans by blast
qed (simp add: build_udp_packets_def)

lemma tcp_close_holds_all:
  assumes "send_inv 0 c"
  shows "holds_all c (tcp_close os err c)"
proof -
  define c2 where "c2 = tcp_discard ((ev_off EvTcpWrite (ev_off EvTcpRead (c\<lparr>tcpConnected := False\<rparr>)))
      \<lparr>tcpSocket := sock_close False (tcpSocket c)\<rparr>)"
  define c3 where "c3 = build_udp_packets os True c2"
  define ty where "ty = (if err then Disconnect else Bye)"
  have c2: "send_inv 0 c2" using assms by (simp add: c2_def)
  have h: "holds_all c c2" by (rule holds_all_same) (simp_all add: c2_def)
  have h3: "holds_all c2 c3" unfolding c3_def using c2 by (rule build_udp_packets_holds_all)
  have "om_ok (udpSentPackets c3)" using build_udp_packets_inv [OF c2, of os True] by (simp add: c3_def send_inv_def)
  then have h4: "holds_all c3 (snd (enqueue_packet ty [] 0 c3))" by (rule enqueue_holds_all)
  have h5: "holds_all (snd (enqueue_packet ty [] 0 c3)) (tcp_close os err c)" if "tcpConnected c" "udpConnected c"
    by (rule holds_all_same) (simp_all add: tcp_close_def c3_def c2_def ty_def Let_def split_def that)
  have "holds_all c (tcp_close os err c)" if "tcpConnected c" "udpConnected c"
    using h h3 h4 h5 [OF that] holds_all_trans by blast
  moreover have "holds_all c (tcp_close os err c)" if "\<not> udpConnected c"
    by (rule holds_all_same) (simp_all add: tcp_close_disconnected that)
  moreover have "tcp_close os err c = c" if "\<not> tcpConnected c" using that by (simp add: tcp_close_def)
  ultimately show ?thesis using holds_all_refl by metis
qed

lemma tcp_read_holds_all:
  assumes "send_inv 0 c"
  shows "holds_all c (tcp_read os c)"
proof (cases "tcpConnected c")
  case True
  obtain bs s where r: "sock_read (a_recv (answer_now os c)) (udpSendPacketSize (par c)) (tcpSocket c) = (bs, s)" by fastforce
  define c1 where "c1 = (tick c)\<lparr>tcpSocket := s, log_tcpIn := log_tcpIn c @ bs\<rparr>"
  define c2 where "c2 = c1\<lparr>statTcpReceived := statTcpReceived c1 + int (length bs)\<rparr>"
  define c3 where "c3 = c2\<lparr>tcpReceivedData := tcpReceivedData c2 @ bs\<rparr>"
  have c3: "send_inv 0 c3" if "udpConnected c" using assms that by (simp add: c3_def c2_def c1_def send_inv_data)
  have h: "holds_all c c1" "holds_all c c2" "holds_all c c3" "holds_all c ((tick c)\<lparr>tcpSocket := s, log_tcpIn := log_tcpIn c\<rparr>)"
    by (rule holds_all_same; simp add: c3_def c2_def c1_def)+
  have b: "holds_all c (build_udp_packets os False c3)" if "udpConnected c"
    using build_udp_packets_holds_all [OF c3 [OF that]] h(3) holds_all_trans by blast
  have con: "udpConnected c2 = udpConnected c" by (simp add: c2_def c1_def)
  have f: "holds_all c (on_sent_buffer_changed os n x)" if "holds_all c x" for n x
    by (rule holds_all_trans [OF that]) (rule holds_all_same; simp)
  show ?thesis
    using True h b by (auto simp: tcp_read_def r Let_def c1_def [symmetric] c2_def [symmetric] c3_def [symmetric] con intro!: f)
qed (simp add: tcp_read_def)

lemma tcp_write_holds_all:
  assumes "send_inv 0 c"
  shows "holds_all c (tcp_write os c)"
proof -
  have "holds_all c (write_loop os n c)" if "send_inv 0 c" for n c
    using that
  proof (induction n arbitrary: c)
    case (Suc n)
    let ?c = "\<lambda>p. finish_received (tcpNextSendIndex c) p (get_size p) c"
    have f: "holds_all c (?c p)" "holds_all c (write_packet os (tcpNextSendIndex c) p c)" for p
      by (rule holds_all_same; simp)+
    have i: "send_inv 0 (?c p)" for p using Suc.prems by simp
    show ?case using f holds_all_trans [OF f(1) Suc.IH [OF i]] holds_all_trans [OF f(1) tcp_close_holds_all [OF i]]
      by (simp add: Let_def split: option.split)
  qed simp
  then show ?thesis using assms by (simp add: tcp_write_def)
qed

lemma udp_close_disconnects [simp]: "\<not> udpConnected (udp_close os x)"
  by (cases "udpConnected x") (simp_all add: udp_close_def Let_def tcp_close_disconnected)

lemma write_confirmation_holds_all:
  assumes "udpConnected (write_confirmation os t p c)"
  shows "holds_all c (write_confirmation os t p c)"
proof -
  obtain n c1 where s: "send_datagram os p c = (n, c1)" by fastforce
  have c1: "c1 = snd (send_datagram os p c)" using s by simp
  define c3 where "c3 = (on_sent_buffer_changed os (- get_size p)
      (c1\<lparr>statUdpSent := statUdpSent c1 + n, udpLastSentUs := t\<rparr>))\<lparr>udpConfirmationPackets := tl (udpConfirmationPackets c1)\<rparr>"
  have "holds_all c c1" "holds_all c c3" "holds_all c (write_again c1)" "holds_all c (write_again c3)"
    by (rule holds_all_same; simp add: c3_def c1)+
  then show ?thesis using assms
    by (auto simp: write_confirmation_def s Let_def c3_def [symmetric] split: if_splits)
qed

lemma write_sent_packet_holds_all:
  assumes inv: "send_inv 0 c" and f: "om_find (udpSentPackets c) k = Some p"
  shows "holds_all c (write_sent_packet os t k p c)"
proof -
  have ok: "om_ok (udpSentPackets c)" using inv by (simp add: send_inv_def)
  have cf: "\<not> p_confirmed p" using send_inv_queue(2) [OF inv f] .
  show ?thesis using ok
    by (auto simp: holds_all_def released_def write_sent_packet_def Let_def split_def is_complete_def cf split: if_splits)
qed

lemma udp_write_holds_all:
  assumes inv: "send_inv 0 c" and con: "udpConnected (udp_write os t c)"
  shows "holds_all c (udp_write os t c)"
proof (cases "udpConnected c")
  case True
  have "holds_all c (write_sent_packet os t k p c)"
    if "find (\<lambda>kp. \<not> p_sent (snd kp)) (udpSentPackets c) = Some (k, p)" for k p
    using find_in_map [OF send_inv_queue(1) [OF inv] that] write_sent_packet_holds_all [OF inv] by blast
  moreover have "holds_all c (write_confirmation os t p c)" if "udpConfirmationPackets c = p # ps" for p ps
    using con True that by (intro write_confirmation_holds_all) (simp add: udp_write_def)
  ultimately show ?thesis using True by (simp add: udp_write_def split: list.split option.split)
qed (simp add: udp_write_def)

lemma resend_loop_holds_all:
  "om_ok (udpSentPackets c) \<Longrightarrow> udpConnected (resend_loop os t ks c) \<Longrightarrow> holds_all c (resend_loop os t ks c)"
proof (induction ks arbitrary: c)
  case (Cons k ks)
  show ?case
  proof (cases "om_find (udpSentPackets c) k")
    case (Some p)
    define p' where "p' = p\<lparr>p_sent := False, p_remainResendCount := p_remainResendCount p - 1\<rparr>"
    define c1 where "c1 = set_event_udp_write os (on_udp_delivered False (p_measureIndex p') (get_size p')
        (c\<lparr>udpPacketsToSendCount := udpPacketsToSendCount c + 1, udpSentPackets := om_put k p' (udpSentPackets c)\<rparr>))"
    define c2 where "c2 = ev_at EvUdpResend (p_sentTimeUs p + udpResendUs (par c)) c"
    have e: "resend_loop os t (k # ks) c =
        (if \<not> p_sent p then resend_loop os t ks c
         else if p_sentTimeUs p + udpResendUs (par c) \<le> t
         then if p_remainResendCount p > 0 then resend_loop os t ks c1 else udp_close os c
         else resend_loop os t ks c2)"
      by (simp add: Some Let_def c1_def c2_def p'_def)
    have ok: "om_ok (udpSentPackets c1)" "om_ok (udpSentPackets c2)" using Cons.prems(1) by (simp_all add: c1_def c2_def)
    have h: "holds_all c c1" by (rule holds_all_put [OF Cons.prems(1), of _ k p']) (simp_all add: c1_def)
    have h2: "holds_all c c2" by (rule holds_all_same) (simp_all add: c2_def)
    show ?thesis using Cons.prems Cons.IH [OF Cons.prems(1)] holds_all_trans [OF h Cons.IH [OF ok(1)]] holds_all_trans [OF h2 Cons.IH [OF ok(2)]]
      unfolding e by (simp split: if_splits)
  qed simp
qed simp

lemma udp_resend_holds_all:
  assumes "send_inv 0 c" "udpConnected (udp_resend os c)"
  shows "holds_all c (udp_resend os c)"
proof (cases "udpConnected c")
  case True
  have "holds_all c (tick c)" by (rule holds_all_same) simp_all
  moreover have "holds_all (tick c) (udp_resend os c)"
    using assms True by (auto simp: udp_resend_def send_inv_def intro!: resend_loop_holds_all)
  ultimately show ?thesis using holds_all_trans by blast
qed (simp add: udp_resend_def)

lemma handle_holds_all:
  assumes inv: "send_inv 0 c" and con: "udpConnected (handle os e t c)"
  shows "holds_all c (handle os e t c)"
proof -
  have "holds_all c (build_confirmations os c)" "holds_all c (build_bye_bye os c)" "holds_all c (conn_delete c)"
    by (rule holds_all_same; simp add: conn_delete_def)+
  then show ?thesis using con
    by (cases e) (auto simp: handle_def inv tcp_read_holds_all tcp_write_holds_all tcp_close_holds_all udp_write_holds_all
        build_udp_packets_holds_all udp_resend_holds_all split: if_splits)
qed

text \<open>A confirmation releases what it acknowledges; other datagrams release nothing.\<close>

lemma udp_read_released:
  assumes inv: "send_inv 0 c" and con: "udpConnected (udp_read os p c)" and rel: "released (udp_read os p c) k"
  shows "released c k \<or> get_type p = Confirmation \<and> acknowledged p k"
proof -
  have u: "udpConnected c" using con by (simp add: udp_read_def Let_def split: if_splits)
  have e: "udp_read os p c = udp_dispatch os p c" using con u by (auto simp: udp_read_def Let_def split: if_splits)
  show ?thesis
  proof (cases "get_type p = Confirmation")
    case True
    have "udpNextSendIndex (read_confirmation os p c) = udpNextSendIndex c" by simp
    then show ?thesis using rel read_confirmation_inv(2) [OF inv, of os p k] True
      by (auto simp: e udp_dispatch_def released_def split: if_splits)
  next
    case False
    have "udpSentPackets (udp_dispatch os p c) = udpSentPackets c" "udpNextSendIndex (udp_dispatch os p c) = udpNextSendIndex c"
      using False by (simp_all add: udp_dispatch_def Let_def)
    then show ?thesis using rel by (simp add: e released_def)
  qed
qed

lemma conn_new_released: "\<not> released (conn_new os ps iv h) k"
  by (simp add: released_def conn_new_def Let_def split_def enqueue_packet_def)

end
