(* ===== verification/Transitions.thy ===== *)
theory Transitions
  imports Prelude
begin

text \<open>
  Transition systems given by their initial states and their steps, and the two rules by which the
  development proves that a property holds in every reachable state: an invariant, and a property that is
  only kept as long as a bound has not been passed.
\<close>

locale invariant_system =
  fixes start :: "'s \<Rightarrow> bool" and step :: "'s \<Rightarrow> 's \<Rightarrow> bool" and inv :: "'s \<Rightarrow> bool"
  assumes start_inv: "start s \<Longrightarrow> inv s"
    and step_inv: "inv s \<Longrightarrow> step s t \<Longrightarrow> inv t"
begin

lemma run_inv: "step\<^sup>*\<^sup>* s t \<Longrightarrow> inv s \<Longrightarrow> inv t"
  by (induction rule: rtranclp_induct) (auto intro: step_inv)

lemma reachable_inv: "start s \<Longrightarrow> step\<^sup>*\<^sup>* s t \<Longrightarrow> inv t"
  using run_inv start_inv by blast

end

text \<open>A bound that, once passed, stays passed: \<open>good\<close> holds in every state within it.\<close>

locale bounded_system = invariant_system start step inv
  for start :: "'s \<Rightarrow> bool" and step :: "'s \<Rightarrow> 's \<Rightarrow> bool" and inv :: "'s \<Rightarrow> bool" +
  fixes bound :: "'s \<Rightarrow> bool" and good :: "'s \<Rightarrow> bool"
  assumes bound_back: "inv s \<Longrightarrow> step s t \<Longrightarrow> bound t \<Longrightarrow> bound s"
    and start_good: "start s \<Longrightarrow> good s"
    and step_good: "inv s \<Longrightarrow> good s \<Longrightarrow> step s t \<Longrightarrow> bound t \<Longrightarrow> good t"
begin

lemma run_good:
  assumes "step\<^sup>*\<^sup>* s t" "inv s" "good s" "bound t"
  shows "good t"
  using assms
proof (induction rule: rtranclp_induct)
  case (step u v)
  have i: "inv u" using run_inv [OF step.hyps(1) step.prems(1)] .
  then have "bound u" using bound_back [OF i step.hyps(2) step.prems(3)] by blast
  then show ?case using step.IH [OF step.prems(1,2)] step_good [OF i _ step.hyps(2) step.prems(3)] by blast
qed

lemma reachable_good: "start s \<Longrightarrow> step\<^sup>*\<^sup>* s t \<Longrightarrow> bound t \<Longrightarrow> good t"
  using run_good start_inv start_good by blast

end

end
