(* ===== verification/Tunnel.thy ===== *)
theory Tunnel
  imports Conn_Runs Transitions
begin

text \<open>
  Two connections joined by a network that may lose, repeat and reorder datagrams: the transition system
  of the tunnel, the invariant that relates its ends (\<open>follows\<close>), interpreted as a \<open>bounded_system\<close>, and
  the end-to-end properties that rest on it. The second end exists from the start; as it need not take any
  step before the first datagram arrives, this includes the runs in which \<^verbatim>\<open>UdpListener\<close> creates it
  then. The section on a run applies the properties to a concrete state.
\<close>

section \<open>One end\<close>

text \<open>What can happen to a connection between two datagrams: a handler of an enabled event runs, a poll
  changes its tcp socket, and the rest of the process and of the system changes the clock, the udp socket and the
  counters it shares with the other connections.\<close>

inductive conn_step :: "conn \<Rightarrow> conn \<Rightarrow> bool" where
  raise: "\<not> deleted c \<Longrightarrow> ev_enabled e c \<Longrightarrow> conn_step c (raise_conn_event os e c)"
| polled: "\<not> deleted c \<Longrightarrow> conn_step c (c\<lparr>tcpSocket := poll_socket b (tcpSocket c)\<rparr>)"
| others: "conn_step c (c\<lparr>h_tick := n, udpSocket := s, statTcpSent := x1, statTcpReceived := x2, statUdpSent := x3,
     statUdpReceivedExtra := x4, udpSummaryInterval := x5\<rparr>)"

inductive_cases conn_stepE: "conn_step c c'"

definition one_end :: "conn \<Rightarrow> bool" where
  "one_end c \<longleftrightarrow> recv_ok c \<and> send_inv 0 c \<and> sends_stream c \<and> closing c"

lemma one_end_frame:
  "one_end (ev_off e c) = one_end c" "one_end (c\<lparr>tcpSocket := s\<rparr>) = one_end c"
  "one_end (c\<lparr>h_tick := n, udpSocket := s, statTcpSent := x1, statTcpReceived := x2, statUdpSent := x3,
     statUdpReceivedExtra := x4, udpSummaryInterval := x5\<rparr>) = one_end c"
  by (simp_all add: one_end_def closing_def recv_ok_def send_inv_def sends_stream_def peer_finished_def no_more_def)

lemma one_end_handle: "one_end c \<Longrightarrow> one_end (handle os e t c)"
  by (simp add: one_end_def handle_recv_ok handle_send_inv handle_sends handle_closing)

lemma one_end_read: "one_end c \<Longrightarrow> fresh_flags p \<Longrightarrow> one_end (udp_read os p c)"
  by (simp add: one_end_def udp_read_recv_ok udp_read_send_inv udp_read_sends udp_read_closing)

lemma one_end_step: "one_end c \<Longrightarrow> conn_step c c' \<Longrightarrow> one_end c'"
  by (erule conn_stepE) (simp_all add: raise_conn_event_def one_end_frame one_end_handle)

lemma one_end_new: "fresh_host h \<Longrightarrow> one_end (conn_new os ps iv h)"
  by (simp add: one_end_def fresh_host_def conn_new_recv_ok conn_new_send_inv conn_new_sends conn_new_closing)

lemma step_built: "one_end c \<Longrightarrow> conn_step c c' \<Longrightarrow> prefix (log_built c) (log_built c')"
proof (erule conn_stepE)
  fix e os assume "one_end c" "c' = raise_conn_event os e c"
  moreover have "closing (ev_off e c)" using \<open>one_end c\<close> one_end_frame(1) [of e c] by (simp add: one_end_def)
  ultimately show ?thesis using handle_closing(2) [of "ev_off e c"] by (simp add: raise_conn_event_def)
qed simp_all

section \<open>Two ends\<close>

text \<open>The tunnel: two connections, each the \<open>udpAddress\<close> of the other. A datagram one end has sent may be
  delivered at any time, any number of times or never, to the other end, whose \<^verbatim>\<open>UdpListener\<close> passes it
  to \<open>udpRead\<close> when the checksum is right.\<close>

inductive tunnel_step :: "conn \<times> conn \<Rightarrow> conn \<times> conn \<Rightarrow> bool" where
  left: "conn_step a a' \<Longrightarrow> tunnel_step (a, b) (a', b)"
| right: "conn_step b b' \<Longrightarrow> tunnel_step (a, b) (a, b')"
| to_right: "d \<in> set (log_udpOut a) \<Longrightarrow> \<not> deleted b \<Longrightarrow> check_crc32 (new_packet\<lparr>p_data := d\<rparr>) \<Longrightarrow>
     tunnel_step (a, b) (a, udp_read os (new_packet\<lparr>p_data := d\<rparr>) b)"
| to_left: "d \<in> set (log_udpOut b) \<Longrightarrow> \<not> deleted a \<Longrightarrow> check_crc32 (new_packet\<lparr>p_data := d\<rparr>) \<Longrightarrow>
     tunnel_step (a, b) (udp_read os (new_packet\<lparr>p_data := d\<rparr>) a, b)"

inductive_cases tunnel_stepE: "tunnel_step (a, b) s"

definition tunnel_start :: "conn \<times> conn \<Rightarrow> bool" where
  "tunnel_start s \<longleftrightarrow> (\<exists>os ps iv h os' ps' iv' h'. fresh_host h \<and> fresh_host h' \<and>
     s = (conn_new os ps iv h, conn_new os' ps' iv' h'))"

definition tunnel_inv :: "conn \<times> conn \<Rightarrow> bool" where
  "tunnel_inv s \<longleftrightarrow> one_end (fst s) \<and> one_end (snd s)"

text \<open>Neither end has used up its 31-bit packet numbers.\<close>

definition in_range :: "conn \<times> conn \<Rightarrow> bool" where
  "in_range s \<longleftrightarrow> udpNextSendIndex (fst s) < int_max \<and> udpNextSendIndex (snd s) < int_max"

text \<open>What the end \<open>b\<close> knows of the end \<open>a\<close>.\<close>

definition follows :: "conn \<Rightarrow> conn \<Rightarrow> bool" where
  "follows a b \<longleftrightarrow> receives_stream (log_built a) b \<and> caught_up b \<and> final_ok (log_built a) b \<and> confirms_soundly b \<and>
     (udpConnected a \<longrightarrow> (\<forall>k. released a k \<longrightarrow> has b k))"

definition tunnel_good :: "conn \<times> conn \<Rightarrow> bool" where
  "tunnel_good s \<longleftrightarrow> follows (fst s) (snd s) \<and> follows (snd s) (fst s)"

lemma datagram_carries:
  assumes inv: "send_inv 0 a" and d: "d \<in> set (log_udpOut a)" "p_data p = d" and len: "udpNextSendIndex a < int_max"
  shows "carries (log_built a) p"
  unfolding carries_def
proof (intro impI)
  assume t: "stream_type (get_type p)"
  have n: "udpNextSendIndex a = int (length (log_built a))" using inv by (simp add: send_inv_def)
  have "control_frame d \<or> (\<exists>k<length (log_built a). d = frame_of (log_built a ! k) (int k))"
    using inv d(1) by (auto simp: send_inv_def)
  moreover have "\<not> control_frame d"
  proof
    assume "control_frame d"
    then obtain ty i bs where c: "control_type ty" "d = frame ty i bs" by (auto simp: control_frame_def)
    then have "get_type p = ty" using d(2) by (intro frame_type) (auto simp: control_type_def)
    then show False using t c(1) by (auto simp: stream_type_def control_type_def)
  qed
  ultimately obtain k where k: "k < length (log_built a)" "p_data p = frame_of (log_built a ! k) (int k)" using d(2) by blast
  then have st: "stream_type (fst (log_built a ! k))" using inv by (auto simp: send_inv_def)
  have "get_type p = fst (log_built a ! k)"
    using k(2) st by (intro frame_type [of p _ "int k" "snd (log_built a ! k)"]) (auto simp: frame_of_def stream_type_def)
  moreover have "get_index p = int k"
    using k n len by (intro frame_index [of p "fst (log_built a ! k)"]) (auto simp: frame_of_def int_max_def)
  moreover have "get_data p = snd (log_built a ! k)" using k(2) frame_payload by (simp add: frame_of_def)
  ultimately show "get_index p < int (length (log_built a)) \<and> get_type p = fst (log_built a ! nat (get_index p)) \<and>
      get_data p = snd (log_built a ! nat (get_index p))" using k(1) by simp
qed

lemma follows_right_frame:
  "follows a (ev_off e b) = follows a b" "follows a (b\<lparr>tcpSocket := s\<rparr>) = follows a b"
  "follows a (b\<lparr>h_tick := n, udpSocket := s, statTcpSent := x1, statTcpReceived := x2, statUdpSent := x3,
     statUdpReceivedExtra := x4, udpSummaryInterval := x5\<rparr>) = follows a b"
  by (simp_all add: follows_def receives_stream_def from_list_def written_def caught_up_def final_ok_def
      confirms_soundly_def outgoing_def has_def [abs_def] cong: option.case_cong)

lemma follows_grows:
  assumes f: "follows a b" and ok: "recv_ok b" and pre: "prefix (log_built a) (log_built a')"
    and rel: "udpConnected a' \<Longrightarrow> udpConnected a \<and> (\<forall>k. released a' k \<longrightarrow> released a k)"
  shows "follows a' b"
proof -
  obtain M where M: "log_built a' = log_built a @ M" using pre by (auto simp: prefix_def)
  show ?thesis using f rel by (auto simp: follows_def M receives_stream_append [OF ok] final_ok_append)
qed

lemma handle_udp_connected:
  assumes "udpConnected (handle os e t c)"
  shows "udpConnected c"
proof (rule ccontr)
  assume u: "\<not> udpConnected c"
  have r: "\<not> udpConnected (resend_loop os t ks c)" if "\<not> udpConnected c" for t ks c
    using that by (induction ks arbitrary: c) (simp_all add: Let_def split: option.split)
  have w: "udpConnected (write_loop os n c) = udpConnected c" for n c
    by (induction n arbitrary: c) (simp_all add: Let_def split: option.split)
  have "\<not> udpConnected (handle os e t c)"
    using u by (cases e) (simp_all add: handle_def udp_write_def udp_resend_def tcp_write_def w r conn_delete_def)
  then show False using assms by blast
qed

lemma udp_read_udp_connected: "udpConnected (udp_read os p c) \<Longrightarrow> udpConnected c"
  by (auto simp: udp_read_def split: if_splits)

lemma step_grows:
  assumes one: "one_end a" and step: "conn_step a a'" and con: "udpConnected a'"
  shows "udpConnected a \<and> (\<forall>k. released a' k \<longrightarrow> released a k)"
  using step
proof (cases rule: conn_step.cases)
  case (raise e os)
  have inv: "send_inv 0 (ev_off e a)" using one by (simp add: one_end_def)
  have c: "udpConnected (handle os e (ev a e) (ev_off e a))" using con raise(1) by (simp add: raise_conn_event_def)
  have "udpConnected (ev_off e a)" using handle_udp_connected [OF c] .
  moreover have "released (ev_off e a) = released a" by (simp add: released_def [abs_def])
  ultimately show ?thesis
    using handle_holds_all [OF inv c] raise(1) by (simp add: raise_conn_event_def holds_all_def)
qed (use con in \<open>simp_all add: released_def [abs_def]\<close>)

text \<open>The indices of the receiving end are in range.\<close>

lemma follows_range:
  assumes "follows a b" "one_end a" "udpNextSendIndex a < int_max"
  shows "udpReceivedMasterIndex b < 2 ^ 31" "\<forall>k\<in>set (om_keys (udpReceivedPackets b)). k < int_max"
proof -
  have n: "udpNextSendIndex a = int (length (log_built a))" using assms(2) by (simp add: one_end_def send_inv_def)
  have f: "from_list (log_built a) b" using assms(1) by (simp add: follows_def receives_stream_def)
  show "udpReceivedMasterIndex b < 2 ^ 31" using f n assms(3) by (simp add: from_list_def int_max_def)
  show "\<forall>k\<in>set (om_keys (udpReceivedPackets b)). k < int_max"
    using f n assms(3) by (fastforce simp: om_keys_find_aux from_list_def)
qed

lemma follows_handle:
  assumes f: "follows a b" and ends: "one_end a" "one_end b" and r: "udpNextSendIndex a < int_max"
  shows "follows a (handle os e t b)"
proof -
  have b: "recv_ok b" "send_inv 0 b" using ends(2) by (simp_all add: one_end_def)
  have "receives_stream (log_built a) (handle os e t b)" using f b(1) by (simp add: follows_def handle_receives)
  moreover have "caught_up (handle os e t b)" "final_ok (log_built a) (handle os e t b)"
    using f b(1) by (simp_all add: follows_def handle_caught_up handle_final_ok)
  moreover have "confirms_soundly (handle os e t b)"
    using f b follows_range [OF f ends(1) r] by (intro handle_confirms_soundly) (simp_all add: follows_def)
  ultimately show ?thesis using f handle_keeps [OF b(1), of os e t] by (auto simp: follows_def keeps_def)
qed

lemma follows_step:
  assumes f: "follows a b" and ends: "one_end a" "one_end b" and r: "udpNextSendIndex a < int_max"
    and step: "conn_step b b'"
  shows "follows a b'"
  using step
proof (cases rule: conn_step.cases)
  case (raise e os)
  have "follows a (ev_off e b)" using f by (simp add: follows_right_frame)
  moreover have "one_end (ev_off e b)" using ends(2) by (simp add: one_end_frame)
  ultimately show ?thesis using follows_handle ends(1) r raise(1) by (simp add: raise_conn_event_def)
qed (use f in \<open>simp_all add: follows_right_frame\<close>)

text \<open>A datagram of \<open>a\<close> arrives at \<open>b\<close>.\<close>

lemma follows_read:
  assumes f: "follows a b" "follows b a" and ends: "one_end a" "one_end b" and r: "udpNextSendIndex a < int_max"
    and d: "d \<in> set (log_udpOut a)" and p: "p = new_packet\<lparr>p_data := d\<rparr>"
  shows "follows a (udp_read os p b)" "follows (udp_read os p b) a"
proof -
  have b: "recv_ok b" "send_inv 0 b" "closing b" and a: "send_inv 0 a" "recv_ok a" using ends by (simp_all add: one_end_def)
  have fl: "fresh_flags p" by (simp add: p fresh_flags_def new_packet_def)
  have pd: "p_data p = d" by (simp add: p)
  have car: "carries (log_built a) p" using a(1) d pd r by (rule datagram_carries)
  have R: "receives_stream (log_built a) b" "caught_up b" "final_ok (log_built a) b" "confirms_soundly b"
    using f(1) by (simp_all add: follows_def)
  have fr: "from_list (log_built a) b" using R(1) by (simp add: receives_stream_def)
  have "receives_stream (log_built a) (udp_read os p b)" using b(1) R(1) fl car by (rule udp_read_receives)
  moreover have "caught_up (udp_read os p b)" "final_ok (log_built a) (udp_read os p b)"
    using udp_read_receiver [OF b(1) fl R(2) fr R(3) car] by blast+
  moreover have "confirms_soundly (udp_read os p b)" using b(1) fl R(4) by (rule udp_read_confirms_soundly)
  ultimately show "follows a (udp_read os p b)"
    using f(1) udp_read_keeps [OF b(1) fl, of os] by (auto simp: follows_def keeps_def)
  have snd: "sound_data (has a) d" using f(2) d by (auto simp: follows_def confirms_soundly_def outgoing_def)
  have "has a k" if con: "udpConnected (udp_read os p b)" and rel: "released (udp_read os p b) k" for k
  proof -
    have "0 \<le> k" using rel by (simp add: released_def)
    moreover have "released b k \<longrightarrow> has a k" using f(2) udp_read_udp_connected [OF con] by (simp add: follows_def)
    ultimately show ?thesis using udp_read_released [OF b(2) con rel] snd pd by (auto simp: sound_data_def)
  qed
  then show "follows (udp_read os p b) a" using f(2) udp_read_closing(2) [OF b(3)] by (simp add: follows_def)
qed

lemmas tunnel_step_cases = tunnel_stepE [consumes 1, case_names left right to_right to_left]

lemma tunnel_inv_step: "tunnel_inv s \<Longrightarrow> tunnel_step s s' \<Longrightarrow> tunnel_inv s'"
proof (cases s)
  case (Pair a b)
  assume "tunnel_inv s" "tunnel_step s s'"
  moreover have "fresh_flags (new_packet\<lparr>p_data := d\<rparr>)" for d by (simp add: fresh_flags_def new_packet_def)
  ultimately show ?thesis unfolding Pair
    by (elim tunnel_stepE) (auto simp: tunnel_inv_def one_end_step one_end_read)
qed

lemma next_index: "one_end c \<Longrightarrow> udpNextSendIndex c = int (length (log_built c))"
  by (simp add: one_end_def send_inv_def)

lemma step_next: "one_end c \<Longrightarrow> conn_step c c' \<Longrightarrow> udpNextSendIndex c \<le> udpNextSendIndex c'"
  using step_built [of c c'] one_end_step [of c c'] by (simp add: next_index prefix_length_le)

lemma udp_read_next: "one_end c \<Longrightarrow> fresh_flags p \<Longrightarrow> udpNextSendIndex (udp_read os p c) = udpNextSendIndex c"
  using udp_read_closing(2) [of c os p] one_end_read [of c p os] by (simp add: next_index) (simp add: one_end_def)

lemma tunnel_bound_back:
  assumes "tunnel_inv s" "tunnel_step s s'" "in_range s'"
  shows "in_range s"
proof (cases s)
  case (Pair a b)
  have fl: "fresh_flags (new_packet\<lparr>p_data := d\<rparr>)" for d by (simp add: fresh_flags_def new_packet_def)
  show ?thesis using assms unfolding Pair
    by (elim tunnel_stepE) (auto simp: tunnel_inv_def in_range_def udp_read_next fl dest: step_next)
qed

lemma tunnel_good_step:
  assumes inv: "tunnel_inv s" and good: "tunnel_good s" and step: "tunnel_step s s'" and rng: "in_range s'"
  shows "tunnel_good s'"
proof (cases s)
  case (Pair a b)
  have r: "udpNextSendIndex a < int_max" "udpNextSendIndex b < int_max"
    using tunnel_bound_back [OF inv step rng] by (simp_all add: in_range_def Pair)
  have e: "one_end a" "one_end b" using inv by (simp_all add: tunnel_inv_def Pair)
  have ok: "recv_ok a" "recv_ok b" using e by (simp_all add: one_end_def)
  have f: "follows a b" "follows b a" using good by (simp_all add: tunnel_good_def Pair)
  show ?thesis using step unfolding Pair
  proof (cases rule: tunnel_step_cases)
    case (left a')
    have "follows a' b" using f(1) ok(2) step_built [OF e(1) left(2)] step_grows [OF e(1) left(2)] by (rule follows_grows)
    then show ?thesis using follows_step [OF f(2) e(2,1) r(2) left(2)] left(1) by (simp add: tunnel_good_def)
  next
    case (right b')
    have "follows b' a" using f(2) ok(1) step_built [OF e(2) right(2)] step_grows [OF e(2) right(2)] by (rule follows_grows)
    then show ?thesis using follows_step [OF f(1) e r(1) right(2)] right(1) by (simp add: tunnel_good_def)
  next
    case (to_right d os)
    then show ?thesis using follows_read [OF f e r(1) to_right(2) refl] by (simp add: tunnel_good_def)
  next
    case (to_left d os)
    then show ?thesis using follows_read [OF f(2,1) e(2,1) r(2) to_left(2) refl] by (simp add: tunnel_good_def)
  qed
qed

lemma follows_new:
  assumes "fresh_host h" "fresh_host h'"
  shows "follows (conn_new os ps iv h) (conn_new os' ps' iv' h')"
  using assms by (simp add: follows_def fresh_host_def conn_new_receives conn_new_receiver conn_new_confirms_soundly conn_new_released)

interpretation tunnel: bounded_system tunnel_start tunnel_step tunnel_inv in_range tunnel_good
proof unfold_locales
  show "tunnel_inv s" if "tunnel_start s" for s using that by (auto simp: tunnel_start_def tunnel_inv_def one_end_new)
  show "tunnel_good s" if "tunnel_start s" for s using that by (auto simp: tunnel_start_def tunnel_good_def follows_new)
qed (fact tunnel_inv_step tunnel_bound_back tunnel_good_step)+

section \<open>What the tunnel delivers\<close>

lemma ended_payload: "ended tb \<Longrightarrow> payload_of tb = []"
  by (auto simp: ended_def payload_of_def)

text \<open>The first packet the other end has not confirmed.\<close>

definition first_unconfirmed :: "conn \<Rightarrow> int" where
  "first_unconfirmed c = (case udpSentPackets c of [] \<Rightarrow> udpNextSendIndex c | (k, p) # m \<Rightarrow> k)"

lemma first_unconfirmed_released:
  assumes "send_inv 0 c" "0 \<le> k" "k < first_unconfirmed c"
  shows "released c k"
proof -
  have ok: "om_ok (udpSentPackets c)" using assms(1) by (simp add: send_inv_def)
  show ?thesis
  proof (cases "udpSentPackets c")
    case Nil
    then show ?thesis using assms by (simp add: released_def first_unconfirmed_def)
  next
    case (Cons kp m)
    obtain i p where kp: "kp = (i, p)" by fastforce
    have "om_find (udpSentPackets c) i = Some p" using Cons kp by simp
    then have "i < udpNextSendIndex c" using assms(1) by (auto simp: send_inv_def)
    moreover have "om_find m k = None"
      using ok Cons kp assms(3) om_keys_find_aux [of k m] by (auto simp: om_ok_Cons first_unconfirmed_def)
    ultimately show ?thesis using assms Cons kp by (auto simp: released_def first_unconfirmed_def)
  qed
qed

lemma first_unconfirmed_le:
  assumes "send_inv 0 c"
  shows "first_unconfirmed c \<le> udpNextSendIndex c"
proof (cases "udpSentPackets c")
  case (Cons kp m)
  obtain i p where kp: "kp = (i, p)" by fastforce
  have "om_find (udpSentPackets c) i = Some p" using Cons kp by simp
  then have "i < udpNextSendIndex c" using assms unfolding send_inv_def by blast
  then show ?thesis using Cons kp by (simp add: first_unconfirmed_def)
qed (simp add: first_unconfirmed_def)

lemma follows_prefix:
  assumes "one_end a" "follows a b"
  shows "prefix (log_tcpOut b) (log_tcpIn a)"
proof -
  have "prefix (log_tcpOut b) (stream_of (log_built a))" using assms(2) by (simp add: follows_def receives_stream_def)
  moreover have "prefix (stream_of (log_built a)) (log_tcpIn a)"
    using assms(1) append_prefixD by (auto simp: one_end_def sends_stream_def)
  ultimately show ?thesis by (rule prefix_order.trans)
qed

lemma follows_reaches:
  assumes f: "follows a b" and ends: "one_end a" "one_end b" and con: "udpConnected a"
    and r: "udpNextSendIndex a < int_max"
  shows "first_unconfirmed a \<le> udpReceivedMasterIndex b"
proof (rule ccontr)
  assume less: "\<not> first_unconfirmed a \<le> udpReceivedMasterIndex b"
  let ?m = "udpReceivedMasterIndex b" and ?L = "log_built a"
  have a: "send_inv 0 a" "closing a" and b: "recv_ok b" using ends by (simp_all add: one_end_def)
  have m: "0 \<le> ?m" "?m < int (length ?L)"
    using b less first_unconfirmed_le [OF a(1)] next_index [OF ends(1)] by (auto simp: recv_ok_def)
  have "released a ?m" using first_unconfirmed_released [OF a(1)] m(1) less by simp
  then have "has b ?m" using f con by (simp add: follows_def)
  then have "udpReceivedFinalIndex b \<le> ?m" using f by (auto simp: follows_def caught_up_def has_def)
  then have "ended (?L ! nat (?m - 1)) \<and> 0 < ?m"
    using f m(2) r next_index [OF ends(1)] by (auto simp: follows_def final_ok_def)
  then have "Suc (nat (?m - 1)) = length ?L" using a(2) m by (auto simp: closing_def)
  moreover have "0 < ?m" using \<open>ended (?L ! nat (?m - 1)) \<and> 0 < ?m\<close> by blast
  ultimately show False using m(2) by linarith
qed

lemma follows_written:
  assumes f: "follows a b" and ends: "one_end a" "one_end b"
    and idle: "tcpConnected b" "tcpNextSendIndex b = udpReceivedMasterIndex b"
    and unc: "first_unconfirmed a \<le> udpReceivedMasterIndex b"
  shows "prefix (stream_of (take (nat (first_unconfirmed a)) (log_built a))) (log_tcpOut b)"
proof -
  obtain used where "written (log_built a) b used" using f idle(1) by (auto simp: follows_def receives_stream_def)
  then have w: "log_tcpOut b = stream_of (take (nat (udpReceivedMasterIndex b)) (log_built a)) @ used"
    by (simp add: written_def idle(2))
  have "take (nat (first_unconfirmed a)) (log_built a) = take (nat (first_unconfirmed a)) (take (nat (udpReceivedMasterIndex b)) (log_built a))"
    using unc by (simp add: min_absorb1)
  then show ?thesis using stream_of_take w by (metis prefix_append_drop)
qed

lemma tunnel_reachable:
  assumes "tunnel_start s" "tunnel_step\<^sup>*\<^sup>* s (a, b)" "in_range (a, b)"
  shows "one_end a" "one_end b" "follows a b" "follows b a"
  using tunnel.reachable_inv [OF assms(1,2)] tunnel.reachable_good [OF assms]
  by (simp_all add: tunnel_inv_def tunnel_good_def)

text \<open>C4: in every state the tunnel can reach, whatever datagrams were lost, repeated or reordered
  and in whatever order the events of the two ends were handled, the bytes one end has
  written to its tcp socket are a prefix of the bytes the other end has read from its own (fewer than
  2^31 - 1 packets each way).\<close>

theorem tunnel_in_order:
  assumes "tunnel_start s" "tunnel_step\<^sup>*\<^sup>* s (a, b)" "in_range (a, b)"
  shows "prefix (log_tcpOut b) (log_tcpIn a) \<and> prefix (log_tcpOut a) (log_tcpIn b)"
  using tunnel_reachable [OF assms] follows_prefix by blast

text \<open>C15: the sending end forgets a packet only when the other end has it: as long as its udp side is open,
  every packet that is no longer in \<open>udpSentPackets\<close> is below the other end's master index or in its
  \<open>udpReceivedPackets\<close>.\<close>

theorem tunnel_no_loss:
  assumes "tunnel_start s" "tunnel_step\<^sup>*\<^sup>* s (a, b)" "in_range (a, b)" "udpConnected a"
  shows "{k. 0 \<le> k \<and> k < udpNextSendIndex a} \<subseteq>
    set (om_keys (udpSentPackets a)) \<union> {k. k < udpReceivedMasterIndex b} \<union> set (om_keys (udpReceivedPackets b))"
  using tunnel_reachable(3) [OF assms(1-3)] assms(4)
  by (auto simp: follows_def released_def has_def om_keys_find_aux)

text \<open>C14: when the receiving end has written out what it can, everything up to the first packet not yet
  confirmed has reached its tcp socket; when the sending end has nothing left to send and its
  peer has not finished, the two byte streams are equal.\<close>

theorem tunnel_delivers:
  assumes "tunnel_start s" "tunnel_step\<^sup>*\<^sup>* s (a, b)" "in_range (a, b)"
    and "udpConnected a" "tcpConnected b" "tcpNextSendIndex b = udpReceivedMasterIndex b"
  shows "prefix (stream_of (take (nat (first_unconfirmed a)) (log_built a))) (log_tcpOut b) \<and>
    (tcpReceivedData a = [] \<and> udpSentPackets a = [] \<and> \<not> peer_finished a \<longrightarrow> log_tcpOut b = log_tcpIn a)"
proof -
  note r = tunnel_reachable [OF assms(1-3)]
  have p: "prefix (stream_of (take (nat (first_unconfirmed a)) (log_built a))) (log_tcpOut b)"
    using assms(3) follows_reaches [OF r(3,1,2) assms(4)] by (intro follows_written [OF r(3,1,2) assms(5,6)]) (simp add: in_range_def)
  moreover have "log_tcpOut b = log_tcpIn a" if idle: "tcpReceivedData a = []" "udpSentPackets a = []" "\<not> peer_finished a"
  proof -
    have "first_unconfirmed a = int (length (log_built a))"
      using idle(2) next_index [OF r(1)] by (simp add: first_unconfirmed_def)
    then have "prefix (stream_of (log_built a)) (log_tcpOut b)" using p by simp
    moreover have "stream_of (log_built a) = log_tcpIn a"
      using r(1) idle assms(4) by (simp add: one_end_def sends_stream_def)
    ultimately show ?thesis using follows_prefix [OF r(1,3)] by (metis prefix_order.antisym)
  qed
  ultimately show ?thesis by blast
qed

text \<open>Writing closes the tcp socket only at the packet that announces the end.\<close>

lemma write_loop_closes:
  assumes "recv_ok b" "receives_stream L b" "tcpConnected b"
    and last: "\<And>i. i < length L \<Longrightarrow> ended (L ! i) \<Longrightarrow> Suc i = length L"
    and "\<not> tcpConnected (write_loop os n b)"
  shows "log_tcpOut (write_loop os n b) = stream_of L"
  using assms(1-3,5)
proof (induction n arbitrary: b)
  case (Suc n)
  let ?k = "tcpNextSendIndex b"
  show ?case
  proof (cases "?k < udpReceivedMasterIndex b \<and> om_find (udpReceivedPackets b) ?k \<noteq> None")
    case True
    then obtain p where p: "?k < udpReceivedMasterIndex b" "om_find (udpReceivedPackets b) ?k = Some p" by blast
    let ?b = "finish_received ?k p (get_size p) b"
    have L: "0 \<le> ?k" "?k < int (length L)" "get_type p = fst (L ! nat ?k)"
      using Suc.prems(1,2) p by (auto simp: receives_stream_def from_list_def recv_ok_def)
    show ?thesis
    proof (cases "get_type p \<noteq> Data \<or> get_size p \<le> 0")
      case skip: True
      show ?thesis
      proof (cases "ended (L ! nat ?k)")
        case E: True
        obtain used where u: "written L b used" using Suc.prems(2,3) by (auto simp: receives_stream_def)
        have t: "get_type p = Bye \<or> get_type p = Disconnect" using E L(3) by (simp add: ended_def)
        then have "used = []" using u p(2) by (auto simp: written_def)
        then have "log_tcpOut b = stream_of (take (nat ?k) L)" using u by (simp add: written_def)
        moreover have "L = take (nat ?k) L @ [L ! nat ?k]"
          using last [OF _ E] L by (metis id_take_nth_drop drop_all order_refl nat_less_iff)
        ultimately have "log_tcpOut b = stream_of L"
          using ended_payload [OF E] by (metis append_Nil2 concat.simps(1) concat_append list.simps(8) list.simps(9) concat.simps(2) map_append stream_of_def)
        then show ?thesis using t p skip by (simp add: Let_def)
      next
        case False
        then have nt: "get_type p \<noteq> Bye" "get_type p \<noteq> Disconnect" using L(3) by (simp_all add: ended_def)
        have e: "write_loop os (Suc n) b = write_loop os n ?b" using p skip nt by (simp add: Let_def)
        have "receives_stream L ?b"
          using Suc.prems(1,2) p(2) skip by (intro finish_received_receives) (auto simp: get_size_data)
        moreover have "recv_ok ?b" using Suc.prems(1) p(2,1) by (rule finish_received_ok)
        ultimately show ?thesis using Suc.IH [of ?b] Suc.prems(3,4) unfolding e by simp
      qed
    next
      case False
      then have "write_loop os (Suc n) b = write_packet os ?k p b" using p by (simp add: Let_def)
      then show ?thesis using Suc.prems(3,4) by simp
    qed
  next
    case False
    then have "write_loop os (Suc n) b = b" by (auto simp: Let_def)
    then show ?thesis using Suc.prems(3,4) by simp
  qed
qed simp

text \<open>C16: the handler that writes to tcp closes the socket only after it has written every byte of every packet
  the other end ever built.\<close>

theorem tunnel_orderly_close:
  assumes "tunnel_start s" "tunnel_step\<^sup>*\<^sup>* s (a, b)" "in_range (a, b)" "tcpConnected b"
  shows "tcpConnected (tcp_write os b) \<or> log_tcpOut (tcp_write os b) = stream_of (log_built a)"
proof -
  note r = tunnel_reachable [OF assms(1-3)]
  have "recv_ok b" "receives_stream (log_built a) b" using r(2,3) by (simp_all add: one_end_def follows_def)
  moreover have "Suc i = length (log_built a)" if "i < length (log_built a)" "ended (log_built a ! i)" for i
    using r(1) that by (auto simp: one_end_def closing_def)
  ultimately show ?thesis using write_loop_closes [of b "log_built a" os] assms(4) by (auto simp: tcp_write_def)
qed

lemma confirmed_somewhere:
  assumes con: "udpConnected b" and ok: "recv_ok b" and sz: "10 \<le> udpSendPacketSize (par b)"
    and m: "udpReceivedMasterIndex b < 2 ^ 31" "\<forall>k\<in>set (om_keys (udpReceivedPackets b)). k < int_max"
    and k: "has b k"
  shows "\<exists>p\<in>set (udpConfirmationPackets (build_confirmations os b)). get_type p = Confirmation \<and> acknowledged p k"
proof -
  let ?m = "udpReceivedMasterIndex b"
  obtain news Ks where n: "udpConfirmationPackets (build_confirmations os b) =
        filter (\<lambda>p. \<not> is_confirmation p) (udpConfirmationPackets b) @ news" "news \<noteq> []"
      "list_all2 (confirms ?m) news Ks"
      "{k. om_find (udpReceivedPackets b) k \<noteq> None \<and> ?m \<le> k} \<subseteq> \<Union> (set Ks)"
    using build_confirmations_covers [OF con ok m(2), of os] sz by blast
  have m0: "0 \<le> ?m" using ok by (auto simp: recv_ok_def)
  obtain i where i: "i < length news" "k < ?m \<or> k \<in> Ks ! i"
  proof (cases "k < ?m")
    case True
    then show ?thesis using that [of 0] n(2) by simp
  next
    case False
    then have "k \<in> \<Union> (set Ks)" using k n(4) by (auto simp: has_def)
    then show ?thesis using that n(3) by (auto simp: in_set_conv_nth list_all2_lengthD)
  qed
  have "confirms ?m (news ! i) (Ks ! i)" using n(3) i(1) by (simp add: list_all2_conv_all_nth)
  note c = confirms_reads [OF this m0 m(1)]
  have "acknowledged (news ! i) k" using i(2) c(2,3) by (auto simp: acknowledged_def acks_def)
  moreover have "news ! i \<in> set (udpConfirmationPackets (build_confirmations os b))" using i(1) n(1) by simp
  ultimately show ?thesis using c(1) by blast
qed

text \<open>C17: confirmations make progress: when the receiving end builds confirmations, one of the packets it
  queues makes the sending end release a given packet, whatever packet the receiving end has, if only that
  datagram arrives.\<close>

theorem tunnel_progress:
  assumes "tunnel_start s" "tunnel_step\<^sup>*\<^sup>* s (a, b)" "in_range (a, b)"
    and "udpConnected b" "10 \<le> udpSendPacketSize (par b)" "has b k"
  shows "\<exists>p\<in>set (udpConfirmationPackets (build_confirmations os b)).
    get_type p = Confirmation \<and> om_find (udpSentPackets (read_confirmation os' p a)) k = None"
proof -
  note r = tunnel_reachable [OF assms(1-3)]
  have n: "udpNextSendIndex a < int_max" using assms(3) by (simp add: in_range_def)
  have b: "recv_ok b" and a: "send_inv 0 a" using r(1,2) by (simp_all add: one_end_def)
  obtain p where "p \<in> set (udpConfirmationPackets (build_confirmations os b))" "get_type p = Confirmation" "acknowledged p k"
    using confirmed_somewhere [OF assms(4) b assms(5) follows_range [OF r(3,1) n] assms(6)] by blast
  then show ?thesis using read_confirmation_inv(2) [OF a, of os' p k] by auto
qed

section \<open>A run of the tunnel\<close>

text \<open>Used to apply the properties of the tunnel to a concrete state: the first end is created and sends its
  Hello, which the second end receives.\<close>

definition end0 :: conn where
  "end0 = conn_new sample_os sample_params 1000 sample_host"

definition end1 :: conn where
  "end1 = raise_conn_event sample_os EvUdpWrite end0"

definition hello :: packet where
  "hello = new_packet\<lparr>p_data := frame Hello 0 []\<rparr>"

definition peer1 :: conn where
  "peer1 = udp_read sample_os hello end0"

lemma fresh_sample: "fresh_host sample_host"
  by (simp add: fresh_host_def sample_host_def)

lemma encode_hello: "p_data (encode Hello 0 [] 0 p) = frame Hello 0 []"
  using encode_data [of Hello 0 "[]" p] by simp

lemma encode_flags: "p_sent (encode t i bs n p) = p_sent p" "p_confirmed (encode t i bs n p) = p_confirmed p"
  by (simp_all add: encode_def apply_crc32_def set_crc32_def set_type_def set_index_def set_data_def set_bytes_def Let_def)

lemma end0_state:
  "udpConnected end0" "tcpConnected end0" "udpConfirmationPackets end0 = []" "log_udpOut end0 = []"
  "tcpNextSendIndex end0 = 0" "udpReceivedMasterIndex end0 = 0" "udpReceivedPackets end0 = []"
  "udpReceivedFinalIndex end0 = int_max" "par end0 = sample_params" "udpNextSendIndex end0 = 1"
  "udpSentPackets end0 = [(0, encode Hello 0 [] 0 (new_packet\<lparr>p_remainResendCount := 20\<rparr>))]"
  "s_closeWrite (udpSocket end0) = False" "\<not> deleted end0" "log_tcpIn end0 = []"
  by (simp_all add: end0_def conn_new_def Let_def split_def enqueue_packet_def sent_slot_def sample_params_def sample_host_def
      sock_new_def)

lemma end0_write: "ev_enabled EvUdpWrite end0"
proof -
  have "0 \<le> ev (ev_in sample_os EvUdpWrite 0 c) EvUdpWrite" for c
    by (simp add: ev_in_def ev_at_def set_time_value_def answer_now_def sample_os_def)
  moreover have "ev (ev_in os e t c) EvUdpWrite = ev c EvUdpWrite" if "e \<noteq> EvUdpWrite" for os e t c
    using that by (simp add: ev_in_def ev_at_def tick_def)
  ultimately show ?thesis by (simp add: ev_enabled_def end0_def conn_new_def Let_def split_def)
qed

lemma end1_state:
  "log_udpOut end1 = [frame Hello 0 []]" "udpNextSendIndex end1 = 1" "udpConnected end1" "tcpConnected end1"
proof -
  let ?c = "ev_off EvUdpWrite end0"
  let ?p = "encode Hello 0 [] 0 (new_packet\<lparr>p_remainResendCount := 20\<rparr>)"
  have e: "end1 = write_sent_packet sample_os (ev end0 EvUdpWrite) 0 ?p ?c"
    by (simp add: end1_def raise_conn_event_def handle_def udp_write_def end0_state encode_flags new_packet_def)
  obtain n c1 where s: "send_datagram sample_os ?p ?c = (n, c1)" by fastforce
  have n: "n = 9" "log_udpOut c1 = [frame Hello 0 []]" "udpConnected c1" "tcpConnected c1" "udpNextSendIndex c1 = 1"
    using s by (auto simp: send_datagram_def sock_writeto_def sample_os_def answer_now_def end0_state encode_hello length_frame)
  have "\<not> is_complete (?p\<lparr>p_sent := True, p_sentTimeUs := t, p_measureIndex := m\<rparr>)" for t m
    by (simp add: is_complete_def encode_flags new_packet_def)
  then show "log_udpOut end1 = [frame Hello 0 []]" "udpNextSendIndex end1 = 1" "udpConnected end1" "tcpConnected end1"
    using n by (simp_all add: e write_sent_packet_def s Let_def)
qed

lemma hello_reads:
  "get_type hello = Hello" "get_index hello = 0" "check_crc32 hello"
  using frame_type [of hello Hello 0 "[]"] frame_index [of hello Hello 0 "[]"] frame_crc [of hello Hello 0 "[]"]
  by (simp_all add: hello_def)

lemma peer1_state:
  "udpReceivedMasterIndex peer1 = 1" "udpConnected peer1" "tcpConnected peer1" "udpNextSendIndex peer1 = 1" "par peer1 = sample_params"
proof -
  define c1 where "c1 = end0\<lparr>udpReceivedPackets := [(0, hello)], udpReceiveBufferSize := udpReceiveBufferSize end0 + get_size hello\<rparr>"
  have adv: "advance_master 1 c1 = c1\<lparr>udpReceivedMasterIndex := 1\<rparr>"
    by (simp add: c1_def Let_def end0_state int_max_def hello_reads)
  define d where "d = store_received sample_os hello end0"
  have d: "udpReceivedMasterIndex d = 1" "udpConnected d" "tcpConnected d" "udpNextSendIndex d = 1" "par d = sample_params"
      "udpSentPackets d \<noteq> []"
    by (simp_all add: d_def store_received_def Let_def end0_state hello_reads c1_def [symmetric] adv int_max_def)
      (simp_all add: c1_def end0_state tcp_discard_def int_max_def)
  have acc: "accepts hello end0"
    by (simp add: accepts_def hello_reads end0_state int_max_def sample_params_def)
  have e: "udp_dispatch sample_os hello end0 = ev_in sample_os EvBuildConfirmations (buildConfirmationsUs (par d))
      (d\<lparr>remainConfirmationResendCount := confirmationResendCount (par d)\<rparr>)"
    using acc by (simp add: udp_dispatch_def hello_reads end0_state sample_params_def d_def [symmetric])
  have "\<not> isUdpFinished (udp_dispatch sample_os hello end0)"
    using d by (simp add: e isUdpFinished_def isNoMoreDataWillBeSent_def)
  then have r: "peer1 = udp_dispatch sample_os hello end0" by (simp add: peer1_def udp_read_def Let_def end0_state)
  show "udpReceivedMasterIndex peer1 = 1" "udpConnected peer1" "tcpConnected peer1" "udpNextSendIndex peer1 = 1"
    "par peer1 = sample_params" using d by (simp_all add: r e)
qed

lemma sample_start: "tunnel_start (end0, end0)"
  using fresh_sample unfolding tunnel_start_def end0_def by blast

lemma sample_run: "tunnel_step\<^sup>*\<^sup>* (end0, end0) (end1, peer1)" "in_range (end1, peer1)"
proof -
  have "tunnel_step (end0, end0) (end1, end0)"
    unfolding end1_def by (intro tunnel_step.left conn_step.raise end0_state end0_write)
  moreover have "tunnel_step (end1, end0) (end1, peer1)"
    unfolding peer1_def hello_def
    by (rule tunnel_step.to_right) (use end1_state end0_state hello_reads in \<open>simp_all add: hello_def\<close>)
  ultimately show "tunnel_step\<^sup>*\<^sup>* (end0, end0) (end1, peer1)" by simp
  show "in_range (end1, peer1)" by (simp add: in_range_def end1_state peer1_state int_max_def)
qed

theorem tunnel_in_order_witness: "prefix (log_tcpOut peer1) (log_tcpIn end1)"
  using tunnel_in_order [OF sample_start sample_run] by blast

theorem tunnel_no_loss_witness:
  "0 \<in> set (om_keys (udpSentPackets end1)) \<union> {k. k < udpReceivedMasterIndex peer1} \<union> set (om_keys (udpReceivedPackets peer1))"
  using tunnel_no_loss [OF sample_start sample_run end1_state(3)] by (auto simp: end1_state)

theorem tunnel_delivers_witness: "prefix (stream_of (take (nat (first_unconfirmed end1)) (log_built end1))) (log_tcpOut end0)"
proof -
  have "tunnel_step\<^sup>*\<^sup>* (end0, end0) (end1, end0)"
    unfolding end1_def by (intro r_into_rtranclp tunnel_step.left conn_step.raise end0_state end0_write)
  moreover have "in_range (end1, end0)" by (simp add: in_range_def end1_state end0_state int_max_def)
  ultimately show ?thesis
    using tunnel_delivers [OF sample_start, of end1 end0] end1_state end0_state by simp
qed

theorem tunnel_orderly_close_witness:
  "tcpConnected (tcp_write sample_os peer1) \<or> log_tcpOut (tcp_write sample_os peer1) = stream_of (log_built end1)"
  by (rule tunnel_orderly_close [OF sample_start sample_run peer1_state(3)])

theorem tunnel_progress_witness:
  "\<exists>p\<in>set (udpConfirmationPackets (build_confirmations sample_os peer1)).
    get_type p = Confirmation \<and> om_find (udpSentPackets (read_confirmation sample_os p end1)) 0 = None"
  by (rule tunnel_progress [OF sample_start sample_run peer1_state(2)])
    (simp_all add: peer1_state sample_params_def has_def)

end
