(* ===== verification/Conn_Life.thy ===== *)
theory Conn_Life
  imports Tunnel
begin

text \<open>
  A connection against an arbitrary peer: the transition system of one connection, which any datagram with a
  correct checksum may reach, as an instance of \<open>invariant_system\<close>; the accounts of its buffers, the receive window,
  the close event, and the resending of packets.
\<close>

section \<open>One connection and any peer\<close>

text \<open>A connection by itself: the steps of \<open>conn_step\<close> under one oracle whose clock shows positive times, and
  the arrival of any datagram with a correct checksum, whoever made it.\<close>

definition clock_ok :: "os \<Rightarrow> bool" where
  "clock_ok os \<longleftrightarrow> (\<forall>n. 0 \<le> a_time (os n))"

inductive life_step :: "os \<Rightarrow> conn \<Rightarrow> conn \<Rightarrow> bool" for os where
  raised: "\<not> deleted c \<Longrightarrow> ev_enabled e c \<Longrightarrow> clock_ok os \<Longrightarrow> life_step os c (raise_conn_event os e c)"
| polls: "\<not> deleted c \<Longrightarrow> life_step os c (c\<lparr>tcpSocket := poll_socket b (tcpSocket c)\<rparr>)"
| around: "life_step os c (c\<lparr>h_tick := n, udpSocket := s, statTcpSent := x1, statTcpReceived := x2, statUdpSent := x3,
     statUdpReceivedExtra := x4, udpSummaryInterval := x5\<rparr>)"
| arrives: "\<not> deleted c \<Longrightarrow> check_crc32 (new_packet\<lparr>p_data := d\<rparr>) \<Longrightarrow> clock_ok os \<Longrightarrow>
     life_step os c (udp_read os (new_packet\<lparr>p_data := d\<rparr>) c)"

inductive_cases life_stepE: "life_step os c c'"

lemmas life_step_cases = life_stepE [consumes 1, case_names raised polls around arrives]

definition life_start :: "conn \<Rightarrow> bool" where
  "life_start c \<longleftrightarrow> (\<exists>os ps iv h. clock_ok os \<and> fresh_host h \<and> c = conn_new os ps iv h)"

lemma fresh_datagram: "fresh_flags (new_packet\<lparr>p_data := d\<rparr>)"
  by (simp add: fresh_flags_def new_packet_def)

lemma one_end_life: "one_end c \<Longrightarrow> life_step os c c' \<Longrightarrow> one_end c'"
  by (erule life_stepE) (simp_all add: raise_conn_event_def one_end_frame one_end_handle one_end_read fresh_datagram)

section \<open>The receive window\<close>

lemma handle_none:
  assumes ok: "recv_ok c" and n: "om_find (udpReceivedPackets c) k = None"
  shows "om_find (udpReceivedPackets (handle os e t c)) k = None"
proof -
  have bc: "om_find (udpReceivedPackets (build_confirmations os c)) k = None"
  proof (cases "udpConnected c")
    case True
    have "udpReceivedPackets (build_confirmations os c) = filter (\<lambda>kp. tcpNextSendIndex c \<le> fst kp) (udpReceivedPackets c)"
      using build_confirmations_recv [OF ok True] by blast
    then show ?thesis using n by (simp add: om_find_filter)
  qed (use n in \<open>simp add: build_confirmations_def\<close>)
  show ?thesis using n bc
    by (simp add: handle_def tcp_write_def write_loop_none [OF ok] tcp_close_none [OF ok] conn_delete_def split: conn_event.split)
qed

lemma finish_received_next [simp]: "tcpNextSendIndex (finish_received k p n c) = tcpNextSendIndex c + 1"
  by (simp add: finish_received_def Let_def)

lemma discard_loop_next: "tcpNextSendIndex c \<le> tcpNextSendIndex (discard_loop n c)"
proof (induction n arbitrary: c)
  case (Suc n)
  show ?case
  proof (cases "om_find (udpReceivedPackets c) (tcpNextSendIndex c)")
    case (Some p)
    then show ?thesis using Suc.IH [of "finish_received (tcpNextSendIndex c) p (get_size p) c"] by simp
  qed simp
qed simp

lemma tcp_discard_next: "tcpNextSendIndex c \<le> tcpNextSendIndex (tcp_discard c)"
  by (simp add: tcp_discard_def discard_loop_next)

lemma tcp_close_next: "tcpNextSendIndex c \<le> tcpNextSendIndex (tcp_close os err c)"
  using tcp_discard_next [of "(ev_off EvTcpWrite (ev_off EvTcpRead (c\<lparr>tcpConnected := False\<rparr>)))\<lparr>tcpSocket := sock_close False (tcpSocket c)\<rparr>"]
  by (simp add: tcp_close_def Let_def split_def)

lemma write_packet_next: "tcpNextSendIndex c \<le> tcpNextSendIndex (write_packet os k p c)"
  by (simp add: write_packet_def Let_def split_def)

lemma write_loop_next: "tcpNextSendIndex c \<le> tcpNextSendIndex (write_loop os n c)"
proof (induction n arbitrary: c)
  case (Suc n)
  let ?c = "\<lambda>p. finish_received (tcpNextSendIndex c) p (get_size p) c"
  have "tcpNextSendIndex c \<le> tcpNextSendIndex (write_loop os n (?c p))" "tcpNextSendIndex c \<le> tcpNextSendIndex (tcp_close os False (?c p))" for p
    using Suc.IH [of "?c p"] tcp_close_next [of "?c p" os False] by simp_all
  then show ?case using write_packet_next by (simp add: Let_def split: option.split)
qed simp

lemma handle_next: "tcpNextSendIndex c \<le> tcpNextSendIndex (handle os e t c)"
  by (simp add: handle_def tcp_write_def write_loop_next tcp_close_next conn_delete_def split: conn_event.split)

lemma handle_par [simp]: "par (handle os e t c) = par c"
proof -
  have "par (write_loop os n c) = par c" for n
    by (induction n arbitrary: c) (simp_all add: Let_def split: option.split)
  then show ?thesis by (simp add: handle_def tcp_write_def conn_delete_def split: conn_event.split)
qed

definition window :: "params \<Rightarrow> int" where
  "window ps = cdiv (2 * udpMaxReceiveBufferSize ps) (udpSendPacketSize ps)"

definition in_window :: "conn \<Rightarrow> bool" where
  "in_window c \<longleftrightarrow> (\<forall>k. om_find (udpReceivedPackets c) k \<noteq> None \<longrightarrow> k \<le> tcpNextSendIndex c + window (par c))"

lemma in_window_mono:
  assumes "in_window c" "par c' = par c" "tcpNextSendIndex c \<le> tcpNextSendIndex c'"
    "\<And>k. om_find (udpReceivedPackets c) k = None \<Longrightarrow> om_find (udpReceivedPackets c') k = None"
  shows "in_window c'"
  unfolding in_window_def
proof (intro allI impI)
  fix k assume "om_find (udpReceivedPackets c') k \<noteq> None"
  then have "om_find (udpReceivedPackets c) k \<noteq> None" by (rule contrapos_nn) (rule assms(4))
  then have "k \<le> tcpNextSendIndex c + window (par c)" using assms(1) unfolding in_window_def by blast
  then show "k \<le> tcpNextSendIndex c' + window (par c')" using assms(2,3) by simp
qed

lemma in_window_handle: "recv_ok c \<Longrightarrow> in_window c \<Longrightarrow> in_window (handle os e t c)"
  by (erule in_window_mono) (simp_all add: handle_next handle_none)

lemma store_received_window:
  assumes ok: "recv_ok c" "om_find (udpReceivedPackets c) (get_index p) = None" "fresh_flags p"
    and acc: "accepts p c" and w: "in_window c"
  shows "in_window (store_received os p c)"
proof -
  define c1 where "c1 = c\<lparr>udpReceivedPackets := om_put (get_index p) p (udpReceivedPackets c),
      udpReceiveBufferSize := udpReceiveBufferSize c + get_size p\<rparr>"
  define c2 where "c2 = advance_master (length (udpReceivedPackets c1)) c1"
  have m: "udpReceivedMasterIndex c \<le> get_index p" using acc by (simp add: accepts_def)
  note parts = store_received_parts [OF ok(1,2) m ok(3), folded c1_def, folded c2_def]
  have "om_ok (udpReceivedPackets c)" using ok(1) by (simp add: recv_ok_def)
  then have "in_window c1" using w acc by (auto simp: in_window_def c1_def accepts_def window_def split: if_splits)
  then have "in_window c2" by (simp add: in_window_def c2_def)
  moreover have "tcpNextSendIndex (store_received os p c) = tcpNextSendIndex (tcp_discard c2)"
    by (simp add: store_received_def Let_def c1_def [symmetric] c2_def [symmetric])
  moreover have "par (store_received os p c) = par c2" by (simp add: c2_def c1_def)
  ultimately show ?thesis
    using tcp_discard_none [OF parts(2)] tcp_discard_next [of c2] parts(3) by (auto elim!: in_window_mono)
qed

lemma in_window_frame:
  "udpReceivedPackets c' = udpReceivedPackets c \<Longrightarrow> tcpNextSendIndex c' = tcpNextSendIndex c \<Longrightarrow> par c' = par c \<Longrightarrow>
   in_window c' = in_window c"
  by (simp add: in_window_def)

lemma in_window_read:
  assumes "recv_ok c" "in_window c" "fresh_flags p"
  shows "in_window (udp_read os p c)"
proof -
  have "in_window (ev_in os e t (c'\<lparr>remainConfirmationResendCount := n\<rparr>)) = in_window c'" "in_window (udp_close os c') = in_window c'"
    "in_window (read_confirmation os p c) = in_window c" "in_window (read_bye_bye os c) = in_window c"
    "in_window (read_extra p c) = in_window c" "in_window (c\<lparr>fault := True\<rparr>) = in_window c" for e t c' n
    by (rule in_window_frame; simp)+
  then show ?thesis using assms store_received_window [of c p os]
    by (simp add: udp_read_def udp_dispatch_def Let_def)
qed

section \<open>When a connection is closed\<close>

text \<open>The time of the close event, which only the closing functions set.\<close>

lemma close_time_basic [simp]:
  "ev (tick c) = ev c" "e \<noteq> EvClose \<Longrightarrow> ev (ev_at e t c) EvClose = ev c EvClose"
  "e \<noteq> EvClose \<Longrightarrow> ev (ev_in os e t c) EvClose = ev c EvClose" "e \<noteq> EvClose \<Longrightarrow> ev (ev_off e c) EvClose = ev c EvClose"
  by (simp_all add: tick_def ev_at_def ev_in_def ev_off_def)

lemma close_time_helpers [simp]:
  "ev (on_sent_buffer_changed os d c) EvClose = ev c EvClose" "ev (on_udp_sent os i u n c) = ev c"
  "ev (on_udp_delivered b i n c) = ev c" "ev (set_event_udp_write os c) EvClose = ev c EvClose"
  "ev (snd (enqueue_packet ty bs n c)) = ev c" "ev (push_control os ty i bs n c) EvClose = ev c EvClose"
  "ev (finish_received k p n c) = ev c" "ev (write_again c) EvClose = ev c EvClose"
  "ev (snd (send_datagram os p c)) = ev c" "ev (read_extra p c) = ev c" "ev (conn_delete c) = ev c"
  by (simp_all add: on_sent_buffer_changed_def on_udp_sent_def on_udp_delivered_def set_event_udp_write_def
      enqueue_packet_def push_control_def finish_received_def write_again_def send_datagram_def read_extra_def
      conn_delete_def Let_def split_def split: option.split)

lemma build_loop_close_time [simp]: "ev (snd (build_loop os flush psize rest c)) EvClose = ev c EvClose"
  by (rule build_loop_invariant [where Q = "\<lambda>_ x. ev x EvClose = ev c EvClose"]) simp_all

lemma fold_close_time [simp]:
  "ev (fold (\<lambda>p. on_sent_buffer_changed os (g p)) ps c) EvClose = ev c EvClose"
  by (induction ps arbitrary: c) simp_all

lemma discard_loop_close_time [simp]: "ev (discard_loop n c) = ev c"
  by (induction n arbitrary: c) (simp_all split: option.split)

lemma confirm_loop_close_time [simp]:
  "ev (snd (snd (confirm_loop os psize master ks prev buf sz c))) EvClose = ev c EvClose"
  by (induction os psize master ks prev buf sz c rule: confirm_loop.induct)
    (simp_all add: Let_def split_def split: option.split)

lemma confirm_packet_close_time [simp]: "ev (confirm_packet os k c) EvClose = ev c EvClose"
  by (simp add: confirm_packet_def Let_def split: option.split)

lemma fold_confirm_close_time [simp]: "ev (fold (confirm_packet os) ks c) EvClose = ev c EvClose"
  by (induction ks arbitrary: c) simp_all

lemma advance_master_close_time [simp]: "ev (advance_master n c) = ev c"
  by (induction n arbitrary: c) (simp_all add: Let_def split: option.split)

lemma close_time_ops [simp]:
  "ev (build_udp_packets os flush c) EvClose = ev c EvClose" "ev (tcp_discard c) = ev c"
  "ev (write_packet os k p c) EvClose = ev c EvClose" "ev (drop_confirmations os c) EvClose = ev c EvClose"
  by (simp_all add: build_udp_packets_def tcp_discard_def write_packet_def drop_confirmations_def Let_def split_def)

lemma close_time_ops2 [simp]:
  "ev (tcp_read os c) EvClose = ev c EvClose" "ev (build_confirmations os c) EvClose = ev c EvClose"
  "ev (build_bye_bye os c) EvClose = ev c EvClose" "ev (read_confirmation os p c) EvClose = ev c EvClose"
  "ev (read_bye_bye os c) EvClose = ev c EvClose" "ev (store_received os p c) EvClose = ev c EvClose"
  by (simp_all add: tcp_read_def build_confirmations_def build_bye_bye_def read_confirmation_def read_bye_bye_def
      store_received_def Let_def split_def)

definition closes :: "conn \<Rightarrow> bool" where
  "closes c \<longleftrightarrow> ev_enabled EvClose c = (\<not> tcpConnected c \<and> \<not> udpConnected c)"

lemma closes_frame:
  "ev c' EvClose = ev c EvClose \<Longrightarrow> tcpConnected c' = tcpConnected c \<Longrightarrow> udpConnected c' = udpConnected c \<Longrightarrow>
   closes c' = closes c"
  by (simp add: closes_def ev_enabled_def)

lemma due_now: "clock_ok os \<Longrightarrow> 0 \<le> ev (ev_in os EvClose 0 c) EvClose"
  by (auto simp: ev_in_def ev_at_def answer_now_def clock_ok_def set_time_value_def)

lemma tcp_close_state:
  "tcpConnected (tcp_close os err c) = False"
  "ev (tcp_close os err c) EvClose = (if tcpConnected c \<and> \<not> udpConnected c then
     ev (ev_in os EvClose 0 (ev_off EvTcpWrite (ev_off EvTcpRead (c\<lparr>tcpConnected := False\<rparr>))
             \<lparr>tcpSocket := sock_close False (tcpSocket c)\<rparr>)) EvClose else ev c EvClose)"
  by (simp_all add: tcp_close_def Let_def split_def)

lemma tcp_close_closes:
  assumes "closes c" "clock_ok os"
  shows "closes (tcp_close os err c)"
proof (cases "tcpConnected c")
  case True
  then show ?thesis using assms due_now [OF assms(2)]
    by (cases "udpConnected c") (simp_all add: closes_def ev_enabled_def tcp_close_state)
qed (use assms in \<open>simp add: tcp_close_def\<close>)

lemma udp_close_closes:
  assumes "closes c" "clock_ok os"
  shows "closes (udp_close os c)"
proof (cases "udpConnected c")
  case True
  define c1 where "c1 = ev_off EvUdpWrite (ev_off EvTcpRead (ev_off EvUdpResend (ev_off EvBuildConfirmations
                   (ev_off EvBuildUdpPackets (c\<lparr>udpConnected := False\<rparr>)))))"
  define c2 where "c2 = c1\<lparr>tcpSocket := close_read False (tcpSocket c1), tcpReceivedData := [],
                    udpConfirmationPackets := [], udpSentPackets := []\<rparr>"
  define c3 where "c3 = on_sent_buffer_changed os (- udpSentBufferSize c2) c2"
  have c3: "udpConnected c3 = False" "tcpConnected c3 = tcpConnected c" "ev c3 EvClose = ev c EvClose"
    by (simp_all add: c3_def c2_def c1_def)
  have e: "udp_close os c = (if \<not> tcpConnected c3 then ev_in os EvClose 0 c3
      else if tcpNextSendIndex c3 \<ge> udpReceivedMasterIndex c3 then tcp_close os False c3 else c3)"
    using True by (simp add: udp_close_def Let_def c3_def c2_def c1_def)
  show ?thesis
  proof (cases "tcpConnected c")
    case con: True
    then have "closes c3" using assms(1) True c3 by (simp add: closes_def ev_enabled_def)
    then show ?thesis using tcp_close_closes assms(2) con c3 by (simp add: e)
  next
    case False
    then show ?thesis using due_now [OF assms(2), of c3] c3 by (simp add: e closes_def ev_enabled_def)
  qed
qed (use assms in \<open>simp add: udp_close_def\<close>)

lemma write_packet_closes: "closes (write_packet os k p c) = closes c"
  by (rule closes_frame) simp_all

lemma write_loop_closes_ok: "closes c \<Longrightarrow> clock_ok os \<Longrightarrow> closes (write_loop os n c)"
proof (induction n arbitrary: c)
  case (Suc n)
  have f: "closes (finish_received k p z c) = closes c" for k p z by (rule closes_frame) simp_all
  show ?case using Suc by (simp add: Let_def f write_packet_closes tcp_close_closes split: option.split)
qed simp

lemma write_confirmation_closes:
  assumes "closes c" "clock_ok os"
  shows "closes (write_confirmation os t p c)"
proof -
  obtain n c1 where s: "send_datagram os p c = (n, c1)" by fastforce
  have c1: "c1 = snd (send_datagram os p c)" using s by simp
  define c2 where "c2 = on_sent_buffer_changed os (- get_size p) (c1\<lparr>statUdpSent := statUdpSent c1 + n, udpLastSentUs := t\<rparr>)"
  define c3 where "c3 = c2\<lparr>udpConfirmationPackets := tl (udpConfirmationPackets c2)\<rparr>"
  have "closes c1 = closes c" "closes c3 = closes c" "closes (write_again c1) = closes c" "closes (write_again c3) = closes c"
    by (rule closes_frame; simp add: c3_def c2_def c1)+
  then show ?thesis using assms udp_close_closes [of c3 os]
    unfolding write_confirmation_def s Let_def prod.case c2_def [symmetric] c3_def [symmetric] by auto
qed

lemma write_sent_packet_closes:
  assumes "closes c" "clock_ok os"
  shows "closes (write_sent_packet os t k p c)"
proof -
  obtain n c1 where s: "send_datagram os p c = (n, c1)" by fastforce
  have c1: "c1 = snd (send_datagram os p c)" using s by simp
  define p' where "p' = p\<lparr>p_sent := True, p_sentTimeUs := a_time (answer_now os c1), p_measureIndex := udpSendMeasureIndex c1\<rparr>"
  define c2 where "c2 = (tick c1)\<lparr>statUdpSent := statUdpSent c1 + n,
      udpSentPackets := om_put k p' (udpSentPackets c1), udpLastSentUs := t\<rparr>"
  define c3 where "c3 = on_udp_sent os (udpSendMeasureIndex c2) (udpSendIntervalUs c2) (get_size p') c2"
  define c4 where "c4 = c3\<lparr>udpPacketsToSendCount := udpPacketsToSendCount c3 - 1\<rparr>"
  define c5 where "c5 = on_sent_buffer_changed os (- get_size p') c4"
  define c6 where "c6 = c5\<lparr>udpSentPackets := om_erase k (udpSentPackets c5)\<rparr>"
  define c7 where "c7 = ev_in os EvUdpResend (udpResendUs (par c4)) c4"
  have "closes c1 = closes c" "closes c6 = closes c" "closes c7 = closes c" "closes (write_again c1) = closes c"
    "closes (write_again c6) = closes c" "closes (write_again c7) = closes c"
    by (rule closes_frame; simp add: c7_def c6_def c5_def c4_def c3_def c2_def c1)+
  then show ?thesis using assms udp_close_closes [of c6 os]
    unfolding write_sent_packet_def s Let_def prod.case p'_def [symmetric] c2_def [symmetric] c3_def [symmetric]
      c4_def [symmetric] c5_def [symmetric] c6_def [symmetric] c7_def [symmetric]
    by auto
qed

lemma udp_write_closes: "closes c \<Longrightarrow> clock_ok os \<Longrightarrow> closes (udp_write os t c)"
  by (simp add: udp_write_def write_confirmation_closes write_sent_packet_closes split: list.split option.split)

lemma resend_loop_closes: "closes c \<Longrightarrow> clock_ok os \<Longrightarrow> closes (resend_loop os t ks c)"
proof (induction ks arbitrary: c)
  case (Cons k ks)
  have f: "closes (set_event_udp_write os (on_udp_delivered b i n (c\<lparr>udpPacketsToSendCount := x, udpSentPackets := y\<rparr>))) = closes c"
    "closes (ev_at EvUdpResend u c) = closes c" for b i n x y u by (rule closes_frame; simp)+
  show ?case using Cons by (simp add: Let_def f udp_close_closes split: option.split)
qed simp

lemma udp_resend_closes: "closes c \<Longrightarrow> clock_ok os \<Longrightarrow> closes (udp_resend os c)"
  using closes_frame [of "tick c" c] by (simp add: udp_resend_def resend_loop_closes)

lemma handle_closes:
  assumes "closes c" "clock_ok os"
  shows "closes (handle os e t c)"
proof -
  have f: "closes (tcp_read os c) = closes c" "closes (build_udp_packets os b c) = closes c"
    "closes (build_confirmations os c) = closes c" "closes (build_bye_bye os c) = closes c" "closes (conn_delete c) = closes c" for b
    by (rule closes_frame; simp add: conn_delete_def)+
  show ?thesis using assms
    by (simp add: handle_def f tcp_write_def write_loop_closes_ok tcp_close_closes udp_close_closes udp_write_closes
        udp_resend_closes split: conn_event.split)
qed

lemma udp_read_closes:
  assumes "closes c" "clock_ok os"
  shows "closes (udp_read os p c)"
proof -
  have "closes (udp_dispatch os p c) = closes c"
  proof -
    have f: "closes (ev_in os EvBuildConfirmations t (c'\<lparr>remainConfirmationResendCount := n\<rparr>)) = closes c'"
      "closes (read_confirmation os p c) = closes c" "closes (read_bye_bye os c) = closes c" "closes (read_extra p c) = closes c"
      "closes (c\<lparr>fault := True\<rparr>) = closes c" "closes (store_received os p c) = closes c" for t c' n
      by (rule closes_frame; simp)+
    show ?thesis by (simp add: udp_dispatch_def Let_def f)
  qed
  then show ?thesis using assms by (simp add: udp_read_def Let_def udp_close_closes)
qed

section \<open>Every reachable state\<close>

definition life_inv :: "conn \<Rightarrow> bool" where
  "life_inv c \<longleftrightarrow> one_end c \<and> in_window c \<and> (deleted c \<or> closes c)"

lemma life_inv_new:
  assumes "clock_ok os" "fresh_host h"
  shows "life_inv (conn_new os ps iv h)"
  using assms by (simp add: life_inv_def one_end_new) (simp add: in_window_def closes_def ev_enabled_def conn_new_def Let_def split_def)

lemma life_inv_step:
  assumes inv: "life_inv c" and step: "life_step os c c'"
  shows "life_inv c'"
  using step
proof (cases rule: life_step_cases)
  case (raised e)
  let ?c = "ev_off e c"
  have ok: "recv_ok ?c" using inv one_end_frame(1) [of e c] by (simp add: life_inv_def one_end_def)
  have "in_window ?c" using inv by (simp add: life_inv_def in_window_def)
  then have "in_window c'" using in_window_handle [OF ok] raised(1) by (simp add: raise_conn_event_def)
  moreover have "deleted c' \<or> closes c'"
  proof (cases "e = EvClose")
    case True
    then show ?thesis using raised(1) by (simp add: raise_conn_event_def handle_def conn_delete_def)
  next
    case False
    then have "closes ?c" using inv raised(2) closes_frame [of ?c c] by (simp add: life_inv_def)
    then show ?thesis using handle_closes raised(1,4) by (simp add: raise_conn_event_def)
  qed
  ultimately show ?thesis using one_end_life [OF _ step] inv by (simp add: life_inv_def)
next
  case (polls b)
  then show ?thesis using inv one_end_life [OF _ step]
    by (auto simp: life_inv_def in_window_def closes_def ev_enabled_def)
next
  case (around n s x1 x2 x3 x4 x5)
  then show ?thesis using inv one_end_life [OF _ step]
    by (auto simp: life_inv_def in_window_def closes_def ev_enabled_def)
next
  case (arrives d)
  have "in_window c'" using inv arrives(1) in_window_read fresh_datagram by (simp add: life_inv_def one_end_def)
  moreover have "closes c'" using inv arrives udp_read_closes by (simp add: life_inv_def)
  ultimately show ?thesis using one_end_life [OF _ step] inv by (simp add: life_inv_def)
qed

interpretation life: invariant_system life_start "life_step os" life_inv for os
  by unfold_locales (auto simp: life_start_def life_inv_new life_inv_step)

text \<open>C18: whatever datagrams arrive, a connection's accounts are exact in every reachable state: the size
  of the send buffer is the sum of the payloads queued in \<open>udpSentPackets\<close> and \<open>udpConfirmationPackets\<close>, the number
  of packets to send is the number of unsent ones, and the size of the receive buffer is the sum of the payloads
  in \<open>udpReceivedPackets\<close>; once udp is closed the queues are empty.\<close>

theorem accounts_exact:
  assumes "life_start c0" "(life_step os)\<^sup>*\<^sup>* c0 c"
  shows "udpReceiveBufferSize c = om_sum get_size (udpReceivedPackets c) \<and>
    (if udpConnected c
     then udpSentBufferSize c = om_sum get_size (udpSentPackets c) + sum_list (map get_size (udpConfirmationPackets c)) \<and>
       udpPacketsToSendCount c = om_sum unsent (udpSentPackets c)
     else udpSentPackets c = [] \<and> udpConfirmationPackets c = [] \<and> tcpReceivedData c = [])"
  using life.reachable_inv [OF assms] by (auto simp: life_inv_def one_end_def recv_ok_def send_inv_def)

text \<open>C20: no peer can make a connection store a packet further ahead than the receive window of
  \<open>2 * udpMaxReceiveBufferSize / udpSendPacketSize\<close> packets after the one being written to tcp; the
  packets between that one and the master index are all there.\<close>

theorem receive_window:
  assumes "life_start c0" "(life_step os)\<^sup>*\<^sup>* c0 c"
  shows "set (om_keys (udpReceivedPackets c)) \<subseteq> {0..tcpNextSendIndex c + window (par c)} \<and>
    {tcpNextSendIndex c..<udpReceivedMasterIndex c} \<subseteq> set (om_keys (udpReceivedPackets c)) \<and>
    tcpNextSendIndex c \<le> udpReceivedMasterIndex c \<and> udpReceivedMasterIndex c \<le> udpReceivedFinalIndex c"
proof -
  have inv: "in_window c" "recv_ok c" using life.reachable_inv [OF assms] by (simp_all add: life_inv_def one_end_def)
  have "0 \<le> k" if "om_find (udpReceivedPackets c) k \<noteq> None" for k using inv(2) that by (auto simp: recv_ok_def)
  moreover have "k \<le> tcpNextSendIndex c + window (par c)" if "om_find (udpReceivedPackets c) k \<noteq> None" for k
    using inv(1) that unfolding in_window_def by blast
  moreover have "om_find (udpReceivedPackets c) k \<noteq> None" if "tcpNextSendIndex c \<le> k" "k < udpReceivedMasterIndex c" for k
    using inv(2) that unfolding recv_ok_def by blast
  moreover have "tcpNextSendIndex c \<le> udpReceivedMasterIndex c" "udpReceivedMasterIndex c \<le> udpReceivedFinalIndex c"
    using inv(2) by (simp_all add: recv_ok_def)
  ultimately show ?thesis by (simp add: subset_eq om_keys_find_aux)
qed

text \<open>C19: a connection asks the server to delete it exactly when both its tcp and its udp side are closed: the
  close event is due in no other state, and a connection closed on both sides is never left behind.\<close>

theorem close_event_exact:
  assumes "life_start c0" "(life_step os)\<^sup>*\<^sup>* c0 c" "\<not> deleted c"
  shows "ev_enabled EvClose c = (\<not> tcpConnected c \<and> \<not> udpConnected c)"
  using life.reachable_inv [OF assms(1,2)] assms(3) by (simp add: life_inv_def closes_def)

lemma sample_clock: "clock_ok sample_os"
  by (simp add: clock_ok_def sample_os_def)

lemma sample_life: "life_start end0" "(life_step sample_os)\<^sup>*\<^sup>* end0 peer1"
proof -
  show "life_start end0" using sample_clock fresh_sample unfolding life_start_def end0_def by blast
  show "(life_step sample_os)\<^sup>*\<^sup>* end0 peer1"
    unfolding peer1_def hello_def
    by (intro r_into_rtranclp life_step.arrives sample_clock end0_state) (use hello_reads in \<open>simp add: hello_def\<close>)
qed

theorem accounts_exact_witness: "udpReceiveBufferSize peer1 = om_sum get_size (udpReceivedPackets peer1)"
  using accounts_exact [OF sample_life] by blast

theorem receive_window_witness: "0 \<in> set (om_keys (udpReceivedPackets peer1)) \<or> 0 < tcpNextSendIndex peer1"
  using receive_window [OF sample_life] peer1_state(1) by force

theorem close_event_exact_witness: "\<not> ev_enabled EvClose peer1"
proof -
  have "\<not> deleted peer1" by (simp add: peer1_def udp_read_def udp_dispatch_def Let_def end0_state)
  then show ?thesis using close_event_exact [OF sample_life] peer1_state by blast
qed

section \<open>Resending\<close>

text \<open>A packet whose confirmation is overdue.\<close>

definition overdue :: "usec \<Rightarrow> conn \<Rightarrow> packet \<Rightarrow> bool" where
  "overdue now c p \<longleftrightarrow> p_sent p \<and> p_sentTimeUs p + udpResendUs (par c) \<le> now"

definition rearmed :: "packet \<Rightarrow> packet" where
  "rearmed p = p\<lparr>p_sent := False, p_remainResendCount := p_remainResendCount p - 1\<rparr>"

lemma resend_loop_exact:
  assumes "om_ok (udpSentPackets c)" "udpConnected c" "distinct ks" "\<forall>k\<in>set ks. om_find (udpSentPackets c) k \<noteq> None"
  shows "udpConnected (resend_loop os t ks c) =
      (\<forall>k\<in>set ks. \<forall>p. om_find (udpSentPackets c) k = Some p \<longrightarrow> overdue t c p \<longrightarrow> 0 < p_remainResendCount p) \<and>
    (udpConnected (resend_loop os t ks c) \<longrightarrow>
      (\<forall>k. om_find (udpSentPackets (resend_loop os t ks c)) k =
        map_option (\<lambda>p. if k \<in> set ks \<and> overdue t c p then rearmed p else p) (om_find (udpSentPackets c) k)))"
  using assms
proof (induction ks arbitrary: c)
  case Nil
  then show ?case by (simp add: option.map_ident)
next
  case (Cons k ks)
  obtain p where p: "om_find (udpSentPackets c) k = Some p" using Cons.prems(4) by auto
  define c1 where "c1 = set_event_udp_write os (on_udp_delivered False (p_measureIndex (rearmed p)) (get_size (rearmed p))
      (c\<lparr>udpPacketsToSendCount := udpPacketsToSendCount c + 1, udpSentPackets := om_put k (rearmed p) (udpSentPackets c)\<rparr>))"
  define c2 where "c2 = ev_at EvUdpResend (p_sentTimeUs p + udpResendUs (par c)) c"
  have e: "resend_loop os t (k # ks) c =
      (if overdue t c p then if 0 < p_remainResendCount p then resend_loop os t ks c1 else udp_close os c
       else if p_sent p then resend_loop os t ks c2 else resend_loop os t ks c)"
    by (auto simp: p Let_def c1_def c2_def rearmed_def overdue_def)
  have od: "overdue t c1 = overdue t c" "overdue t c2 = overdue t c"
    by (simp_all add: fun_eq_iff overdue_def c1_def c2_def)
  have q1: "om_find (udpSentPackets c1) i = (if i = k then Some (rearmed p) else om_find (udpSentPackets c) i)" for i
    using Cons.prems(1) by (simp add: c1_def)
  have d: "k \<notin> set ks" "distinct ks" using Cons.prems(3) by simp_all
  have ih1: "udpConnected (resend_loop os t ks c1) =
      (\<forall>i\<in>set ks. \<forall>q. om_find (udpSentPackets c1) i = Some q \<longrightarrow> overdue t c1 q \<longrightarrow> 0 < p_remainResendCount q) \<and>
    (udpConnected (resend_loop os t ks c1) \<longrightarrow>
      (\<forall>i. om_find (udpSentPackets (resend_loop os t ks c1)) i =
        map_option (\<lambda>q. if i \<in> set ks \<and> overdue t c1 q then rearmed q else q) (om_find (udpSentPackets c1) i)))"
    by (rule Cons.IH) (use Cons.prems d q1 in \<open>simp_all add: c1_def\<close>)
  have ih2: "udpConnected (resend_loop os t ks x) =
      (\<forall>i\<in>set ks. \<forall>q. om_find (udpSentPackets c) i = Some q \<longrightarrow> overdue t c q \<longrightarrow> 0 < p_remainResendCount q) \<and>
    (udpConnected (resend_loop os t ks x) \<longrightarrow>
      (\<forall>i. om_find (udpSentPackets (resend_loop os t ks x)) i =
        map_option (\<lambda>q. if i \<in> set ks \<and> overdue t c q then rearmed q else q) (om_find (udpSentPackets c) i)))"
    if "x = c2 \<or> x = c" for x
    using that Cons.IH [of x] Cons.prems d od by (auto simp: c2_def)
  show ?case
  proof (cases "overdue t c p")
    case True
    show ?thesis
    proof (cases "0 < p_remainResendCount p")
      case r: True
      have i: "(\<forall>i\<in>set ks. \<forall>q. om_find (udpSentPackets c1) i = Some q \<longrightarrow> overdue t c1 q \<longrightarrow> 0 < p_remainResendCount q) =
          (\<forall>i\<in>set (k # ks). \<forall>q. om_find (udpSentPackets c) i = Some q \<longrightarrow> overdue t c q \<longrightarrow> 0 < p_remainResendCount q)"
        using d(1) p r by (auto simp: q1 od)
      have ii: "map_option (\<lambda>q. if i \<in> set ks \<and> overdue t c1 q then rearmed q else q) (om_find (udpSentPackets c1) i) =
          map_option (\<lambda>q. if i \<in> set (k # ks) \<and> overdue t c q then rearmed q else q) (om_find (udpSentPackets c) i)" for i
        using d(1) p True by (cases "i = k") (simp_all add: q1 od)
      have ex: "resend_loop os t (k # ks) c = resend_loop os t ks c1" using True r unfolding e by simp
      show ?thesis unfolding ex by (rule ih1 [unfolded i ii])
    next
      case False
      then show ?thesis using True p unfolding e by auto
    qed
  next
    case False
    define x where "x = (if p_sent p then c2 else c)"
    have i: "(\<forall>i\<in>set ks. \<forall>q. om_find (udpSentPackets c) i = Some q \<longrightarrow> overdue t c q \<longrightarrow> 0 < p_remainResendCount q) =
        (\<forall>i\<in>set (k # ks). \<forall>q. om_find (udpSentPackets c) i = Some q \<longrightarrow> overdue t c q \<longrightarrow> 0 < p_remainResendCount q)"
      using p False by auto
    have ii: "map_option (\<lambda>q. if i \<in> set ks \<and> overdue t c q then rearmed q else q) (om_find (udpSentPackets c) i) =
        map_option (\<lambda>q. if i \<in> set (k # ks) \<and> overdue t c q then rearmed q else q) (om_find (udpSentPackets c) i)" for i
      using p False by (cases "i = k") simp_all
    have ex: "resend_loop os t (k # ks) c = resend_loop os t ks x" using False unfolding e x_def by simp
    have "x = c2 \<or> x = c" by (simp add: x_def)
    then show ?thesis unfolding ex by (rule ih2 [unfolded i ii])
  qed
qed

text \<open>C21: resending: when the resend timer fires, the udp side is closed exactly when an overdue packet has no
  resends left; otherwise every overdue packet is queued again with one resend less and no
  other packet changes.\<close>

theorem resend_exact:
  assumes "life_start c0" "(life_step os)\<^sup>*\<^sup>* c0 c" "udpConnected c"
  shows "(udpConnected (udp_resend os c) \<longleftrightarrow>
      (\<forall>(k, p)\<in>set (udpSentPackets c). overdue (a_time (answer_now os c)) c p \<longrightarrow> 0 < p_remainResendCount p)) \<and>
    (udpConnected (udp_resend os c) \<longrightarrow>
      (\<forall>k. om_find (udpSentPackets (udp_resend os c)) k =
        map_option (\<lambda>p. if overdue (a_time (answer_now os c)) c p then rearmed p else p) (om_find (udpSentPackets c) k)))"
proof -
  let ?t = "a_time (answer_now os c)"
  have ok: "om_ok (udpSentPackets c)" using life.reachable_inv [OF assms(1,2)]
    by (simp add: life_inv_def one_end_def send_inv_def)
  have od: "overdue ?t (tick c) = overdue ?t c" by (simp add: fun_eq_iff overdue_def)
  have r: "udp_resend os c = resend_loop os ?t (om_keys (udpSentPackets c)) (tick c)" using assms(3) by (simp add: udp_resend_def)
  have l: "udpConnected (udp_resend os c) =
      (\<forall>k\<in>set (om_keys (udpSentPackets c)). \<forall>p. om_find (udpSentPackets c) k = Some p \<longrightarrow> overdue ?t c p \<longrightarrow> 0 < p_remainResendCount p) \<and>
    (udpConnected (udp_resend os c) \<longrightarrow>
      (\<forall>k. om_find (udpSentPackets (udp_resend os c)) k =
        map_option (\<lambda>p. if k \<in> set (om_keys (udpSentPackets c)) \<and> overdue ?t c p then rearmed p else p) (om_find (udpSentPackets c) k)))"
    using resend_loop_exact [of "tick c" "om_keys (udpSentPackets c)" os ?t] ok assms(3) om.keys_distinct [OF ok]
    unfolding r od by (simp add: om_keys_find_aux)
  have "(\<forall>k\<in>set (om_keys (udpSentPackets c)). \<forall>p. om_find (udpSentPackets c) k = Some p \<longrightarrow> Q p) = (\<forall>(k, p)\<in>set (udpSentPackets c). Q p)" for Q
    by (auto simp: om_find_in_set [OF ok]) (metis om_keys_find_aux option.distinct(1))
  moreover have "map_option (\<lambda>p. if k \<in> set (om_keys (udpSentPackets c)) \<and> Q p then rearmed p else p) (om_find (udpSentPackets c) k) =
      map_option (\<lambda>p. if Q p then rearmed p else p) (om_find (udpSentPackets c) k)" for k Q
    by (cases "om_find (udpSentPackets c) k") (simp_all add: om_keys_find_aux)
  ultimately show ?thesis using l by simp
qed

theorem resend_exact_witness: "udpConnected (udp_resend sample_os end0)"
proof -
  have "\<forall>(k, p)\<in>set (udpSentPackets end0). overdue (a_time (answer_now sample_os end0)) end0 p \<longrightarrow> 0 < p_remainResendCount p"
    by (simp add: end0_state overdue_def encode_flags new_packet_def)
  then show ?thesis using resend_exact [OF sample_life(1) rtranclp.rtrancl_refl end0_state(1)] by blast
qed

end
