(* ===== verification/Rate.thy ===== *)
theory Rate
  imports Conn_State
begin

text \<open>
  The rate controller, \<open>onUdpDelivered\<close>: every double it computes is finite and in range for sane measures
  (\<open>fits\<close>), so the interval it chooses is too; and the two ways in which it leads to undefined behaviour.
\<close>

section \<open>Finite ranges\<close>

definition fits :: "int \<Rightarrow> double \<Rightarrow> bool" where
  "fits k x \<longleftrightarrow> (\<exists>y. x = Fin y \<and> 0 \<le> y \<and> y \<le> 2 powi k)"

lemma round64_fits:
  assumes "0 \<le> x" "x \<le> 2 powi k" "-1022 \<le> k" "k \<le> 1023"
  shows "fits k (round64 x)"
proof (cases "x = 0")
  case True
  then show ?thesis by (simp add: fits_def round64_def)
next
  case False
  then have "0 < x" using assms(1) by simp
  from round_pos_bounded [OF this assms(2-4)] show ?thesis using \<open>0 < x\<close> by (auto simp: fits_def round64_def)
qed

lemma round64_ge:
  assumes "2 powi k \<le> x" "-1022 \<le> k" "round64 x = Fin y"
  shows "2 powi k \<le> y"
proof -
  have x: "0 < x" using assms(1) pow2_pos [of k] by linarith
  have "2 powi k < (2 :: rat) powi (ilog2 x + 1)" using ilog2_bounds(2) [OF x] assms(1) by simp
  then have k: "k \<le> ilog2 x" by (simp only: pow2_less_iff)
  define e where "e = max (ilog2 x) (-1022)"
  have e: "e = ilog2 x" using k assms(2) by (simp add: e_def)
  define u where "u = (2 :: rat) powi (e - 52)"
  have u: "0 < u" by (simp add: u_def)
  have "(2 :: rat) powi e = of_int (2 ^ 52) * u" by (simp add: u_def power_int_diff)
  then have "of_int (2 ^ 52) * u \<le> x" using ilog2_bounds(1) [OF x] by (simp add: e)
  then have "of_int (2 ^ 52) \<le> x / u" using u by (simp only: pos_le_divide_eq)
  then have m: "2 ^ 52 \<le> round_even (x / u)" by (rule round_even_ge)
  have "Fin y = Fin (of_int (round_even (x / u)) * u)"
    using assms(3) x by (simp add: round64_def round_pos_def Let_def e_def [symmetric] u_def [symmetric] split: if_splits)
  moreover have "of_int (2 ^ 52) * u \<le> of_int (round_even (x / u)) * u"
    using m u by (intro mult_right_mono) (simp_all only: of_int_le_iff less_imp_le)
  moreover have "(2 :: rat) powi k \<le> 2 powi e" using k by (intro power_int_increasing) (simp_all add: e)
  ultimately show ?thesis using \<open>2 powi e = of_int (2 ^ 52) * u\<close> by simp
qed

lemma of_int_fits: "0 \<le> n \<Longrightarrow> n < 2 ^ 53 \<Longrightarrow> d_of_int n = Fin (of_int n)"
  by (rule d_of_int_exact) simp

section \<open>The new interval\<close>

definition loss_ok :: "double \<Rightarrow> bool" where
  "loss_ok maxLoss \<longleftrightarrow> (case d_sub (Fin 1) (d_mul (round64 (1 / 100)) maxLoss) of Fin q \<Rightarrow> 1 / 1024 \<le> q | _ \<Rightarrow> False)"

definition tenth :: rat where
  "tenth = 3602879701896397 / 36028797018963968"

lemma round_tenth: "round64 (1 / 10) = Fin tenth"
  by code_simp

text \<open>The numbers of a measure whose packets were really sent.\<close>

definition measure_sane :: "measure \<Rightarrow> bool" where
  "measure_sane m \<longleftrightarrow> 0 < m_count m \<and> m_count m < 2 ^ 31 \<and> 0 \<le> m_summaryIntervalUs m \<and> m_summaryIntervalUs m < 2 ^ 53 \<and>
     0 \<le> m_successSize m \<and> m_successSize m < 2 ^ 31 \<and> m_size m < 2 ^ 31 \<and> (0 < m_failSize m \<longrightarrow> 0 < m_size m)"

lemma clamp_half_two:
  "\<exists>z. (let s3 = (if d_less (Fin y) (Fin (1 / 2)) then Fin (1 / 2) else Fin y) in if d_less (Fin 2) s3 then Fin 2 else s3) = Fin z
    \<and> 1 / 2 \<le> z \<and> z \<le> 2"
  by (rule exI [of _ "if y < 1 / 2 then 1 / 2 else if 2 < y then 2 else y"]) (auto simp: Let_def)

lemma ratio_fits:
  assumes "0 \<le> a" "a < 2 ^ 53" "0 < b" "b < 2 ^ 53"
  shows "fits 53 (d_div (d_of_int a) (d_of_int b))"
proof -
  have "of_int a / of_int b \<le> (of_int a :: rat) / 1"
    using assms by (intro divide_left_mono) simp_all
  also have "\<dots> \<le> 2 powi 53" using assms(2) by (simp add: power_int_def flip: of_int_le_iff)
  finally show ?thesis using assms by (simp add: of_int_fits round64_fits)
qed

text \<open>Half to double the present interval, and then the constant speed added: all in finite ranges.\<close>

lemma speed_fits:
  assumes iv: "fits 53 iv" and z: "1 / 2 \<le> z" "z \<le> 2" and M: "1 \<le> M" "M < 2 ^ 53"
  shows "fits 54 (d_div (d_div iv (Fin z)) (d_add (Fin 1) (d_mul (d_div (Fin 1) (Fin (of_int M))) (d_div iv (Fin z)))))"
proof -
  obtain y where y: "iv = Fin y" "0 \<le> y" "y \<le> 2 powi 53" using iv by (auto simp: fits_def)
  have "y / z \<le> y / (1 / 2)" using y z by (intro divide_left_mono) simp_all
  also have "\<dots> \<le> 2 powi 54" using y(3) by (simp add: power_int_def)
  finally have "fits 54 (d_div iv (Fin z))" using y z by (simp add: round64_fits)
  then obtain a where a: "d_div iv (Fin z) = Fin a" "0 \<le> a" "a \<le> 2 powi 54" by (auto simp: fits_def)
  have "(1 :: rat) \<le> of_int M" using M(1) by simp
  then have "1 / of_int M \<le> (1 :: rat)" by (simp add: divide_le_eq_1)
  then have "fits 0 (d_div (Fin 1) (Fin (of_int M)))" using M by (simp add: round64_fits)
  then obtain s where s: "d_div (Fin 1) (Fin (of_int M)) = Fin s" "0 \<le> s" "s \<le> 1" by (auto simp: fits_def)
  have "s * a \<le> 1 * a" using s a by (intro mult_right_mono) simp_all
  then have "fits 54 (d_mul (Fin s) (Fin a))" using s a by (simp add: round64_fits)
  then obtain p where p: "d_mul (Fin s) (Fin a) = Fin p" "0 \<le> p" "p \<le> 2 powi 54" by (auto simp: fits_def)
  have p55: "1 + p \<le> 2 powi 55" using p(3) by (simp add: power_int_def)
  then have "fits 55 (d_add (Fin 1) (Fin p))" using p by (simp add: round64_fits)
  then obtain q where q: "d_add (Fin 1) (Fin p) = Fin q" by (auto simp: fits_def)
  have "1 \<le> q" using round64_ge [of 0 "1 + p" q] p(2) q by simp
  then have "a / q \<le> a / 1" using a by (intro divide_left_mono) simp_all
  then have "fits 54 (d_div (Fin a) (Fin q))" using a \<open>1 \<le> q\<close> by (simp add: round64_fits)
  then show ?thesis by (simp only: a(1) s(1) p(1) q)
qed

lemma success_share:
  assumes m: "measure_sane m" "0 < m_failSize m" and ml: "loss_ok ml"
  shows "\<exists>y. d_div (d_div (d_of_int (m_successSize m)) (d_of_int (m_size m))) (d_sub (Fin 1) (d_mul (round64 (1 / 100)) ml)) = Fin y"
proof -
  obtain q where q: "d_sub (Fin 1) (d_mul (round64 (1 / 100)) ml) = Fin q" "1 / 1024 \<le> q"
    using ml by (auto simp: loss_ok_def split: double.splits)
  have "fits 53 (d_div (d_of_int (m_successSize m)) (d_of_int (m_size m)))"
    using m by (intro ratio_fits) (auto simp: measure_sane_def)
  then obtain a where a: "d_div (d_of_int (m_successSize m)) (d_of_int (m_size m)) = Fin a" "0 \<le> a" "a \<le> 2 powi 53"
    by (auto simp: fits_def)
  have "a / q \<le> a / (1 / 1024)" using a q by (intro divide_left_mono) simp_all
  also have "\<dots> \<le> 2 powi 63" using a(3) by (simp add: power_int_def)
  finally have "fits 63 (d_div (Fin a) (Fin q))" using a q by (simp add: round64_fits)
  then show ?thesis by (auto simp: fits_def a(1) q(1))
qed

text \<open>C22: the interval between datagrams that a complete measure asks for is a number between a tenth of a
  microsecond and a third of the resend time, so that its rounding to an integer is defined and in
  the same range - for sane measures and a loss parameter that leaves a share of at least 1/1024.\<close>

theorem rate_bounds:
  assumes "loss_ok maxLoss" "measure_sane m" "3 \<le> resendUs" "resendUs < 2 ^ 53"
  shows "\<exists>f n. measured_interval maxLoss resendUs m = Fin f \<and> tenth \<le> f \<and> f \<le> of_int (resendUs div 3) \<and>
    d_to_ll (d_round (Fin f)) = Some n \<and> 0 \<le> n \<and> n \<le> resendUs div 3"
proof -
  define M where "M = resendUs div 3"
  have M: "1 \<le> M" "M < 2 ^ 53" using assms(3,4) by (auto simp: M_def)
  have max: "d_of_int (cdiv resendUs 3) = Fin (of_int M)" using assms(3) M by (simp add: M_def of_int_fits)
  define iv where "iv = d_div (d_of_int (m_summaryIntervalUs m)) (d_of_int (m_count m))"
  have iv: "fits 53 iv" unfolding iv_def using assms(2) by (intro ratio_fits) (auto simp: measure_sane_def)
  define s0 where "s0 = d_div (d_div (d_of_int (m_successSize m)) (d_of_int (m_size m))) (d_sub (Fin 1) (d_mul (round64 (1 / 100)) maxLoss))"
  define s1 where "s1 = (if m_failSize m \<le> 0 then Fin 2 else s0)"
  define s2 where "s2 = (if d_less (Fin 1) s1 \<and> d_less (d_mul (d_add iv (Fin 1)) (Fin 2))
      (d_div (d_of_int (m_endUs m - m_beginUs m)) (d_of_int (m_count m))) then Fin 1 else s1)"
  have "\<exists>y. s1 = Fin y" using success_share [OF assms(2) _ assms(1)] by (auto simp: s1_def s0_def)
  then obtain y0 where "s1 = Fin y0" by blast
  then have "s2 = Fin 1 \<or> s2 = Fin y0" by (simp add: s2_def)
  then obtain y where y: "s2 = Fin y" by blast
  obtain z where z: "(let s3 = (if d_less s2 (Fin (1 / 2)) then Fin (1 / 2) else s2) in if d_less (Fin 2) s3 then Fin 2 else s3) = Fin z"
      "1 / 2 \<le> z" "z \<le> 2" using clamp_half_two [of y] unfolding y by blast
  obtain i1 where i1: "d_div (d_div iv (Fin z)) (d_add (Fin 1) (d_mul (d_div (Fin 1) (Fin (of_int M))) (d_div iv (Fin z)))) = Fin i1"
    using speed_fits [OF iv z(2,3) M] by (auto simp: fits_def)
  define i2 where "i2 = (if i1 < tenth then tenth else i1)"
  have mi: "measured_interval maxLoss resendUs m =
      (if d_less (Fin (of_int M)) (if d_less (Fin i1) (Fin tenth) then Fin tenth else Fin i1) then Fin (of_int M)
       else if d_less (Fin i1) (Fin tenth) then Fin tenth else Fin i1)"
    unfolding measured_interval_def Let_def iv_def [symmetric] s0_def [symmetric] s1_def [symmetric] s2_def [symmetric]
      max z(1) [unfolded Let_def] i1 round_tenth by (rule refl)
  define f where "f = min (of_int M) i2"
  have M1: "(1 :: rat) \<le> of_int M" using M(1) by simp
  have f: "measured_interval maxLoss resendUs m = Fin f" by (auto simp: mi f_def i2_def)
  have b: "tenth \<le> f" "f \<le> of_int M" using M1 by (auto simp: f_def i2_def tenth_def)
  have "0 \<le> \<lfloor>f + 1 / 2\<rfloor>" "\<lfloor>f + 1 / 2\<rfloor> \<le> M"
    using b by (simp_all add: tenth_def le_floor_iff floor_le_iff)
  moreover have "d_round (Fin f) = Fin (of_int \<lfloor>f + 1 / 2\<rfloor>)" using b(1) by (simp add: tenth_def)
  moreover have "M < 2 ^ 63" using M(2) by simp
  ultimately show ?thesis using f b by (auto simp: M_def [symmetric])
qed

definition sample_measure :: measure where
  "sample_measure = \<lparr>m_beginUs = 0, m_endUs = 1000, m_count = 10, m_size = 10240, m_successSize = 9216, m_failSize = 1024,
     m_summaryIntervalUs = 10000\<rparr>"

theorem rate_bounds_witness: "\<exists>f. measured_interval (Fin 30) 1000000 sample_measure = Fin f \<and> tenth \<le> f \<and> f \<le> 333333"
proof -
  have "loss_ok (Fin 30)" by code_simp
  moreover have "measure_sane sample_measure" by (simp add: measure_sane_def sample_measure_def)
  ultimately show ?thesis using rate_bounds [of "Fin 30" sample_measure 1000000] by auto
qed

section \<open>Two ways to a division by zero\<close>

definition fast_measure :: measure where
  "fast_measure = \<lparr>m_beginUs = 0, m_endUs = 100, m_count = 100, m_size = 65536, m_successSize = 64512, m_failSize = 0,
     m_summaryIntervalUs = 100\<rparr>"

definition fast_conn :: conn where
  "fast_conn = sample_conn\<lparr>udpSendIntervalUs := 1, udpSendMeasures := [(0, fast_measure)]\<rparr>"

text \<open>A connection with the default parameters that sends one datagram per microsecond without loss
  halves the interval to a value that rounds to zero, and the next change of its send
  buffer divides by it.\<close>

theorem interval_vanishes:
  "udpSendIntervalUs (on_udp_delivered True 0 1024 fast_conn) = 0 \<and>
   fault (on_sent_buffer_changed os d (on_udp_delivered True 0 1024 fast_conn))"
proof -
  have r: "d_to_ll (d_round (measured_interval (Fin 30) 1000000 (fast_measure\<lparr>m_successSize := 65536\<rparr>))) = Some 0" by code_simp
  have "m_successSize fast_measure + 1024 = 65536" "m_failSize fast_measure = 0" "measure_complete (fast_measure\<lparr>m_successSize := 65536\<rparr>)"
    by (simp_all add: fast_measure_def measure_complete_def)
  then have z: "udpSendIntervalUs (on_udp_delivered True 0 1024 fast_conn) = 0"
    using r by (simp add: on_udp_delivered_def fast_conn_def sample_conn_def sample_params_def Let_def)
  then show ?thesis by (simp add: on_sent_buffer_changed_def Let_def tick_def)
qed

definition lost_conn :: conn where
  "lost_conn = sample_conn\<lparr>par := sample_params\<lparr>udpMaxSendLossPercent := Fin 100\<rparr>,
     udpSendMeasures := [(0, sample_measure\<lparr>m_successSize := 0, m_failSize := 9216\<rparr>)]\<rparr>"

text \<open>With the loss parameter at 100 percent, a measure whose packets were all lost asks for the interval
  0/0, and its conversion to an integer is undefined.\<close>

theorem full_loss_faults: "fault (on_udp_delivered False 0 1024 lost_conn)"
proof -
  have r: "d_to_ll (d_round (measured_interval (Fin 100) 1000000 (sample_measure\<lparr>m_successSize := 0, m_failSize := 10240\<rparr>))) = None"
    by code_simp
  have "measure_complete (sample_measure\<lparr>m_successSize := 0, m_failSize := 10240\<rparr>)"
    by (simp add: sample_measure_def measure_complete_def)
  then show ?thesis using r
    by (simp add: on_udp_delivered_def lost_conn_def sample_conn_def sample_params_def Let_def)
qed

end
