(* ===== verification/Addresses.thy ===== *)
theory Addresses
  imports Prelude
begin

text \<open>
  \<^verbatim>\<open>Address\<close> (\<^verbatim>\<open>address.cpp\<close>, \<^verbatim>\<open>address.linux.cpp\<close>): the bytes of a \<^verbatim>\<open>sockaddr_in\<close>, the order that
  makes it the key of a map, and the conversions from and to text, on a little-endian machine. What the
  resolver answers is a parameter; of the C library \<open>atoi\<close>, \<open>sscanf\<close> with \<^verbatim>\<open>%d\<close>, \<open>inet_ntoa\<close> and
  the decimal \<^verbatim>\<open>%d\<close> of \<open>printf\<close> are modelled, with unbounded numbers (a number the C type \<open>int\<close> cannot hold is
  undefined there).
\<close>

section \<open>The order\<close>

datatype address = Address (a_data: bytes)

text \<open>\<open>memcmp\<close> on blocks of equal length compares unsigned bytes.\<close>

fun mem_less :: "bytes \<Rightarrow> bytes \<Rightarrow> bool" where
  "mem_less (x # xs) (y # ys) = (x < y \<or> x = y \<and> mem_less xs ys)"
| "mem_less xs ys = False"

definition address_less :: "address \<Rightarrow> address \<Rightarrow> bool" where
  "address_less a b \<longleftrightarrow>
     (if length (a_data a) < length (a_data b) then True
      else if length (a_data b) < length (a_data a) then False
      else if a_data a = [] then False
      else mem_less (a_data a) (a_data b))"

definition address_eq :: "address \<Rightarrow> address \<Rightarrow> bool" where
  "address_eq a b \<longleftrightarrow> length (a_data a) = length (a_data b) \<and> (a_data a = [] \<or> a_data a = a_data b)"

lemma mem_less_irrefl: "\<not> mem_less xs xs"
  by (induction xs) auto

lemma mem_less_trans: "mem_less xs ys \<Longrightarrow> mem_less ys zs \<Longrightarrow> mem_less xs zs"
proof (induction xs ys arbitrary: zs rule: mem_less.induct)
  case (1 x xs y ys)
  then show ?case by (cases zs) auto
qed simp_all

lemma mem_less_total: "length xs = length ys \<Longrightarrow> xs \<noteq> ys \<Longrightarrow> mem_less xs ys \<or> mem_less ys xs"
  by (induction xs ys rule: list_induct2) auto

lemma address_less_irrefl: "\<not> address_less a a"
  by (simp add: address_less_def mem_less_irrefl)

lemma address_less_trans: "address_less a b \<Longrightarrow> address_less b c \<Longrightarrow> address_less a c"
  using mem_less_trans by (auto simp: address_less_def split: if_splits)

lemma address_less_total: "a \<noteq> b \<Longrightarrow> address_less a b \<or> address_less b a"
  using mem_less_total [of "a_data a" "a_data b"]
  by (cases a; cases b) (auto simp: address_less_def not_less le_less)

instantiation address :: linorder
begin

definition less_address :: "address \<Rightarrow> address \<Rightarrow> bool" where
  "less_address a b = address_less a b"

definition less_eq_address :: "address \<Rightarrow> address \<Rightarrow> bool" where
  "less_eq_address a b = (address_less a b \<or> a = b)"

instance
proof
  fix a b c :: address
  show "a < b \<longleftrightarrow> a \<le> b \<and> \<not> b \<le> a"
    using address_less_trans [of a b a] address_less_irrefl [of a] by (auto simp: less_address_def less_eq_address_def)
  show "a \<le> a" by (simp add: less_eq_address_def)
  show "a \<le> b \<Longrightarrow> b \<le> c \<Longrightarrow> a \<le> c" using address_less_trans by (auto simp: less_eq_address_def)
  show "a \<le> b \<Longrightarrow> b \<le> a \<Longrightarrow> a = b"
    using address_less_trans [of a b a] address_less_irrefl [of a] by (auto simp: less_eq_address_def)
  show "a \<le> b \<or> b \<le> a" using address_less_total [of a b] by (auto simp: less_eq_address_def)
qed

end

text \<open>The comparison of addresses is a strict total order whose equivalence is the code's equality, as a map
  keyed by addresses requires.\<close>

theorem address_order:
  "\<not> address_less a a \<and> (address_less a b \<and> address_less b c \<longrightarrow> address_less a c) \<and>
   (\<not> address_less a b \<and> \<not> address_less b a) = address_eq a b"
proof -
  have "address_eq a b = (a = b)" by (cases a; cases b) (auto simp: address_eq_def)
  then show ?thesis using address_less_irrefl address_less_trans [of a b c] address_less_total [of a b] by auto
qed

theorem address_order_witness: "address_less (Address [1, 200]) (Address [2, 1])"
proof -
  have "address_less (Address [1, 200]) (Address [1, 201])" "address_less (Address [1, 201]) (Address [2, 1])"
    by (simp_all add: address_less_def word_less_nat_alt)
  then show ?thesis using address_order [of "Address [1, 200]" "Address [1, 201]" "Address [2, 1]"] by blast
qed

section \<open>Numbers in text\<close>

definition digit :: "char \<Rightarrow> nat option" where
  "digit c = (let n = of_char c in if 48 \<le> n \<and> n \<le> 57 then Some (n - 48) else None)"

definition blank :: "char \<Rightarrow> bool" where
  "blank c \<longleftrightarrow> of_char c \<in> {9, 10, 11, 12, 13, 32 :: nat}"

fun read_digits :: "nat \<Rightarrow> string \<Rightarrow> nat \<times> string" where
  "read_digits n [] = (n, [])"
| "read_digits n (c # cs) = (case digit c of None \<Rightarrow> (n, c # cs) | Some d \<Rightarrow> read_digits (10 * n + d) cs)"

text \<open>What \<open>strtol\<close> in base 10 and the conversion \<^verbatim>\<open>%d\<close> read: blanks, a sign, digits; \<open>None\<close> when there
  is no digit.\<close>

definition read_int :: "string \<Rightarrow> (int \<times> string) option" where
  "read_int cs =
     (let cs1 = dropWhile blank cs;
          neg = (cs1 \<noteq> [] \<and> hd cs1 = CHR ''-'');
          cs2 = (if cs1 \<noteq> [] \<and> (hd cs1 = CHR ''-'' \<or> hd cs1 = CHR ''+'') then tl cs1 else cs1)
      in if cs2 = [] \<or> digit (hd cs2) = None then None
         else case read_digits 0 cs2 of (n, rest) \<Rightarrow> Some (if neg then - int n else int n, rest))"

definition atoi :: "string \<Rightarrow> int" where
  "atoi cs = (case read_int cs of None \<Rightarrow> 0 | Some (n, rest) \<Rightarrow> n)"

text \<open>\<^verbatim>\<open>sscanf(cs, "%d.%d.%d.%d", ...)\<close>: the numbers read before the first mismatch.\<close>

fun scan_dotted :: "nat \<Rightarrow> string \<Rightarrow> int list" where
  "scan_dotted 0 cs = []"
| "scan_dotted (Suc k) cs =
     (case read_int cs of
        None \<Rightarrow> []
      | Some (n, rest) \<Rightarrow>
          n # (if k > 0 \<and> rest \<noteq> [] \<and> hd rest = CHR ''.'' then scan_dotted k (tl rest) else []))"

fun print_nat :: "nat \<Rightarrow> string" where
  "print_nat n = (if n < 10 then [char_of (48 + n)] else print_nat (n div 10) @ [char_of (48 + n mod 10)])"

declare print_nat.simps [simp del]

lemma digit_char: "d < 10 \<Longrightarrow> digit (char_of (48 + d)) = Some d"
  by (simp add: digit_def Let_def of_char_of)

lemma read_digits_print: "\<exists>k. \<forall>m rest. read_digits m (print_nat n @ rest) = read_digits (m * 10 ^ k + n) rest"
proof (induction n rule: print_nat.induct)
  case (1 n)
  show ?case
  proof (cases "n < 10")
    case True
    have "read_digits m (print_nat n @ rest) = read_digits (m * 10 ^ 1 + n) rest" for m rest
      using True by (simp add: print_nat.simps [of n] digit_char mult.commute)
    then show ?thesis by blast
  next
    case False
    obtain k where k: "\<And>m rest. read_digits m (print_nat (n div 10) @ rest) = read_digits (m * 10 ^ k + n div 10) rest"
      using 1 [OF False] by blast
    have "read_digits m (print_nat n @ rest) = read_digits (m * 10 ^ Suc k + n) rest" for m rest
    proof -
      have "read_digits m (print_nat n @ rest) = read_digits (m * 10 ^ k + n div 10) (char_of (48 + n mod 10) # rest)"
        using False k [of m "char_of (48 + n mod 10) # rest"] by (simp add: print_nat.simps [of n])
      also have "\<dots> = read_digits (10 * (m * 10 ^ k + n div 10) + n mod 10) rest" by (simp add: digit_char)
      also have "10 * (m * 10 ^ k + n div 10) + n mod 10 = m * 10 ^ Suc k + n" by (simp add: algebra_simps)
      finally show ?thesis .
    qed
    then show ?thesis by blast
  qed
qed

lemma print_nat_first: "\<exists>(d :: nat) cs. print_nat n = char_of (48 + d) # cs \<and> d < 10"
proof (induction n rule: print_nat.induct)
  case (1 n)
  show ?case
  proof (cases "n < 10")
    case False
    obtain d cs where "print_nat (n div 10) = char_of (48 + (d :: nat)) # cs" "d < 10" using 1 [OF False] by blast
    then have "print_nat n = char_of (48 + d) # (cs @ [char_of (48 + n mod 10)])" using False by (simp add: print_nat.simps [of n])
    then show ?thesis using \<open>d < 10\<close> by blast
  next
    case True
    then have "print_nat n = char_of (48 + n) # []" by (simp add: print_nat.simps [of n])
    then show ?thesis using True by blast
  qed
qed

text \<open>A text that does not continue the number.\<close>

definition stops :: "string \<Rightarrow> bool" where
  "stops cs \<longleftrightarrow> cs = [] \<or> digit (hd cs) = None"

lemma read_int_print:
  assumes "stops rest"
  shows "read_int (print_nat n @ rest) = Some (int n, rest)"
proof -
  obtain d :: nat and cs where d: "print_nat n = char_of (48 + d) # cs" "d < 10" using print_nat_first by blast
  let ?c = "char_of (48 + d) :: char"
  have o: "of_char ?c = 48 + d" using d(2) by (simp add: of_char_of)
  have nb: "\<not> blank ?c" using d(2) by (simp add: blank_def o)
  have s: "?c \<noteq> CHR ''-''" "?c \<noteq> CHR ''+''"
  proof -
    show "?c \<noteq> CHR ''-''" proof assume "?c = CHR ''-''" with o show False by simp qed
    show "?c \<noteq> CHR ''+''" proof assume "?c = CHR ''+''" with o show False by simp qed
  qed
  obtain k where k: "\<And>m rest. read_digits m (print_nat n @ rest) = read_digits (m * 10 ^ k + n) rest"
    using read_digits_print by blast
  have "read_digits n rest = (n, rest)" using assms by (cases rest) (simp_all add: stops_def)
  then have "read_digits 0 (print_nat n @ rest) = (n, rest)" by (simp add: k)
  moreover have "dropWhile blank (print_nat n @ rest) = print_nat n @ rest" using nb by (simp add: d(1))
  ultimately show ?thesis using s digit_char [OF d(2)] by (simp add: read_int_def Let_def d(1))
qed

section \<open>Parsing and printing\<close>

text \<open>The layout of \<^verbatim>\<open>sockaddr_in\<close>: the family, the port in network order, the ip address and eight
  bytes of padding.\<close>

definition sockaddr :: "nat \<Rightarrow> bytes \<Rightarrow> bytes" where
  "sockaddr port ip =
     [2, 0, of_nat (port div 256 mod 256), of_nat (port mod 256)] @ ip @ [0, 0, 0, 0, 0, 0, 0, 0]"

definition split_address :: "string \<Rightarrow> string \<times> string" where
  "split_address cs =
     (if CHR '':'' \<in> set cs
      then (takeWhile (\<lambda>c. c \<noteq> CHR '':'') cs, tl (dropWhile (\<lambda>c. c \<noteq> CHR '':'') cs))
      else (''0.0.0.0'', cs))"

definition is_ip :: "string \<Rightarrow> bool" where
  "is_ip host \<longleftrightarrow> (\<forall>c\<in>set host. c = CHR ''.'' \<or> digit c \<noteq> None)"

definition ip_of_numbers :: "int list \<Rightarrow> bytes" where
  "ip_of_numbers ns = map word_of_int (take 4 (ns @ [0, 0, 0, 0]))"

text \<open>\<open>fromString\<close>; \<open>resolve\<close> is \<open>gethostbyname\<close>: the first address of the host, if there is one.\<close>

definition from_string :: "(string \<Rightarrow> bytes option) \<Rightarrow> string \<Rightarrow> address" where
  "from_string resolve cs =
     (case split_address cs of (host, port) \<Rightarrow>
        let p = nat (atoi port mod 65536);
            ip = (case (if is_ip host then None else resolve host) of
                    Some ip \<Rightarrow> ip | None \<Rightarrow> ip_of_numbers (scan_dotted 4 host))
        in Address (sockaddr p ip))"

definition resize_bytes :: "nat \<Rightarrow> bytes \<Rightarrow> bytes" where
  "resize_bytes n bs = take n bs @ replicate (n - length bs) 0"

definition to_string :: "address \<Rightarrow> string" where
  "to_string a =
     (let d = resize_bytes 16 (a_data a); b = (\<lambda>i. unat (d ! i))
      in print_nat (b 4) @ ''.'' @ print_nat (b 5) @ ''.'' @ print_nat (b 6) @ ''.'' @ print_nat (b 7)
           @ '':'' @ print_nat (256 * b 2 + b 3))"

lemma sockaddr_nth:
  assumes "length ip = 4"
  shows "resize_bytes 16 (sockaddr p ip) = sockaddr p ip" "drop 4 (take 8 (sockaddr p ip)) = ip"
    "sockaddr p ip ! 2 = of_nat (p div 256 mod 256)" "sockaddr p ip ! 3 = of_nat (p mod 256)"
    "i < 4 \<Longrightarrow> sockaddr p ip ! (4 + i) = ip ! i"
  using assms by (simp_all add: sockaddr_def resize_bytes_def nth_append)

lemma print_nat_digits: "c \<in> set (print_nat n) \<Longrightarrow> digit c \<noteq> None"
proof (induction n rule: print_nat.induct)
  case (1 n)
  show ?case
  proof (cases "n < 10")
    case True
    then show ?thesis using 1(2) by (simp add: print_nat.simps [of n] digit_char)
  next
    case False
    then show ?thesis using 1 by (auto simp: print_nat.simps [of n] digit_char)
  qed
qed

definition dotted :: "nat list \<Rightarrow> string" where
  "dotted ns = print_nat (ns ! 0) @ ''.'' @ print_nat (ns ! 1) @ ''.'' @ print_nat (ns ! 2) @ ''.'' @ print_nat (ns ! 3)"

lemma stops_dot: "stops (CHR ''.'' # cs)" "stops []"
  by (simp_all add: stops_def digit_def Let_def)

lemma scan_dotted_print: "scan_dotted 4 (dotted ns) = [int (ns ! 0), int (ns ! 1), int (ns ! 2), int (ns ! 3)]"
  using read_int_print [of "[]" "ns ! 3"] stops_dot
  by (simp add: numeral_eq_Suc dotted_def read_int_print)

lemma dotted_chars: "is_ip (dotted ns)" "CHR '':'' \<notin> set (dotted ns)"
proof -
  show "is_ip (dotted ns)" using print_nat_digits by (auto simp: is_ip_def dotted_def)
  have "digit CHR '':'' = None" by (simp add: digit_def Let_def)
  then show "CHR '':'' \<notin> set (dotted ns)" using print_nat_digits by (fastforce simp: dotted_def)
qed

text \<open>Reading back what was printed.\<close>

lemma read_printed:
  assumes "length ip = 4" "port < 65536"
  shows "from_string resolve (to_string (Address (sockaddr port ip))) = Address (sockaddr port ip)"
proof -
  define ns where "ns = map unat ip"
  have n: "length ns = 4" "\<And>i. i < 4 \<Longrightarrow> ns ! i = unat (ip ! i)" using assms(1) by (simp_all add: ns_def)
  have b: "unat (sockaddr port ip ! (4 + i)) = ns ! i" if "i < 4" for i using that n sockaddr_nth(5) [OF assms(1) that] by simp
  have p: "256 * unat (sockaddr port ip ! 2) + unat (sockaddr port ip ! 3) = port"
    using assms(2) by (simp add: sockaddr_nth(3,4) [OF assms(1)] unat_of_nat)
  have ts: "to_string (Address (sockaddr port ip)) = dotted ns @ '':'' @ print_nat port"
    using b [of 0] b [of 1] b [of 2] b [of 3] p
    by (simp add: to_string_def Let_def sockaddr_nth(1) [OF assms(1)] dotted_def)
  have sp: "split_address (dotted ns @ '':'' @ print_nat port) = (dotted ns, print_nat port)"
  proof -
    have d: "\<And>c. c \<in> set (dotted ns) \<Longrightarrow> c \<noteq> CHR '':''" using dotted_chars(2) [of ns] by blast
    show ?thesis by (simp add: split_address_def takeWhile_append2 [OF d] dropWhile_append2 [OF d])
  qed
  have at: "atoi (print_nat port) = int port" using read_int_print [of "[]" port] stops_dot(2) by (simp add: atoi_def)
  have ip: "ip_of_numbers (scan_dotted 4 (dotted ns)) = ip"
  proof -
    obtain x y z w where "ip = [x, y, z, w]" using assms(1) by (auto simp: numeral_eq_Suc length_Suc_conv)
    then show ?thesis by (simp add: scan_dotted_print ip_of_numbers_def ns_def)
  qed
  show ?thesis unfolding ts from_string_def sp using assms(2) by (simp add: dotted_chars at ip)
qed

text \<open>C39: printing an address and reading it back gives the address, for every port and every ip
  address, whatever the resolver would answer.\<close>

theorem address_roundtrip:
  assumes "length ip = 4" "port < 65536"
  shows "from_string resolve (to_string (Address (sockaddr port ip))) = Address (sockaddr port ip)"
  using read_printed [OF assms] .

theorem address_roundtrip_witness:
  "from_string (\<lambda>host. None) (to_string (Address (sockaddr 1234 [127, 0, 0, 1]))) = Address (sockaddr 1234 [127, 0, 0, 1])"
  by (rule address_roundtrip) simp_all

end
