(* ===== verification/Server.thy ===== *)
theory Server
  imports Addresses Conn_Life
begin

text \<open>
  \<^verbatim>\<open>src/server.cpp\<close>: the server with its settings, its listeners and its connections, and every handler that changes
  them. Objects on the heap are known by their addresses, natural numbers; a \<open>std::set\<close> of pointers is an ordered map
  from them, and the \<open>connections\<close> of a listener is an ordered map from addresses to them. What a handler allocates
  (\<open>fresh_objects\<close>) and what the system calls return are arguments. Names and log output are left out.
\<close>

section \<open>State\<close>

text \<open>The settings of \<^verbatim>\<open>Server\<close>; those a connection is given are in \<open>conn_par\<close>.\<close>

record config =
  logging :: bool                       \<comment> \<open>\<open>log.streams\<close> is set\<close>
  test :: bool
  testTcpRemoteAddress :: address
  testUdpRemoteAddress :: address
  tcpBacklog :: int
  tcpReceiveAddressSize :: int
  udpReceivePacketSize :: int
  udpReceiveAddressSize :: int
  conn_par :: params
  udpInitialSendIntervalUs :: usec

record tcp_listener =
  tl_sock :: sock
  tl_tcpAddress :: address
  tl_udpAddress :: address
  tl_evRead :: usec
  tl_evClose :: usec

record udp_listener =
  ul_sock :: sock
  ul_udpAddress :: address
  ul_tcpAddress :: address
  ul_evRead :: usec
  ul_evClose :: usec
  ul_lastTcpSocketIndex :: int
  ul_receiveAddress :: address
  ul_receivePacketSize :: int
  ul_connections :: "(address, nat) omap"

text \<open>A connection with what it refers to: its listener and the address of its peer.\<close>

record sconn =
  sc_conn :: conn
  sc_listener :: nat
  sc_address :: address

text \<open>Objects are known by their addresses in memory, natural numbers; a set of pointers is a map from them.\<close>

record server = config +
  sv_tick :: nat
  lastObjectIndex :: int
  tcpListeners :: "(nat, tcp_listener) omap"
  udpListeners :: "(nat, udp_listener) omap"
  testListeners :: "(nat, address) omap"
  connections :: "(nat, sconn) omap"
  udpSummaryConnectionsSendIntervalUs :: int
  sv_tcpSent :: int
  sv_tcpReceived :: int
  sv_udpSent :: int
  sv_udpReceived :: int
  sv_udpReceivedExtra :: int

definition no_address :: address where
  "no_address = Address []"

definition server_new :: server where
  "server_new = \<lparr>logging = True, test = False, testTcpRemoteAddress = no_address, testUdpRemoteAddress = no_address,
     tcpBacklog = 1024, tcpReceiveAddressSize = 1024, udpReceivePacketSize = 1048576, udpReceiveAddressSize = 1024,
     conn_par = \<lparr>udpSendPacketSize = 1024, udpMaxSentBufferSize = 8388608, udpMaxReceiveBufferSize = 8388608,
       udpMaxSentMeasureSize = 65536, udpResendCount = 20, confirmationResendCount = 5,
       udpMaxSendLossPercent = Fin 30, udpResendUs = 1000000, buildConfirmationsUs = 100000,
       buildUdpPacketsUs = 100000, udpMaxSentMeasureUs = 1000000\<rparr>,
     udpInitialSendIntervalUs = 1000, sv_tick = 0, lastObjectIndex = 0, tcpListeners = [], udpListeners = [],
     testListeners = [], connections = [], udpSummaryConnectionsSendIntervalUs = 0, sv_tcpSent = 0,
     sv_tcpReceived = 0, sv_udpSent = 0, sv_udpReceived = 0, sv_udpReceivedExtra = 0\<rparr>"

definition server_time :: "os \<Rightarrow> server \<Rightarrow> usec" where
  "server_time os s = a_time (os (sv_tick s))"

definition server_tick :: "server \<Rightarrow> server" where
  "server_tick s = s\<lparr>sv_tick := sv_tick s + 1\<rparr>"

section \<open>The server and its connections\<close>

text \<open>A method of a connection runs on the state it shares with the server and with its listener.\<close>

definition load_conn :: "server \<Rightarrow> sconn \<Rightarrow> conn" where
  "load_conn s sc =
     (sc_conn sc)\<lparr>h_tick := sv_tick s,
        udpSocket := (case om_find (udpListeners s) (sc_listener sc) of None \<Rightarrow> udpSocket (sc_conn sc) | Some l \<Rightarrow> ul_sock l),
        statTcpSent := sv_tcpSent s, statTcpReceived := sv_tcpReceived s, statUdpSent := sv_udpSent s,
        statUdpReceivedExtra := sv_udpReceivedExtra s, udpSummaryInterval := udpSummaryConnectionsSendIntervalUs s\<rparr>"

definition store_shared :: "nat \<Rightarrow> conn \<Rightarrow> server \<Rightarrow> server" where
  "store_shared lp c s =
     s\<lparr>sv_tick := h_tick c,
       udpListeners := (case om_find (udpListeners s) lp of None \<Rightarrow> udpListeners s
          | Some l \<Rightarrow> om_put lp (l\<lparr>ul_sock := udpSocket c\<rparr>) (udpListeners s)),
       sv_tcpSent := statTcpSent c, sv_tcpReceived := statTcpReceived c, sv_udpSent := statUdpSent c,
       sv_udpReceivedExtra := statUdpReceivedExtra c, udpSummaryConnectionsSendIntervalUs := udpSummaryInterval c\<rparr>"

definition with_conn :: "nat \<Rightarrow> (conn \<Rightarrow> conn) \<Rightarrow> server \<Rightarrow> server" where
  "with_conn k f s =
     (case om_find (connections s) k of
        None \<Rightarrow> s
      | Some sc \<Rightarrow>
          let c = f (load_conn s sc)
          in (store_shared (sc_listener sc) c s)\<lparr>connections := om_put k (sc\<lparr>sc_conn := c\<rparr>) (connections s)\<rparr>)"

section \<open>The speed of a new connection\<close>

definition summary_speed :: "sconn list \<Rightarrow> double \<times> int" where
  "summary_speed cs =
     fold (\<lambda>sc (sp, n). if \<not> isNoMoreDataWillBeSent (sc_conn sc)
                         then (d_add sp (d_div (Fin 1) (d_of_int (max 10 (udpSendIntervalUs (sc_conn sc))))), n + 1)
                         else (sp, n)) cs (Fin 0, 0)"

definition getUdpInitialIntervalUs :: "server \<Rightarrow> usec option" where
  "getUdpInitialIntervalUs s =
     (if connections s = [] then Some (udpInitialSendIntervalUs s)
      else case summary_speed (map snd (connections s)) of (sp, n) \<Rightarrow>
        if n \<le> 0 then Some (udpInitialSendIntervalUs s)
        else
          let sp1 = d_max sp (d_div (Fin (1 / 4)) (d_of_int (udpInitialSendIntervalUs s)))
          in case d_to_ll (d_ceil (d_div (d_of_int (n + 1)) sp1)) of
               None \<Rightarrow> None
             | Some t \<Rightarrow>
                 let t1 = (if t > cdiv (udpResendUs (conn_par s)) 3 then cdiv (udpResendUs (conn_par s)) 3 else t)
                 in Some (if t1 < cdiv (udpInitialSendIntervalUs s) 2 then cdiv (udpInitialSendIntervalUs s) 2 else t1))"

text \<open>The speed is a double, undefined (\<open>None\<close>) with the interval.\<close>

definition getUdpInitialSpeed :: "server \<Rightarrow> double option" where
  "getUdpInitialSpeed s =
     map_option (\<lambda>t. d_div (d_mul (Fin 1000000) (d_of_int (udpSendPacketSize (conn_par s)))) (d_of_int t))
       (getUdpInitialIntervalUs s)"

section \<open>Creating and closing\<close>

text \<open>The constructors of the listeners set both events, which are disabled until then, to the time of the clock.\<close>

definition tcp_listener_new :: "os \<Rightarrow> sock \<Rightarrow> address \<Rightarrow> address \<Rightarrow> server \<Rightarrow> tcp_listener \<times> server" where
  "tcp_listener_new os sk tcp udp s =
     (let t1 = server_time os s; s1 = server_tick s; t2 = server_time os s1
      in (\<lparr>tl_sock = sk, tl_tcpAddress = tcp, tl_udpAddress = udp, tl_evRead = t1, tl_evClose = t2\<rparr>, server_tick s1))"

definition udp_listener_new :: "os \<Rightarrow> sock \<Rightarrow> address \<Rightarrow> address \<Rightarrow> int \<Rightarrow> server \<Rightarrow> udp_listener \<times> server" where
  "udp_listener_new os sk udp tcp receivePacketSize s =
     (let t1 = server_time os s; s1 = server_tick s; t2 = server_time os s1
      in (\<lparr>ul_sock = sk, ul_udpAddress = udp, ul_tcpAddress = tcp, ul_evRead = t1, ul_evClose = t2, ul_lastTcpSocketIndex = 0,
           ul_receiveAddress = no_address, ul_receivePacketSize = receivePacketSize, ul_connections = []\<rparr>, server_tick s1))"

declare tcp_listener_new_def [simp] udp_listener_new_def [simp]

definition createTcpListener :: "os \<Rightarrow> nat \<Rightarrow> sock \<Rightarrow> address \<Rightarrow> address \<Rightarrow> server \<Rightarrow> server" where
  "createTcpListener os ptr sk tcp udp s =
     (case tcp_listener_new os sk tcp udp s of (l, s1) \<Rightarrow>
       s1\<lparr>lastObjectIndex := lastObjectIndex s1 + 1, tcpListeners := om_put ptr l (tcpListeners s1)\<rparr>)"

definition createUdpListener :: "os \<Rightarrow> nat \<Rightarrow> sock \<Rightarrow> address \<Rightarrow> address \<Rightarrow> server \<Rightarrow> server" where
  "createUdpListener os ptr sk udp tcp s =
     (case udp_listener_new os sk udp tcp (udpReceivePacketSize s) s of (l, s1) \<Rightarrow>
       s1\<lparr>lastObjectIndex := lastObjectIndex s1 + 1, udpListeners := om_put ptr l (udpListeners s1)\<rparr>)"

definition createTestListener :: "nat \<Rightarrow> address \<Rightarrow> server \<Rightarrow> server" where
  "createTestListener ptr tcp s = s\<lparr>lastObjectIndex := lastObjectIndex s + 1, testListeners := om_put ptr tcp (testListeners s)\<rparr>"

definition connectionByAddress :: "address \<Rightarrow> udp_listener \<Rightarrow> nat option" where
  "connectionByAddress a l = om_find (ul_connections l) a"

text \<open>\<open>createConnection\<close>. An interval whose computation is undefined is the oracle's \<open>a_junk\<close>.\<close>

definition createConnection :: "os \<Rightarrow> nat \<Rightarrow> sock \<Rightarrow> nat \<Rightarrow> udp_listener \<Rightarrow> address \<Rightarrow> server \<Rightarrow> nat option \<times> server" where
  "createConnection os ptr client lp l a s0 =
     (let s = s0\<lparr>lastObjectIndex := lastObjectIndex s0 + 1\<rparr>
      in case connectionByAddress a l of
           Some k \<Rightarrow> (None, s)
         | None \<Rightarrow>
             let iv = (case getUdpInitialIntervalUs s of Some t \<Rightarrow> t | None \<Rightarrow> a_junk (os (sv_tick s)));
                 h = \<lparr>h_tick = sv_tick s, tcpSocket = client, udpSocket = ul_sock l, statTcpSent = sv_tcpSent s,
                      statTcpReceived = sv_tcpReceived s, statUdpSent = sv_udpSent s, statUdpReceivedExtra = sv_udpReceivedExtra s,
                      udpSummaryInterval = udpSummaryConnectionsSendIntervalUs s, log_tcpIn = [], log_tcpOut = [], log_udpOut = []\<rparr>;
                 c = conn_new os (conn_par s) iv h;
                 s1 = store_shared lp c s
             in (Some ptr,
                 s1\<lparr>connections := om_put ptr \<lparr>sc_conn = c, sc_listener = lp, sc_address = a\<rparr> (connections s1),
                    udpListeners := om_put lp (l\<lparr>ul_connections := om_put a ptr (ul_connections l)\<rparr>) (udpListeners s1)\<rparr>))"

text \<open>\<open>ptr\<close> and \<open>sk\<close> are the memory and the socket of the listener that replaces a failed one.\<close>

definition onTcpListenerClosed :: "os \<Rightarrow> nat \<Rightarrow> sock \<Rightarrow> nat \<Rightarrow> bool \<Rightarrow> server \<Rightarrow> server" where
  "onTcpListenerClosed os ptr sk k err s =
     (case om_find (tcpListeners s) k of
        None \<Rightarrow> s
      | Some l \<Rightarrow>
          let s1 = s\<lparr>tcpListeners := om_erase k (tcpListeners s)\<rparr>
          in if err \<and> tl_udpAddress l \<noteq> no_address then createTcpListener os ptr sk (tl_tcpAddress l) (tl_udpAddress l) s1 else s1)"

definition onUdpListenerClosed :: "os \<Rightarrow> nat \<Rightarrow> sock \<Rightarrow> nat \<Rightarrow> bool \<Rightarrow> server \<Rightarrow> server" where
  "onUdpListenerClosed os ptr sk k err s =
     (case om_find (udpListeners s) k of
        None \<Rightarrow> s
      | Some l \<Rightarrow>
          let s1 = s\<lparr>udpListeners := om_erase k (udpListeners s)\<rparr>
          in if err \<and> ul_tcpAddress l \<noteq> no_address then createUdpListener os ptr sk (ul_udpAddress l) (ul_tcpAddress l) s1 else s1)"

definition onConnectionClosed :: "os \<Rightarrow> nat \<Rightarrow> server \<Rightarrow> server" where
  "onConnectionClosed os k s =
     (case om_find (connections s) k of
        None \<Rightarrow> s
      | Some sc \<Rightarrow>
          let lp = sc_listener sc
          in case om_find (udpListeners s) lp of
               None \<Rightarrow> s
             | Some l \<Rightarrow>
                 let l1 = (if om_find (ul_connections l) (sc_address sc) = Some k
                           then l\<lparr>ul_connections := om_erase (sc_address sc) (ul_connections l)\<rparr> else l);
                     s1 = s\<lparr>udpListeners := om_put lp l1 (udpListeners s), connections := om_erase k (connections s)\<rparr>;
                     s2 = store_shared lp (conn_delete (load_conn s1 sc)) s1
                 in if ul_tcpAddress l1 = no_address then onUdpListenerClosed os 0 (ul_sock l1) lp False s2 else s2)"

section \<open>Handlers of the listeners\<close>

text \<open>The objects a handler may allocate: a listener with its socket, a connection and its client socket.\<close>

record fresh_objects =
  f_listener :: nat
  f_listenerSock :: sock
  f_conn :: nat
  f_clientSock :: sock

definition tcpListenerRead :: "os \<Rightarrow> fresh_objects \<Rightarrow> accepted \<Rightarrow> nat \<Rightarrow> server \<Rightarrow> server" where
  "tcpListenerRead os f acc k s =
     (case om_find (tcpListeners s) k of
        None \<Rightarrow> s
      | Some l \<Rightarrow>
          case sock_accept acc (tl_sock l) of (client, sk) \<Rightarrow>
            let s1 = (server_tick s)\<lparr>tcpListeners := om_put k (l\<lparr>tl_sock := sk,
                        tl_evRead := set_time_value (tl_evRead l) (server_time os s) False\<rparr>) (tcpListeners s)\<rparr>
            in case client of
                 None \<Rightarrow> s1
               | Some c \<Rightarrow>
                   let s2 = createUdpListener os (f_listener f) (f_listenerSock f) no_address no_address s1
                   in case om_find (udpListeners s2) (f_listener f) of
                        None \<Rightarrow> s2
                      | Some ul \<Rightarrow> snd (createConnection os (f_conn f) c (f_listener f) ul (tl_udpAddress l) s2))"

definition tcpListenerClose :: "os \<Rightarrow> fresh_objects \<Rightarrow> nat \<Rightarrow> server \<Rightarrow> server" where
  "tcpListenerClose os f k s =
     (case om_find (tcpListeners s) k of
        None \<Rightarrow> s
      | Some l \<Rightarrow> onTcpListenerClosed os (f_listener f) (f_listenerSock f) k (s_error (tl_sock l)) s)"

definition opens_connection :: "packet \<Rightarrow> bool" where
  "opens_connection p \<longleftrightarrow> get_type p \<in> {Hello, Bye, Data, Disconnect}"

text \<open>The datagram as \<open>receivePacket\<close> holds it: the buffer, cut or extended with zeros to the length \<open>recvfrom\<close>
  returned.\<close>

definition received_packet :: "bytes \<Rightarrow> int \<Rightarrow> packet" where
  "received_packet bs n = set_raw_size n (new_packet\<lparr>p_data := bs\<rparr>)"

definition udpListenerRead ::
    "os \<Rightarrow> fresh_objects \<Rightarrow> (bytes \<times> address) option \<Rightarrow> errno \<Rightarrow> nat \<Rightarrow> server \<Rightarrow> server" where
  "udpListenerRead os f r e k s =
     (case om_find (udpListeners s) k of
        None \<Rightarrow> s
      | Some l0 \<Rightarrow>
          case sock_readfrom r e (ul_receivePacketSize l0) (ul_sock l0) of (n, bs, from, sk) \<Rightarrow>
            let a = (if s_closeRead (ul_sock l0) then ul_receiveAddress l0
                     else case from of None \<Rightarrow> no_address | Some a \<Rightarrow> a);
                l = l0\<lparr>ul_sock := sk, ul_receiveAddress := a,
                       ul_evRead := set_time_value (ul_evRead l0) (server_time os s) False\<rparr>;
                s1 = (server_tick s)\<lparr>udpListeners := om_put k l (udpListeners s)\<rparr>
            in if a = no_address then s1
               else
                 let s2 = s1\<lparr>sv_udpReceived := sv_udpReceived s1 + n\<rparr>;
                     p = received_packet bs n
                 in if \<not> check_crc32 p then s2
                    else
                      let c = connectionByAddress a l
                      in case (if ul_tcpAddress l \<noteq> no_address \<and> c = None \<and> opens_connection p
                               then
                                 let l1 = l\<lparr>ul_lastTcpSocketIndex := ul_lastTcpSocketIndex l + 1\<rparr>;
                                     s3 = s2\<lparr>udpListeners := om_put k l1 (udpListeners s2)\<rparr>
                                 in createConnection os (f_conn f) (sock_connect (f_clientSock f)) k l1 a s3
                               else (c, s2)) of
                           (None, s4) \<Rightarrow> s4
                         | (Some i, s4) \<Rightarrow> with_conn i (udp_read os p) s4)"

definition udpListenerClose :: "os \<Rightarrow> fresh_objects \<Rightarrow> nat \<Rightarrow> server \<Rightarrow> server" where
  "udpListenerClose os f k s =
     (case om_find (udpListeners s) k of
        None \<Rightarrow> s
      | Some l \<Rightarrow>
          if ul_connections l = [] then onUdpListenerClosed os (f_listener f) (f_listenerSock f) k (s_error (ul_sock l)) s
          else s)"

text \<open>\<open>Event::raise\<close> on the two events of a listener: the event is switched off before its handler runs.\<close>

datatype listener_event = ListenerRead | ListenerClose

definition tcpListenerEvent :: "os \<Rightarrow> fresh_objects \<Rightarrow> accepted \<Rightarrow> listener_event \<Rightarrow> nat \<Rightarrow> server \<Rightarrow> server" where
  "tcpListenerEvent os f acc e k s =
     (case om_find (tcpListeners s) k of
        None \<Rightarrow> s
      | Some l \<Rightarrow>
          (case e of
             ListenerRead \<Rightarrow> tcpListenerRead os f acc k
               (s\<lparr>tcpListeners := om_put k (l\<lparr>tl_evRead := set_time_value (tl_evRead l) (-1) True\<rparr>) (tcpListeners s)\<rparr>)
           | ListenerClose \<Rightarrow> tcpListenerClose os f k
               (s\<lparr>tcpListeners := om_put k (l\<lparr>tl_evClose := set_time_value (tl_evClose l) (-1) True\<rparr>) (tcpListeners s)\<rparr>)))"

definition udpListenerEvent ::
    "os \<Rightarrow> fresh_objects \<Rightarrow> (bytes \<times> address) option \<Rightarrow> errno \<Rightarrow> listener_event \<Rightarrow> nat \<Rightarrow> server \<Rightarrow> server" where
  "udpListenerEvent os f r err e k s =
     (case om_find (udpListeners s) k of
        None \<Rightarrow> s
      | Some l \<Rightarrow>
          (case e of
             ListenerRead \<Rightarrow> udpListenerRead os f r err k
               (s\<lparr>udpListeners := om_put k (l\<lparr>ul_evRead := set_time_value (ul_evRead l) (-1) True\<rparr>) (udpListeners s)\<rparr>)
           | ListenerClose \<Rightarrow> udpListenerClose os f k
               (s\<lparr>udpListeners := om_put k (l\<lparr>ul_evClose := set_time_value (ul_evClose l) (-1) True\<rparr>) (udpListeners s)\<rparr>)))"

text \<open>An event of a connection: the close event is the server's own.\<close>

definition connectionEvent :: "os \<Rightarrow> conn_event \<Rightarrow> nat \<Rightarrow> server \<Rightarrow> server" where
  "connectionEvent os e k s =
     (if e = EvClose then onConnectionClosed os k (with_conn k (ev_off EvClose) s)
      else with_conn k (raise_conn_event os e) s)"

section \<open>The whole server\<close>

text \<open>The loops of \<open>Server::~Server\<close>; every turn removes an object, so their numbers are fuel enough.\<close>

fun close_connections :: "os \<Rightarrow> nat \<Rightarrow> server \<Rightarrow> server" where
  "close_connections os 0 s = s"
| "close_connections os (Suc n) s =
     (case connections s of [] \<Rightarrow> s | (k, c) # m \<Rightarrow> close_connections os n (onConnectionClosed os k s))"

fun close_tcp_listeners :: "os \<Rightarrow> nat \<Rightarrow> server \<Rightarrow> server" where
  "close_tcp_listeners os 0 s = s"
| "close_tcp_listeners os (Suc n) s =
     (case tcpListeners s of [] \<Rightarrow> s
      | (k, l) # m \<Rightarrow> close_tcp_listeners os n (onTcpListenerClosed os 0 (tl_sock l) k False s))"

fun close_udp_listeners :: "os \<Rightarrow> nat \<Rightarrow> server \<Rightarrow> server" where
  "close_udp_listeners os 0 s = s"
| "close_udp_listeners os (Suc n) s =
     (case udpListeners s of [] \<Rightarrow> s
      | (k, l) # m \<Rightarrow> close_udp_listeners os n (onUdpListenerClosed os 0 (ul_sock l) k False s))"

definition server_destroy :: "os \<Rightarrow> server \<Rightarrow> server" where
  "server_destroy os s =
     (let s1 = close_connections os (length (connections s)) s;
          s2 = close_tcp_listeners os (length (tcpListeners s1)) s1;
          s3 = close_udp_listeners os (length (udpListeners s2)) s2
      in s3\<lparr>testListeners := []\<rparr>)"

text \<open>\<open>begin\<close>: the tests, which are not modelled, run once.\<close>

definition server_begin :: "server \<Rightarrow> server" where
  "server_begin s = (if test s then s\<lparr>test := False\<rparr> else s)"

text \<open>\<open>step\<close>: how long the poll may sleep after the events have been done, and whether to go on.\<close>

definition poll_duration :: "usec \<Rightarrow> usec \<Rightarrow> usec \<Rightarrow> usec \<Rightarrow> usec" where
  "poll_duration beginUs stepUs eventUs pollBeginUs =
     (let nextUs = (if eventUs < 0 \<or> eventUs > beginUs + stepUs then beginUs + stepUs else eventUs)
      in max 0 (nextUs - pollBeginUs))"

definition server_alive :: "server \<Rightarrow> bool" where
  "server_alive s \<longleftrightarrow> tcpListeners s \<noteq> [] \<or> udpListeners s \<noteq> [] \<or> testListeners s \<noteq> [] \<or> connections s \<noteq> []"

text \<open>\<open>stepWhile\<close> over a sequence of outcomes of \<open>step\<close> with the clock read before each; it stops at the time given.\<close>

fun step_while :: "usec \<Rightarrow> bool \<Rightarrow> bool \<Rightarrow> (usec \<times> bool) list \<Rightarrow> (bool \<times> nat) option" where
  "step_while endUs force success outs =
     (if \<not> (force \<or> success) then Some (success, 0)
      else case outs of
             [] \<Rightarrow> None
           | (now, ok) # rest \<Rightarrow>
               (let stepUs = max 0 (endUs - now); success1 = (success \<and> ok)
                in if stepUs \<le> 0 then Some (success1, 1)
                   else map_option (\<lambda>(r, n). (r, n + 1)) (step_while endUs force success1 rest)))"

declare step_while.simps [simp del]

end
