(* ===== verification/Server_Speed.thy ===== *)
theory Server_Speed
  imports Server Rate
begin

text \<open>
  The send interval a new connection starts with, \<open>getUdpInitialIntervalUs\<close>: the doubles of its computation stay in
  range for any number of connections, so its result is defined and bounded.
\<close>

section \<open>Rounding below an integer\<close>

lemma round64_le_int:
  assumes "0 \<le> x" "x \<le> of_int n" "n < 2 ^ 53"
  shows "\<exists>y. round64 x = Fin y \<and> 0 \<le> y \<and> y \<le> of_int n"
proof (cases "x = 0")
  case True
  then show ?thesis using assms by (simp add: round64_def)
next
  case False
  then have pos: "0 < x" using assms(1) by simp
  define e where "e = max (ilog2 x) (-1022)"
  define u where "u = (2 :: rat) powi (e - 52)"
  define m where "m = round_even (x / u)"
  have "of_int n < (of_int (2 ^ 53) :: rat)" using assms(3) by (simp only: of_int_less_iff)
  then have "x < 2 powi 53" using assms(2) by (simp add: pow2_int)
  then have "ilog2 x < 53" using ilog2_less [OF pos] by blast
  then have e: "e \<le> 52" by (simp add: e_def)
  define q where "q = (2 :: int) ^ nat (52 - e)"
  have u: "0 < u" "u * of_int q = 1"
    using e by (simp_all add: u_def q_def power_int_def power_mult_distrib [symmetric])
  have "x / u \<le> of_int (n * q)"
  proof -
    have "x / u \<le> of_int n / u" using assms(2) u(1) by (simp add: divide_right_mono)
    also have "of_int n / u = of_int n * of_int q" using u by (simp add: field_simps)
    finally show ?thesis by simp
  qed
  then have m: "m \<le> n * q" unfolding m_def by (rule round_even_le)
  have "of_int m * u \<le> of_int (n * q) * u" using m u(1) by (intro mult_right_mono) (simp_all only: of_int_le_iff less_imp_le)
  also have "of_int (n * q) * u = of_int n" using u(2) by (simp add: mult.assoc mult.commute)
  finally have le: "of_int m * u \<le> of_int n" .
  have "0 \<le> m" unfolding m_def by (rule round_even_ge) (use pos u(1) in simp)
  then have "0 \<le> of_int m * u" using u(1) by simp
  moreover have "round64 x = Fin (of_int m * u)"
    using pos e by (simp add: round64_def round_pos_def Let_def e_def [symmetric] u_def [symmetric] m_def [symmetric])
  ultimately show ?thesis using le by blast
qed

section \<open>The interval of a new connection\<close>

lemma speed_term:
  assumes "m < 2 ^ 53"
  shows "\<exists>y. d_div (Fin 1) (d_of_int (max 10 m)) = Fin y \<and> 0 \<le> y \<and> y \<le> 1"
proof -
  have "(10 :: int) < 2 ^ 53" by simp
  then have "d_of_int (max 10 m) = Fin (of_int (max 10 m))" using assms by (intro of_int_fits) simp_all
  then show ?thesis using round64_le_int [of "1 / of_int (max 10 m)" 1] by (simp add: max_def)
qed

lemma summary_speed_bounds:
  assumes "\<forall>sc\<in>set cs. udpSendIntervalUs (sc_conn sc) < 2 ^ 53" "int (length cs) < 2 ^ 52"
  shows "\<exists>y n. summary_speed cs = (Fin y, n) \<and> 0 \<le> y \<and> y \<le> of_int n \<and> 0 \<le> n \<and> n \<le> int (length cs)"
proof -
  define step where "step = (\<lambda>(sc :: sconn) (sp, n :: int). if \<not> isNoMoreDataWillBeSent (sc_conn sc)
                         then (d_add sp (d_div (Fin 1) (d_of_int (max 10 (udpSendIntervalUs (sc_conn sc))))), n + 1)
                         else (sp, n))"
  have "\<exists>y' n'. fold step xs (Fin y, n) = (Fin y', n') \<and> 0 \<le> y' \<and> y' \<le> of_int n' \<and> n \<le> n' \<and> n' \<le> n + int (length xs)"
    if "\<forall>sc\<in>set xs. udpSendIntervalUs (sc_conn sc) < 2 ^ 53" "0 \<le> y" "y \<le> of_int n" "n + int (length xs) < 2 ^ 53" for xs y n
    using that
  proof (induction xs arbitrary: y n)
    case (Cons sc xs)
    show ?case
    proof (cases "isNoMoreDataWillBeSent (sc_conn sc)")
      case True
      have "\<exists>y' n'. fold step xs (Fin y, n) = (Fin y', n') \<and> 0 \<le> y' \<and> y' \<le> of_int n' \<and> n \<le> n' \<and> n' \<le> n + int (length xs)"
        by (rule Cons.IH) (use Cons.prems in auto)
      then show ?thesis using True by (fastforce simp: step_def)
    next
      case False
      obtain t where t: "d_div (Fin 1) (d_of_int (max 10 (udpSendIntervalUs (sc_conn sc)))) = Fin t" "0 \<le> t" "t \<le> 1"
        using speed_term Cons.prems(1) by fastforce
      have "y + t \<le> of_int (n + 1)" using Cons.prems(3) t(3) by simp
      then obtain z where z: "d_add (Fin y) (Fin t) = Fin z" "0 \<le> z" "z \<le> of_int (n + 1)"
        using round64_le_int [of "y + t" "n + 1"] Cons.prems(2,4) t(2) by auto
      have "\<exists>y' n'. fold step xs (Fin z, n + 1) = (Fin y', n') \<and> 0 \<le> y' \<and> y' \<le> of_int n' \<and> n + 1 \<le> n' \<and> n' \<le> n + 1 + int (length xs)"
        by (rule Cons.IH) (use Cons.prems z in auto)
      then obtain y' n' where f: "fold step xs (Fin z, n + 1) = (Fin y', n')" "0 \<le> y'" "y' \<le> of_int n'" "n + 1 \<le> n'" "n' \<le> n + 1 + int (length xs)"
        by blast
      have "fold step (sc # xs) (Fin y, n) = (Fin y', n')" using False f(1) z(1) by (simp add: step_def t(1))
      then show ?thesis using f(2-5) by auto
    qed
  qed simp
  from this [of cs 0 0] have "\<exists>y n. fold step cs (Fin 0, 0) = (Fin y, n) \<and> 0 \<le> y \<and> y \<le> of_int n \<and> 0 \<le> n \<and> n \<le> 0 + int (length cs)"
    using assms by simp
  then show ?thesis by (simp add: summary_speed_def step_def)
qed

text \<open>The speed that is the least for a new connection, and the interval computed from the summary of the speeds.\<close>

lemma least_speed:
  assumes "1 \<le> iv" "iv \<le> 2 ^ 31"
  shows "\<exists>q. d_div (Fin (1 / 4)) (d_of_int iv) = Fin q \<and> q \<le> 1 \<and> 2 powi (-33) \<le> q"
proof -
  have iv: "d_of_int iv = Fin (of_int iv)" by (rule of_int_fits) (use assms in simp_all)
  have "(1 / 4) / of_int iv \<le> (of_int 1 :: rat)" using assms(1) by (simp add: field_simps)
  then obtain q where q: "round64 ((1 / 4) / of_int iv) = Fin q" "q \<le> 1"
    using round64_le_int [of "(1 / 4) / of_int iv" 1] assms(1) by auto
  have "of_int iv \<le> (of_int (2 ^ 31) :: rat)" using assms(2) by (simp only: of_int_le_iff)
  then have "(2 :: rat) powi (-33) \<le> (1 / 4) / of_int iv" using assms(1) by (simp add: power_int_minus field_simps)
  then have "2 powi (-33) \<le> q" using round64_ge q(1) by fastforce
  then show ?thesis using q assms(1) by (simp add: iv)
qed

lemma interval_of_speed:
  assumes n: "0 < n" "n + 1 \<le> 2 ^ 29" and sp: "2 powi (-33) \<le> sp" "sp \<le> of_int n"
  shows "\<exists>j\<ge>1. d_to_ll (d_ceil (d_div (d_of_int (n + 1)) (Fin sp))) = Some j"
proof -
  have pos: "0 < sp" using sp(1) pow2_pos [of "-33"] by (rule order_less_le_trans [rotated])
  have nof: "d_of_int (n + 1) = Fin (of_int (n + 1))" by (rule of_int_fits) (use n in simp_all)
  have n29: "of_int (n + 1) \<le> (of_int (2 ^ 29) :: rat)" using n(2) by (simp only: of_int_le_iff)
  have "of_int (n + 1) / sp \<le> of_int (2 ^ 29) / 2 powi (-33)"
    by (rule frac_le [OF _ n29 pow2_pos sp(1)]) simp
  also have "\<dots> = 2 powi 62" by (simp add: power_int_minus)
  finally have "fits 62 (round64 (of_int (n + 1) / sp))"
    by (intro round64_fits) (use n pos in simp_all)
  then obtain z where z: "round64 (of_int (n + 1) / sp) = Fin z" "z \<le> 2 powi 62" by (auto simp: fits_def)
  have "2 powi 0 \<le> of_int (n + 1) / sp" using pos sp(2) by (simp add: field_simps)
  then have z1: "1 \<le> z" using round64_ge [of 0 _ z] z(1) by simp
  have c: "1 \<le> \<lceil>z\<rceil>" "\<lceil>z\<rceil> < 2 ^ 63"
    using z1 order_le_less_trans [of "\<lceil>z\<rceil>" "2 ^ 62" "2 ^ 63"] z(2) by (simp_all add: ceiling_le_iff pow2_int one_le_ceiling)
  moreover have "d_div (d_of_int (n + 1)) (Fin sp) = Fin z" unfolding nof using pos z(1) by simp
  ultimately show ?thesis by (intro exI [of _ "\<lceil>z\<rceil>"]) (simp add: Let_def)
qed

text \<open>C34: the interval a new connection starts with is defined for every set of connections: no double of the
  computation overflows, the result lies between half the configured interval and the larger of it and a third of
  the resend time, and it is not zero, by which the constructor of the connection divides.\<close>

theorem initial_interval_defined:
  assumes I: "1 \<le> udpInitialSendIntervalUs s" "udpInitialSendIntervalUs s \<le> 2 ^ 31"
    and cs: "int (length (connections s)) < 2 ^ 29" "\<forall>(k, sc)\<in>set (connections s). udpSendIntervalUs (sc_conn sc) < 2 ^ 53"
  shows "\<exists>t. getUdpInitialIntervalUs s = Some t \<and>
    (t = udpInitialSendIntervalUs s \<or> cdiv (udpInitialSendIntervalUs s) 2 \<le> t \<and>
       t \<le> max (cdiv (udpResendUs (conn_par s)) 3) (cdiv (udpInitialSendIntervalUs s) 2)) \<and>
    (3 \<le> udpResendUs (conn_par s) \<longrightarrow> 1 \<le> t)"
proof -
  let ?I = "udpInitialSendIntervalUs s"
  obtain y n where sp: "summary_speed (map snd (connections s)) = (Fin y, n)" "0 \<le> y" "y \<le> of_int n" "n \<le> int (length (connections s))"
    using summary_speed_bounds [of "map snd (connections s)"] cs by fastforce
  show ?thesis
  proof (cases "connections s = [] \<or> n \<le> 0")
    case True
    then show ?thesis using sp(1) I by (auto simp: getUdpInitialIntervalUs_def)
  next
    case False
    then have n: "0 < n" "n + 1 \<le> 2 ^ 29" using sp(4) cs(1) by simp_all
    obtain q where q: "d_div (Fin (1 / 4)) (d_of_int ?I) = Fin q" "q \<le> 1" "2 powi (-33) \<le> q" using least_speed [OF I] by blast
    have dm: "d_max (Fin y) (Fin q) = Fin (max y q)" by (simp add: d_max_def max_def)
    have "(1 :: rat) \<le> of_int n" using n(1) by simp
    then have "2 powi (-33) \<le> max y q" "max y q \<le> of_int n" using q(2,3) sp(3) by (simp_all add: le_max_iff_disj)
    from interval_of_speed [OF n this] obtain j where
      j: "1 \<le> j" "d_to_ll (d_ceil (d_div (d_of_int (n + 1)) (Fin (max y q)))) = Some j" by blast
    define w where "w = cdiv ?I 2"
    define r where "r = cdiv (udpResendUs (conn_par s)) 3"
    define t1 where "t1 = (if j > r then r else j)"
    have e: "getUdpInitialIntervalUs s = Some (if t1 < w then w else t1)"
      using False j(2) by (simp add: getUdpInitialIntervalUs_def sp(1) q(1) dm Let_def t1_def w_def r_def del: d_to_ll.simps d_div.simps d_ceil.simps)
    have R: "3 \<le> udpResendUs (conn_par s) \<longrightarrow> 1 \<le> r" by (simp add: r_def) presburger
    show ?thesis unfolding e w_def [symmetric] r_def [symmetric] using j(1) R by (auto simp: t1_def)
  qed
qed

text \<open>A server with one connection in its initial state.\<close>

definition busy_server :: server where
  "busy_server = server_new\<lparr>connections := [(1, \<lparr>sc_conn = sample_conn, sc_listener = 0, sc_address = no_address\<rparr>)]\<rparr>"

theorem initial_interval_defined_witness: "\<exists>t. getUdpInitialIntervalUs busy_server = Some t \<and> 1 \<le> t \<and> t \<le> 333333"
  using initial_interval_defined [of busy_server] by (auto simp: busy_server_def server_new_def sample_conn_def)

end
