(* ===== verification/Server_Registry.thy ===== *)
theory Server_Registry
  imports Server Transitions
begin

text \<open>
  The invariant of the server. The pointers between connections and listeners form a consistent registry (\<open>linked\<close>,
  over abstract maps), the summary interval is the sum over the connections (\<open>others\<close>: what a connection leaves
  alone), and each connection moves by steps of its own transition system \<open>life_step\<close>. The locale
  \<open>kept_by_handlers\<close> reduces the handlers of the listeners to the few changes they are made of.
\<close>

section \<open>The share of a connection in the summary of the server\<close>

text \<open>What an operation of a connection must not change: the part of the server's summary interval that belongs
  to the other connections.\<close>

definition others :: "conn \<Rightarrow> int" where
  "others c = udpSummaryInterval c - udpSendIntervalUs c"

lemma others_basic [simp]:
  "others (tick c) = others c" "others (ev_at e t c) = others c" "others (ev_in os e t c) = others c" "others (ev_off e c) = others c"
  by (simp_all add: others_def tick_def ev_at_def ev_in_def ev_off_def)

lemma others_helpers [simp]:
  "others (on_sent_buffer_changed os d c) = others c" "others (on_udp_sent os i u n c) = others c"
  "others (on_udp_delivered b i n c) = others c" "others (set_event_udp_write os c) = others c"
  "others (snd (enqueue_packet ty bs n c)) = others c" "others (push_control os ty i bs n c) = others c"
  "others (finish_received k p n c) = others c" "others (write_again c) = others c"
  "others (snd (send_datagram os p c)) = others c" "others (read_extra p c) = others c"
  by (simp_all add: on_sent_buffer_changed_def on_udp_sent_def on_udp_delivered_def set_event_udp_write_def
      enqueue_packet_def push_control_def finish_received_def write_again_def send_datagram_def read_extra_def
      tick_def ev_at_def ev_in_def ev_off_def others_def Let_def split_def split: option.split)

lemma others_update [simp]:
  "others (c\<lparr>tcpReceivedData := x1\<rparr>) = others c" "others (c\<lparr>tcpSocket := x2\<rparr>) = others c"
  "others (c\<lparr>udpConnected := b\<rparr>) = others c" "others (c\<lparr>tcpConnected := b\<rparr>) = others c"
  "others (c\<lparr>udpConfirmationPackets := x3\<rparr>) = others c" "others (c\<lparr>udpSentPackets := x4\<rparr>) = others c"
  "others (c\<lparr>udpReceivedPackets := x5\<rparr>) = others c" "others (c\<lparr>udpPacketsToSendCount := n\<rparr>) = others c"
  "others (c\<lparr>statUdpSent := n\<rparr>) = others c" "others (c\<lparr>statTcpSent := n\<rparr>) = others c"
  "others (c\<lparr>statTcpReceived := n\<rparr>) = others c" "others (c\<lparr>statUdpReceivedExtra := n\<rparr>) = others c"
  "others (c\<lparr>udpLastSentUs := n\<rparr>) = others c" "others (c\<lparr>remainConfirmationResendCount := n\<rparr>) = others c"
  "others (c\<lparr>remainByeByeResendCount := n\<rparr>) = others c" "others (c\<lparr>udpReceiveBufferSize := n\<rparr>) = others c"
  "others (c\<lparr>udpReceivedMasterIndex := n\<rparr>) = others c" "others (c\<lparr>udpReceivedFinalIndex := n\<rparr>) = others c"
  "others (c\<lparr>log_tcpIn := x6\<rparr>) = others c" "others (c\<lparr>log_tcpOut := x6\<rparr>) = others c"
  "others (c\<lparr>log_built := x7\<rparr>) = others c" "others (c\<lparr>fault := b\<rparr>) = others c"
  "others (c\<lparr>udpConfirmedMasterIndex := n\<rparr>) = others c" "others (c\<lparr>h_tick := x8\<rparr>) = others c"
  by (simp_all add: others_def)

lemma others_loops [simp]:
  "others (snd (build_loop os flush psize rest c)) = others c"
  by (rule build_loop_invariant [where Q = "\<lambda>_ x. others x = others c"]) simp_all

lemma others_fold_changed [simp]: "others (fold (\<lambda>p. on_sent_buffer_changed os (g p)) ps c) = others c"
  by (induction ps arbitrary: c) simp_all

lemma others_discard_loop [simp]: "others (discard_loop n c) = others c"
  by (induction n arbitrary: c) (simp_all split: option.split)

lemma others_confirm_loop [simp]:
  "others (snd (snd (confirm_loop os psize master ks prev buf sz c))) = others c"
  by (induction os psize master ks prev buf sz c rule: confirm_loop.induct)
    (simp_all add: Let_def split_def split: option.split)

lemma others_confirm_packet [simp]: "others (confirm_packet os k c) = others c"
  by (simp add: confirm_packet_def Let_def split: option.split)

lemma others_fold_confirm [simp]: "others (fold (confirm_packet os) ks c) = others c"
  by (induction ks arbitrary: c) simp_all

lemma others_advance_master [simp]: "others (advance_master n c) = others c"
  by (induction n arbitrary: c) (simp_all add: Let_def split: option.split)

lemma others_ops [simp]:
  "others (build_udp_packets os flush c) = others c" "others (tcp_discard c) = others c"
  "others (drop_confirmations os c) = others c" 
  by (simp_all add: build_udp_packets_def tcp_discard_def drop_confirmations_def Let_def split_def)

lemma others_ops2 [simp]: "others (write_packet os k p c) = others c" "others (tcp_read os c) = others c" 
  "others (build_bye_bye os c) = others c" "others (read_confirmation os p c) = others c" "others (read_bye_bye os c) = others c"
  "others (store_received os p c) = others c"
  by (simp_all add: write_packet_def tcp_read_def build_bye_bye_def read_confirmation_def read_bye_bye_def store_received_def Let_def split_def)

lemma others_closing [simp]: "others (tcp_close os err c) = others c"
  by (simp add: tcp_close_def Let_def split_def)

lemma others_udp_close [simp]: "others (udp_close os c) = others c"
  by (simp add: udp_close_def Let_def split_def)

lemma others_build_confirmations [simp]: "others (build_confirmations os c) = others c"
  by (simp add: build_confirmations_def Let_def split_def)

lemma others_write_loop [simp]: "others (write_loop os n c) = others c"
  by (induction n arbitrary: c) (simp_all add: Let_def split: option.split)

lemma others_resend_loop [simp]: "others (resend_loop os t ks c) = others c"
  by (induction ks arbitrary: c) (simp_all add: Let_def split: option.split)

lemma others_send [simp]: "others (write_confirmation os t p c) = others c" "others (write_sent_packet os t k p c) = others c"
  by (simp_all add: write_confirmation_def write_sent_packet_def Let_def split_def)

lemma others_handle [simp]: "e \<noteq> EvClose \<Longrightarrow> others (raise_conn_event os e c) = others c"
  by (cases e) (simp_all add: raise_conn_event_def handle_def tcp_write_def udp_write_def udp_resend_def split: list.split option.split)

lemma others_read [simp]: "others (udp_read os p c) = others c"
  by (simp add: udp_read_def udp_dispatch_def Let_def)

lemma deleted_write_loop [simp]: "deleted (write_loop os n c) = deleted c"
  by (induction n arbitrary: c) (simp_all add: Let_def split: option.split)

lemma alive_handle [simp]: "e \<noteq> EvClose \<Longrightarrow> deleted (raise_conn_event os e c) = deleted c"
  by (cases e) (simp_all add: raise_conn_event_def handle_def tcp_write_def)

lemma alive_read [simp]: "deleted (udp_read os p c) = deleted c"
  by (simp add: udp_read_def udp_dispatch_def Let_def)

lemma conn_new_shares [simp]:
  "udpSendIntervalUs (conn_new os ps iv h) = iv" "udpSummaryInterval (conn_new os ps iv h) = udpSummaryInterval h + iv"
  "deleted (conn_new os ps iv h) = False"
proof -
  have "others (conn_new os ps iv h) = udpSummaryInterval h"
    by (simp add: conn_new_def Let_def split_def) (simp add: others_def)
  moreover show i: "udpSendIntervalUs (conn_new os ps iv h) = iv" "deleted (conn_new os ps iv h) = False"
    by (simp_all add: conn_new_def Let_def split_def)
  ultimately show "udpSummaryInterval (conn_new os ps iv h) = udpSummaryInterval h + iv" by (simp add: others_def)
qed

section \<open>The registry of connections\<close>

text \<open>The abstract registry: to which listener and address a connection belongs (\<open>peer\<close>), and the tcp address and
  the connections of a listener (\<open>book\<close>). In a \<open>linked\<close> registry the pointers between connections and listeners
  agree in both directions, no listener is missing, and a listener without a tcp address, which dies with its
  connection, has one at most.\<close>

type_synonym peers = "nat \<Rightarrow> (nat \<times> address) option"
type_synonym books = "nat \<Rightarrow> (address \<times> (address, nat) omap) option"

definition linked :: "peers \<Rightarrow> books \<Rightarrow> bool" where
  "linked peer book \<longleftrightarrow>
     (\<forall>lp t m. book lp = Some (t, m) \<longrightarrow> om_ok m \<and> (t = no_address \<longrightarrow> length m \<le> 1) \<and>
        (\<forall>a k. om_find m a = Some k \<longleftrightarrow> peer k = Some (lp, a))) \<and>
     (\<forall>k lp a. peer k = Some (lp, a) \<longrightarrow> book lp \<noteq> None)"

lemma linkedI:
  assumes "\<And>lp t m. book lp = Some (t, m) \<Longrightarrow> om_ok m" "\<And>lp m. book lp = Some (no_address, m) \<Longrightarrow> length m \<le> 1"
    "\<And>lp t m a k. book lp = Some (t, m) \<Longrightarrow> om_find m a = Some k \<longleftrightarrow> peer k = Some (lp, a)"
    "\<And>k lp a. peer k = Some (lp, a) \<Longrightarrow> book lp \<noteq> None"
  shows "linked peer book"
  using assms unfolding linked_def by blast

lemma linkedD:
  assumes "linked peer book"
  shows "book lp = Some (t, m) \<Longrightarrow> om_ok m" "book lp = Some (no_address, m) \<Longrightarrow> length m \<le> 1"
    "book lp = Some (t, m) \<Longrightarrow> om_find m a = Some k \<longleftrightarrow> peer k = Some (lp, a)"
    "peer k = Some (lp, a) \<Longrightarrow> \<exists>t m. book lp = Some (t, m)"
  using assms unfolding linked_def by fast+

lemma linked_open: "linked peer book \<Longrightarrow> book lp = None \<Longrightarrow> linked peer (book(lp \<mapsto> (t, [])))"
  by (rule linkedI) (use linkedD in \<open>fastforce split: if_splits\<close>)+

lemma linked_close: "linked peer book \<Longrightarrow> book lp = Some (t, []) \<Longrightarrow> linked peer (book(lp := None))"
  by (rule linkedI) (use linkedD in \<open>fastforce split: if_splits\<close>)+

lemma linked_join:
  assumes "linked peer book" "book lp = Some (t, m)" "om_find m a = None" "peer k = None" "t = no_address \<Longrightarrow> m = []"
  shows "linked (peer(k \<mapsto> (lp, a))) (book(lp \<mapsto> (t, om_put a k m)))"
proof (rule linkedI)
  note L = linkedD [OF assms(1)]
  have ok: "om_ok m" using L(1) assms(2) .
  fix lp' t' m' a' k'
  assume b: "(book(lp \<mapsto> (t, om_put a k m))) lp' = Some (t', m')"
  then show "om_ok m'" using L(1) ok by (auto split: if_splits)
  show "om_find m' a' = Some k' \<longleftrightarrow> (peer(k \<mapsto> (lp, a))) k' = Some (lp', a')"
    using b L(3) [of lp' t' m' a' k'] L(3) [OF assms(2), of a' k'] L(3) [OF assms(2), of a k'] ok assms(3,4)
    by (auto split: if_splits)
next
  fix lp' m' assume "(book(lp \<mapsto> (t, om_put a k m))) lp' = Some (no_address, m')"
  then show "length m' \<le> 1" using linkedD(2) [OF assms(1)] assms(5) by (auto split: if_splits)
next
  fix k' lp' a' assume "(peer(k \<mapsto> (lp, a))) k' = Some (lp', a')"
  then show "(book(lp \<mapsto> (t, om_put a k m))) lp' \<noteq> None" using linkedD(4) [OF assms(1)] by (auto split: if_splits)
qed

lemma linked_leave:
  assumes "linked peer book" "book lp = Some (t, m)" "peer k = Some (lp, a)"
  shows "linked (peer(k := None)) (book(lp \<mapsto> (t, om_erase a m)))"
proof (rule linkedI)
  note L = linkedD [OF assms(1)]
  have ok: "om_ok m" using L(1) assms(2) .
  have m: "om_find m a = Some k" using L(3) [OF assms(2)] assms(3) by blast
  fix lp' t' m' a' k'
  assume b: "(book(lp \<mapsto> (t, om_erase a m))) lp' = Some (t', m')"
  then show "om_ok m'" using L(1) ok by (auto split: if_splits)
  show "om_find m' a' = Some k' \<longleftrightarrow> (peer(k := None)) k' = Some (lp', a')"
    using b L(3) [of lp' t' m' a' k'] L(3) [OF assms(2), of a' k'] m ok assms(3)
    by (auto split: if_splits)
next
  fix lp' m' assume "(book(lp \<mapsto> (t, om_erase a m))) lp' = Some (no_address, m')"
  then show "length m' \<le> 1" using linkedD(2) [OF assms(1)] assms(2) 
    by (fastforce simp: om_erase_def split: if_splits intro: order_trans [OF length_filter_le])
next
  fix k' lp' a' assume "(peer(k := None)) k' = Some (lp', a')"
  then show "(book(lp \<mapsto> (t, om_erase a m))) lp' \<noteq> None" using linkedD(4) [OF assms(1)] by (auto split: if_splits)
qed

text \<open>The last connection of a listener without a tcp address.\<close>

lemma linked_single:
  assumes "linked peer book" "book lp = Some (no_address, m)" "peer k = Some (lp, a)"
  shows "om_erase a m = []"
proof -
  have "om_find m a = Some k" "length m \<le> 1" using linkedD [OF assms(1)] assms(2,3) by blast+
  then show ?thesis by (cases m) (auto simp: om_erase_def split: if_splits)
qed

section \<open>The registry of a server\<close>

definition peer_of :: "server \<Rightarrow> peers" where
  "peer_of s k = map_option (\<lambda>sc. (sc_listener sc, sc_address sc)) (om_find (connections s) k)"

definition book_of :: "server \<Rightarrow> books" where
  "book_of s lp = map_option (\<lambda>l. (ul_tcpAddress l, ul_connections l)) (om_find (udpListeners s) lp)"

definition maps_ok :: "server \<Rightarrow> bool" where
  "maps_ok s \<longleftrightarrow> om_ok (tcpListeners s) \<and> om_ok (udpListeners s) \<and> om_ok (connections s)"

definition summary_exact :: "server \<Rightarrow> bool" where
  "summary_exact s \<longleftrightarrow> udpSummaryConnectionsSendIntervalUs s = om_sum (\<lambda>sc. udpSendIntervalUs (sc_conn sc)) (connections s)"

definition lives :: "os \<Rightarrow> server \<Rightarrow> bool" where
  "lives os s \<longleftrightarrow> (\<forall>k sc. om_find (connections s) k = Some sc \<longrightarrow>
     \<not> deleted (sc_conn sc) \<and> (\<exists>c0. life_start c0 \<and> (life_step os)\<^sup>*\<^sup>* c0 (sc_conn sc)))"

text \<open>What holds of every reachable state.\<close>

definition server_inv :: "os \<Rightarrow> server \<Rightarrow> bool" where
  "server_inv os s \<longleftrightarrow> maps_ok s \<and> linked (peer_of s) (book_of s) \<and> summary_exact s \<and> lives os s"

section \<open>What keeps the invariant\<close>

lemma server_invI:
  assumes "maps_ok s" "linked (peer_of s) (book_of s)" "summary_exact s" "lives os s"
  shows "server_inv os s"
  using assms by (simp add: server_inv_def)

lemma server_invD:
  assumes "server_inv os s"
  shows "maps_ok s" "linked (peer_of s) (book_of s)" "summary_exact s" "lives os s"
    "om_ok (tcpListeners s)" "om_ok (udpListeners s)" "om_ok (connections s)"
  using assms by (simp_all add: server_inv_def maps_ok_def)

text \<open>A change outside the connections and the registry.\<close>

lemma server_inv_frame:
  assumes "server_inv os s" "connections s' = connections s" "book_of s' = book_of s" "om_ok (tcpListeners s')"
    "om_ok (udpListeners s')" "udpSummaryConnectionsSendIntervalUs s' = udpSummaryConnectionsSendIntervalUs s"
  shows "server_inv os s'"
proof (rule server_invI)
  have "peer_of s' = peer_of s" using assms(2) by (simp add: peer_of_def fun_eq_iff)
  then show "linked (peer_of s') (book_of s')" using assms(1,3) by (simp add: server_inv_def)
qed (use assms in \<open>simp_all add: server_inv_def maps_ok_def summary_exact_def lives_def\<close>)

lemma book_of_put:
  assumes "om_ok (udpListeners s)"
  shows "book_of (s\<lparr>udpListeners := om_put k l (udpListeners s)\<rparr>) = (book_of s)(k \<mapsto> (ul_tcpAddress l, ul_connections l))"
  using assms by (auto simp: book_of_def fun_eq_iff)

lemma book_of_erase: "om_ok (udpListeners s) \<Longrightarrow>
    book_of (s\<lparr>udpListeners := om_erase k (udpListeners s)\<rparr>) = (book_of s)(k := None)"
  by (auto simp: book_of_def fun_eq_iff)

lemma book_of_find: "om_find (udpListeners s) k = Some l \<Longrightarrow> book_of s k = Some (ul_tcpAddress l, ul_connections l)"
  by (simp add: book_of_def)

lemma book_of_more [simp]:
  "book_of (s\<lparr>sv_tick := n\<rparr>) = book_of s" "book_of (s\<lparr>tcpListeners := t\<rparr>) = book_of s"
  "book_of (s\<lparr>connections := c\<rparr>) = book_of s" "book_of (s\<lparr>sv_udpReceived := i\<rparr>) = book_of s"
  "book_of (s\<lparr>lastObjectIndex := i\<rparr>) = book_of s" "book_of (s\<lparr>testListeners := x\<rparr>) = book_of s"
  "book_of (s\<lparr>test := b\<rparr>) = book_of s"
  "book_of (server_tick s) = book_of s"
  by (simp_all add: book_of_def fun_eq_iff server_tick_def)

lemma server_tick_same [simp]:
  "connections (server_tick s) = connections s" "udpListeners (server_tick s) = udpListeners s"
  "tcpListeners (server_tick s) = tcpListeners s" "testListeners (server_tick s) = testListeners s"
  "udpSummaryConnectionsSendIntervalUs (server_tick s) = udpSummaryConnectionsSendIntervalUs s"
  by (simp_all add: server_tick_def)

lemma put_listener_inv:
  assumes "server_inv os s" "om_find (udpListeners s) k = Some l0" "ul_tcpAddress l = ul_tcpAddress l0"
    "ul_connections l = ul_connections l0"
  shows "server_inv os (s\<lparr>udpListeners := om_put k l (udpListeners s)\<rparr>)"
proof (rule server_inv_frame [OF assms(1)])
  show "book_of (s\<lparr>udpListeners := om_put k l (udpListeners s)\<rparr>) = book_of s"
    using assms(3,4) book_of_find [OF assms(2)] server_invD(6) [OF assms(1)] by (simp add: book_of_put fun_upd_idem)
qed (use server_invD [OF assms(1)] in simp_all)

text \<open>A method of a connection.\<close>

lemma load_conn_same [simp]:
  "udpSendIntervalUs (load_conn s sc) = udpSendIntervalUs (sc_conn sc)" "deleted (load_conn s sc) = deleted (sc_conn sc)"
  "udpSummaryInterval (load_conn s sc) = udpSummaryConnectionsSendIntervalUs s" "ev (load_conn s sc) = ev (sc_conn sc)"
  by (simp_all add: load_conn_def)

lemma load_conn_life: "life_step os (sc_conn sc) (load_conn s sc)"
  unfolding load_conn_def by (rule life_step.around)

lemma store_shared_same [simp]:
  "connections (store_shared lp c s) = connections s" "tcpListeners (store_shared lp c s) = tcpListeners s"
  "udpSummaryConnectionsSendIntervalUs (store_shared lp c s) = udpSummaryInterval c" "testListeners (store_shared lp c s) = testListeners s"
  by (simp_all add: store_shared_def)

lemma store_shared_book [simp]:
  assumes "om_ok (udpListeners s)"
  shows "book_of (store_shared lp c s) = book_of s" "om_ok (udpListeners (store_shared lp c s))"
  using assms by (auto simp: book_of_def store_shared_def fun_eq_iff split: option.split)

lemma livesD: "lives os s \<Longrightarrow> om_find (connections s) k = Some sc \<Longrightarrow>
    \<not> deleted (sc_conn sc) \<and> (\<exists>c0. life_start c0 \<and> (life_step os)\<^sup>*\<^sup>* c0 (sc_conn sc))"
  unfolding lives_def by blast

lemma lives_step:
  assumes "lives os s" "om_find (connections s) k = Some sc" "life_step os (load_conn s' sc) c" "\<not> deleted c"
  shows "\<not> deleted c \<and> (\<exists>c0. life_start c0 \<and> (life_step os)\<^sup>*\<^sup>* c0 c)"
proof -
  obtain c0 where "life_start c0" "(life_step os)\<^sup>*\<^sup>* c0 (sc_conn sc)" using livesD [OF assms(1,2)] by blast
  then show ?thesis using load_conn_life [of os sc s'] assms(3,4) by (meson rtranclp.rtrancl_into_rtrancl)
qed

lemma with_conn_inv:
  assumes inv: "server_inv os s"
    and f: "\<And>sc. om_find (connections s) k = Some sc \<Longrightarrow> \<not> deleted (sc_conn sc) \<Longrightarrow>
      life_step os (load_conn s sc) (f (load_conn s sc)) \<and> others (f (load_conn s sc)) = others (load_conn s sc) \<and>
      \<not> deleted (f (load_conn s sc))"
  shows "server_inv os (with_conn k f s)"
proof (cases "om_find (connections s) k")
  case None
  then show ?thesis using inv by (simp add: with_conn_def)
next
  case (Some sc)
  note I = server_invD [OF inv]
  define c where "c = f (load_conn s sc)"
  have c: "life_step os (load_conn s sc) c" "others c = others (load_conn s sc)" "\<not> deleted c"
    using f [OF Some] livesD [OF I(4) Some] by (simp_all add: c_def)
  define s' where "s' = (store_shared (sc_listener sc) c s)\<lparr>connections := om_put k (sc\<lparr>sc_conn := c\<rparr>) (connections s)\<rparr>"
  have s': "with_conn k f s = s'" using Some by (simp add: with_conn_def c_def s'_def Let_def)
  have "peer_of s' = peer_of s" using I(7) Some by (auto simp: peer_of_def s'_def fun_eq_iff)
  moreover have "book_of s' = book_of s" using I(6) by (simp add: s'_def)
  moreover have "summary_exact s'" using I(3,7) c(2) Some by (simp add: summary_exact_def s'_def others_def)
  moreover have "lives os s'" using I(4,7) lives_step [OF I(4) Some c(1,3)] by (auto simp: lives_def s'_def)
  moreover have "maps_ok s'" using I by (simp add: maps_ok_def s'_def)
  ultimately show ?thesis using I(2) by (simp add: server_inv_def s')
qed

section \<open>Creating\<close>

lemma createTcpListener_inv: "server_inv os s \<Longrightarrow> server_inv os (createTcpListener o' ptr sk t u s)"
  by (rule server_inv_frame [of os s]) (use server_invD in \<open>auto simp: createTcpListener_def Let_def\<close>)

lemma server_begin_inv: "server_inv os s \<Longrightarrow> server_inv os (server_begin s)"
  by (rule server_inv_frame [of os s]) (use server_invD in \<open>auto simp: server_begin_def\<close>)

lemma createTestListener_inv: "server_inv os s \<Longrightarrow> server_inv os (createTestListener ptr t s)"
  by (rule server_inv_frame [of os s]) (use server_invD in \<open>auto simp: createTestListener_def\<close>)

lemma createUdpListener_parts:
  assumes "om_ok (udpListeners s)"
  shows "book_of (createUdpListener o' ptr sk u t s) = (book_of s)(ptr \<mapsto> (t, []))"
    "connections (createUdpListener o' ptr sk u t s) = connections s"
    "tcpListeners (createUdpListener o' ptr sk u t s) = tcpListeners s"
    "om_ok (udpListeners (createUdpListener o' ptr sk u t s))"
    "udpSummaryConnectionsSendIntervalUs (createUdpListener o' ptr sk u t s) = udpSummaryConnectionsSendIntervalUs s"
    "\<exists>l. om_find (udpListeners (createUdpListener o' ptr sk u t s)) ptr = Some l \<and> ul_tcpAddress l = t \<and> ul_connections l = []"
  using assms by (auto simp: createUdpListener_def book_of_def fun_eq_iff Let_def)

lemma createUdpListener_inv:
  assumes "server_inv os s" "om_find (udpListeners s) ptr = None"
  shows "server_inv os (createUdpListener o' ptr sk u t s)"
proof (rule server_invI)
  note I = server_invD [OF assms(1)]
  note P = createUdpListener_parts [OF I(6), of o' ptr sk u t]
  let ?s = "createUdpListener o' ptr sk u t s"
  have b: "book_of s ptr = None" using assms(2) by (simp add: book_of_def)
  have "peer_of ?s = peer_of s" by (simp add: peer_of_def fun_eq_iff P)
  then show "linked (peer_of ?s) (book_of ?s)" using linked_open [OF I(2) b] by (simp add: P)
  show "maps_ok ?s" "summary_exact ?s" "lives os ?s" using I P by (simp_all add: maps_ok_def summary_exact_def lives_def)
qed

lemma om_put_put [simp]: "om_put k v (om_put k w m) = om_put k v m"
  by (induction m) auto

lemma conn_new_socket [simp]: "udpSocket (conn_new os ps iv h) = udpSocket h"
  by (simp add: conn_new_def Let_def split_def)

text \<open>What a call of \<open>createConnection\<close> that succeeds does.\<close>

lemma createConnection_new:
  assumes l: "om_find (udpListeners s) lp = Some l" and free: "connectionByAddress a l = None"
    and r: "createConnection os ptr client lp l a s = (x, s')"
  obtains iv h where "x = Some ptr" "fresh_host h" "udpSummaryInterval h = udpSummaryConnectionsSendIntervalUs s"
    "connections s' = om_put ptr \<lparr>sc_conn = conn_new os (conn_par s) iv h, sc_listener = lp, sc_address = a\<rparr> (connections s)"
    "udpListeners s' = om_put lp (l\<lparr>ul_connections := om_put a ptr (ul_connections l)\<rparr>) (udpListeners s)"
    "tcpListeners s' = tcpListeners s"
    "udpSummaryConnectionsSendIntervalUs s' = udpSummaryConnectionsSendIntervalUs s + iv"
proof -
  let ?s = "s\<lparr>lastObjectIndex := lastObjectIndex s + 1\<rparr>"
  define iv where "iv = (case getUdpInitialIntervalUs ?s of Some t \<Rightarrow> t | None \<Rightarrow> a_junk (os (sv_tick ?s)))"
  define h where "h = \<lparr>h_tick = sv_tick s, tcpSocket = client, udpSocket = ul_sock l, statTcpSent = sv_tcpSent s,
                      statTcpReceived = sv_tcpReceived s, statUdpSent = sv_udpSent s, statUdpReceivedExtra = sv_udpReceivedExtra s,
                      udpSummaryInterval = udpSummaryConnectionsSendIntervalUs s, log_tcpIn = [], log_tcpOut = [], log_udpOut = []\<rparr>"
  define s1 where "s1 = store_shared lp (conn_new os (conn_par s) iv h) ?s"
  have s': "s' = s1\<lparr>connections := om_put ptr \<lparr>sc_conn = conn_new os (conn_par s) iv h, sc_listener = lp, sc_address = a\<rparr> (connections s1),
      udpListeners := om_put lp (l\<lparr>ul_connections := om_put a ptr (ul_connections l)\<rparr>) (udpListeners s1)\<rparr>" "x = Some ptr"
    using r free unfolding createConnection_def Let_def s1_def iv_def h_def by (simp_all split: option.splits)
  have "udpListeners s1 = om_put lp l (udpListeners s)" by (simp add: s1_def store_shared_def l) (simp add: h_def)
  then show ?thesis using that [of h iv] s' by (simp add: s1_def h_def fresh_host_def)
qed

lemma createConnection_known:
  "connectionByAddress a l = Some k \<Longrightarrow> createConnection os ptr client lp l a s = (None, s\<lparr>lastObjectIndex := lastObjectIndex s + 1\<rparr>)"
  by (simp add: createConnection_def Let_def)

lemma createConnection_inv:
  assumes inv: "server_inv os s" and l: "om_find (udpListeners s) lp = Some l" and free: "om_find (connections s) ptr = None"
    and clock: "clock_ok os" and t: "ul_tcpAddress l = no_address \<Longrightarrow> ul_connections l = []"
  shows "server_inv os (snd (createConnection os ptr client lp l a s))"
proof (cases "connectionByAddress a l")
  case (Some k)
  then show ?thesis using server_inv_frame [OF inv] server_invD [OF inv] by (simp add: createConnection_known)
next
  case None
  note I = server_invD [OF inv]
  obtain x s' where r: "createConnection os ptr client lp l a s = (x, s')" by fastforce
  from createConnection_new [OF l None r] obtain iv h where new: "fresh_host h"
    "udpSummaryInterval h = udpSummaryConnectionsSendIntervalUs s"
    "connections s' = om_put ptr \<lparr>sc_conn = conn_new os (conn_par s) iv h, sc_listener = lp, sc_address = a\<rparr> (connections s)"
    "udpListeners s' = om_put lp (l\<lparr>ul_connections := om_put a ptr (ul_connections l)\<rparr>) (udpListeners s)"
    "tcpListeners s' = tcpListeners s"
    "udpSummaryConnectionsSendIntervalUs s' = udpSummaryConnectionsSendIntervalUs s + iv" by metis
  have "server_inv os s'"
  proof (rule server_invI)
    have "peer_of s' = (peer_of s)(ptr \<mapsto> (lp, a))" using I(7) by (auto simp: peer_of_def new fun_eq_iff)
    moreover have "book_of s' = (book_of s)(lp \<mapsto> (ul_tcpAddress l, om_put a ptr (ul_connections l)))"
      using I(6) by (auto simp: book_of_def new fun_eq_iff)
    moreover have "linked ((peer_of s)(ptr \<mapsto> (lp, a))) ((book_of s)(lp \<mapsto> (ul_tcpAddress l, om_put a ptr (ul_connections l))))"
      by (rule linked_join [OF I(2) book_of_find [OF l]]) (use None free t in \<open>simp_all add: connectionByAddress_def peer_of_def\<close>)
    ultimately show "linked (peer_of s') (book_of s')" by simp
    show "summary_exact s'" using I(3,7) free by (simp add: summary_exact_def new)
    have "life_start (conn_new os (conn_par s) iv h)" using clock new(1) unfolding life_start_def by blast
    then show "lives os s'" using I(4,7) by (auto simp: lives_def new)
    show "maps_ok s'" using I by (simp add: maps_ok_def new)
  qed
  then show ?thesis by (simp add: r)
qed

section \<open>The handlers of the listeners\<close>

definition objects_fresh :: "fresh_objects \<Rightarrow> server \<Rightarrow> bool" where
  "objects_fresh f s \<longleftrightarrow> om_find (tcpListeners s) (f_listener f) = None \<and> om_find (udpListeners s) (f_listener f) = None \<and>
     om_find (connections s) (f_conn f) = None \<and> sock_ok (f_listenerSock f)"

text \<open>A property of the server that the few changes a handler is made of keep.\<close>

locale kept_by_handlers =
  fixes os :: os and kept :: "server \<Rightarrow> bool"
  assumes maps: "kept s \<Longrightarrow> maps_ok s"
    and tick: "kept s \<Longrightarrow> kept (server_tick s)"
    and count: "kept s \<Longrightarrow> kept (s\<lparr>sv_udpReceived := n\<rparr>)"
    and tcp_put: "kept s \<Longrightarrow> kept (s\<lparr>tcpListeners := om_put k t (tcpListeners s)\<rparr>)"
    and udp_put: "kept s \<Longrightarrow> om_find (udpListeners s) k = Some l \<Longrightarrow> ul_tcpAddress l' = ul_tcpAddress l \<Longrightarrow>
      ul_connections l' = ul_connections l \<Longrightarrow> ul_evClose l' = ul_evClose l \<Longrightarrow> s_close (ul_sock l') = s_close (ul_sock l) \<Longrightarrow>
      (sock_ok (ul_sock l) \<Longrightarrow> sock_ok (ul_sock l')) \<Longrightarrow> kept (s\<lparr>udpListeners := om_put k l' (udpListeners s)\<rparr>)"
    and new_listener: "kept s \<Longrightarrow> om_find (udpListeners s) ptr = None \<Longrightarrow> sock_ok sk \<Longrightarrow> kept (createUdpListener os ptr sk u a s)"
    and new_conn: "kept s \<Longrightarrow> om_find (udpListeners s) lp = Some l \<Longrightarrow> om_find (connections s) ptr = None \<Longrightarrow>
      (ul_tcpAddress l = no_address \<Longrightarrow> ul_connections l = []) \<Longrightarrow> kept (snd (createConnection os ptr client lp l a s))"
    and arrival: "kept s \<Longrightarrow> check_crc32 (received_packet bs n) \<Longrightarrow> kept (with_conn i (udp_read os (received_packet bs n)) s)"
begin

lemma tcp_read:
  assumes kept: "kept s" and f: "objects_fresh f s"
  shows "kept (tcpListenerRead os f acc k s)"
proof (cases "om_find (tcpListeners s) k")
  case (Some l)
  obtain client sk where acc: "sock_accept acc (tl_sock l) = (client, sk)" by fastforce
  define s1 where "s1 = (server_tick s)\<lparr>tcpListeners := om_put k (l\<lparr>tl_sock := sk,
                        tl_evRead := set_time_value (tl_evRead l) (server_time os s) False\<rparr>) (tcpListeners s)\<rparr>"
  define s2 where "s2 = createUdpListener os (f_listener f) (f_listenerSock f) no_address no_address s1"
  have kept1: "kept s1" using tcp_put [OF tick [OF kept]] by (simp add: s1_def)
  have ok: "om_ok (udpListeners s1)" using maps [OF kept1] by (simp add: maps_ok_def)
  note P = createUdpListener_parts [OF ok, of os "f_listener f" "f_listenerSock f" no_address no_address, folded s2_def]
  have kept2: "kept s2"
    unfolding s2_def by (rule new_listener [OF kept1]) (use f in \<open>simp_all add: objects_fresh_def s1_def\<close>)
  obtain ul where ul: "om_find (udpListeners s2) (f_listener f) = Some ul" "ul_connections ul = []" using P(6) by blast
  have free: "om_find (connections s2) (f_conn f) = None" using f P(2) by (simp add: objects_fresh_def s1_def)
  show ?thesis using kept1 Some acc ul(1) new_conn [OF kept2 ul(1) free ul(2)]
    by (simp add: tcpListenerRead_def Let_def s1_def [symmetric] s2_def [symmetric] split: option.split)
qed (use kept in \<open>simp add: tcpListenerRead_def\<close>)

lemma udp_read:
  assumes kept: "kept s" and f: "objects_fresh f s"
  shows "kept (udpListenerRead os f r e k s)"
proof (cases "om_find (udpListeners s) k")
  case (Some l0)
  obtain n bs src sk where rd: "sock_readfrom r e (ul_receivePacketSize l0) (ul_sock l0) = (n, bs, src, sk)"
    using prod_cases4 by blast
  have sk: "s_close sk = s_close (ul_sock l0)" using rd by (auto simp: sock_readfrom_def split: if_splits option.splits prod.splits)
  have sk': "sock_ok (ul_sock l0) \<Longrightarrow> sock_ok sk" using sock_readfrom_ok [of "ul_sock l0" r e "ul_receivePacketSize l0"] rd by simp
  define a where "a = (if s_closeRead (ul_sock l0) then ul_receiveAddress l0
                     else case src of None \<Rightarrow> no_address | Some a \<Rightarrow> a)"
  define l where "l = l0\<lparr>ul_sock := sk, ul_receiveAddress := a,
                       ul_evRead := set_time_value (ul_evRead l0) (server_time os s) False\<rparr>"
  define s1 where "s1 = (server_tick s)\<lparr>udpListeners := om_put k l (udpListeners s)\<rparr>"
  define s2 where "s2 = s1\<lparr>sv_udpReceived := sv_udpReceived s1 + n\<rparr>"
  define p where "p = received_packet bs n"
  define l1 where "l1 = l\<lparr>ul_lastTcpSocketIndex := ul_lastTcpSocketIndex l + 1\<rparr>"
  define s3 where "s3 = s2\<lparr>udpListeners := om_put k l1 (udpListeners s2)\<rparr>"
  obtain x s4 where cr: "createConnection os (f_conn f) (sock_connect (f_clientSock f)) k l1 a s3 = (x, s4)" by fastforce
  have kept1: "kept s1" using udp_put [OF tick [OF kept], of k l0 l] Some sk sk' by (simp add: s1_def l_def)
  have kept2: "kept s2" using count [OF kept1] by (simp add: s2_def)
  have ok: "om_ok (udpListeners s)" "om_ok (udpListeners s2)" using maps kept kept2 by (simp_all add: maps_ok_def)
  have l: "om_find (udpListeners s2) k = Some l" using ok(1) by (simp add: s2_def s1_def)
  have kept3: "kept s3" unfolding s3_def by (rule udp_put [OF kept2 l]) (simp_all add: l1_def)
  have l1: "om_find (udpListeners s3) k = Some l1" "om_find (connections s3) (f_conn f) = None"
    using ok f by (simp_all add: s3_def s2_def s1_def objects_fresh_def)
  have kept4: "kept s4" if "ul_tcpAddress l \<noteq> no_address"
    using new_conn [OF kept3 l1, of "sock_connect (f_clientSock f)" a] that cr by (simp add: l1_def)
  have e: "udpListenerRead os f r e k s =
      (if a = no_address then s1 else if \<not> check_crc32 p then s2
       else case (if ul_tcpAddress l \<noteq> no_address \<and> connectionByAddress a l = None \<and> opens_connection p then (x, s4)
                  else (connectionByAddress a l, s2)) of (None, s4) \<Rightarrow> s4 | (Some i, s4) \<Rightarrow> with_conn i (Conn_Ops.udp_read os p) s4)"
    unfolding udpListenerRead_def Some option.case rd prod.case Let_def a_def [symmetric] l_def [symmetric] s1_def [symmetric]
      s2_def [symmetric] p_def [symmetric] l1_def [symmetric] s3_def [symmetric] cr ..
  show ?thesis unfolding e using kept1 kept2 kept4 arrival [of _ bs n, folded p_def] by (auto split: option.split)
qed (use kept in \<open>simp add: udpListenerRead_def\<close>)

end

section \<open>Closing\<close>

lemma onTcpListenerClosed_inv: "server_inv os s \<Longrightarrow> server_inv os (onTcpListenerClosed o' ptr sk k err s)"
proof -
  assume inv: "server_inv os s"
  have "server_inv os (s\<lparr>tcpListeners := om_erase k (tcpListeners s)\<rparr>)"
    by (rule server_inv_frame [OF inv]) (use server_invD [OF inv] in simp_all)
  then show ?thesis using inv by (simp add: onTcpListenerClosed_def createTcpListener_inv Let_def split: option.split)
qed

lemma erase_listener_inv:
  assumes inv: "server_inv os s" and l: "om_find (udpListeners s) k = Some l" "ul_connections l = []"
  shows "server_inv os (s\<lparr>udpListeners := om_erase k (udpListeners s)\<rparr>)"
proof (rule server_invI)
  note I = server_invD [OF inv]
  let ?s = "s\<lparr>udpListeners := om_erase k (udpListeners s)\<rparr>"
  have "peer_of ?s = peer_of s" by (simp add: peer_of_def fun_eq_iff)
  then show "linked (peer_of ?s) (book_of ?s)"
    using linked_close [OF I(2)] book_of_find [OF l(1)] l(2) I(6) by (simp add: book_of_erase)
  show "maps_ok ?s" "summary_exact ?s" "lives os ?s" using I by (simp_all add: maps_ok_def summary_exact_def lives_def)
qed

lemma onUdpListenerClosed_inv:
  assumes inv: "server_inv os s" and l: "om_find (udpListeners s) k = Some l" "ul_connections l = []"
    and fresh: "err \<Longrightarrow> om_find (udpListeners s) ptr = None"
  shows "server_inv os (onUdpListenerClosed o' ptr sk k err s)"
proof -
  note e = erase_listener_inv [OF inv l]
  have "server_inv os (createUdpListener o' ptr sk (ul_udpAddress l) (ul_tcpAddress l) (s\<lparr>udpListeners := om_erase k (udpListeners s)\<rparr>))" if err
    by (rule createUdpListener_inv [OF e]) (use server_invD [OF inv] fresh [OF that] in simp)
  then show ?thesis using e l by (simp add: onUdpListenerClosed_def Let_def)
qed

lemma onConnectionClosed_cases:
  assumes inv: "server_inv os s" and c: "om_find (connections s) k = Some sc"
  obtains l where "om_find (udpListeners s) (sc_listener sc) = Some l" "om_find (ul_connections l) (sc_address sc) = Some k"
    "ul_tcpAddress l = no_address \<Longrightarrow> om_erase (sc_address sc) (ul_connections l) = []"
proof -
  note I = server_invD [OF inv]
  have p: "peer_of s k = Some (sc_listener sc, sc_address sc)" using c by (simp add: peer_of_def)
  obtain t m where b: "book_of s (sc_listener sc) = Some (t, m)" using linkedD(4) [OF I(2) p] by blast
  then obtain l where l: "om_find (udpListeners s) (sc_listener sc) = Some l" "t = ul_tcpAddress l" "m = ul_connections l"
    by (auto simp: book_of_def)
  show ?thesis using that [OF l(1)] linkedD(3) [OF I(2) b] linked_single [OF I(2) _ p] p b l by auto
qed

lemma onConnectionClosed_inv:
  assumes inv: "server_inv os s"
  shows "server_inv os (onConnectionClosed o' k s)"
proof (cases "om_find (connections s) k")
  case (Some sc)
  note I = server_invD [OF inv]
  define lp where "lp = sc_listener sc"
  obtain l where l: "om_find (udpListeners s) lp = Some l" "om_find (ul_connections l) (sc_address sc) = Some k"
    "ul_tcpAddress l = no_address \<Longrightarrow> om_erase (sc_address sc) (ul_connections l) = []"
    using onConnectionClosed_cases [OF inv Some] unfolding lp_def by metis
  define l1 where "l1 = l\<lparr>ul_connections := om_erase (sc_address sc) (ul_connections l)\<rparr>"
  define s1 where "s1 = s\<lparr>udpListeners := om_put lp l1 (udpListeners s), connections := om_erase k (connections s)\<rparr>"
  define s2 where "s2 = store_shared lp (conn_delete (load_conn s1 sc)) s1"
  have t: "ul_tcpAddress l1 = ul_tcpAddress l" by (simp add: l1_def)
  have e: "onConnectionClosed o' k s =
      (if ul_tcpAddress l = no_address then onUdpListenerClosed o' 0 (ul_sock l1) lp False s2 else s2)"
    using Some l(1,2) t by (simp add: onConnectionClosed_def Let_def lp_def [symmetric] l1_def [symmetric] s1_def [symmetric] s2_def [symmetric])

  have book: "book_of s2 = (book_of s)(lp \<mapsto> (ul_tcpAddress l, om_erase (sc_address sc) (ul_connections l)))"
  proof -
    have "book_of s2 = book_of (s\<lparr>udpListeners := om_put lp l1 (udpListeners s)\<rparr>)"
      using I(6) by (simp add: s2_def s1_def)
    then show ?thesis using I(6) by (simp add: book_of_put l1_def)
  qed
  have inv2: "server_inv os s2"
  proof (rule server_invI)
    have p: "peer_of s k = Some (lp, sc_address sc)" using Some by (simp add: peer_of_def lp_def)
    have "peer_of s2 = (peer_of s)(k := None)" using I(7) by (auto simp: peer_of_def s2_def s1_def fun_eq_iff)
    then show "linked (peer_of s2) (book_of s2)" using linked_leave [OF I(2) book_of_find [OF l(1)] p] by (simp add: book)
    show "maps_ok s2" using I by (simp add: maps_ok_def s2_def s1_def)
    show "summary_exact s2" using I(3,7) Some by (simp add: summary_exact_def s2_def s1_def conn_delete_def load_conn_def)
    show "lives os s2" using I(4,7) by (auto simp: lives_def s2_def s1_def)
  qed
  have "server_inv os (onUdpListenerClosed o' 0 (ul_sock l1) lp False s2)" if "ul_tcpAddress l = no_address"
  proof -
    have "book_of s2 lp = Some (no_address, [])" using book l(3) [OF that] that by simp
    then obtain l2 where "om_find (udpListeners s2) lp = Some l2" "ul_connections l2 = []" by (auto simp: book_of_def)
    then show ?thesis by (rule onUdpListenerClosed_inv [OF inv2]) simp
  qed
  then show ?thesis using inv2 e by simp
qed (use inv in \<open>simp add: onConnectionClosed_def\<close>)

section \<open>The handlers\<close>

lemma tcp_put_inv: "server_inv os s \<Longrightarrow> server_inv os (s\<lparr>tcpListeners := om_put k l (tcpListeners s)\<rparr>)"
  by (rule server_inv_frame [of os s]) (use server_invD in auto)

lemma tick_inv: "server_inv os s \<Longrightarrow> server_inv os (server_tick s)"
  by (rule server_inv_frame [of os s]) (use server_invD in auto)

lemma received_packet_fresh: "received_packet bs n = new_packet\<lparr>p_data := p_data (received_packet bs n)\<rparr>"
  by (simp add: received_packet_def set_raw_size_def set_raw_data_def)

lemma udp_read_inv:
  assumes "server_inv os s" "clock_ok os" "check_crc32 (received_packet bs n)"
  shows "server_inv os (with_conn i (udp_read os (received_packet bs n)) s)"
proof (rule with_conn_inv [OF assms(1)], goal_cases)
  case (1 sc)
  then have "\<not> deleted (load_conn s sc)" by simp
  then have "life_step os (load_conn s sc) (udp_read os (new_packet\<lparr>p_data := p_data (received_packet bs n)\<rparr>) (load_conn s sc))"
    by (rule life_step.arrives) (use assms(2,3) received_packet_fresh [of bs n] in simp_all)
  then show ?case using 1 received_packet_fresh [of bs n] by simp
qed

text \<open>The invariant is kept by the handlers of the listeners, given a clock that shows positive times.\<close>

definition server_inv_clock :: "os \<Rightarrow> server \<Rightarrow> bool" where
  "server_inv_clock os s \<longleftrightarrow> server_inv os s \<and> clock_ok os"

interpretation handlers_inv: kept_by_handlers os "server_inv_clock os" for os
proof (unfold_locales, unfold server_inv_clock_def, goal_cases)
  case (1 s)
  then show ?case using server_invD(1) by blast
next
  case (3 s n)
  then show ?case using server_inv_frame [of os s "s\<lparr>sv_udpReceived := n\<rparr>"] server_invD [of os s] by simp
next
  case (5 s k l l')
  then show ?case using put_listener_inv by blast
next
  case (7 s lp l ptr client a)
  then show ?case using createConnection_inv by blast
qed (simp_all add: tick_inv tcp_put_inv createUdpListener_inv udp_read_inv)

lemma tcpListenerRead_inv:
  "server_inv os s \<Longrightarrow> objects_fresh f s \<Longrightarrow> clock_ok os \<Longrightarrow> server_inv os (tcpListenerRead os f acc k s)"
  using handlers_inv.tcp_read by (simp add: server_inv_clock_def)

lemma udpListenerRead_inv:
  "server_inv os s \<Longrightarrow> objects_fresh f s \<Longrightarrow> clock_ok os \<Longrightarrow> server_inv os (udpListenerRead os f r e k s)"
  using handlers_inv.udp_read by (simp add: server_inv_clock_def)

text \<open>Switching the close event off does not matter to \<open>onConnectionClosed\<close>.\<close>

lemma om_put_same: "om_ok m \<Longrightarrow> om_find m k = Some v \<Longrightarrow> om_put k v m = m"
proof (induction m)
  case (Cons kv m)
  then have "k \<in> set (om_keys m)" if "k \<noteq> fst kv" using that by (cases kv) (simp add: om_keys_find_aux)
  then show ?case using Cons by (cases kv) (fastforce simp: om_ok_Cons dest: order.asym)
qed simp

lemma om_erase_put: "om_erase k (om_put k v m) = om_erase k m"
  by (induction m) (auto simp: om_erase_def)

lemma close_event_off:
  assumes inv: "server_inv os s" and c: "om_find (connections s) k = Some sc"
  shows "onConnectionClosed o' k (with_conn k (ev_off EvClose) s) = onConnectionClosed o' k s"
proof -
  note I = server_invD [OF inv]
  obtain l where l: "om_find (udpListeners s) (sc_listener sc) = Some l" by (rule onConnectionClosed_cases [OF inv c])
  define c' where "c' = ev_off EvClose (load_conn s sc)"
  have "om_put (sc_listener sc) (l\<lparr>ul_sock := udpSocket c'\<rparr>) (udpListeners s) = udpListeners s"
    by (rule om_put_same) (use I(6) l in \<open>simp_all add: c'_def load_conn_def ev_off_def\<close>)
  then have "store_shared (sc_listener sc) c' s = s"
    by (simp add: store_shared_def l) (simp add: c'_def load_conn_def ev_off_def)
  then have w: "with_conn k (ev_off EvClose) s = s\<lparr>connections := om_put k (sc\<lparr>sc_conn := c'\<rparr>) (connections s)\<rparr>"
    by (simp add: with_conn_def c Let_def c'_def [symmetric])
  have d: "store_shared lp (conn_delete (load_conn s1 (sc\<lparr>sc_conn := c'\<rparr>))) s1 = store_shared lp (conn_delete (load_conn s1 sc)) s1"
    if "om_find (udpListeners s1) (sc_listener sc) \<noteq> None" for lp s1
    using that by (auto simp: store_shared_def conn_delete_def load_conn_def c'_def ev_off_def split: option.split)
  show ?thesis using c I(6,7) l unfolding w
    by (simp add: onConnectionClosed_def om_erase_put Let_def d)
qed

lemma connectionEvent_inv:
  assumes inv: "server_inv os s" and c: "om_find (connections s) k = Some sc" "ev_enabled e (sc_conn sc)" and clock: "clock_ok os"
  shows "server_inv os (connectionEvent os e k s)"
proof (cases "e = EvClose")
  case True
  then show ?thesis using onConnectionClosed_inv [OF inv] close_event_off [OF inv c(1)] by (simp add: connectionEvent_def)
next
  case False
  have "server_inv os (with_conn k (raise_conn_event os e) s)"
  proof (rule with_conn_inv [OF inv], goal_cases)
    case (1 sc')
    then show ?case using False c clock life_step.raised [of "load_conn s sc'" e os] by (simp add: ev_enabled_def)
  qed
  then show ?thesis using False by (simp add: connectionEvent_def)
qed

section \<open>Every reachable state\<close>

text \<open>The steps of a server: an enabled and ready event of a listener or of a connection is raised, a socket is
  polled, a listener is created. New objects lie where no live object does.\<close>

definition tcp_event_due :: "listener_event \<Rightarrow> tcp_listener \<Rightarrow> bool" where
  "tcp_event_due e l = (case e of ListenerRead \<Rightarrow> 0 \<le> tl_evRead l \<and> s_read (tl_sock l)
     | ListenerClose \<Rightarrow> 0 \<le> tl_evClose l \<and> s_close (tl_sock l))"

definition udp_event_due :: "listener_event \<Rightarrow> udp_listener \<Rightarrow> bool" where
  "udp_event_due e l = (case e of ListenerRead \<Rightarrow> 0 \<le> ul_evRead l \<and> s_read (ul_sock l)
     | ListenerClose \<Rightarrow> 0 \<le> ul_evClose l \<and> s_close (ul_sock l))"

text \<open>The input of a step: what \<open>recvfrom\<close> returns to the read handler of a udp listener.\<close>

datatype input = Datagram nat "(bytes \<times> address) option" | NoInput

inductive server_act :: "os \<Rightarrow> input \<Rightarrow> server \<Rightarrow> server \<Rightarrow> bool" for os where
  tcp_event: "om_find (tcpListeners s) k = Some l \<Longrightarrow> tcp_event_due e l \<Longrightarrow> objects_fresh f s \<Longrightarrow> clock_ok os \<Longrightarrow>
     server_act os NoInput s (tcpListenerEvent os f acc e k s)"
| udp_read: "om_find (udpListeners s) k = Some l \<Longrightarrow> udp_event_due ListenerRead l \<Longrightarrow> objects_fresh f s \<Longrightarrow> clock_ok os \<Longrightarrow>
     server_act os (Datagram k r) s (udpListenerEvent os f r err ListenerRead k s)"
| udp_close: "om_find (udpListeners s) k = Some l \<Longrightarrow> udp_event_due ListenerClose l \<Longrightarrow> objects_fresh f s \<Longrightarrow> clock_ok os \<Longrightarrow>
     server_act os NoInput s (udpListenerEvent os f r err ListenerClose k s)"
| conn_event: "om_find (connections s) k = Some sc \<Longrightarrow> ev_enabled e (sc_conn sc) \<Longrightarrow> clock_ok os \<Longrightarrow>
     server_act os NoInput s (connectionEvent os e k s)"
| poll_conn: "om_find (connections s) k = Some sc \<Longrightarrow>
     server_act os NoInput s (with_conn k (\<lambda>c. c\<lparr>tcpSocket := poll_socket b (tcpSocket c)\<rparr>) s)"
| poll_tcp: "om_find (tcpListeners s) k = Some l \<Longrightarrow>
     server_act os NoInput s (s\<lparr>tcpListeners := om_put k (l\<lparr>tl_sock := poll_socket b (tl_sock l)\<rparr>) (tcpListeners s)\<rparr>)"
| poll_udp: "om_find (udpListeners s) k = Some l \<Longrightarrow>
     server_act os NoInput s (s\<lparr>udpListeners := om_put k (l\<lparr>ul_sock := poll_socket b (ul_sock l)\<rparr>) (udpListeners s)\<rparr>)"
| new_tcp: "objects_fresh f s \<Longrightarrow> server_act os NoInput s (createTcpListener os (f_listener f) (f_listenerSock f) t u s)"
| new_udp: "objects_fresh f s \<Longrightarrow> server_act os NoInput s (createUdpListener os (f_listener f) (f_listenerSock f) u t s)"
| new_test: "server_act os NoInput s (createTestListener ptr t s)"
| begins: "server_act os NoInput s (server_begin s)"

inductive_cases server_actE: "server_act os x s s'"

definition server_step :: "os \<Rightarrow> server \<Rightarrow> server \<Rightarrow> bool" where
  "server_step os s s' \<longleftrightarrow> (\<exists>x. server_act os x s s')"

lemma server_stepI: "server_act os x s s' \<Longrightarrow> server_step os s s'"
  unfolding server_step_def by blast

definition server_start :: "server \<Rightarrow> bool" where
  "server_start s \<longleftrightarrow> tcpListeners s = [] \<and> udpListeners s = [] \<and> connections s = [] \<and>
     udpSummaryConnectionsSendIntervalUs s = 0"

lemma objects_fresh_put:
  "om_ok (tcpListeners s) \<Longrightarrow> om_find (tcpListeners s) k = Some l \<Longrightarrow> objects_fresh f s \<Longrightarrow>
     objects_fresh f (s\<lparr>tcpListeners := om_put k l' (tcpListeners s)\<rparr>)"
  "om_ok (udpListeners s) \<Longrightarrow> om_find (udpListeners s) k = Some u \<Longrightarrow> objects_fresh f s \<Longrightarrow>
     objects_fresh f (s\<lparr>udpListeners := om_put k u' (udpListeners s)\<rparr>)"
  by (auto simp: objects_fresh_def)

lemma tcpListenerEvent_inv:
  assumes inv: "server_inv os s" and l: "om_find (tcpListeners s) k = Some l" and f: "objects_fresh f s" and clock: "clock_ok os"
  shows "server_inv os (tcpListenerEvent os f acc e k s)"
  using tcpListenerRead_inv [OF tcp_put_inv [OF inv] objects_fresh_put(1) [OF server_invD(5) [OF inv] l f] clock]
    onTcpListenerClosed_inv [OF tcp_put_inv [OF inv]] l server_invD(5) [OF inv]
  by (simp add: tcpListenerEvent_def tcpListenerClose_def split: listener_event.split)

lemma udpListenerEvent_inv:
  assumes inv: "server_inv os s" and l: "om_find (udpListeners s) k = Some l" and f: "objects_fresh f s" and clock: "clock_ok os"
  shows "server_inv os (udpListenerEvent os f r err e k s)"
proof (cases e)
  case ListenerRead
  have "server_inv os (s\<lparr>udpListeners := om_put k (l\<lparr>ul_evRead := set_time_value (ul_evRead l) (-1) True\<rparr>) (udpListeners s)\<rparr>)"
    by (rule put_listener_inv [OF inv l]) simp_all
  then show ?thesis
    using udpListenerRead_inv [OF _ objects_fresh_put(2) [OF server_invD(6) [OF inv] l f] clock] l ListenerRead
    by (simp add: udpListenerEvent_def)
next
  case ListenerClose
  define l' where "l' = l\<lparr>ul_evClose := set_time_value (ul_evClose l) (-1) True\<rparr>"
  define s' where "s' = s\<lparr>udpListeners := om_put k l' (udpListeners s)\<rparr>"
  have inv': "server_inv os s'" unfolding s'_def by (rule put_listener_inv [OF inv l]) (simp_all add: l'_def)
  have ok: "om_ok (udpListeners s)" using server_invD(6) [OF inv] .
  have l': "om_find (udpListeners s') k = Some l'" "om_find (udpListeners s') (f_listener f) = None"
    using ok l f by (auto simp: s'_def objects_fresh_def)
  have "server_inv os (onUdpListenerClosed os (f_listener f) (f_listenerSock f) k err' s')" if "ul_connections l' = []" for err'
    by (rule onUdpListenerClosed_inv [OF inv' l'(1) that l'(2)])
  moreover have "udpListenerEvent os f r err e k s = udpListenerClose os f k s'"
    using l ListenerClose by (simp add: udpListenerEvent_def s'_def l'_def)
  ultimately show ?thesis using inv' l'(1) by (simp add: udpListenerClose_def)
qed

lemma server_act_inv: "server_inv os s \<Longrightarrow> server_act os x s s' \<Longrightarrow> server_inv os s'"
proof (erule server_actE, goal_cases)
  case (5 k sc b)
  show ?case unfolding 5(3)
    by (rule with_conn_inv [OF 5(1)]) (use life_step.polls in \<open>simp add: others_def\<close>)
next
  case (7 k l b)
  show ?case unfolding 7(3) by (rule put_listener_inv [OF 7(1,4)]) simp_all
next
  case (9 f t u)
  then show ?case using createUdpListener_inv by (simp add: objects_fresh_def)
qed (simp_all add: tcpListenerEvent_inv udpListenerEvent_inv connectionEvent_inv tcp_put_inv createTcpListener_inv createTestListener_inv server_begin_inv)

lemma server_inv_step: "server_inv os s \<Longrightarrow> server_step os s s' \<Longrightarrow> server_inv os s'"
  using server_act_inv unfolding server_step_def by blast

lemma server_inv_start: "server_start s \<Longrightarrow> server_inv os s"
  by (simp add: server_start_def server_inv_def maps_ok_def linked_def summary_exact_def lives_def peer_of_def book_of_def)

interpretation serving: invariant_system server_start "server_step os" "server_inv os" for os
  by unfold_locales (auto simp: server_inv_start server_inv_step)

text \<open>C30: in every reachable state of the server the pointers between connections and listeners agree: a
  connection's listener is alive and finds the connection under the address of its peer, what a listener's map
  holds are live connections of that listener with that address, and a listener without a tcp address, which is
  deleted together with its connection, never has a second one.\<close>

theorem server_registry:
  assumes "server_start s0" "(server_step os)\<^sup>*\<^sup>* s0 s"
  shows "(\<forall>k sc. om_find (connections s) k = Some sc \<longrightarrow>
      (\<exists>l. om_find (udpListeners s) (sc_listener sc) = Some l \<and> connectionByAddress (sc_address sc) l = Some k)) \<and>
    (\<forall>lp l a k. om_find (udpListeners s) lp = Some l \<longrightarrow> connectionByAddress a l = Some k \<longrightarrow>
      (\<exists>sc. om_find (connections s) k = Some sc \<and> sc_listener sc = lp \<and> sc_address sc = a)) \<and>
    (\<forall>lp l. om_find (udpListeners s) lp = Some l \<longrightarrow> ul_tcpAddress l = no_address \<longrightarrow> length (ul_connections l) \<le> 1)"
proof -
  have L: "linked (peer_of s) (book_of s)" using serving.reachable_inv [OF assms] by (simp add: server_inv_def)
  show ?thesis
  proof (intro conjI allI impI)
    fix k sc assume "om_find (connections s) k = Some sc"
    then have p: "peer_of s k = Some (sc_listener sc, sc_address sc)" by (simp add: peer_of_def)
    then obtain t m where "book_of s (sc_listener sc) = Some (t, m)" using linkedD(4) [OF L] by blast
    then show "\<exists>l. om_find (udpListeners s) (sc_listener sc) = Some l \<and> connectionByAddress (sc_address sc) l = Some k"
      using linkedD(3) [OF L] p by (fastforce simp: book_of_def connectionByAddress_def)
  next
    fix lp l a k assume "om_find (udpListeners s) lp = Some l" "connectionByAddress a l = Some k"
    then show "\<exists>sc. om_find (connections s) k = Some sc \<and> sc_listener sc = lp \<and> sc_address sc = a"
      using linkedD(3) [OF L book_of_find] by (auto simp: peer_of_def connectionByAddress_def)
  next
    fix lp l assume "om_find (udpListeners s) lp = Some l" "ul_tcpAddress l = no_address"
    then show "length (ul_connections l) \<le> 1" using linkedD(2) [OF L] book_of_find by metis
  qed
qed

text \<open>C33: \<open>udpSummaryConnectionsSendIntervalUs\<close> is in every reachable state the sum of the send intervals of the
  connections, although every connection updates it on its own when it is opened, deleted, or changes its rate.\<close>

theorem server_summary:
  assumes "server_start s0" "(server_step os)\<^sup>*\<^sup>* s0 s"
  shows "udpSummaryConnectionsSendIntervalUs s = om_sum (\<lambda>sc. udpSendIntervalUs (sc_conn sc)) (connections s)"
  using serving.reachable_inv [OF assms] by (simp add: server_inv_def summary_exact_def)

text \<open>C31: the server runs each connection as a connection of its own: whatever the listeners and the other
  connections do, a connection of a reachable server is in a state that it can reach alone against an
  arbitrary peer, and has not been deleted.\<close>

theorem server_refines_connections:
  assumes "server_start s0" "(server_step os)\<^sup>*\<^sup>* s0 s" "om_find (connections s) k = Some sc"
  shows "\<not> deleted (sc_conn sc) \<and> (\<exists>c0. life_start c0 \<and> (life_step os)\<^sup>*\<^sup>* c0 (sc_conn sc))"
  by (rule livesD [OF server_invD(4) [OF serving.reachable_inv [OF assms(1,2)]] assms(3)])

end
