(* ===== verification/Server_Runs.thy ===== *)
theory Server_Runs
  imports Server_Registry
begin

text \<open>
  Runs of the server: what the destructor leaves, what a datagram does, the close event that is lost (a second
  instance of \<open>kept_by_handlers\<close>), and a sample run on which the properties are applied.
\<close>

section \<open>The destructor\<close>

lemma onConnectionClosed_connections:
  assumes inv: "server_inv os s" and c: "om_find (connections s) k = Some sc"
  shows "connections (onConnectionClosed o' k s) = om_erase k (connections s)"
proof -
  obtain l where "om_find (udpListeners s) (sc_listener sc) = Some l" by (rule onConnectionClosed_cases [OF inv c])
  then show ?thesis using c by (simp add: onConnectionClosed_def onUdpListenerClosed_def Let_def split: option.split)
qed

lemma om_erase_head: "om_ok ((k, v) # m) \<Longrightarrow> om_erase k ((k, v) # m) = m"
  by (auto simp: om_ok_Cons om_erase_def om_keys_def filter_id_conv)

lemma close_connections_done:
  "server_inv os s \<Longrightarrow> length (connections s) \<le> n \<Longrightarrow>
     server_inv os (close_connections o' n s) \<and> connections (close_connections o' n s) = []"
proof (induction n arbitrary: s)
  case (Suc n)
  show ?case
  proof (cases "connections s")
    case (Cons kc m)
    obtain k c where kc: "kc = (k, c)" by fastforce
    have ok: "om_ok ((k, c) # m)" using server_invD(7) [OF Suc.prems(1)] Cons kc by simp
    have "om_find (connections s) k = Some c" using Cons kc by simp
    then have "connections (onConnectionClosed o' k s) = m"
      using onConnectionClosed_connections [OF Suc.prems(1)] Cons kc om_erase_head [OF ok] by simp
    then show ?thesis using Suc.IH [OF onConnectionClosed_inv [OF Suc.prems(1)]] Suc.prems(2) Cons kc by simp
  qed (use Suc.prems in simp)
qed simp

lemma close_tcp_listeners_done:
  "server_inv os s \<Longrightarrow> length (tcpListeners s) \<le> n \<Longrightarrow>
     server_inv os (close_tcp_listeners o' n s) \<and> tcpListeners (close_tcp_listeners o' n s) = [] \<and>
     connections (close_tcp_listeners o' n s) = connections s"
proof (induction n arbitrary: s)
  case (Suc n)
  show ?case
  proof (cases "tcpListeners s")
    case (Cons kl m)
    obtain k l where kl: "kl = (k, l)" by fastforce
    have ok: "om_ok ((k, l) # m)" using server_invD(5) [OF Suc.prems(1)] Cons kl by simp
    have "tcpListeners (onTcpListenerClosed o' 0 (tl_sock l) k False s) = m"
      "connections (onTcpListenerClosed o' 0 (tl_sock l) k False s) = connections s"
      using Cons kl om_erase_head [OF ok] by (simp_all add: onTcpListenerClosed_def Let_def)
    then show ?thesis using Suc.IH [OF onTcpListenerClosed_inv [OF Suc.prems(1)]] Suc.prems(2) Cons kl by simp
  qed (use Suc.prems in simp)
qed simp

lemma close_udp_listeners_done:
  "om_ok (udpListeners s) \<Longrightarrow> length (udpListeners s) \<le> n \<Longrightarrow>
     udpListeners (close_udp_listeners o' n s) = [] \<and> tcpListeners (close_udp_listeners o' n s) = tcpListeners s \<and>
     connections (close_udp_listeners o' n s) = connections s \<and>
     udpSummaryConnectionsSendIntervalUs (close_udp_listeners o' n s) = udpSummaryConnectionsSendIntervalUs s"
proof (induction n arbitrary: s)
  case (Suc n)
  show ?case
  proof (cases "udpListeners s")
    case (Cons kl m)
    obtain k l where kl: "kl = (k, l)" by fastforce
    have ok: "om_ok ((k, l) # m)" using Suc.prems(1) Cons kl by simp
    have "onUdpListenerClosed o' 0 (ul_sock l) k False s = s\<lparr>udpListeners := m\<rparr>"
      using Cons kl om_erase_head [OF ok] by (simp add: onUdpListenerClosed_def Let_def)
    then show ?thesis using Suc.IH [of "s\<lparr>udpListeners := m\<rparr>"] Suc.prems(2) Cons kl ok by (simp add: om_ok_Cons)
  qed (use Suc.prems in simp)
qed simp

lemma server_destroy_done:
  assumes inv: "server_inv os s"
  shows "\<not> server_alive (server_destroy o' s) \<and> udpSummaryConnectionsSendIntervalUs (server_destroy o' s) = 0"
proof -
  define s1 where "s1 = close_connections o' (length (connections s)) s"
  define s2 where "s2 = close_tcp_listeners o' (length (tcpListeners s1)) s1"
  define s3 where "s3 = close_udp_listeners o' (length (udpListeners s2)) s2"
  have 1: "server_inv os s1" "connections s1 = []" using close_connections_done [OF inv] by (simp_all add: s1_def)
  then have 2: "server_inv os s2" "tcpListeners s2 = []" "connections s2 = []"
    using close_tcp_listeners_done [OF 1(1)] by (simp_all add: s2_def)
  have "udpSummaryConnectionsSendIntervalUs s2 = 0" using server_invD(3) [OF 2(1)] 2(3) by (simp add: summary_exact_def)
  then show ?thesis using close_udp_listeners_done [OF server_invD(6) [OF 2(1)] order_refl, of o'] 2
    by (simp add: server_destroy_def Let_def s1_def [symmetric] s2_def [symmetric] s3_def server_alive_def)
qed

text \<open>C35: the destructor of the server, run in any reachable state, ends with no connection and no listener
  left, and everything the connections had added to the summary interval has been taken back.\<close>

theorem server_destroy_ends:
  assumes "server_start s0" "(server_step os)\<^sup>*\<^sup>* s0 s"
  shows "\<not> server_alive (server_destroy o' s) \<and> udpSummaryConnectionsSendIntervalUs (server_destroy o' s) = 0"
  by (rule server_destroy_done [OF serving.reachable_inv [OF assms]])

section \<open>A lost close event\<close>

text \<open>A listener of the server side whose close event is switched off.\<close>

definition stuck :: "nat \<Rightarrow> server \<Rightarrow> bool" where
  "stuck k s \<longleftrightarrow> (\<exists>l. om_find (udpListeners s) k = Some l \<and> ul_evClose l < 0 \<and> ul_tcpAddress l \<noteq> no_address \<and> s_close (ul_sock l))"

lemma stuck_cong: "udpListeners s' = udpListeners s \<Longrightarrow> stuck k s' = stuck k s"
  by (simp add: stuck_def)

lemma stuck_more [simp]:
  "stuck k (s\<lparr>connections := x1\<rparr>) = stuck k s" "stuck k (s\<lparr>tcpListeners := x2\<rparr>) = stuck k s"
  "stuck k (s\<lparr>sv_udpReceived := n\<rparr>) = stuck k s" "stuck k (s\<lparr>lastObjectIndex := n\<rparr>) = stuck k s"
  "stuck k (s\<lparr>testListeners := x3\<rparr>) = stuck k s" "stuck k (server_tick s) = stuck k s"
  "stuck k (s\<lparr>test := b\<rparr>) = stuck k s"
  by (simp_all add: stuck_def)

lemma stuck_put:
  assumes "om_ok (udpListeners s)" "stuck k s"
    and "\<And>l. lp = k \<Longrightarrow> om_find (udpListeners s) k = Some l \<Longrightarrow> ul_evClose l' = ul_evClose l \<and> ul_tcpAddress l' = ul_tcpAddress l \<and>
      (s_close (ul_sock l) \<longrightarrow> s_close (ul_sock l'))"
  shows "stuck k (s\<lparr>udpListeners := om_put lp l' (udpListeners s)\<rparr>)"
  using assms by (cases "lp = k") (auto simp: stuck_def)

lemma stuck_store:
  assumes "om_ok (udpListeners s)" "stuck k s" "\<And>l. om_find (udpListeners s) lp = Some l \<Longrightarrow> s_close (ul_sock l) \<Longrightarrow> s_close (udpSocket c)"
  shows "stuck k (store_shared lp c s)"
  using assms by (cases "lp = k") (auto simp: stuck_def store_shared_def split: option.split)

lemma stuck_tcp_listener: "stuck k s \<Longrightarrow> stuck k (createTcpListener o' ptr sk t u s)"
  by (simp add: createTcpListener_def stuck_def Let_def server_tick_def)

lemma stuck_udp_listener:
  "om_ok (udpListeners s) \<Longrightarrow> stuck k s \<Longrightarrow> ptr \<noteq> k \<Longrightarrow> stuck k (createUdpListener o' ptr sk u t s)"
  by (simp add: createUdpListener_def stuck_def Let_def server_tick_def)

lemma stuck_erase: "stuck k s \<Longrightarrow> lp \<noteq> k \<Longrightarrow> stuck k (s\<lparr>udpListeners := om_erase lp (udpListeners s)\<rparr>)"
  by (simp add: stuck_def om_find_erase_aux)

lemma closed_sending [simp]:
  "s_close (snd (sock_writeto r n sk)) = s_close sk" "s_close (udpSocket (snd (send_datagram os p c))) = s_close (udpSocket c)"
  by (simp_all add: sock_writeto_def send_datagram_def split: option.split prod.split)

lemma closed_write [simp]:
  "s_close (udpSocket (write_confirmation os t p c)) = s_close (udpSocket c)"
  "s_close (udpSocket (write_sent_packet os t k p c)) = s_close (udpSocket c)"
  by (simp_all add: write_confirmation_def write_sent_packet_def on_udp_sent_def Let_def split_def tick_def split: option.split)

lemma closed_handle [simp]: "s_close (udpSocket (raise_conn_event os e c)) = s_close (udpSocket c)"
proof -
  have "udpSocket (write_loop os n c) = udpSocket c" for n c
    by (induction n arbitrary: c) (simp_all add: Let_def split: option.split)
  then show ?thesis
    by (simp add: raise_conn_event_def handle_def tcp_write_def udp_write_def conn_delete_def split: conn_event.split list.split option.split)
qed

lemma udp_read_socket [simp]: "udpSocket (udp_read os p c) = udpSocket c"
  by (simp add: udp_read_def udp_dispatch_def Let_def)

lemma closed_poll: "s_close sk \<Longrightarrow> s_close (poll_socket b sk)"
  by (simp add: poll_socket_def close_write_def close_read_def sock_close_def Let_def)

lemma load_conn_socket: "om_find (udpListeners s) (sc_listener sc) = Some l \<Longrightarrow> udpSocket (load_conn s sc) = ul_sock l"
  by (simp add: load_conn_def)

lemma stuck_with_conn:
  assumes "om_ok (udpListeners s)" "stuck k s" "\<And>c. s_close (udpSocket c) \<Longrightarrow> s_close (udpSocket (f c))"
  shows "stuck k (with_conn i f s)"
proof (cases "om_find (connections s) i")
  case (Some sc)
  have "stuck k (store_shared (sc_listener sc) (f (load_conn s sc)) s)"
    by (rule stuck_store [OF assms(1,2)]) (simp add: assms(3) load_conn_socket)
  then show ?thesis by (simp add: with_conn_def Some Let_def)
qed (use assms in \<open>simp add: with_conn_def\<close>)

lemma stuck_createConnection:
  assumes ok: "om_ok (udpListeners s)" and st: "stuck k s" and l: "om_find (udpListeners s) lp = Some l"
  shows "stuck k (snd (createConnection o' ptr client lp l a s))"
proof (cases "connectionByAddress a l")
  case None
  obtain x s' where r: "createConnection o' ptr client lp l a s = (x, s')" by fastforce
  have "udpListeners s' = om_put lp (l\<lparr>ul_connections := om_put a ptr (ul_connections l)\<rparr>) (udpListeners s)"
    using createConnection_new [OF l None r] by metis
  then show ?thesis using st ok l by (auto simp: stuck_def r)
qed (use st in \<open>simp add: createConnection_known\<close>)

definition stuck_inv :: "os \<Rightarrow> nat \<Rightarrow> server \<Rightarrow> bool" where
  "stuck_inv os k s \<longleftrightarrow> server_inv os s \<and> clock_ok os \<and> stuck k s"

interpretation stuck: kept_by_handlers os "stuck_inv os k" for os k
proof (unfold_locales, unfold stuck_inv_def, goal_cases)
  case (1 s)
  then show ?case using server_invD by blast
next
  case (2 s)
  then show ?case using tick_inv by simp
next
  case (3 s n)
  then show ?case using handlers_inv.count [of os s n] by (simp add: server_inv_clock_def)
next
  case (4 s k' t)
  then show ?case using tcp_put_inv by simp
next
  case (5 s j l l')
  have "stuck k (s\<lparr>udpListeners := om_put j l' (udpListeners s)\<rparr>)"
    by (rule stuck_put) (use 5 server_invD(6) in auto)
  then show ?case using 5 put_listener_inv by blast
next
  case (6 s ptr sk u a)
  then have "ptr \<noteq> k" by (auto simp: stuck_def)
  then show ?case using 6 createUdpListener_inv stuck_udp_listener server_invD(6) by blast
next
  case (7 s lp l ptr client a)
  then show ?case using createConnection_inv stuck_createConnection server_invD(6) by blast
next
  case (8 s bs n i)
  have "stuck k (with_conn i (udp_read os (received_packet bs n)) s)"
    by (rule stuck_with_conn [OF server_invD(6)]) (use 8 in auto)
  then show ?case using 8 udp_read_inv by blast
qed

lemma stuck_udp_closed:
  assumes ok: "om_ok (udpListeners s)" and st: "stuck k s" "lp \<noteq> k" "ptr \<noteq> k"
  shows "stuck k (onUdpListenerClosed o' ptr sk lp err s)"
proof -
  let ?s = "s\<lparr>udpListeners := om_erase lp (udpListeners s)\<rparr>"
  have "stuck k ?s" "om_ok (udpListeners ?s)" using stuck_erase st ok by simp_all
  then show ?thesis using st stuck_udp_listener [of ?s k ptr] by (simp add: onUdpListenerClosed_def Let_def split: option.split)
qed

lemma stuck_connection_closed:
  assumes inv: "server_inv os s" and st: "stuck k s"
  shows "stuck k (onConnectionClosed o' i s)"
proof (cases "om_find (connections s) i")
  case (Some sc)
  note ok = server_invD(6) [OF inv]
  define lp where "lp = sc_listener sc"
  obtain l where l: "om_find (udpListeners s) lp = Some l" "om_find (ul_connections l) (sc_address sc) = Some i"
    using onConnectionClosed_cases [OF inv Some] unfolding lp_def by metis
  define l1 where "l1 = l\<lparr>ul_connections := om_erase (sc_address sc) (ul_connections l)\<rparr>"
  define s1 where "s1 = s\<lparr>udpListeners := om_put lp l1 (udpListeners s), connections := om_erase i (connections s)\<rparr>"
  define s2 where "s2 = store_shared lp (conn_delete (load_conn s1 sc)) s1"
  have t: "ul_tcpAddress l1 = ul_tcpAddress l" by (simp add: l1_def)
  have e: "onConnectionClosed o' i s =
      (if ul_tcpAddress l = no_address then onUdpListenerClosed o' 0 (ul_sock l1) lp False s2 else s2)"
    using Some l(1,2) t by (simp add: onConnectionClosed_def Let_def lp_def [symmetric] l1_def [symmetric] s1_def [symmetric] s2_def [symmetric])
  have "stuck k (s\<lparr>udpListeners := om_put lp l1 (udpListeners s)\<rparr>)"
    by (rule stuck_put [OF ok st]) (use l in \<open>auto simp: l1_def\<close>)
  then have "stuck k s1" "om_ok (udpListeners s1)" using ok by (simp_all add: s1_def stuck_def)
  then have s2: "stuck k s2" "om_ok (udpListeners s2)"
    unfolding s2_def using stuck_store [of s1 k lp "conn_delete (load_conn s1 sc)"]
    by (simp_all add: load_conn_def conn_delete_def lp_def [symmetric])
  have "stuck k (s2\<lparr>udpListeners := om_erase lp (udpListeners s2)\<rparr>)" if "ul_tcpAddress l = no_address"
    by (rule stuck_erase [OF s2(1)]) (use st l(1) that in \<open>auto simp: stuck_def\<close>)
  then show ?thesis using s2 e by (auto simp: onUdpListenerClosed_def Let_def split: option.split)
qed (use st in \<open>simp add: onConnectionClosed_def\<close>)

lemma stuck_listener_event:
  assumes s: "stuck_inv os k s" and l: "om_find (udpListeners s) j = Some l" and due: "udp_event_due e l"
    and f: "objects_fresh f s"
  shows "stuck k (udpListenerEvent os f r err e j s)"
proof (cases e)
  note ok = stuck.maps [OF s, unfolded maps_ok_def]
  case ListenerRead
  let ?s = "s\<lparr>udpListeners := om_put j (l\<lparr>ul_evRead := set_time_value (ul_evRead l) (-1) True\<rparr>) (udpListeners s)\<rparr>"
  have "stuck_inv os k ?s" by (rule stuck.udp_put [OF s l]) simp_all
  then have "stuck_inv os k (udpListenerRead os f r err j ?s)"
    by (rule stuck.udp_read) (rule objects_fresh_put(2) [OF _ l f], use ok in simp)
  then show ?thesis using ListenerRead l by (simp add: udpListenerEvent_def stuck_inv_def)
next
  note ok = stuck.maps [OF s, unfolded maps_ok_def]
  case ListenerClose
  have j: "j \<noteq> k" using s l due ListenerClose by (auto simp: stuck_inv_def stuck_def udp_event_due_def)
  define l' where "l' = l\<lparr>ul_evClose := set_time_value (ul_evClose l) (-1) True\<rparr>"
  define s' where "s' = s\<lparr>udpListeners := om_put j l' (udpListeners s)\<rparr>"
  have s': "stuck k s'" "om_ok (udpListeners s')" using s j ok by (auto simp: s'_def stuck_inv_def stuck_def)
  have "f_listener f \<noteq> k" using s f by (auto simp: stuck_inv_def stuck_def objects_fresh_def)
  then have "stuck k (onUdpListenerClosed os (f_listener f) (f_listenerSock f) j e' s')" for e'
    using stuck_udp_closed [OF s'(2,1) j] by blast
  moreover have "udpListenerEvent os f r err e j s = udpListenerClose os f j s'"
    using l ListenerClose by (simp add: udpListenerEvent_def s'_def l'_def)
  ultimately show ?thesis using s' by (simp add: udpListenerClose_def split: option.split)
qed

lemma stuck_tcp_event:
  assumes s: "stuck_inv os k s" and l: "om_find (tcpListeners s) j = Some l" and f: "objects_fresh f s"
  shows "stuck k (tcpListenerEvent os f acc e j s)"
proof (cases e)
  note ok = stuck.maps [OF s, unfolded maps_ok_def]
  case ListenerRead
  let ?s = "s\<lparr>tcpListeners := om_put j (l\<lparr>tl_evRead := set_time_value (tl_evRead l) (-1) True\<rparr>) (tcpListeners s)\<rparr>"
  have "stuck_inv os k (tcpListenerRead os f acc j ?s)"
    by (rule stuck.tcp_read [OF stuck.tcp_put [OF s]]) (rule objects_fresh_put(1) [OF _ l f], use ok in simp)
  then show ?thesis using ListenerRead l by (simp add: tcpListenerEvent_def stuck_inv_def)
next
  case ListenerClose
  then show ?thesis using s l
    by (simp add: stuck_inv_def tcpListenerEvent_def tcpListenerClose_def onTcpListenerClosed_def Let_def stuck_tcp_listener
        split: option.split)
qed

lemma stuck_act:
  assumes "server_inv os s" "stuck k s" "server_act os x s s'"
  shows "stuck k s'"
proof -
  have ok: "om_ok (udpListeners s)" using server_invD(6) [OF assms(1)] .
  have neq: "objects_fresh f s \<Longrightarrow> f_listener f \<noteq> k" for f using assms(2) by (auto simp: stuck_def objects_fresh_def)
  show ?thesis using assms(3)
  proof (cases rule: server_act.cases)
    case (tcp_event j l e f acc)
    then show ?thesis using stuck_tcp_event assms(1,2) by (simp add: stuck_inv_def)
  next
    case (udp_read j l f r err)
    then show ?thesis using stuck_listener_event assms(1,2) by (simp add: stuck_inv_def)
  next
    case (udp_close j l f r err)
    then show ?thesis using stuck_listener_event assms(1,2) by (simp add: stuck_inv_def)
  next
    case (conn_event i sc e)
    then show ?thesis using stuck_with_conn [OF ok assms(2)] stuck_connection_closed [OF assms(1,2)] close_event_off [OF assms(1)]
      by (simp add: connectionEvent_def)
  next
    case (poll_conn i sc b)
    then show ?thesis using stuck_with_conn [OF ok assms(2)] by simp
  next
    case (poll_udp j l b)
    show ?thesis unfolding poll_udp(2) by (rule stuck_put [OF ok assms(2)]) (use poll_udp in \<open>auto simp: closed_poll\<close>)
  next
    case (new_udp f u t)
    then show ?thesis using stuck_udp_listener [OF ok assms(2)] neq by simp
  qed (use assms(2) in \<open>simp_all add: stuck_tcp_listener createTestListener_def server_begin_def\<close>)
qed

lemma stuck_step: "server_inv os s \<Longrightarrow> stuck k s \<Longrightarrow> server_step os s s' \<Longrightarrow> stuck k s'"
  using stuck_act unfolding server_step_def by blast

lemma stuck_run: "(server_step os)\<^sup>*\<^sup>* s s' \<Longrightarrow> server_inv os s \<Longrightarrow> stuck k s \<Longrightarrow> stuck k s'"
proof (induction rule: rtranclp_induct)
  case (step u v)
  have "server_inv os u" using serving.run_inv [OF step.hyps(1) step.prems(1)] .
  then show ?case using step.IH [OF step.prems] stuck_step step.hyps(2) by blast
qed

text \<open>C36: a listener of the server side whose socket closes while it has connections is lost: its close event is
  used up and ignored, and however the server goes on, even when all its connections have ended, the listener stays
  with its closed socket, is never opened anew, and keeps the server running.\<close>

theorem close_event_lost:
  assumes "server_start s0" "(server_step os)\<^sup>*\<^sup>* s0 s" "om_find (udpListeners s) k = Some l" "ul_tcpAddress l \<noteq> no_address"
    "ul_connections l \<noteq> []" "udp_event_due ListenerClose l"
    "(server_step os)\<^sup>*\<^sup>* (udpListenerEvent os f r err ListenerClose k s) s'"
  shows "(\<exists>l'. om_find (udpListeners s') k = Some l' \<and> ul_evClose l' < 0 \<and> s_close (ul_sock l')) \<and> server_alive s'"
proof -
  have inv: "server_inv os s" using serving.reachable_inv [OF assms(1,2)] .
  let ?l = "l\<lparr>ul_evClose := set_time_value (ul_evClose l) (-1) True\<rparr>"
  let ?s = "s\<lparr>udpListeners := om_put k ?l (udpListeners s)\<rparr>"
  have e: "udpListenerEvent os f r err ListenerClose k s = ?s"
    using assms(3,5) server_invD(6) [OF inv] by (simp add: udpListenerEvent_def udpListenerClose_def)
  have "server_inv os ?s" by (rule put_listener_inv [OF inv assms(3)]) simp_all
  moreover have "stuck k ?s" using assms(3,4,6) server_invD(6) [OF inv] by (simp add: stuck_def udp_event_due_def)
  ultimately have "stuck k s'" using stuck_run assms(7) e by metis
  then show ?thesis by (auto simp: stuck_def server_alive_def)
qed

section \<open>Dispatching a datagram\<close>

lemma received_whole: "received_packet bs (int (length bs)) = new_packet\<lparr>p_data := bs\<rparr>"
  by (simp add: received_packet_def set_raw_size_def set_raw_data_def resize_def new_packet_def)

text \<open>A datagram from address \<open>a\<close> that fits the buffer, at a listener with an open socket.\<close>

definition opens_new :: "packet \<Rightarrow> address \<Rightarrow> udp_listener \<Rightarrow> bool" where
  "opens_new p a l \<longleftrightarrow> check_crc32 p \<and> connectionByAddress a l = None \<and> ul_tcpAddress l \<noteq> no_address \<and> opens_connection p"

lemma udpListenerRead_parts:
  fixes os bs a e f
  assumes ok: "maps_ok s" and l: "om_find (udpListeners s) k = Some l" and op: "\<not> s_closeRead (ul_sock l)"
    and sz: "int (length bs) \<le> ul_receivePacketSize l" and a: "a \<noteq> no_address"
  defines "p \<equiv> new_packet\<lparr>p_data := bs\<rparr>" and "s' \<equiv> udpListenerRead os f (Some (bs, a)) e k s"
  shows "check_crc32 p \<Longrightarrow> connectionByAddress a l = Some i \<Longrightarrow> om_find (connections s) i = Some sc \<Longrightarrow>
      \<exists>sx. connections s' = om_put i (sc\<lparr>sc_conn := udp_read os p (load_conn sx sc)\<rparr>) (connections s)"
    and "opens_new p a l \<Longrightarrow>
      (\<exists>ps iv h sx. fresh_host h \<and> connections s' = om_put (f_conn f)
         \<lparr>sc_conn = udp_read os p (load_conn sx \<lparr>sc_conn = conn_new os ps iv h, sc_listener = k, sc_address = a\<rparr>),
          sc_listener = k, sc_address = a\<rparr> (connections s)) \<and>
      (\<exists>l'. om_find (udpListeners s') k = Some l' \<and> ul_connections l' = om_put a (f_conn f) (ul_connections l) \<and>
         ul_tcpAddress l' = ul_tcpAddress l \<and> ul_evClose l' = ul_evClose l \<and> ul_sock l' = ul_sock l)"
    and "\<not> check_crc32 p \<or> connectionByAddress a l = None \<and> \<not> opens_new p a l \<Longrightarrow> connections s' = connections s"
proof -
  define l1 where "l1 = l\<lparr>ul_receiveAddress := a, ul_evRead := set_time_value (ul_evRead l) (server_time os s) False\<rparr>"
  define s1 where "s1 = (server_tick s)\<lparr>udpListeners := om_put k l1 (udpListeners s)\<rparr>"
  define s2 where "s2 = s1\<lparr>sv_udpReceived := sv_udpReceived s1 + int (length bs)\<rparr>"
  define l2 where "l2 = l1\<lparr>ul_lastTcpSocketIndex := ul_lastTcpSocketIndex l1 + 1\<rparr>"
  define s3 where "s3 = s2\<lparr>udpListeners := om_put k l2 (udpListeners s2)\<rparr>"
  obtain x s4 where cr: "createConnection os (f_conn f) (sock_connect (f_clientSock f)) k l2 a s3 = (x, s4)" by fastforce
  have same: "ul_sock l1 = ul_sock l" "ul_tcpAddress l1 = ul_tcpAddress l" "connectionByAddress a l1 = connectionByAddress a l"
    "connectionByAddress a l2 = connectionByAddress a l" "ul_connections l2 = ul_connections l" "ul_tcpAddress l2 = ul_tcpAddress l"
    "ul_sock l2 = ul_sock l" "ul_evClose l2 = ul_evClose l"
    "connections s2 = connections s" "connections s3 = connections s"
    by (simp_all add: l2_def l1_def s3_def s2_def s1_def connectionByAddress_def)
  have k1: "l\<lparr>ul_sock := ul_sock l, ul_receiveAddress := a, ul_evRead := set_time_value (ul_evRead l) (server_time os s) False\<rparr> = l1"
    by (simp add: l1_def)
  have rd: "sock_readfrom (Some (bs, a)) e (ul_receivePacketSize l) (ul_sock l) = (int (length bs), bs, Some a, ul_sock l)"
    using op sz by (simp add: sock_readfrom_def)
  have e: "s' = (if \<not> check_crc32 p then s2
       else case (if opens_new p a l then (x, s4) else (connectionByAddress a l, s2)) of
              (None, s4) \<Rightarrow> s4 | (Some i, s4) \<Rightarrow> with_conn i (udp_read os p) s4)"
    using op a unfolding s'_def udpListenerRead_def l option.case rd prod.case Let_def if_not_P [OF op] k1 received_whole
      p_def [symmetric] s1_def [symmetric] s2_def [symmetric] l2_def [symmetric] s3_def [symmetric] cr
    by (simp add: same opens_new_def)
  have ok3: "om_ok (connections s)" "om_ok (udpListeners s3)" "om_find (udpListeners s3) k = Some l2"
    using ok by (simp_all add: maps_ok_def s3_def s2_def s1_def)
  {
    assume "check_crc32 p" "connectionByAddress a l = Some i" "om_find (connections s) i = Some sc"
    then show "\<exists>sx. connections s' = om_put i (sc\<lparr>sc_conn := udp_read os p (load_conn sx sc)\<rparr>) (connections s)"
      by (auto simp: e opens_new_def with_conn_def same Let_def)
  next
    assume new: "opens_new p a l"
    then have "connectionByAddress a l2 = None" by (simp add: same opens_new_def)
    from createConnection_new [OF ok3(3) this cr] obtain ps iv h where c: "x = Some (f_conn f)"
      "connections s4 = om_put (f_conn f) \<lparr>sc_conn = conn_new os ps iv h, sc_listener = k, sc_address = a\<rparr> (connections s)"
      "udpListeners s4 = om_put k (l2\<lparr>ul_connections := om_put a (f_conn f) (ul_connections l2)\<rparr>) (udpListeners s3)"
      "fresh_host h"
      using same(10) by metis
    have s': "s' = with_conn (f_conn f) (udp_read os p) s4" using new c(1) by (simp add: e opens_new_def)
    have fd: "om_find (connections s4) (f_conn f) = Some \<lparr>sc_conn = conn_new os ps iv h, sc_listener = k, sc_address = a\<rparr>"
      using ok3(1) by (simp add: c(2))
    have k4: "om_find (udpListeners s4) k = Some (l2\<lparr>ul_connections := om_put a (f_conn f) (ul_connections l2)\<rparr>)" "om_ok (udpListeners s4)"
      using ok3(2) by (simp_all add: c(3))
    show "(\<exists>ps iv h sx. fresh_host h \<and> connections s' = om_put (f_conn f)
         \<lparr>sc_conn = udp_read os p (load_conn sx \<lparr>sc_conn = conn_new os ps iv h, sc_listener = k, sc_address = a\<rparr>),
          sc_listener = k, sc_address = a\<rparr> (connections s)) \<and>
      (\<exists>l'. om_find (udpListeners s') k = Some l' \<and> ul_connections l' = om_put a (f_conn f) (ul_connections l) \<and>
         ul_tcpAddress l' = ul_tcpAddress l \<and> ul_evClose l' = ul_evClose l \<and> ul_sock l' = ul_sock l)"
    proof
      have "connections s' = om_put (f_conn f)
          \<lparr>sc_conn = udp_read os p (load_conn s4 \<lparr>sc_conn = conn_new os ps iv h, sc_listener = k, sc_address = a\<rparr>),
           sc_listener = k, sc_address = a\<rparr> (connections s)"
        using fd by (simp add: s' with_conn_def Let_def c(2))
      then show "\<exists>ps iv h sx. fresh_host h \<and> connections s' = om_put (f_conn f)
         \<lparr>sc_conn = udp_read os p (load_conn sx \<lparr>sc_conn = conn_new os ps iv h, sc_listener = k, sc_address = a\<rparr>),
          sc_listener = k, sc_address = a\<rparr> (connections s)" using c(4) by blast
      show "\<exists>l'. om_find (udpListeners s') k = Some l' \<and> ul_connections l' = om_put a (f_conn f) (ul_connections l) \<and>
         ul_tcpAddress l' = ul_tcpAddress l \<and> ul_evClose l' = ul_evClose l \<and> ul_sock l' = ul_sock l"
        using fd k4 by (auto simp: s' with_conn_def Let_def c(2) store_shared_def load_conn_def same)
    qed
  next
    assume "\<not> check_crc32 p \<or> connectionByAddress a l = None \<and> \<not> opens_new p a l"
    then show "connections s' = connections s" by (auto simp: e same)
  }
qed

text \<open>C32: what a datagram that fits the receive buffer does, in every reachable state. With a wrong checksum it
  reaches no connection; from a known address it goes to the connection of that address and to no other; from an
  unknown one it opens exactly one connection, entered under that address, if the listener is on the server side and
  the packet is of the stream, and is dropped otherwise.\<close>

theorem datagram_dispatch:
  fixes os bs a e f
  assumes "server_start s0" "(server_step os)\<^sup>*\<^sup>* s0 s" "om_find (udpListeners s) k = Some l" "\<not> s_closeRead (ul_sock l)"
    "int (length bs) \<le> ul_receivePacketSize l" "a \<noteq> no_address"
  defines "p \<equiv> new_packet\<lparr>p_data := bs\<rparr>" and "s' \<equiv> udpListenerRead os f (Some (bs, a)) e k s"
  shows "(check_crc32 p \<longrightarrow> (\<forall>i. connectionByAddress a l = Some i \<longrightarrow>
      (\<exists>sc sx. om_find (connections s) i = Some sc \<and>
         connections s' = om_put i (sc\<lparr>sc_conn := udp_read os p (load_conn sx sc)\<rparr>) (connections s)))) \<and>
    (opens_new p a l \<longrightarrow>
      (\<exists>c. connections s' = om_put (f_conn f) \<lparr>sc_conn = c, sc_listener = k, sc_address = a\<rparr> (connections s)) \<and>
      (\<exists>l'. om_find (udpListeners s') k = Some l' \<and> connectionByAddress a l' = Some (f_conn f))) \<and>
    (\<not> check_crc32 p \<or> connectionByAddress a l = None \<and> \<not> opens_new p a l \<longrightarrow> connections s' = connections s)"
proof -
  have inv: "server_inv os s" using serving.reachable_inv [OF assms(1,2)] .
  note L = server_invD(2) [OF inv]
  note P = udpListenerRead_parts [OF server_invD(1) [OF inv] assms(3-6), where os = os and f = f and e = e, folded p_def s'_def]
  have m: "om_ok (ul_connections l)" using linkedD(1) [OF L book_of_find [OF assms(3)]] .
  have "\<exists>sc. om_find (connections s) i = Some sc" if "connectionByAddress a l = Some i" for i
    using linkedD(3) [OF L book_of_find [OF assms(3)]] that by (auto simp: peer_of_def connectionByAddress_def)
  then show ?thesis using P m by (fastforce simp: connectionByAddress_def)
qed

section \<open>A sample run\<close>

text \<open>A server opens a udp listener for a tcp address, receives the first packet of a client, which opens
  connection 2, and then loses the listener's socket.\<close>

definition sample_objects :: fresh_objects where
  "sample_objects = \<lparr>f_listener = 1, f_listenerSock = sock_new False True True True, f_conn = 2,
     f_clientSock = sock_new False True True True\<rparr>"

definition sample_client :: address where
  "sample_client = Address (sockaddr 1234 [127, 0, 0, 1])"

definition sample_target :: address where
  "sample_target = Address (sockaddr 80 [127, 0, 0, 1])"

definition serve1 :: server where
  "serve1 = createUdpListener sample_os 1 (sock_new False True True True) no_address sample_target server_new"

definition ready1 :: udp_listener where
  "ready1 = \<lparr>ul_sock = \<lparr>s_open = True, s_connected = False, s_error = False, s_read = True, s_write = False,
      s_closeRead = False, s_closeWrite = False, s_close = False\<rparr>, ul_udpAddress = no_address, ul_tcpAddress = sample_target,
     ul_evRead = 1000, ul_evClose = 1001, ul_lastTcpSocketIndex = 0, ul_receiveAddress = no_address,
     ul_receivePacketSize = 1048576, ul_connections = []\<rparr>"

definition serve2 :: server where
  "serve2 = serve1\<lparr>udpListeners := om_put 1 ready1 (udpListeners serve1)\<rparr>"

definition serve3 :: server where
  "serve3 = udpListenerEvent sample_os (sample_objects\<lparr>f_listener := 3\<rparr>) (Some (frame Hello 0 [], sample_client)) EAGAIN
     ListenerRead 1 serve2"

definition sample_error :: poll_bits where
  "sample_error = \<lparr>b_in = False, b_out = False, b_err = True, b_hup = False, b_rdhup = False\<rparr>"

lemma sample_addresses: "sample_client \<noteq> no_address" "sample_target \<noteq> no_address"
  by (simp_all add: sample_client_def sample_target_def no_address_def sockaddr_def)

lemma serve1_parts: "udpListeners serve1 = [(1, ready1\<lparr>ul_sock := sock_new False True True True\<rparr>)]" "connections serve1 = []"
    "tcpListeners serve1 = []"
  by (simp_all add: serve1_def createUdpListener_def Let_def server_new_def server_tick_def server_time_def sample_os_def
      set_time_value_def ready1_def)

lemma serve2_parts: "udpListeners serve2 = [(1, ready1)]" "connections serve2 = []" "tcpListeners serve2 = []"
  by (simp_all add: serve2_def serve1_parts)

lemma serve2_reached: "server_start server_new" "(server_step sample_os)\<^sup>*\<^sup>* server_new serve2"
proof -
  show "server_start server_new" by (simp add: server_start_def server_new_def)
  have "server_step sample_os server_new (createUdpListener sample_os (f_listener sample_objects) (f_listenerSock sample_objects)
      no_address sample_target server_new)"
    by (rule server_stepI, rule server_act.new_udp) (simp add: objects_fresh_def server_new_def sample_objects_def sock_new_ok)
  then have 1: "server_step sample_os server_new serve1" by (simp add: serve1_def sample_objects_def)
  let ?l = "ready1\<lparr>ul_sock := sock_new False True True True\<rparr>"
  let ?b = "\<lparr>b_in = True, b_out = False, b_err = False, b_hup = False, b_rdhup = False\<rparr>"
  have "server_step sample_os serve1 (serve1\<lparr>udpListeners := om_put 1 (?l\<lparr>ul_sock := poll_socket ?b (ul_sock ?l)\<rparr>) (udpListeners serve1)\<rparr>)"
    by (rule server_stepI, rule server_act.poll_udp) (simp add: serve1_parts)
  moreover have "?l\<lparr>ul_sock := poll_socket ?b (ul_sock ?l)\<rparr> = ready1"
    by (simp add: ready1_def sock_new_def poll_socket_def Let_def)
  ultimately have "server_step sample_os serve1 serve2" by (simp add: serve2_def)
  then show "(server_step sample_os)\<^sup>*\<^sup>* server_new serve2" using 1 by (meson converse_rtranclp_into_rtranclp rtranclp.rtrancl_refl)
qed

lemma hello_opens: "opens_new (new_packet\<lparr>p_data := frame Hello 0 []\<rparr>) sample_client (ready1\<lparr>ul_evRead := x\<rparr>)"
  using hello_reads sample_addresses
  by (simp add: opens_new_def hello_def [symmetric] opens_connection_def connectionByAddress_def ready1_def)

lemma serve3_parts:
  "(server_step sample_os)\<^sup>*\<^sup>* server_new serve3" "\<exists>c. connections serve3 = [(2, \<lparr>sc_conn = c, sc_listener = 1, sc_address = sample_client\<rparr>)]"
  "\<exists>l. om_find (udpListeners serve3) 1 = Some l \<and> ul_connections l = [(sample_client, 2)] \<and> ul_tcpAddress l = sample_target \<and>
     ul_evClose l = 1001 \<and> ul_sock l = ul_sock ready1"
proof -
  let ?f = "sample_objects\<lparr>f_listener := 3\<rparr>"
  have "server_step sample_os serve2 serve3"
    unfolding serve3_def
    by (rule server_stepI, rule server_act.udp_read [where l = ready1])
      (simp_all add: serve2_parts udp_event_due_def ready1_def objects_fresh_def sample_objects_def sample_clock sock_new_ok)
  then show "(server_step sample_os)\<^sup>*\<^sup>* server_new serve3" using serve2_reached(2) by (rule rtranclp.rtrancl_into_rtrancl [rotated])
  let ?l = "ready1\<lparr>ul_evRead := -1\<rparr>"
  let ?s = "serve2\<lparr>udpListeners := [(1, ?l)]\<rparr>"
  have s: "maps_ok ?s" "om_find (udpListeners ?s) 1 = Some ?l" "\<not> s_closeRead (ul_sock ?l)"
    "int (length (frame Hello 0 [])) \<le> ul_receivePacketSize ?l"
    by (simp_all add: maps_ok_def serve2_parts om_ok_Cons ready1_def length_frame)
  have e: "serve3 = udpListenerRead sample_os ?f (Some (frame Hello 0 [], sample_client)) EAGAIN 1 ?s"
    by (simp add: serve3_def udpListenerEvent_def serve2_parts)
  note P = udpListenerRead_parts(2) [OF s sample_addresses(1) hello_opens, of sample_os ?f EAGAIN, folded e]
  show "\<exists>c. connections serve3 = [(2, \<lparr>sc_conn = c, sc_listener = 1, sc_address = sample_client\<rparr>)]"
    using P by (auto simp: serve2_parts sample_objects_def)
  show "\<exists>l. om_find (udpListeners serve3) 1 = Some l \<and> ul_connections l = [(sample_client, 2)] \<and> ul_tcpAddress l = sample_target \<and>
     ul_evClose l = 1001 \<and> ul_sock l = ul_sock ready1"
    using P by (simp add: ready1_def sample_objects_def)
qed

theorem server_registry_witness:
  "\<exists>l. om_find (udpListeners serve3) 1 = Some l \<and> connectionByAddress sample_client l = Some 2"
proof -
  obtain c where "om_find (connections serve3) 2 = Some \<lparr>sc_conn = c, sc_listener = 1, sc_address = sample_client\<rparr>"
    using serve3_parts(2) by auto
  then show ?thesis using server_registry [OF serve2_reached(1) serve3_parts(1)] by fastforce
qed

theorem server_summary_witness:
  "udpSummaryConnectionsSendIntervalUs serve3 = om_sum (\<lambda>sc. udpSendIntervalUs (sc_conn sc)) (connections serve3)"
  by (rule server_summary [OF serve2_reached(1) serve3_parts(1)])

theorem server_refines_connections_witness: "\<exists>sc. om_find (connections serve3) 2 = Some sc \<and> \<not> deleted (sc_conn sc)"
proof -
  obtain c where c: "om_find (connections serve3) 2 = Some \<lparr>sc_conn = c, sc_listener = 1, sc_address = sample_client\<rparr>"
    using serve3_parts(2) by auto
  then show ?thesis using server_refines_connections [OF serve2_reached(1) serve3_parts(1) c] by blast
qed

theorem server_destroy_ends_witness: "connections serve3 \<noteq> [] \<and> connections (server_destroy sample_os serve3) = []"
  using server_destroy_ends [OF serve2_reached(1) serve3_parts(1), of sample_os] serve3_parts(2) by (auto simp: server_alive_def)

theorem datagram_dispatch_witness:
  "\<exists>c. connections (udpListenerRead sample_os sample_objects (Some (frame Hello 0 [], sample_client)) EAGAIN 1 serve2) =
     [(2, \<lparr>sc_conn = c, sc_listener = 1, sc_address = sample_client\<rparr>)]"
proof -
  have l: "om_find (udpListeners serve2) 1 = Some ready1" "\<not> s_closeRead (ul_sock ready1)"
    "int (length (frame Hello 0 [])) \<le> ul_receivePacketSize ready1"
    by (simp_all add: serve2_parts ready1_def length_frame)
  have "opens_new (new_packet\<lparr>p_data := frame Hello 0 []\<rparr>) sample_client ready1" using hello_opens [of "ul_evRead ready1"] by simp
  then show ?thesis
    using datagram_dispatch [OF serve2_reached l sample_addresses(1), where f = sample_objects and e = EAGAIN]
    by (simp add: serve2_parts sample_objects_def)
qed

definition serve4 :: server where
  "serve4 = (case om_find (udpListeners serve3) 1 of None \<Rightarrow> serve3
     | Some l \<Rightarrow> serve3\<lparr>udpListeners := om_put 1 (l\<lparr>ul_sock := poll_socket sample_error (ul_sock l)\<rparr>) (udpListeners serve3)\<rparr>)"

theorem close_event_lost_witness:
  "server_alive (udpListenerEvent sample_os sample_objects None EAGAIN ListenerClose 1 serve4)"
proof -
  obtain l where l: "om_find (udpListeners serve3) 1 = Some l" "ul_connections l = [(sample_client, 2)]" "ul_tcpAddress l = sample_target"
     "ul_evClose l = 1001" "ul_sock l = ul_sock ready1" using serve3_parts(3) by blast
  define l' where "l' = l\<lparr>ul_sock := poll_socket sample_error (ul_sock l)\<rparr>"
  have s4: "serve4 = serve3\<lparr>udpListeners := om_put 1 l' (udpListeners serve3)\<rparr>" unfolding serve4_def l(1) l'_def by simp
  have run: "(server_step sample_os)\<^sup>*\<^sup>* server_new serve4"
    unfolding s4 l'_def by (rule rtranclp.rtrancl_into_rtrancl [OF serve3_parts(1) server_stepI [OF server_act.poll_udp [OF l(1)]]])
  have ok: "om_ok (udpListeners serve3)"
    using serving.reachable_inv [OF serve2_reached(1) serve3_parts(1)] server_invD(6) by blast
  have l': "om_find (udpListeners serve4) 1 = Some l'" "ul_tcpAddress l' \<noteq> no_address" "ul_connections l' \<noteq> []"
    "udp_event_due ListenerClose l'"
    using ok l sample_addresses(2)
    by (simp_all add: s4 l'_def udp_event_due_def ready1_def sample_error_def poll_socket_def close_write_def close_read_def
        sock_close_def Let_def)
  show ?thesis using close_event_lost [OF serve2_reached(1) run l' rtranclp.rtrancl_refl] by blast
qed

end
