(* ===== verification/Two_Servers.thy ===== *)
theory Two_Servers
  imports Server_Runs Tunnel
begin

text \<open>
  Two whole servers and the datagrams between them: every step of a server is, for the connection it changes, a
  sequence of steps of \<open>conn_step\<close> or the arrival of one datagram (\<open>conn_change\<close>, \<open>server_act_change\<close>), so a pair of
  connections of two servers moves as the pair of \<open>Tunnel\<close> does. \<open>world_step\<close> interleaves the actions of both servers;
  what is asked of the network is \<open>genuine\<close> (a datagram with a right checksum that reaches the tracked connection from
  its peer was sent by that peer) and \<open>fitting\<close> (a datagram is no longer than the buffer offered to the socket).
  At the end a run of two servers, from their creation to the first Hello, shows that all of this happens.
\<close>

section \<open>Sockets of the listeners\<close>

text \<open>The sockets of the listeners stay well formed; in particular a socket that is ready to be read is open for
  reading (a third instance of \<open>kept_by_handlers\<close>).\<close>

definition socks_ok :: "server \<Rightarrow> bool" where
  "socks_ok s \<longleftrightarrow> maps_ok s \<and> (\<forall>k l. om_find (udpListeners s) k = Some l \<longrightarrow> sock_ok (ul_sock l))"

lemma socks_okD: "socks_ok s \<Longrightarrow> om_find (udpListeners s) k = Some l \<Longrightarrow> sock_ok (ul_sock l)"
  unfolding socks_ok_def by blast

lemma socks_put: "socks_ok s \<Longrightarrow> sock_ok (ul_sock l) \<Longrightarrow> socks_ok (s\<lparr>udpListeners := om_put k l (udpListeners s)\<rparr>)"
  by (auto simp: socks_ok_def maps_ok_def)

lemma socks_store: "socks_ok s \<Longrightarrow> sock_ok (udpSocket c) \<Longrightarrow> socks_ok (store_shared lp c s)"
  by (auto simp: socks_ok_def maps_ok_def store_shared_def split: option.split)

lemma socks_connections: "socks_ok s \<Longrightarrow> om_ok m \<Longrightarrow> socks_ok (s\<lparr>connections := m\<rparr>)"
  by (simp add: socks_ok_def maps_ok_def)

lemma sending_ok:
  "sock_ok (udpSocket c) \<Longrightarrow> sock_ok (udpSocket (snd (send_datagram os p c)))"
  by (simp add: send_datagram_def Let_def split_def sock_writeto_ok)

lemma writing_ok:
  "sock_ok (udpSocket c) \<Longrightarrow> sock_ok (udpSocket (write_confirmation os t p c))"
  "sock_ok (udpSocket c) \<Longrightarrow> sock_ok (udpSocket (write_sent_packet os t k p c))"
  by (simp_all add: write_confirmation_def write_sent_packet_def on_udp_sent_def Let_def split_def tick_def sending_ok split: option.split)

lemma raising_ok: "sock_ok (udpSocket c) \<Longrightarrow> sock_ok (udpSocket (raise_conn_event os e c))"
proof -
  have "udpSocket (write_loop os n c) = udpSocket c" for n c
    by (induction n arbitrary: c) (simp_all add: Let_def split: option.split)
  then show "sock_ok (udpSocket c) \<Longrightarrow> sock_ok (udpSocket (raise_conn_event os e c))"
    by (simp add: raise_conn_event_def handle_def tcp_write_def udp_write_def conn_delete_def writing_ok
        split: conn_event.split list.split option.split)
qed

text \<open>A method of a connection finds the socket of its listener.\<close>

lemma socks_with_conn:
  assumes s: "socks_ok s" and f: "\<And>c. sock_ok (udpSocket c) \<Longrightarrow> sock_ok (udpSocket (f c))"
  shows "socks_ok (with_conn i f s)"
proof (cases "om_find (connections s) i")
  case (Some sc)
  let ?c = "f (load_conn s sc)"
  have ok: "om_ok (connections s)" "om_ok (udpListeners s)" using s by (simp_all add: socks_ok_def maps_ok_def)
  have "socks_ok (store_shared (sc_listener sc) ?c s)"
  proof (cases "om_find (udpListeners s) (sc_listener sc)")
    case None
    then show ?thesis using s by (simp add: socks_ok_def maps_ok_def store_shared_def)
  next
    case (Some l)
    then have "sock_ok (udpSocket ?c)" using f load_conn_socket [OF Some] socks_okD [OF s Some] by simp
    then show ?thesis by (rule socks_store [OF s])
  qed
  then show ?thesis using Some ok by (simp add: with_conn_def Let_def socks_connections)
qed (use s in \<open>simp add: with_conn_def\<close>)

lemma socks_new_listener:
  "socks_ok s \<Longrightarrow> sock_ok sk \<Longrightarrow> socks_ok (createUdpListener os ptr sk u a s)"
  by (auto simp: socks_ok_def maps_ok_def createUdpListener_def Let_def)

lemma socks_new_conn:
  assumes s: "socks_ok s" and l: "om_find (udpListeners s) lp = Some l"
  shows "socks_ok (snd (createConnection os ptr client lp l a s))"
proof (cases "connectionByAddress a l")
  case (Some k)
  then show ?thesis using s by (simp add: createConnection_known socks_ok_def maps_ok_def)
next
  case None
  obtain x s' where r: "createConnection os ptr client lp l a s = (x, s')" by fastforce
  from createConnection_new [OF l None r] obtain c where n: "connections s' = om_put ptr c (connections s)"
    "udpListeners s' = om_put lp (l\<lparr>ul_connections := om_put a ptr (ul_connections l)\<rparr>) (udpListeners s)"
    "tcpListeners s' = tcpListeners s" by metis
  have "maps_ok s'" using s by (simp add: socks_ok_def maps_ok_def n)
  moreover have "sock_ok (ul_sock l')" if "om_find (udpListeners s') k = Some l'" for k l'
    using that socks_okD [OF s l] socks_okD [OF s, of k l'] s by (auto simp: n socks_ok_def maps_ok_def split: if_splits)
  ultimately show ?thesis by (simp add: r socks_ok_def)
qed

interpretation socks: kept_by_handlers os socks_ok for os
proof (unfold_locales, goal_cases)
  case (1 s)
  then show ?case by (simp add: socks_ok_def)
next
  case (2 s)
  then show ?case by (simp add: socks_ok_def maps_ok_def)
next
  case (3 s n)
  then show ?case by (simp add: socks_ok_def maps_ok_def)
next
  case (4 s k t)
  then show ?case by (simp add: socks_ok_def maps_ok_def)
next
  case (5 s k l l')
  then show ?case using socks_put socks_okD by blast
next
  case (6 s ptr sk u a)
  then show ?case using socks_new_listener by blast
next
  case (7 s lp l ptr client a)
  then show ?case using socks_new_conn by blast
next
  case (8 s bs n i)
  show ?case by (rule socks_with_conn [OF 8(1)]) simp
qed

lemma socks_erase: "socks_ok s \<Longrightarrow> socks_ok (s\<lparr>udpListeners := om_erase k (udpListeners s)\<rparr>)"
  by (auto simp: socks_ok_def maps_ok_def om_find_erase_aux)

lemma socks_udp_closed: "socks_ok s \<Longrightarrow> (err \<Longrightarrow> sock_ok sk) \<Longrightarrow> socks_ok (onUdpListenerClosed os ptr sk k err s)"
  by (auto simp: onUdpListenerClosed_def Let_def socks_erase socks_new_listener split: option.split)

lemma socks_connection_closed:
  assumes s: "socks_ok s" and inv: "server_inv os s"
  shows "socks_ok (onConnectionClosed os k s)"
proof (cases "om_find (connections s) k")
  case (Some sc)
  define lp where "lp = sc_listener sc"
  obtain l where l: "om_find (udpListeners s) lp = Some l" "om_find (ul_connections l) (sc_address sc) = Some k"
    using onConnectionClosed_cases [OF inv Some] unfolding lp_def by metis
  define l1 where "l1 = l\<lparr>ul_connections := om_erase (sc_address sc) (ul_connections l)\<rparr>"
  define s1 where "s1 = s\<lparr>udpListeners := om_put lp l1 (udpListeners s), connections := om_erase k (connections s)\<rparr>"
  define s2 where "s2 = store_shared lp (conn_delete (load_conn s1 sc)) s1"
  have ok: "om_ok (udpListeners s)" "om_ok (connections s)" using s by (simp_all add: socks_ok_def maps_ok_def)
  have l1: "sock_ok (ul_sock l1)" using socks_okD [OF s l(1)] by (simp add: l1_def)
  have "socks_ok s1" using socks_connections [OF socks_put [OF s l1], of "om_erase k (connections s)" lp] ok(2)
    by (simp add: s1_def om_ok_erase_aux)
  moreover have "om_find (udpListeners s1) (sc_listener sc) = Some l1" using ok(1) by (simp add: s1_def lp_def)
  then have "udpSocket (load_conn s1 sc) = ul_sock l1" by (rule load_conn_socket)
  ultimately have s2: "socks_ok s2" using l1 unfolding s2_def by (intro socks_store) (simp_all add: conn_delete_def)
  have "onConnectionClosed os k s =
      (if ul_tcpAddress l = no_address then onUdpListenerClosed os 0 (ul_sock l1) lp False s2 else s2)"
    using Some l by (simp add: onConnectionClosed_def Let_def lp_def [symmetric] l1_def [symmetric] s1_def [symmetric] s2_def [symmetric])
      (simp add: l1_def)
  then show ?thesis using s2 socks_udp_closed [OF s2] by simp
qed (use s in \<open>simp add: onConnectionClosed_def\<close>)

lemma socks_tcp_put: "socks_ok s \<Longrightarrow> socks_ok (s\<lparr>tcpListeners := om_put k t (tcpListeners s)\<rparr>)"
  by (simp add: socks_ok_def maps_ok_def)

lemma socks_tcp_closed: "socks_ok s \<Longrightarrow> socks_ok (onTcpListenerClosed os ptr sk k err s)"
  by (auto simp: onTcpListenerClosed_def createTcpListener_def socks_ok_def maps_ok_def Let_def om_ok_erase_aux split: option.split)

lemma socks_act:
  assumes inv: "server_inv os s" and s: "socks_ok s" and act: "server_act os x s s'"
  shows "socks_ok s'"
  using act
proof (cases rule: server_act.cases)
  case (tcp_event k l e f acc)
  let ?s = "\<lambda>l'. s\<lparr>tcpListeners := om_put k l' (tcpListeners s)\<rparr>"
  have ok: "om_ok (tcpListeners s)" using server_invD(5) [OF inv] .
  have "socks_ok (tcpListenerRead os f acc k (?s l'))" for l'
    using socks.tcp_read [OF socks_tcp_put [OF s] objects_fresh_put(1) [OF ok tcp_event(3,5)]] .
  moreover have "socks_ok (tcpListenerClose os f k (?s l'))" for l'
    using socks_tcp_closed [OF socks_tcp_put [OF s]] socks_tcp_put [OF s] by (simp add: tcpListenerClose_def split: option.split)
  ultimately show ?thesis unfolding tcp_event(2) using tcp_event(3) by (simp add: tcpListenerEvent_def split: listener_event.split)
next
  case (udp_read k l f r err)
  have ok: "om_ok (udpListeners s)" using server_invD(6) [OF inv] .
  let ?l = "l\<lparr>ul_evRead := set_time_value (ul_evRead l) (-1) True\<rparr>"
  have "socks_ok (s\<lparr>udpListeners := om_put k ?l (udpListeners s)\<rparr>)" using socks_put [OF s] socks_okD [OF s udp_read(3)] by simp
  then show ?thesis unfolding udp_read(2) using socks.udp_read objects_fresh_put(2) [OF ok udp_read(3,5)] udp_read(3)
    by (simp add: udpListenerEvent_def)
next
  case (udp_close k l f r err)
  let ?l = "l\<lparr>ul_evClose := set_time_value (ul_evClose l) (-1) True\<rparr>"
  let ?s = "s\<lparr>udpListeners := om_put k ?l (udpListeners s)\<rparr>"
  have 1: "socks_ok ?s" using socks_put [OF s] socks_okD [OF s udp_close(3)] by simp
  have "socks_ok (onUdpListenerClosed os (f_listener f) (f_listenerSock f) k err' ?s)" for err'
    using socks_udp_closed [OF 1] udp_close(5) by (simp add: objects_fresh_def)
  then show ?thesis using 1 udp_close(2,3) by (simp add: udpListenerEvent_def udpListenerClose_def split: option.split)
next
  case (conn_event k sc e)
  then show ?thesis using socks_connection_closed [OF s inv] close_event_off [OF inv] socks_with_conn [OF s raising_ok]
    by (simp add: connectionEvent_def)
next
  case (poll_conn k sc b)
  show ?thesis unfolding poll_conn(2) by (rule socks_with_conn [OF s]) simp
next
  case (poll_udp k l b)
  then show ?thesis using socks_put [OF s] socks_okD [OF s] poll_socket_ok by simp
next
  case (new_udp f u t)
  then show ?thesis using socks_new_listener [OF s] by (simp add: objects_fresh_def)
qed (use s in \<open>simp_all add: socks_tcp_put createTcpListener_def createTestListener_def server_begin_def socks_ok_def maps_ok_def Let_def\<close>)

section \<open>What a step of the server does to its connections\<close>

definition datagram :: "bytes \<Rightarrow> packet" where
  "datagram bs = new_packet\<lparr>p_data := bs\<rparr>"

text \<open>The map of the connections changes in one of six ways.\<close>

inductive conn_change :: "input \<Rightarrow> (nat, sconn) omap \<Rightarrow> (nat, sconn) omap \<Rightarrow> bool" where
  same: "conn_change x m m"
| gone: "conn_change x m (om_erase k m)"
| moved: "om_find m k = Some sc \<Longrightarrow> conn_step\<^sup>*\<^sup>* (sc_conn sc) c \<Longrightarrow> conn_change x m (om_put k (sc\<lparr>sc_conn := c\<rparr>) m)"
| received: "om_find m k = Some sc \<Longrightarrow> conn_step\<^sup>*\<^sup>* (sc_conn sc) c \<Longrightarrow> \<not> deleted c \<Longrightarrow> check_crc32 (datagram bs) \<Longrightarrow>
     conn_change (Datagram (sc_listener sc) (Some (bs, sc_address sc))) m (om_put k (sc\<lparr>sc_conn := Conn_Ops.udp_read os (datagram bs) c\<rparr>) m)"
| born: "om_find m k = None \<Longrightarrow> fresh_host h \<Longrightarrow>
     conn_change x m (om_put k \<lparr>sc_conn = conn_new os ps iv h, sc_listener = lp, sc_address = a\<rparr> m)"
| born_receiving: "om_find m k = None \<Longrightarrow> fresh_host h \<Longrightarrow> conn_step\<^sup>*\<^sup>* (conn_new os ps iv h) c \<Longrightarrow> \<not> deleted c \<Longrightarrow>
     check_crc32 (datagram bs) \<Longrightarrow> conn_change (Datagram lp (Some (bs, a))) m
       (om_put k \<lparr>sc_conn = Conn_Ops.udp_read os' (datagram bs) c, sc_listener = lp, sc_address = a\<rparr> m)"

lemma load_conn_step: "conn_step (sc_conn sc) (load_conn s sc)"
  unfolding load_conn_def by (rule conn_step.others)

text \<open>Datagrams fit the buffer they are received in.\<close>

definition fitting :: "input \<Rightarrow> server \<Rightarrow> bool" where
  "fitting x s \<longleftrightarrow> (\<forall>k bs a l. x = Datagram k (Some (bs, a)) \<longrightarrow> om_find (udpListeners s) k = Some l \<longrightarrow>
     int (length bs) \<le> ul_receivePacketSize l)"

lemma tcpListenerRead_connections:
  assumes ok: "om_ok (udpListeners s)" and f: "objects_fresh f s"
  shows "conn_change x (connections s) (connections (tcpListenerRead os f acc k s))"
proof (cases "om_find (tcpListeners s) k")
  case (Some l)
  obtain client sk where acc: "sock_accept acc (tl_sock l) = (client, sk)" by fastforce
  define s1 where "s1 = (server_tick s)\<lparr>tcpListeners := om_put k (l\<lparr>tl_sock := sk,
                        tl_evRead := set_time_value (tl_evRead l) (server_time os s) False\<rparr>) (tcpListeners s)\<rparr>"
  define s2 where "s2 = createUdpListener os (f_listener f) (f_listenerSock f) no_address no_address s1"
  have ok1: "om_ok (udpListeners s1)" using ok by (simp add: s1_def)
  note P = createUdpListener_parts [OF ok1, of os "f_listener f" "f_listenerSock f" no_address no_address, folded s2_def]
  have same: "connections s1 = connections s" "connections s2 = connections s" using P(2) by (simp_all add: s1_def)
  obtain ul where ul: "om_find (udpListeners s2) (f_listener f) = Some ul" "ul_connections ul = []" using P(6) by blast
  have free: "connectionByAddress (tl_udpAddress l) ul = None" by (simp add: connectionByAddress_def ul(2))
  have "conn_change x (connections s) (connections (snd (createConnection os (f_conn f) c (f_listener f) ul (tl_udpAddress l) s2)))" for c
  proof -
    obtain y s3 where r: "createConnection os (f_conn f) c (f_listener f) ul (tl_udpAddress l) s2 = (y, s3)" by fastforce
    from createConnection_new [OF ul(1) free r] obtain iv h where "fresh_host h" "connections s3 = om_put (f_conn f)
        \<lparr>sc_conn = conn_new os (conn_par s2) iv h, sc_listener = f_listener f, sc_address = tl_udpAddress l\<rparr> (connections s)"
      using same(2) by metis
    then show ?thesis using f conn_change.born [of "connections s" "f_conn f" h] by (simp add: r objects_fresh_def)
  qed
  then show ?thesis using Some acc ul(1) conn_change.same same
    by (simp add: tcpListenerRead_def Let_def s1_def [symmetric] s2_def [symmetric] split: option.split)
qed (simp add: tcpListenerRead_def conn_change.same)

lemma udpListenerRead_connections:
  assumes inv: "server_inv os s" and l: "om_find (udpListeners s) k = Some l" and op: "\<not> s_closeRead (ul_sock l)"
    and f: "objects_fresh f s" and r: "fitting (Datagram k r) s"
  shows "conn_change (Datagram k r) (connections s) (connections (udpListenerRead os f r err k s))"
proof (cases "\<exists>bs a. r = Some (bs, a) \<and> a \<noteq> no_address")
  case False
  then have "connections (udpListenerRead os f r err k s) = connections s"
    using l op by (auto simp: udpListenerRead_def sock_readfrom_def Let_def split: option.split)
  then show ?thesis by (simp add: conn_change.same)
next
  case True
  then obtain bs a where ra: "r = Some (bs, a)" "a \<noteq> no_address" by blast
  have sz: "int (length bs) \<le> ul_receivePacketSize l" using r l ra(1) unfolding fitting_def by blast
  note I = server_invD [OF inv]
  note P = udpListenerRead_parts [OF I(1) l op sz ra(2), where os = os and f = f and e = err, folded ra(1) datagram_def]
  consider (old) i where "check_crc32 (datagram bs)" "connectionByAddress a l = Some i" | (new) "opens_new (datagram bs) a l"
    | (none) "\<not> check_crc32 (datagram bs) \<or> connectionByAddress a l = None \<and> \<not> opens_new (datagram bs) a l"
    by (cases "connectionByAddress a l") auto
  then show ?thesis
  proof cases
    case old
    obtain sc where sc: "om_find (connections s) i = Some sc" "sc_listener sc = k" "sc_address sc = a"
      using linkedD(3) [OF I(2) book_of_find [OF l]] old(2) by (auto simp: peer_of_def connectionByAddress_def)
    obtain sx where "connections (udpListenerRead os f r err k s) =
        om_put i (sc\<lparr>sc_conn := Conn_Ops.udp_read os (datagram bs) (load_conn sx sc)\<rparr>) (connections s)"
      using P(1) [OF old sc(1)] by blast
    moreover have "\<not> deleted (load_conn sx sc)" using livesD [OF I(4) sc(1)] by simp
    ultimately show ?thesis
      using conn_change.received [OF sc(1) r_into_rtranclp [where r = conn_step, OF load_conn_step] _ old(1)] sc(2,3) by (simp add: ra(1))
  next
    case new
    obtain ps iv h sx where n: "fresh_host h" "connections (udpListenerRead os f r err k s) = om_put (f_conn f)
         \<lparr>sc_conn = Conn_Ops.udp_read os (datagram bs) (load_conn sx \<lparr>sc_conn = conn_new os ps iv h, sc_listener = k, sc_address = a\<rparr>),
          sc_listener = k, sc_address = a\<rparr> (connections s)" using P(2) [OF new] by blast
    let ?c = "load_conn sx \<lparr>sc_conn = conn_new os ps iv h, sc_listener = k, sc_address = a\<rparr>"
    have "conn_step (conn_new os ps iv h) ?c" using load_conn_step [of "\<lparr>sc_conn = conn_new os ps iv h, sc_listener = k, sc_address = a\<rparr>"] by simp
    then have "conn_step\<^sup>*\<^sup>* (conn_new os ps iv h) ?c" by blast
    moreover have "\<not> deleted ?c" "check_crc32 (datagram bs)" using new by (simp_all add: opens_new_def)
    moreover have "om_find (connections s) (f_conn f) = None" using f by (simp add: objects_fresh_def)
    ultimately show ?thesis unfolding n(2) unfolding ra(1) using n(1) by (intro conn_change.born_receiving)
  next
    case none
    then show ?thesis using P(3) by (simp add: conn_change.same)
  qed
qed

lemma closed_connections [simp]:
  "connections (onTcpListenerClosed os ptr sk k err s) = connections s" "connections (onUdpListenerClosed os ptr sk k err s) = connections s"
  "connections (createUdpListener os ptr sk u t s) = connections s" "connections (createTcpListener os ptr sk t u s) = connections s"
  by (simp_all add: onTcpListenerClosed_def onUdpListenerClosed_def createTcpListener_def createUdpListener_def Let_def split: option.split)

lemma with_conn_change:
  assumes "om_find (connections s) k = Some sc" "conn_step (load_conn s sc) (f (load_conn s sc))"
  shows "conn_change x (connections s) (connections (with_conn k f s))"
proof -
  have "conn_step\<^sup>*\<^sup>* (sc_conn sc) (f (load_conn s sc))" using load_conn_step assms(2) by (meson converse_rtranclp_into_rtranclp r_into_rtranclp)
  from conn_change.moved [OF assms(1) this] show ?thesis by (simp add: with_conn_def assms(1) Let_def)
qed

lemma server_act_change:
  assumes inv: "server_inv os s" and socks: "socks_ok s" and act: "server_act os x s s'" and x: "fitting x s"
  shows "conn_change x (connections s) (connections s')"
  using act
proof (cases rule: server_act.cases)
  case (tcp_event k l e f acc)
  let ?s = "\<lambda>l'. s\<lparr>tcpListeners := om_put k l' (tcpListeners s)\<rparr>"
  note I = server_invD [OF inv]
  have "conn_change x (connections s) (connections (tcpListenerRead os f acc k (?s l')))" for l'
    using tcpListenerRead_connections [of "?s l'" f x] I(6) objects_fresh_put(1) [OF I(5) tcp_event(3,5)] by simp
  moreover have "connections (tcpListenerClose os f k (?s l')) = connections s" for l'
    by (simp add: tcpListenerClose_def split: option.split)
  ultimately show ?thesis unfolding tcp_event(2) using tcp_event(3) conn_change.same
    by (simp add: tcpListenerEvent_def split: listener_event.split)
next
  case (udp_read k l f r err)
  let ?l = "l\<lparr>ul_evRead := set_time_value (ul_evRead l) (-1) True\<rparr>"
  let ?s = "s\<lparr>udpListeners := om_put k ?l (udpListeners s)\<rparr>"
  have ok: "om_ok (udpListeners s)" using server_invD(6) [OF inv] .
  have "server_inv os ?s" by (rule put_listener_inv [OF inv udp_read(3)]) simp_all
  moreover have "om_find (udpListeners ?s) k = Some ?l" using ok by simp
  moreover have "\<not> s_closeRead (ul_sock ?l)"
    using socks_okD [OF socks udp_read(3)] udp_read(4) by (auto simp: sock_ok_def udp_event_due_def)
  moreover have "fitting (Datagram k r) ?s" using x udp_read(1,3) ok by (fastforce simp: fitting_def)
  ultimately have "conn_change (Datagram k r) (connections ?s) (connections (udpListenerRead os f r err k ?s))"
    using objects_fresh_put(2) [OF ok udp_read(3,5)] by (intro udpListenerRead_connections)
  then show ?thesis using udp_read(1-3) by (simp add: udpListenerEvent_def)
next
  case (udp_close k l f r err)
  then show ?thesis using conn_change.same by (simp add: udpListenerEvent_def udpListenerClose_def split: option.split)
next
  case (conn_event k sc e)
  show ?thesis
  proof (cases "e = EvClose")
    case True
    then show ?thesis
      using conn_event(2,3) close_event_off [OF inv conn_event(3)] onConnectionClosed_connections [OF inv conn_event(3)] conn_change.gone
      by (simp add: connectionEvent_def)
  next
    case False
    have "\<not> deleted (load_conn s sc)" "ev_enabled e (load_conn s sc)"
      using livesD [OF server_invD(4) [OF inv] conn_event(3)] conn_event(4) by (simp_all add: ev_enabled_def)
    then have "conn_step (load_conn s sc) (raise_conn_event os e (load_conn s sc))" by (rule conn_step.raise)
    then show ?thesis using with_conn_change [OF conn_event(3)] conn_event(2) False by (simp add: connectionEvent_def)
  qed
next
  case (poll_conn k sc b)
  have "\<not> deleted (load_conn s sc)" using livesD [OF server_invD(4) [OF inv] poll_conn(3)] by simp
  then have "conn_step (load_conn s sc) ((load_conn s sc)\<lparr>tcpSocket := poll_socket b (tcpSocket (load_conn s sc))\<rparr>)"
    by (rule conn_step.polled)
  then show ?thesis unfolding poll_conn(2) by (rule with_conn_change [OF poll_conn(3)])
qed (simp_all add: createTestListener_def server_begin_def conn_change.same)

section \<open>Two servers\<close>

text \<open>Two servers, and a connection on each, at the addresses \<open>ka\<close> and \<open>kb\<close>. The ghosts \<open>w_a\<close> and \<open>w_b\<close> follow the two
  from their creation until they are deleted; an object that takes such a place in memory later is another one.\<close>

datatype tracked = Unborn | Live conn | Gone conn

record world =
  w_left :: server
  w_right :: server
  w_a :: tracked
  w_b :: tracked

definition track :: "nat \<Rightarrow> server \<Rightarrow> tracked \<Rightarrow> tracked" where
  "track k s t =
     (case t of
        Gone c \<Rightarrow> Gone c
      | Unborn \<Rightarrow> (case om_find (connections s) k of None \<Rightarrow> Unborn | Some sc \<Rightarrow> Live (sc_conn sc))
      | Live c \<Rightarrow> (case om_find (connections s) k of None \<Rightarrow> Gone c | Some sc \<Rightarrow> Live (sc_conn sc)))"

fun last_state :: "tracked \<Rightarrow> conn option" where
  "last_state Unborn = None"
| "last_state (Live c) = Some c"
| "last_state (Gone c) = Some c"

text \<open>The network may lose, repeat, reorder and damage datagrams, and may carry any others. But what arrives with a right
  checksum at the listener of the tracked connection from the address of its peer has been sent by the tracked peer.\<close>

definition genuine :: "nat \<Rightarrow> input \<Rightarrow> server \<Rightarrow> tracked \<Rightarrow> tracked \<Rightarrow> bool" where
  "genuine k x s own peer \<longleftrightarrow>
     (\<forall>lp bs a sc. x = Datagram lp (Some (bs, a)) \<longrightarrow> om_find (connections s) k = Some sc \<longrightarrow> sc_listener sc = lp \<longrightarrow>
        sc_address sc = a \<longrightarrow> (\<forall>c. own \<noteq> Gone c) \<longrightarrow> check_crc32 (datagram bs) \<longrightarrow>
        (\<exists>c. last_state peer = Some c \<and> bs \<in> set (log_udpOut c)))"

inductive world_step :: "os \<Rightarrow> os \<Rightarrow> nat \<Rightarrow> nat \<Rightarrow> world \<Rightarrow> world \<Rightarrow> bool" for osa osb ka kb where
  left: "server_act osa x (w_left w) s \<Longrightarrow> fitting x (w_left w) \<Longrightarrow> genuine ka x s (w_a w) (w_b w) \<Longrightarrow>
     world_step osa osb ka kb w (w\<lparr>w_left := s, w_a := track ka s (w_a w)\<rparr>)"
| right: "server_act osb x (w_right w) s \<Longrightarrow> fitting x (w_right w) \<Longrightarrow> genuine kb x s (w_b w) (w_a w) \<Longrightarrow>
     world_step osa osb ka kb w (w\<lparr>w_right := s, w_b := track kb s (w_b w)\<rparr>)"

definition world_start :: "world \<Rightarrow> bool" where
  "world_start w \<longleftrightarrow> server_start (w_left w) \<and> server_start (w_right w) \<and> w_a w = Unborn \<and> w_b w = Unborn"

text \<open>A tracked connection that does not exist yet stands for all those it can begin as.\<close>

definition fresh_conns :: "conn set" where
  "fresh_conns = {c. \<exists>os ps iv h. fresh_host h \<and> c = conn_new os ps iv h}"

definition ends :: "tracked \<Rightarrow> conn set" where
  "ends t = (case last_state t of None \<Rightarrow> fresh_conns | Some c \<Rightarrow> {c})"

definition in_tunnel :: "conn \<Rightarrow> conn \<Rightarrow> bool" where
  "in_tunnel a b \<longleftrightarrow> (\<exists>s. tunnel_start s \<and> tunnel_step\<^sup>*\<^sup>* s (a, b))"

definition joined :: "tracked \<Rightarrow> tracked \<Rightarrow> bool" where
  "joined ta tb \<longleftrightarrow> (\<forall>a\<in>ends ta. \<forall>b\<in>ends tb. in_tunnel a b)"

definition tracks :: "nat \<Rightarrow> server \<Rightarrow> tracked \<Rightarrow> bool" where
  "tracks k s t \<longleftrightarrow> (case t of Unborn \<Rightarrow> om_find (connections s) k = None
     | Live c \<Rightarrow> (\<exists>sc. om_find (connections s) k = Some sc \<and> sc_conn sc = c) | Gone c \<Rightarrow> True)"

lemma tracks_next: "tracks k s t \<Longrightarrow> tracks k s' (track k s' t)"
  by (auto simp: tracks_def track_def split: tracked.split option.split)

text \<open>How the tracked connection moves in a step of its server.\<close>

definition end_moves :: "tracked \<Rightarrow> conn \<Rightarrow> conn \<Rightarrow> bool" where
  "end_moves peer c c' \<longleftrightarrow> conn_step\<^sup>*\<^sup>* c c' \<or>
     (\<exists>c1 os bs p. conn_step\<^sup>*\<^sup>* c c1 \<and> \<not> deleted c1 \<and> check_crc32 (datagram bs) \<and> last_state peer = Some p \<and>
        bs \<in> set (log_udpOut p) \<and> c' = Conn_Ops.udp_read os (datagram bs) c1)"

lemma change_ends:
  assumes ch: "conn_change x (connections s) (connections s')" and ok: "om_ok (connections s)" and t: "tracks k s t"
    and g: "genuine k x s' t peer" and c': "c' \<in> ends (track k s' t)"
  shows "\<exists>c\<in>ends t. end_moves peer c c'"
proof (cases "\<exists>sc. om_find (connections s') k = Some sc \<and> (\<forall>c. t \<noteq> Gone c)")
  case False
  then have "ends (track k s' t) = ends t" by (auto simp: ends_def track_def split: tracked.split option.split)
  then show ?thesis using c' by (auto simp: end_moves_def)
next
  case True
  then obtain sc' where sc': "om_find (connections s') k = Some sc'" "\<forall>c. t \<noteq> Gone c" by blast
  then have e: "c' = sc_conn sc'" using c' by (auto simp: ends_def track_def split: tracked.splits)
  have gen: "x = Datagram (sc_listener sc') (Some (bs, sc_address sc')) \<Longrightarrow> check_crc32 (datagram bs) \<Longrightarrow>
      \<exists>c. last_state peer = Some c \<and> bs \<in> set (log_udpOut c)" for bs
    using g sc' unfolding genuine_def by blast
  have stay: ?thesis if "om_find (connections s) k = Some sc'"
    using that t sc'(2) e by (auto simp: tracks_def ends_def end_moves_def split: tracked.splits)
  have live: "sc_conn sc \<in> ends t" if "om_find (connections s) k = Some sc" for sc
    using that t sc'(2) by (auto simp: tracks_def ends_def split: tracked.splits)
  have new: "c \<in> ends t" if "om_find (connections s) k = None" "c \<in> fresh_conns" for c
    using that t sc'(2) by (auto simp: tracks_def ends_def split: tracked.splits)
  show ?thesis using ch
  proof (cases rule: conn_change.cases)
    case same
    then show ?thesis using stay sc' by simp
  next
    case (gone j)
    then show ?thesis using stay sc' by (simp add: om_find_erase_aux split: if_splits)
  next
    case (moved j sc c)
    then show ?thesis using stay sc' live e ok by (cases "j = k") (auto simp: end_moves_def)
  next
    case (received j sc c bs os)
    show ?thesis
    proof (cases "j = k")
      case True
      then have "sc' = sc\<lparr>sc_conn := Conn_Ops.udp_read os (datagram bs) c\<rparr>" using received(2) sc'(1) ok by simp
      then have "end_moves peer (sc_conn sc) c'" using gen [of bs] received e unfolding end_moves_def by auto
      then show ?thesis using live received(3) True by blast
    qed (use stay sc' received(2) ok in auto)
  next
    case (born j h os ps iv lp a)
    show ?thesis
    proof (cases "j = k")
      case True
      then have "c' = conn_new os ps iv h" using born(1) sc'(1) ok e by auto
      then have "c' \<in> ends t" using new born(2,3) True unfolding fresh_conns_def by blast
      then show ?thesis by (auto simp: end_moves_def)
    qed (use stay sc' born(1) ok in auto)
  next
    case (born_receiving j h os ps iv c bs lp a os')
    show ?thesis
    proof (cases "j = k")
      case True
      then have "sc' = \<lparr>sc_conn = Conn_Ops.udp_read os' (datagram bs) c, sc_listener = lp, sc_address = a\<rparr>"
        using born_receiving(2) sc'(1) ok by simp
      then have "end_moves peer (conn_new os ps iv h) c'" using gen [of bs] born_receiving e unfolding end_moves_def by auto
      moreover have "conn_new os ps iv h \<in> ends t" using new born_receiving(3,4) True unfolding fresh_conns_def by blast
      ultimately show ?thesis by blast
    qed (use stay sc' born_receiving(2) ok in auto)
  qed
qed

section \<open>The tracked connections form a tunnel\<close>

lemma tunnel_run_left: "conn_step\<^sup>*\<^sup>* a a' \<Longrightarrow> tunnel_step\<^sup>*\<^sup>* (a, b) (a', b)"
  by (induction rule: rtranclp_induct) (auto intro: rtranclp.rtrancl_into_rtrancl tunnel_step.left)

lemma tunnel_run_right: "conn_step\<^sup>*\<^sup>* b b' \<Longrightarrow> tunnel_step\<^sup>*\<^sup>* (a, b) (a, b')"
  by (induction rule: rtranclp_induct) (auto intro: rtranclp.rtrancl_into_rtrancl tunnel_step.right)

lemma in_tunnel_left:
  assumes "in_tunnel a b" "end_moves tb a a'" "b \<in> ends tb"
  shows "in_tunnel a' b"
proof -
  obtain s where s: "tunnel_start s" "tunnel_step\<^sup>*\<^sup>* s (a, b)" using assms(1) unfolding in_tunnel_def by blast
  have "tunnel_step\<^sup>*\<^sup>* (a, b) (a', b)"
    using assms(2) unfolding end_moves_def
  proof (elim disjE exE conjE)
    fix c1 os bs p
    assume c: "conn_step\<^sup>*\<^sup>* a c1" "\<not> deleted c1" "check_crc32 (datagram bs)" "last_state tb = Some p" "bs \<in> set (log_udpOut p)"
      "a' = Conn_Ops.udp_read os (datagram bs) c1"
    then have "b = p" using assms(3) by (simp add: ends_def)
    then have "tunnel_step (c1, b) (a', b)" using c tunnel_step.to_left [of bs b c1 os] by (simp add: datagram_def)
    then show ?thesis using tunnel_run_left [OF c(1)] by (meson rtranclp.rtrancl_into_rtrancl)
  qed (rule tunnel_run_left)
  then show ?thesis using s unfolding in_tunnel_def by (meson rtranclp_trans)
qed

lemma in_tunnel_right:
  assumes "in_tunnel a b" "end_moves ta b b'" "a \<in> ends ta"
  shows "in_tunnel a b'"
proof -
  obtain s where s: "tunnel_start s" "tunnel_step\<^sup>*\<^sup>* s (a, b)" using assms(1) unfolding in_tunnel_def by blast
  have "tunnel_step\<^sup>*\<^sup>* (a, b) (a, b')"
    using assms(2) unfolding end_moves_def
  proof (elim disjE exE conjE)
    fix c1 os bs p
    assume c: "conn_step\<^sup>*\<^sup>* b c1" "\<not> deleted c1" "check_crc32 (datagram bs)" "last_state ta = Some p" "bs \<in> set (log_udpOut p)"
      "b' = Conn_Ops.udp_read os (datagram bs) c1"
    then have "a = p" using assms(3) by (simp add: ends_def)
    then have "tunnel_step (a, c1) (a, b')" using c tunnel_step.to_right [of bs a c1 os] by (simp add: datagram_def)
    then show ?thesis using tunnel_run_right [OF c(1)] by (meson rtranclp.rtrancl_into_rtrancl)
  qed (rule tunnel_run_right)
  then show ?thesis using s unfolding in_tunnel_def by (meson rtranclp_trans)
qed

definition world_inv :: "os \<Rightarrow> os \<Rightarrow> nat \<Rightarrow> nat \<Rightarrow> world \<Rightarrow> bool" where
  "world_inv osa osb ka kb w \<longleftrightarrow> server_inv osa (w_left w) \<and> socks_ok (w_left w) \<and> tracks ka (w_left w) (w_a w) \<and>
     server_inv osb (w_right w) \<and> socks_ok (w_right w) \<and> tracks kb (w_right w) (w_b w) \<and> joined (w_a w) (w_b w)"

interpretation worlds: invariant_system world_start "world_step osa osb ka kb" "world_inv osa osb ka kb" for osa osb ka kb
proof
  fix w assume w: "world_start w"
  have "in_tunnel a b" if "a \<in> fresh_conns" "b \<in> fresh_conns" for a b
    using that unfolding in_tunnel_def fresh_conns_def tunnel_start_def by blast
  moreover have "socks_ok (w_left w)" "socks_ok (w_right w)" using w by (simp_all add: world_start_def server_start_def socks_ok_def maps_ok_def)
  moreover have "server_inv osa (w_left w)" "server_inv osb (w_right w)" using w by (simp_all add: world_start_def server_inv_start)
  ultimately show "world_inv osa osb ka kb w"
    using w by (simp add: world_inv_def world_start_def server_start_def tracks_def joined_def ends_def)
next
  fix w w' assume w: "world_inv osa osb ka kb w" and step: "world_step osa osb ka kb w w'"
  show "world_inv osa osb ka kb w'"
    using step
  proof (cases rule: world_step.cases)
    case (left x s)
    have i: "server_inv osa (w_left w)" "socks_ok (w_left w)" "tracks ka (w_left w) (w_a w)" using w by (simp_all add: world_inv_def)
    note ch = server_act_change [OF i(1,2) left(2,3)]
    have "joined (track ka s (w_a w)) (w_b w)"
      unfolding joined_def
    proof (intro ballI)
      fix a' b assume ab: "a' \<in> ends (track ka s (w_a w))" "b \<in> ends (w_b w)"
      from change_ends [OF ch server_invD(7) [OF i(1)] i(3) left(4) ab(1)] obtain a where "a \<in> ends (w_a w)" "end_moves (w_b w) a a'" by blast
      moreover have "in_tunnel a b" using w calculation(1) ab(2) by (simp add: world_inv_def joined_def)
      ultimately show "in_tunnel a' b" using in_tunnel_left ab(2) by blast
    qed
    then show ?thesis using w server_act_inv [OF i(1) left(2)] socks_act [OF i(1,2) left(2)] tracks_next [OF i(3)] left(1)
      by (simp add: world_inv_def)
  next
    case (right x s)
    have i: "server_inv osb (w_right w)" "socks_ok (w_right w)" "tracks kb (w_right w) (w_b w)" using w by (simp_all add: world_inv_def)
    note ch = server_act_change [OF i(1,2) right(2,3)]
    have "joined (w_a w) (track kb s (w_b w))"
      unfolding joined_def
    proof (intro ballI)
      fix a b' assume ab: "a \<in> ends (w_a w)" "b' \<in> ends (track kb s (w_b w))"
      from change_ends [OF ch server_invD(7) [OF i(1)] i(3) right(4) ab(2)] obtain b where "b \<in> ends (w_b w)" "end_moves (w_a w) b b'" by blast
      moreover have "in_tunnel a b" using w calculation(1) ab(1) by (simp add: world_inv_def joined_def)
      ultimately show "in_tunnel a b'" using in_tunnel_right ab(1) by blast
    qed
    then show ?thesis using w server_act_inv [OF i(1) right(2)] socks_act [OF i(1,2) right(2)] tracks_next [OF i(3)] right(1)
      by (simp add: world_inv_def)
  qed
qed

text \<open>C5: two servers carry a tcp connection between them as the tunnel of two connections does: whatever else the servers
  do, with other listeners and connections, and whatever else arrives, the states of two connections that exchange
  genuine datagrams are reachable in the tunnel, from the creation of the first one until after their deletion. So
  the bytes that have left each server by tcp are a prefix of those that have entered the other.\<close>

theorem servers_form_tunnel:
  assumes "world_start w0" "(world_step osa osb ka kb)\<^sup>*\<^sup>* w0 w"
    and "last_state (w_a w) = Some a" "last_state (w_b w) = Some b"
  shows "(\<exists>s. tunnel_start s \<and> tunnel_step\<^sup>*\<^sup>* s (a, b)) \<and>
    (in_range (a, b) \<longrightarrow> prefix (log_tcpOut b) (log_tcpIn a) \<and> prefix (log_tcpOut a) (log_tcpIn b))"
proof -
  have "joined (w_a w) (w_b w)" using worlds.reachable_inv [OF assms(1,2)] by (simp add: world_inv_def)
  then have "in_tunnel a b" using assms(3,4) by (simp add: joined_def ends_def)
  then obtain s where s: "tunnel_start s" "tunnel_step\<^sup>*\<^sup>* s (a, b)" unfolding in_tunnel_def by blast
  then show ?thesis using tunnel_reachable [OF s] follows_prefix by blast
qed

section \<open>A sample run of two servers\<close>

text \<open>The first datagram of a new connection is its Hello.\<close>

lemma new_conn_state:
  assumes "fresh_host h"
  shows "udpConnected (conn_new os ps iv h)" "udpConfirmationPackets (conn_new os ps iv h) = []" "log_udpOut (conn_new os ps iv h) = []"
    "udpSentPackets (conn_new os ps iv h) = [(0, encode Hello 0 [] 0 (new_packet\<lparr>p_remainResendCount := udpResendCount ps\<rparr>))]"
    "udpNextSendIndex (conn_new os ps iv h) = 1"
  using assms by (simp_all add: conn_new_def fresh_host_def Let_def split_def enqueue_packet_def sent_slot_def)

lemma first_write:
  assumes c: "udpConnected c" "udpConfirmationPackets c = []" "log_udpOut c = []" "\<not> s_closeWrite (udpSocket c)"
    "udpSentPackets c = [(0, encode Hello 0 [] 0 (new_packet\<lparr>p_remainResendCount := n\<rparr>))]"
  shows "log_udpOut (raise_conn_event sample_os EvUdpWrite c) = [frame Hello 0 []]"
    "udpNextSendIndex (raise_conn_event sample_os EvUdpWrite c) = udpNextSendIndex c"
proof -
  let ?c = "ev_off EvUdpWrite c"
  let ?p = "encode Hello 0 [] 0 (new_packet\<lparr>p_remainResendCount := n\<rparr>)"
  have e: "raise_conn_event sample_os EvUdpWrite c = write_sent_packet sample_os (ev c EvUdpWrite) 0 ?p ?c"
    using c by (simp add: raise_conn_event_def handle_def udp_write_def encode_flags new_packet_def)
  obtain m c1 where s: "send_datagram sample_os ?p ?c = (m, c1)" by fastforce
  have m: "m = 9" "log_udpOut c1 = [frame Hello 0 []]" "udpNextSendIndex c1 = udpNextSendIndex c"
    using s c by (auto simp: send_datagram_def sock_writeto_def sample_os_def answer_now_def encode_hello length_frame)
  have "\<not> is_complete (?p\<lparr>p_sent := True, p_sentTimeUs := t, p_measureIndex := j\<rparr>)" for t j
    by (simp add: is_complete_def encode_flags new_packet_def)
  then show "log_udpOut (raise_conn_event sample_os EvUdpWrite c) = [frame Hello 0 []]"
    "udpNextSendIndex (raise_conn_event sample_os EvUdpWrite c) = udpNextSendIndex c"
    using m by (simp_all add: e write_sent_packet_def s Let_def)
qed

lemma new_conn_writes: "ev_enabled EvUdpWrite (conn_new sample_os ps iv h)"
proof -
  have "0 \<le> ev (ev_in sample_os EvUdpWrite 0 c) EvUdpWrite" for c
    by (simp add: ev_in_def ev_at_def set_time_value_def answer_now_def sample_os_def)
  moreover have "ev (ev_in os e t c) EvUdpWrite = ev c EvUdpWrite" if "e \<noteq> EvUdpWrite" for os e t c
    using that by (simp add: ev_in_def ev_at_def tick_def)
  ultimately show ?thesis by (simp add: ev_enabled_def conn_new_def Let_def split_def)
qed

lemma tcpListenerRead_born:
  assumes ok: "om_ok (udpListeners s)" "om_ok (tcpListeners s)" and l: "om_find (tcpListeners s) k = Some l"
    and acc: "sock_accept acc (tl_sock l) = (Some client, sk)"
  shows "\<exists>ps iv h ul. fresh_host h \<and> connections (tcpListenerRead os f acc k s) = om_put (f_conn f)
      \<lparr>sc_conn = conn_new os ps iv h, sc_listener = f_listener f, sc_address = tl_udpAddress l\<rparr> (connections s) \<and>
    om_find (udpListeners (tcpListenerRead os f acc k s)) (f_listener f) = Some ul \<and> ul_sock ul = f_listenerSock f"
proof -
  define s1 where "s1 = (server_tick s)\<lparr>tcpListeners := om_put k (l\<lparr>tl_sock := sk,
                        tl_evRead := set_time_value (tl_evRead l) (server_time os s) False\<rparr>) (tcpListeners s)\<rparr>"
  define s2 where "s2 = createUdpListener os (f_listener f) (f_listenerSock f) no_address no_address s1"
  have ok1: "om_ok (udpListeners s1)" using ok by (simp add: s1_def)
  obtain ul where ul: "om_find (udpListeners s2) (f_listener f) = Some ul" "ul_connections ul = []" "ul_sock ul = f_listenerSock f"
    using ok1 by (simp add: s2_def createUdpListener_def Let_def)
  have ok2: "om_ok (udpListeners s2)" using ok1 by (simp add: s2_def createUdpListener_def Let_def)
  have free: "connectionByAddress (tl_udpAddress l) ul = None" by (simp add: connectionByAddress_def ul(2))
  obtain y s3 where r: "createConnection os (f_conn f) client (f_listener f) ul (tl_udpAddress l) s2 = (y, s3)" by fastforce
  have e: "tcpListenerRead os f acc k s = s3"
    using l acc ul(1) r by (simp add: tcpListenerRead_def Let_def s1_def [symmetric] s2_def [symmetric])
  from createConnection_new [OF ul(1) free r] obtain iv h where n: "fresh_host h" "connections s3 = om_put (f_conn f)
      \<lparr>sc_conn = conn_new os (conn_par s2) iv h, sc_listener = f_listener f, sc_address = tl_udpAddress l\<rparr> (connections s2)"
    "udpListeners s3 = om_put (f_listener f) (ul\<lparr>ul_connections := om_put (tl_udpAddress l) (f_conn f) (ul_connections ul)\<rparr>) (udpListeners s2)"
    by metis
  have "connections s2 = connections s" by (simp add: s2_def s1_def)
  moreover have "\<exists>ul'. om_find (udpListeners s3) (f_listener f) = Some ul' \<and> ul_sock ul' = f_listenerSock f"
    using ok2 ul(3) by (simp add: n(3))
  ultimately show ?thesis unfolding e using n(1,2) by auto
qed

text \<open>The server on the left listens, accepts a tcp connection, and sends its first datagram.\<close>

definition left1 :: server where
  "left1 = createTcpListener sample_os 1 (sock_new False True True True) sample_target sample_client server_new"

definition accepting :: tcp_listener where
  "accepting = \<lparr>tl_sock = poll_socket \<lparr>b_in = True, b_out = False, b_err = False, b_hup = False, b_rdhup = False\<rparr> (sock_new False True True True),
     tl_tcpAddress = sample_target, tl_udpAddress = sample_client, tl_evRead = 1000, tl_evClose = 1001\<rparr>"

definition left2 :: server where
  "left2 = left1\<lparr>tcpListeners := om_put 1 accepting (tcpListeners left1)\<rparr>"

definition left3 :: server where
  "left3 = tcpListenerEvent sample_os (sample_objects\<lparr>f_listener := 3\<rparr>) (Accepted True True) ListenerRead 1 left2"

definition left4 :: server where
  "left4 = connectionEvent sample_os EvUdpWrite 2 left3"

lemma left_parts: "tcpListeners left1 = [(1, accepting\<lparr>tl_sock := sock_new False True True True\<rparr>)]"
  "connections left1 = []" "udpListeners left1 = []" "tcpListeners left2 = [(1, accepting)]" "connections left2 = []" "udpListeners left2 = []"
  by (simp_all add: left2_def left1_def createTcpListener_def Let_def server_new_def server_tick_def server_time_def sample_os_def
      set_time_value_def accepting_def)

lemma sample_objects_fresh:
  "om_find (tcpListeners s) 3 = None \<Longrightarrow> om_find (udpListeners s) 3 = None \<Longrightarrow> om_find (connections s) 2 = None \<Longrightarrow>
     objects_fresh (sample_objects\<lparr>f_listener := 3\<rparr>) s"
  by (simp add: objects_fresh_def sample_objects_def sock_new_ok)

lemma left_acts:
  "server_act sample_os NoInput server_new left1" "server_act sample_os NoInput left1 left2"
  "server_act sample_os NoInput left2 left3"
proof -
  have "objects_fresh sample_objects server_new" by (simp add: objects_fresh_def server_new_def sample_objects_def sock_new_ok)
  from server_act.new_tcp [OF this, of sample_os sample_target sample_client]
  show "server_act sample_os NoInput server_new left1" by (simp add: left1_def sample_objects_def)
  have "om_find (tcpListeners left1) 1 = Some (accepting\<lparr>tl_sock := sock_new False True True True\<rparr>)" by (simp add: left_parts)
  from server_act.poll_tcp [OF this, of sample_os "\<lparr>b_in = True, b_out = False, b_err = False, b_hup = False, b_rdhup = False\<rparr>"]
  show "server_act sample_os NoInput left1 left2" by (simp add: left2_def accepting_def)
  show "server_act sample_os NoInput left2 left3"
    unfolding left3_def
  proof (rule server_act.tcp_event)
    show "om_find (tcpListeners left2) 1 = Some accepting" by (simp add: left_parts)
    show "tcp_event_due ListenerRead accepting"
      by (simp add: tcp_event_due_def accepting_def poll_socket_def sock_new_def Let_def)
  qed (simp_all add: sample_objects_fresh left_parts sample_clock)
qed

lemma left3_parts:
  "\<exists>ps iv h ul. fresh_host h \<and> connections left3 = [(2, \<lparr>sc_conn = conn_new sample_os ps iv h, sc_listener = 3, sc_address = sample_client\<rparr>)] \<and>
     om_find (udpListeners left3) 3 = Some ul \<and> ul_sock ul = sock_new False True True True"
proof -
  let ?l = "accepting\<lparr>tl_evRead := - 1\<rparr>"
  let ?s = "left2\<lparr>tcpListeners := [(1, ?l)]\<rparr>"
  have e: "left3 = tcpListenerRead sample_os (sample_objects\<lparr>f_listener := 3\<rparr>) (Accepted True True) 1 ?s"
    by (simp add: left3_def tcpListenerEvent_def left_parts set_time_value_def accepting_def)
  have a: "sock_accept (Accepted True True) (tl_sock ?l) = (Some (sock_new True True True True), tl_sock ?l)"
    by (simp add: sock_accept_def sock_new_def Let_def)
  have "om_ok (udpListeners ?s)" "om_ok (tcpListeners ?s)" "om_find (tcpListeners ?s) 1 = Some ?l"
    by (simp_all add: left_parts om_ok_Cons)
  from tcpListenerRead_born [OF this a, of sample_os "sample_objects\<lparr>f_listener := 3\<rparr>"]
  show ?thesis unfolding e by (simp add: left_parts sample_objects_def accepting_def)
qed

lemma left4_parts:
  "server_act sample_os NoInput left3 left4"
  "\<exists>c. om_find (connections left4) 2 = Some c \<and> log_udpOut (sc_conn c) = [frame Hello 0 []] \<and> udpNextSendIndex (sc_conn c) = 1"
proof -
  obtain ps iv h ul where p: "fresh_host h" "connections left3 = [(2, \<lparr>sc_conn = conn_new sample_os ps iv h, sc_listener = 3, sc_address = sample_client\<rparr>)]"
    "om_find (udpListeners left3) 3 = Some ul" "ul_sock ul = sock_new False True True True" using left3_parts by blast
  let ?sc = "\<lparr>sc_conn = conn_new sample_os ps iv h, sc_listener = 3, sc_address = sample_client\<rparr>"
  show "server_act sample_os NoInput left3 left4"
    unfolding left4_def by (rule server_act.conn_event [where sc = ?sc]) (use p(2) new_conn_writes sample_clock in simp_all)
  let ?c = "load_conn left3 ?sc"
  have "udpConnected ?c" "udpConfirmationPackets ?c = []" "log_udpOut ?c = []" "\<not> s_closeWrite (udpSocket ?c)" "udpNextSendIndex ?c = 1"
    "udpSentPackets ?c = [(0, encode Hello 0 [] 0 (new_packet\<lparr>p_remainResendCount := udpResendCount ps\<rparr>))]"
    using new_conn_state [OF p(1)] p(3,4) by (simp_all add: load_conn_def sock_new_def)
  note w = first_write [OF this(1-4,6)] this(5)
  have "om_find (connections left4) 2 = Some (?sc\<lparr>sc_conn := raise_conn_event sample_os EvUdpWrite ?c\<rparr>)"
    using p(2) by (simp add: left4_def connectionEvent_def with_conn_def Let_def)
  then show "\<exists>c. om_find (connections left4) 2 = Some c \<and> log_udpOut (sc_conn c) = [frame Hello 0 []] \<and> udpNextSendIndex (sc_conn c) = 1"
    using w by simp
qed

text \<open>The server on the right receives it.\<close>

lemma right_acts:
  "server_act sample_os NoInput server_new serve1" "server_act sample_os NoInput serve1 serve2"
  "server_act sample_os (Datagram 1 (Some (frame Hello 0 [], sample_client))) serve2 serve3"
proof -
  have "objects_fresh sample_objects server_new" by (simp add: objects_fresh_def server_new_def sample_objects_def sock_new_ok)
  from server_act.new_udp [OF this, of sample_os no_address sample_target]
  show "server_act sample_os NoInput server_new serve1" by (simp add: serve1_def sample_objects_def)
  let ?l = "ready1\<lparr>ul_sock := sock_new False True True True\<rparr>"
  let ?b = "\<lparr>b_in = True, b_out = False, b_err = False, b_hup = False, b_rdhup = False\<rparr>"
  have l: "om_find (udpListeners serve1) 1 = Some ?l" by (simp add: serve1_parts)
  have "?l\<lparr>ul_sock := poll_socket ?b (ul_sock ?l)\<rparr> = ready1" by (simp add: ready1_def sock_new_def poll_socket_def Let_def)
  then show "server_act sample_os NoInput serve1 serve2" using server_act.poll_udp [OF l, of sample_os ?b] by (simp add: serve2_def)
  show "server_act sample_os (Datagram 1 (Some (frame Hello 0 [], sample_client))) serve2 serve3"
    unfolding serve3_def
    by (rule server_act.udp_read [where l = ready1])
      (simp_all add: serve2_parts udp_event_due_def ready1_def objects_fresh_def sample_objects_def sample_clock sock_new_ok)
qed

lemma serve3_state:
  "\<exists>c. connections serve3 = [(2, \<lparr>sc_conn = c, sc_listener = 1, sc_address = sample_client\<rparr>)] \<and> udpNextSendIndex c = 1"
proof -
  let ?f = "sample_objects\<lparr>f_listener := 3\<rparr>"
  let ?l = "ready1\<lparr>ul_evRead := -1\<rparr>"
  let ?s = "serve2\<lparr>udpListeners := [(1, ?l)]\<rparr>"
  have s: "maps_ok ?s" "om_find (udpListeners ?s) 1 = Some ?l" "\<not> s_closeRead (ul_sock ?l)"
    "int (length (frame Hello 0 [])) \<le> ul_receivePacketSize ?l"
    by (simp_all add: maps_ok_def serve2_parts om_ok_Cons ready1_def length_frame)
  have e: "serve3 = udpListenerRead sample_os ?f (Some (frame Hello 0 [], sample_client)) EAGAIN 1 ?s"
    by (simp add: serve3_def udpListenerEvent_def serve2_parts)
  obtain ps iv h sx where h: "fresh_host h" "connections serve3 = om_put (f_conn ?f)
      \<lparr>sc_conn = Conn_Ops.udp_read sample_os (new_packet\<lparr>p_data := frame Hello 0 []\<rparr>)
         (load_conn sx \<lparr>sc_conn = conn_new sample_os ps iv h, sc_listener = 1, sc_address = sample_client\<rparr>),
       sc_listener = 1, sc_address = sample_client\<rparr> (connections ?s)"
    using udpListenerRead_parts(2) [OF s sample_addresses(1) hello_opens, of sample_os ?f EAGAIN, folded e] by blast
  let ?c = "load_conn sx \<lparr>sc_conn = conn_new sample_os ps iv h, sc_listener = 1, sc_address = sample_client\<rparr>"
  have "one_end ?c"
    by (rule one_end_step [OF one_end_new [OF h(1), of sample_os]])
      (use load_conn_step [of "\<lparr>sc_conn = conn_new sample_os ps iv h, sc_listener = 1, sc_address = sample_client\<rparr>" sx] in simp)
  then have "udpNextSendIndex (Conn_Ops.udp_read sample_os (new_packet\<lparr>p_data := frame Hello 0 []\<rparr>) ?c) = udpNextSendIndex ?c"
    by (rule udp_read_next) (simp add: fresh_flags_def new_packet_def)
  moreover have "udpNextSendIndex ?c = 1" using new_conn_state(5) [OF h(1)] by (simp add: load_conn_def)
  ultimately show ?thesis using h(2) by (simp add: serve2_parts sample_objects_def)
qed

definition two_servers :: world where
  "two_servers = \<lparr>w_left = server_new, w_right = server_new, w_a = Unborn, w_b = Unborn\<rparr>"

lemma quiet_step:
  "server_act osa NoInput (w_left w) s \<Longrightarrow> world_step osa osb ka kb w (w\<lparr>w_left := s, w_a := track ka s (w_a w)\<rparr>)"
  "server_act osb NoInput (w_right w) s \<Longrightarrow> world_step osa osb ka kb w (w\<lparr>w_right := s, w_b := track kb s (w_b w)\<rparr>)"
  by (auto intro!: world_step.left world_step.right simp: fitting_def genuine_def)

lemma sample_world:
  obtains w a b where "(world_step sample_os sample_os 2 2)\<^sup>*\<^sup>* two_servers w" "w_a w = Live a" "w_b w = Live b"
    "log_udpOut a = [frame Hello 0 []]" "in_range (a, b)"
proof -
  let ?R = "world_step sample_os sample_os 2 2"
  obtain ca where ca: "om_find (connections left4) 2 = Some ca" "log_udpOut (sc_conn ca) = [frame Hello 0 []]" "udpNextSendIndex (sc_conn ca) = 1"
    using left4_parts(2) by blast
  obtain cb where cb: "connections serve3 = [(2, \<lparr>sc_conn = cb, sc_listener = 1, sc_address = sample_client\<rparr>)]" "udpNextSendIndex cb = 1"
    using serve3_state by blast
  obtain c3 where c3: "om_find (connections left3) 2 = Some c3" using left3_parts by auto
  define w1 where "w1 = two_servers\<lparr>w_left := left1\<rparr>"
  define w2 where "w2 = w1\<lparr>w_left := left2\<rparr>"
  define w3 where "w3 = w2\<lparr>w_left := left3, w_a := Live (sc_conn c3)\<rparr>"
  define w4 where "w4 = w3\<lparr>w_left := left4, w_a := Live (sc_conn ca)\<rparr>"
  define w5 where "w5 = w4\<lparr>w_right := serve1\<rparr>"
  define w6 where "w6 = w5\<lparr>w_right := serve2\<rparr>"
  define w7 where "w7 = w6\<lparr>w_right := serve3, w_b := Live cb\<rparr>"
  note ws = w1_def w2_def w3_def w4_def w5_def w6_def w7_def two_servers_def
  have "?R two_servers w1"
    using quiet_step(1) [of sample_os two_servers left1 sample_os 2 2] left_acts(1) by (simp add: ws track_def left_parts)
  moreover have "?R w1 w2"
    using quiet_step(1) [of sample_os w1 left2 sample_os 2 2] left_acts(2) by (simp add: ws track_def left_parts)
  moreover have "?R w2 w3"
    using quiet_step(1) [of sample_os w2 left3 sample_os 2 2] left_acts(3) by (simp add: ws track_def left_parts c3)
  moreover have "?R w3 w4"
    using quiet_step(1) [of sample_os w3 left4 sample_os 2 2] left4_parts(1) by (simp add: ws track_def ca(1))
  moreover have "?R w4 w5"
    using quiet_step(2) [of sample_os w4 serve1 sample_os 2 2] right_acts(1) by (simp add: ws track_def serve1_parts)
  moreover have "?R w5 w6"
    using quiet_step(2) [of sample_os w5 serve2 sample_os 2 2] right_acts(2) by (simp add: ws track_def serve2_parts)
  moreover have "?R w6 w7"
  proof -
    let ?x = "Datagram 1 (Some (frame Hello 0 [], sample_client))"
    have "fitting ?x serve2" by (simp add: fitting_def serve2_parts ready1_def length_frame)
    moreover have "genuine 2 ?x serve3 Unborn (Live (sc_conn ca))" using ca(2) by (simp add: genuine_def)
    ultimately have "?R w6 (w6\<lparr>w_right := serve3, w_b := track 2 serve3 (w_b w6)\<rparr>)"
      using right_acts(3) by (intro world_step.right) (simp_all add: ws)
    then show ?thesis by (simp add: ws track_def cb(1))
  qed
  ultimately have "?R\<^sup>*\<^sup>* two_servers w7" by (meson rtranclp.rtrancl_into_rtrancl rtranclp.rtrancl_refl)
  moreover have "w_a w7 = Live (sc_conn ca)" "w_b w7 = Live cb" by (simp_all add: ws)
  moreover have "in_range (sc_conn ca, cb)" using ca(3) cb(2) by (simp add: in_range_def int_max_def)
  ultimately show ?thesis using that ca(2) by blast
qed

theorem servers_form_tunnel_witness:
  "\<exists>w a b. (world_step sample_os sample_os 2 2)\<^sup>*\<^sup>* two_servers w \<and> w_a w = Live a \<and> w_b w = Live b \<and>
     log_udpOut a = [frame Hello 0 []] \<and> (\<exists>s. tunnel_start s \<and> tunnel_step\<^sup>*\<^sup>* s (a, b)) \<and> prefix (log_tcpOut b) (log_tcpIn a)"
proof -
  obtain w a b where w: "(world_step sample_os sample_os 2 2)\<^sup>*\<^sup>* two_servers w" "w_a w = Live a" "w_b w = Live b"
    "log_udpOut a = [frame Hello 0 []]" "in_range (a, b)" by (rule sample_world)
  have "world_start two_servers" by (simp add: world_start_def two_servers_def server_start_def server_new_def)
  from servers_form_tunnel [OF this w(1)] w(2,3,5)
  have "(\<exists>s. tunnel_start s \<and> tunnel_step\<^sup>*\<^sup>* s (a, b)) \<and> prefix (log_tcpOut b) (log_tcpIn a)" by simp
  then show ?thesis using w by blast
qed

end
