(* ===== verification/Command_Line.thy ===== *)
theory Command_Line
  imports Server "HOL-Library.Multiset"
begin

text \<open>
  \<^verbatim>\<open>src/main.cpp\<close>: the functions of the parameters, their table, and \<open>init\<close>, which reads the command line once for
  every entry of the table, and what it prints. Of the C library \<open>atoi\<close>, \<open>atoll\<close> (both with unbounded
  numbers) and \<open>atof\<close> on decimal numbers are modelled. Reading \<^verbatim>\<open>argv\<close> behind its end is the result \<open>None\<close>.
\<close>

section \<open>Decimal fractions\<close>

text \<open>\<open>atof\<close> on decimal numbers; \<open>strtod\<close> also knows hexadecimal numbers, infinities and NaNs, which are left out.\<close>

fun digits_of :: "string \<Rightarrow> nat list \<times> string" where
  "digits_of [] = ([], [])"
| "digits_of (c # cs) = (case digit c of None \<Rightarrow> ([], c # cs) | Some d \<Rightarrow> (case digits_of cs of (ds, rest) \<Rightarrow> (d # ds, rest)))"

definition number :: "nat list \<Rightarrow> nat" where
  "number ds = foldl (\<lambda>n d. 10 * n + d) 0 ds"

definition exponent_of :: "string \<Rightarrow> int" where
  "exponent_of cs =
     (case cs of
        c # c2 # cs' \<Rightarrow>
          (if c = CHR ''e'' \<or> c = CHR ''E'' then
             (if c2 = CHR ''-'' then - int (number (fst (digits_of cs')))
              else int (number (fst (digits_of (if c2 = CHR ''+'' then cs' else c2 # cs')))))
           else 0)
      | _ \<Rightarrow> 0)"

definition atof :: "string \<Rightarrow> double" where
  "atof cs0 =
     (let cs1 = dropWhile blank cs0;
          neg = (cs1 \<noteq> [] \<and> hd cs1 = CHR ''-'');
          cs2 = (if cs1 \<noteq> [] \<and> (hd cs1 = CHR ''-'' \<or> hd cs1 = CHR ''+'') then tl cs1 else cs1)
      in case digits_of cs2 of (ds, cs3) \<Rightarrow>
        case (if cs3 \<noteq> [] \<and> hd cs3 = CHR ''.'' then digits_of (tl cs3) else ([], cs3)) of (fs, cs4) \<Rightarrow>
          if ds = [] \<and> fs = [] then Fin 0
          else let x = rat_of_nat (number (ds @ fs)) * 10 powi (exponent_of cs4 - int (length fs))
               in round64 (if neg then - x else x))"

section \<open>Setting one parameter\<close>

text \<open>What the functions of the parameters use besides the server: the clock, the resolver, and the memory and the
  socket of a listener they create. They get \<open>argv + i\<close>.\<close>

record env =
  e_os :: os
  e_resolve :: "string \<Rightarrow> bytes option"
  e_mem :: "server \<Rightarrow> nat"
  e_sock :: "server \<Rightarrow> sock"

type_synonym setter = "env \<Rightarrow> string list \<Rightarrow> server \<Rightarrow> bool \<times> server"

definition set_daemon :: setter where
  "set_daemon e args s = (True, s\<lparr>logging := False\<rparr>)"

definition set_test :: setter where
  "set_test e args s = (True, s\<lparr>test := True\<rparr>)"

definition test_tcp_remote_address :: setter where
  "test_tcp_remote_address e args s = (True, s\<lparr>testTcpRemoteAddress := from_string (e_resolve e) (args ! 1)\<rparr>)"

definition test_udp_remote_address :: setter where
  "test_udp_remote_address e args s = (True, s\<lparr>testUdpRemoteAddress := from_string (e_resolve e) (args ! 1)\<rparr>)"

definition tcp_backlog :: setter where
  "tcp_backlog e args s = (True, s\<lparr>tcpBacklog := atoi (args ! 1)\<rparr>)"

definition tcp_receive_address_size :: setter where
  "tcp_receive_address_size e args s = (True, s\<lparr>tcpReceiveAddressSize := atoi (args ! 1)\<rparr>)"

definition udp_receive_packet_size :: setter where
  "udp_receive_packet_size e args s = (True, s\<lparr>udpReceivePacketSize := atoi (args ! 1)\<rparr>)"

definition udp_receive_address_size :: setter where
  "udp_receive_address_size e args s = (True, s\<lparr>udpReceiveAddressSize := atoi (args ! 1)\<rparr>)"

definition udp_send_packet_size :: setter where
  "udp_send_packet_size e args s = (True, s\<lparr>conn_par := (conn_par s)\<lparr>udpSendPacketSize := atoi (args ! 1)\<rparr>\<rparr>)"

definition udp_max_sent_buffer_size :: setter where
  "udp_max_sent_buffer_size e args s = (True, s\<lparr>conn_par := (conn_par s)\<lparr>udpMaxSentBufferSize := atoi (args ! 1)\<rparr>\<rparr>)"

definition udp_max_receive_buffer_size :: setter where
  "udp_max_receive_buffer_size e args s = (True, s\<lparr>conn_par := (conn_par s)\<lparr>udpMaxReceiveBufferSize := atoi (args ! 1)\<rparr>\<rparr>)"

definition udp_max_sent_measure_size :: setter where
  "udp_max_sent_measure_size e args s = (True, s\<lparr>conn_par := (conn_par s)\<lparr>udpMaxSentMeasureSize := atoi (args ! 1)\<rparr>\<rparr>)"

definition udp_resend_count :: setter where
  "udp_resend_count e args s = (True, s\<lparr>conn_par := (conn_par s)\<lparr>udpResendCount := atoi (args ! 1)\<rparr>\<rparr>)"

definition confirmation_resend_count :: setter where
  "confirmation_resend_count e args s = (True, s\<lparr>conn_par := (conn_par s)\<lparr>confirmationResendCount := atoi (args ! 1)\<rparr>\<rparr>)"

definition udp_max_send_loss_percent :: setter where
  "udp_max_send_loss_percent e args s = (True, s\<lparr>conn_par := (conn_par s)\<lparr>udpMaxSendLossPercent := atof (args ! 1)\<rparr>\<rparr>)"

text \<open>\<open>atoll\<close> is \<open>atoi\<close> with a wider result.\<close>

definition udp_initial_send_interval_us :: setter where
  "udp_initial_send_interval_us e args s = (True, s\<lparr>udpInitialSendIntervalUs := atoi (args ! 1)\<rparr>)"

definition udp_resend_us :: setter where
  "udp_resend_us e args s = (True, s\<lparr>conn_par := (conn_par s)\<lparr>udpResendUs := atoi (args ! 1)\<rparr>\<rparr>)"

definition build_confirmations_us :: setter where
  "build_confirmations_us e args s = (True, s\<lparr>conn_par := (conn_par s)\<lparr>buildConfirmationsUs := atoi (args ! 1)\<rparr>\<rparr>)"

definition build_udp_packets_us :: setter where
  "build_udp_packets_us e args s = (True, s\<lparr>conn_par := (conn_par s)\<lparr>buildUdpPacketsUs := atoi (args ! 1)\<rparr>\<rparr>)"

definition udp_max_sent_measure_us :: setter where
  "udp_max_sent_measure_us e args s = (True, s\<lparr>conn_par := (conn_par s)\<lparr>udpMaxSentMeasureUs := atoi (args ! 1)\<rparr>\<rparr>)"

text \<open>\<open>fromString\<close> and the \<^verbatim>\<open>create\<close> functions never fail, so the setters return true.\<close>

definition open_udp_listener :: setter where
  "open_udp_listener e args s =
     (True, createUdpListener (e_os e) (e_mem e s) (e_sock e s) (from_string (e_resolve e) (args ! 1))
        (from_string (e_resolve e) (args ! 2)) s)"

definition open_tcp_listener :: setter where
  "open_tcp_listener e args s =
     (True, createTcpListener (e_os e) (e_mem e s) (e_sock e s) (from_string (e_resolve e) (args ! 1))
        (from_string (e_resolve e) (args ! 2)) s)"

definition open_test_listener :: setter where
  "open_test_listener e args s = (True, createTestListener (e_mem e s) (from_string (e_resolve e) (args ! 1)) s)"

definition set_help :: setter where
  "set_help e args s = (True, s)"

section \<open>The table of parameters\<close>

record param =
  p_name :: string
  p_count :: nat
  p_args :: string
  p_description :: string
  p_func :: setter

definition make_param :: "string \<Rightarrow> nat \<Rightarrow> string \<Rightarrow> string \<Rightarrow> setter \<Rightarrow> param" where
  "make_param name n args description f =
     \<lparr>p_name = map (\<lambda>c. if c = CHR ''_'' then CHR ''-'' else c) name, p_count = n, p_args = args, p_description = description,
      p_func = f\<rparr>"

definition param_table :: "param list" where
  "param_table = [
     make_param ''daemon'' 0 ''''
       ''disable logging''
       set_daemon,
     make_param ''test'' 0 ''''
       ''run tests''
       set_test,
     make_param ''test_tcp_remote_address'' 1 ''<address>''
       ''address of remote test-listener''
       test_tcp_remote_address,
     make_param ''test_udp_remote_address'' 1 ''<address>''
       ''address of remote udp-tunnel to test-listener''
       test_udp_remote_address,
     make_param ''tcp_backlog'' 1 ''<value>''
       ''backlog parameter for listen() function''
       tcp_backlog,
     make_param ''tcp_receive_address_size'' 1 ''<value>''
       ''maximum size of tcp-address data''
       tcp_receive_address_size,
     make_param ''udp_receive_packet_size'' 1 ''<value>''
       ''size of buffer to receive single udp-packet''
       udp_receive_packet_size,
     make_param ''udp_receive_address_size'' 1 ''<value>''
       ''maximum size of udp-address data''
       udp_receive_address_size,
     make_param ''udp_send_packet_size'' 1 ''<value>''
       ''size of sent udp-packets''
       udp_send_packet_size,
     make_param ''udp_max_sent_buffer_size'' 1 ''<value>''
       ''size of send buffer per connection''
       udp_max_sent_buffer_size,
     make_param ''udp_max_receive_buffer_size'' 1 ''<value>''
       ''size of receive buffer connection''
       udp_max_receive_buffer_size,
     make_param ''udp_max_sent_measure_size'' 1 ''<value>''
       ''amount of transfered data to do single speed measure''
       udp_max_sent_measure_size,
     make_param ''udp_resend_count'' 1 ''<value>''
       ''count of tries to send udp-packet before disconnect''
       udp_resend_count,
     make_param ''confirmation_resend_count'' 1 ''<value>''
       ''count of confirmations for each received udp-packet''
       confirmation_resend_count,
     make_param ''udp_max_send_loss_percent'' 1 ''<value>''
       ''percent of loss packets, creater value produce more extra traffic, but when value less then real loss percend of the line, speed falls down to zero''
       udp_max_send_loss_percent,
     make_param ''udp_initial_send_interval_us'' 1 ''<value>''
       ''initial interval in microseconds of send udp-packets, determines initial speed of connection, uses when no one measure complete yet''
       udp_initial_send_interval_us,
     make_param ''udp_resend_us'' 1 ''<value>''
       ''time in microseconds of awaiting confirmation before resending udp-packet''
       udp_resend_us,
     make_param ''build_confirmations_us'' 1 ''<value>''
       ''interval in microseconds of send confirmations''
       build_confirmations_us,
     make_param ''build_udp_packets_us'' 1 ''<value>''
       ''time in microseconds of awaiting data from tcp before send non-full udp-packet''
       build_udp_packets_us,
     make_param ''udp_max_sent_measure_us'' 1 ''<value>''
       ''time in microseconds to do single speed measure''
       udp_max_sent_measure_us,
     make_param ''udp_listener'' 2 ''<from> <to>''
       ''server-side of tunnel forward all incoming udp-connections to specified tcp-address''
       open_udp_listener,
     make_param ''tcp_listener'' 2 ''<from> <to>''
       ''client-side of tunnel forward all incoming tcp-connections to specified address of udp-listener''
       open_tcp_listener,
     make_param ''test_listener'' 1 ''<address>''
       ''simple server uses to do some tests, see: --test-tcp-remote-address, --test-tcp-remote-address''
       open_test_listener,
     make_param ''help'' 0 ''''
       ''show help''
       set_help]"

definition option_text :: "param \<Rightarrow> string" where
  "option_text p = ''--'' @ p_name p"

section \<open>Reading the command line\<close>

text \<open>The set holds the indices whose entry in \<open>processed\<close> is true; the errors are the texts after ``cannot set
  param''.\<close>

record progress =
  pr_server :: server
  pr_done :: "nat set"
  pr_help :: bool
  pr_errors :: "string list list"

fun find_param_from :: "nat \<Rightarrow> param list \<Rightarrow> string \<Rightarrow> (nat \<times> param) option" where
  "find_param_from n [] arg = None"
| "find_param_from n (p # ps) arg = (if option_text p = arg then Some (n, p) else find_param_from (n + 1) ps arg)"

text \<open>An option found: its function runs. Arguments beyond the end of \<open>argv\<close> are undefined behaviour, \<open>None\<close>.\<close>

definition use_param :: "env \<Rightarrow> string list \<Rightarrow> nat \<Rightarrow> param \<Rightarrow> progress \<Rightarrow> progress option" where
  "use_param e argv i p st =
     (if i + p_count p < length argv then
        (case p_func p e (drop i argv) (pr_server st) of (ok, s) \<Rightarrow>
           Some (st\<lparr>pr_server := s, pr_done := pr_done st \<union> {i..i + p_count p},
                    pr_help := (pr_help st \<or> p_name p = ''help''),
                    pr_errors := (if ok then pr_errors st else pr_errors st @ [p_name p # take (p_count p) (drop (i + 1) argv)])\<rparr>))
      else None)"

text \<open>The loop over the arguments, for the parameter with index \<open>p\<close>.\<close>

function arg_loop :: "env \<Rightarrow> nat \<Rightarrow> string list \<Rightarrow> nat \<Rightarrow> progress \<Rightarrow> progress option" where
  "arg_loop e p argv i st =
     (if i < length argv then
        (case find_param_from 0 param_table (argv ! i) of
           None \<Rightarrow> arg_loop e p argv (i + 1) st
         | Some (pp, q) \<Rightarrow>
             (case (if p = pp then use_param e argv i q st else Some st) of
                None \<Rightarrow> None
              | Some st' \<Rightarrow> arg_loop e p argv (i + p_count q + 1) st'))
      else Some st)"
  by pat_completeness auto
termination by (relation "measure (\<lambda>(e, p, argv, i, st). length argv - i)") auto

declare arg_loop.simps [simp del]

fun param_loop :: "env \<Rightarrow> nat list \<Rightarrow> string list \<Rightarrow> progress \<Rightarrow> progress option" where
  "param_loop e [] argv st = Some st"
| "param_loop e (p # ps) argv st =
     (case arg_loop e p argv 1 st of None \<Rightarrow> None | Some st' \<Rightarrow> param_loop e ps argv st')"

text \<open>What is printed: the errors, and the help with the arguments it does not know.\<close>

definition endl :: string where
  "endl = [CHR 0x0A]"

fun error_text :: "string list \<Rightarrow> string" where
  "error_text [] = []"
| "error_text (name # args) = ''cannot set param --'' @ name @ concat (map (\<lambda>a. '' '' @ a) args) @ endl"

definition usage_line :: "string \<Rightarrow> param \<Rightarrow> string" where
  "usage_line indent p = indent @ ''--'' @ p_name p @ (if p_args p = [] then [] else '' '' @ p_args p) @ endl"

definition help_text :: "string list \<Rightarrow> string" where
  "help_text unknown =
     endl @ ''IceTunnel allow to pass TCP-traffic via UDP and increase speed on channels with big percent of packet loss'' @ endl @
     endl @ ''Usage: '' @ endl @ ''    icetunnel'' @ endl @
     concat (map (usage_line ''        '') param_table) @ endl @
     ''Description:'' @ endl @ endl @
     concat (map (\<lambda>p. usage_line ''  '' p @ ''    '' @ p_description p @ endl @ endl) param_table) @ endl @
     ''Example server (listen UDP-port 1234 and forward it into SOCKS proxy runned at IP 1.2.3.4):'' @ endl @
     ''    icetunnel --udp-listener 1234 1.2.3.4:1080'' @ endl @ endl @
     ''Example client (listen TCP-port 1080 and forward int into UDP 4.3.2.1:1234 and next to SOCKS proxy runned at IP 1.2.3.4):'' @ endl @
     ''    icetunnel --tcp-listener 1080 4.3.2.1:1234'' @ endl @ endl @
     concat (map (\<lambda>u. ''unknown param: '' @ u @ endl) unknown) @ endl"

text \<open>The result: the server, whether the help is printed, the arguments it names as unknown, the errors printed,
  whether the program goes on, and the text written to the stream of the log, if there still is one.\<close>

record init_result =
  i_server :: server
  i_help :: bool
  i_unknown :: "string list"
  i_errors :: "string list list"
  i_go :: bool
  i_printed :: string

definition init :: "env \<Rightarrow> string list \<Rightarrow> server \<Rightarrow> init_result option" where
  "init e argv s0 =
     (case param_loop e [0..<length param_table] argv
             \<lparr>pr_server = s0, pr_done = {}, pr_help = (length argv \<le> 1), pr_errors = []\<rparr> of
        None \<Rightarrow> None
      | Some st \<Rightarrow>
          let s = pr_server st; left = filter (\<lambda>i. i \<notin> pr_done st) [1..<length argv];
              help = (pr_help st \<or> left \<noteq> []); unknown = map ((!) argv) left;
              out = concat (map error_text (pr_errors st)) @ (if help then help_text unknown else [])
          in Some \<lparr>i_server = s, i_help = help, i_unknown = unknown, i_errors = pr_errors st,
                i_go = (test s \<or> tcpListeners s \<noteq> [] \<or> udpListeners s \<noteq> [] \<or> testListeners s \<noteq> []),
                i_printed = (if logging s then out else [])\<rparr>)"

section \<open>Facts of the table\<close>

lemmas setter_defs = set_daemon_def set_test_def test_tcp_remote_address_def test_udp_remote_address_def tcp_backlog_def
  tcp_receive_address_size_def udp_receive_packet_size_def udp_receive_address_size_def udp_send_packet_size_def
  udp_max_sent_buffer_size_def udp_max_receive_buffer_size_def udp_max_sent_measure_size_def udp_resend_count_def
  confirmation_resend_count_def udp_max_send_loss_percent_def udp_initial_send_interval_us_def udp_resend_us_def
  build_confirmations_us_def build_udp_packets_us_def udp_max_sent_measure_us_def open_udp_listener_def
  open_tcp_listener_def open_test_listener_def set_help_def

lemma table_names: "distinct (map option_text param_table)"
  by code_simp

lemma find_param_in:
  "distinct (map option_text ps) \<Longrightarrow> p < length ps \<Longrightarrow> find_param_from n ps (option_text (ps ! p)) = Some (n + p, ps ! p)"
proof (induction ps arbitrary: n p)
  case (Cons q ps)
  then show ?case
  proof (cases p)
    case (Suc p')
    then have "option_text (ps ! p') \<in> set (map option_text ps)" using Cons.prems(2) by auto
    then show ?thesis using Cons.IH [of p' "n + 1"] Cons.prems Suc by auto
  qed simp
qed simp

lemma find_option: "p < length param_table \<Longrightarrow> find_param_from 0 param_table (option_text (param_table ! p)) = Some (p, param_table ! p)"
  using find_param_in [OF table_names, of p 0] by simp

text \<open>No function fails, and none looks behind its arguments.\<close>

lemma table_succeeds: "q \<in> set param_table \<Longrightarrow> fst (p_func q e args s)"
  by (auto simp: param_table_def make_param_def setter_defs)

lemma table_local:
  "q \<in> set param_table \<Longrightarrow> length as = p_count q \<Longrightarrow> p_func q e (x # as @ rest) s = p_func q e (x # as) s"
  by (auto simp: param_table_def make_param_def setter_defs nth_append numeral_2_eq_2)

section \<open>Well-formed command lines\<close>

text \<open>A command line is a sequence of options, each the index of a parameter with as many arguments as it takes.\<close>

type_synonym option_use = "nat \<times> string list"

definition valid_use :: "option_use \<Rightarrow> bool" where
  "valid_use g \<longleftrightarrow> fst g < length param_table \<and> length (snd g) = p_count (param_table ! fst g)"

definition use_text :: "option_use \<Rightarrow> string list" where
  "use_text g = option_text (param_table ! fst g) # snd g"

definition run_use :: "env \<Rightarrow> option_use \<Rightarrow> server \<Rightarrow> server" where
  "run_use e g s = snd (p_func (param_table ! fst g) e (use_text g) s)"

definition asks_help :: "option_use \<Rightarrow> bool" where
  "asks_help g \<longleftrightarrow> p_name (param_table ! fst g) = ''help''"

fun marks :: "nat \<Rightarrow> nat \<Rightarrow> option_use list \<Rightarrow> nat set" where
  "marks p i [] = {}"
| "marks p i (g # gs) = (if fst g = p then {i..i + length (snd g)} else {}) \<union> marks p (i + length (snd g) + 1) gs"

definition advance :: "env \<Rightarrow> nat \<Rightarrow> nat \<Rightarrow> option_use list \<Rightarrow> progress \<Rightarrow> progress" where
  "advance e p i gs st = st\<lparr>pr_server := fold (run_use e) (filter (\<lambda>g. fst g = p) gs) (pr_server st),
     pr_done := pr_done st \<union> marks p i gs, pr_help := (pr_help st \<or> (\<exists>g\<in>set gs. fst g = p \<and> asks_help g))\<rparr>"

lemma use_param_valid:
  assumes g: "valid_use g"
  shows "use_param e (pre @ use_text g @ rest) (length pre) (param_table ! fst g) st =
    Some (st\<lparr>pr_server := run_use e g (pr_server st), pr_done := pr_done st \<union> {length pre..length pre + length (snd g)},
      pr_help := (pr_help st \<or> asks_help g)\<rparr>)"
proof -
  have q: "param_table ! fst g \<in> set param_table" "length (snd g) = p_count (param_table ! fst g)"
    using g by (simp_all add: valid_use_def)
  have "p_func (param_table ! fst g) e (drop (length pre) (pre @ use_text g @ rest)) s = p_func (param_table ! fst g) e (use_text g) s" for s
    using table_local [OF q, of e "option_text (param_table ! fst g)" rest s] by (simp add: use_text_def)
  moreover have "p_func (param_table ! fst g) e (use_text g) s = (True, run_use e g s)" for s
    using table_succeeds [OF q(1), of e "use_text g" s] by (simp add: run_use_def prod_eq_iff)
  ultimately show ?thesis using q(2) by (simp add: use_param_def) (simp add: use_text_def asks_help_def)
qed

lemma arg_loop_reads:
  assumes "\<forall>g\<in>set gs. valid_use g"
  shows "arg_loop e p (pre @ concat (map use_text gs) @ rest) (length pre) st =
    arg_loop e p (pre @ concat (map use_text gs) @ rest) (length pre + length (concat (map use_text gs))) (advance e p (length pre) gs st)"
  using assms
proof (induction gs arbitrary: pre st)
  case Nil
  then show ?case by (simp add: advance_def)
next
  case (Cons g gs)
  let ?argv = "pre @ concat (map use_text (g # gs)) @ rest"
  have g: "valid_use g" using Cons.prems by simp
  have w: "length (use_text g) = length (snd g) + 1" by (simp add: use_text_def)
  have at: "length pre < length ?argv" "?argv ! length pre = option_text (param_table ! fst g)"
    by (simp_all add: use_text_def nth_append)
  have fd: "find_param_from 0 param_table (option_text (param_table ! fst g)) = Some (fst g, param_table ! fst g)"
    by (rule find_option) (use g in \<open>simp add: valid_use_def\<close>)
  have n: "p_count (param_table ! fst g) = length (snd g)" using g by (simp add: valid_use_def)
  define st' where "st' = (if p = fst g then st\<lparr>pr_server := run_use e g (pr_server st), pr_done := pr_done st \<union> {length pre..length pre + length (snd g)},
      pr_help := (pr_help st \<or> asks_help g)\<rparr> else st)"
  have "(if p = fst g then use_param e ?argv (length pre) (param_table ! fst g) st else Some st) = Some st'"
    using use_param_valid [OF g, of e pre "concat (map use_text gs) @ rest" st] by (simp add: st'_def)
  then have "arg_loop e p ?argv (length pre) st = arg_loop e p ?argv (length pre + length (snd g) + 1) st'"
    by (subst arg_loop.simps) (simp only: at fd n if_True option.case prod.case)
  also have "\<dots> = arg_loop e p ((pre @ use_text g) @ concat (map use_text gs) @ rest) (length (pre @ use_text g)) st'"
    using w by simp
  also have "\<dots> = arg_loop e p ((pre @ use_text g) @ concat (map use_text gs) @ rest) (length (pre @ use_text g) + length (concat (map use_text gs)))
      (advance e p (length (pre @ use_text g)) gs st')"
    by (rule Cons.IH) (use Cons.prems in simp)
  also have "advance e p (length (pre @ use_text g)) gs st' = advance e p (length pre) (g # gs) st"
    using w by (auto simp: advance_def st'_def Un_assoc)
  finally show ?case by (simp add: add.assoc)
qed

lemma arg_loop_end: "length argv \<le> i \<Longrightarrow> arg_loop e p argv i st = Some st"
  by (subst arg_loop.simps) simp

lemma param_loop_reads:
  assumes "\<forall>g\<in>set gs. valid_use g"
  shows "param_loop e ps (prog # concat (map use_text gs)) st =
    Some (st\<lparr>pr_server := fold (run_use e) (concat (map (\<lambda>p. filter (\<lambda>g. fst g = p) gs) ps)) (pr_server st),
      pr_done := pr_done st \<union> (\<Union>p\<in>set ps. marks p 1 gs),
      pr_help := (pr_help st \<or> (\<exists>g\<in>set gs. fst g \<in> set ps \<and> asks_help g))\<rparr>)"
proof (induction ps arbitrary: st)
  case (Cons p ps)
  have "arg_loop e p (prog # concat (map use_text gs)) 1 st = Some (advance e p 1 gs st)"
    using arg_loop_reads [OF assms, of e p "[prog]" "[]" st] by (simp add: arg_loop_end)
  moreover have "(\<exists>g\<in>set gs. fst g \<in> set (p # ps) \<and> asks_help g) =
      ((\<exists>g\<in>set gs. fst g = p \<and> asks_help g) \<or> (\<exists>g\<in>set gs. fst g \<in> set ps \<and> asks_help g))" by auto
  ultimately show ?case using Cons by (simp add: advance_def Un_assoc )
qed simp

section \<open>The whole command line\<close>

text \<open>Every argument of a well-formed command line is processed.\<close>

lemma all_marked:
  "\<forall>g\<in>set gs. valid_use g \<Longrightarrow>
     (\<Union>p\<in>{0..<length param_table}. marks p i gs) = {i..<i + length (concat (map use_text gs))}"
proof (induction gs arbitrary: i)
  case (Cons g gs)
  have "fst g < length param_table" using Cons.prems by (simp add: valid_use_def)
  then have "(\<Union>p\<in>{0..<length param_table}. marks p i (g # gs)) = {i..i + length (snd g)} \<union>
      (\<Union>p\<in>{0..<length param_table}. marks p (i + length (snd g) + 1) gs)" by (auto split: if_splits)
  also have "\<dots> = {i..i + length (snd g)} \<union> {i + length (snd g) + 1..<i + length (snd g) + 1 + length (concat (map use_text gs))}"
    using Cons.IH [of "i + length (snd g) + 1"] Cons.prems by simp
  also have "\<dots> = {i..<i + length (concat (map use_text (g # gs)))}" by (auto simp: use_text_def)
  finally show ?case .
qed simp

text \<open>Going through the table and taking the uses of each parameter is a stable sort by the index in the table.\<close>

lemma by_table_mset:
  "mset (concat (map (\<lambda>p. filter (\<lambda>g. fst g = p) gs) [0..<n])) = mset (filter (\<lambda>g. fst g < n) gs)"
proof (induction n)
  case (Suc n)
  have "mset (filter (\<lambda>g. fst g < n) gs) + mset (filter (\<lambda>g. fst g = n) gs) = mset (filter (\<lambda>g. fst g < Suc n) gs)"
    by (induction gs) auto
  then show ?case using Suc by simp
qed simp

lemma by_table_filter:
  "j < n \<Longrightarrow> filter (\<lambda>x. j = fst x) (concat (map (\<lambda>p. filter (\<lambda>g. fst g = p) gs) [0..<n])) = filter (\<lambda>x. j = fst x) gs"
proof (induction n)
  case (Suc n)
  have other: "filter (\<lambda>x. j = fst x) (concat (map (\<lambda>p. filter (\<lambda>g. fst g = p) gs) [0..<k])) = []" if "k \<le> j" for k
    using that by (auto simp: filter_empty_conv)
  show ?case
  proof (cases "j = n")
    case True
    then have "filter (\<lambda>x. fst x = n \<and> j = fst x) gs = filter (\<lambda>x. j = fst x) gs" by (intro filter_cong) auto
    then show ?thesis using other [of n] True by simp
  next
    case False
    then have "filter (\<lambda>x. j = fst x \<and> fst x = n) gs = []" by (auto simp: filter_empty_conv)
    then show ?thesis using Suc False by simp
  qed
qed simp

lemma by_table_sort:
  fixes gs :: "(nat \<times> 'a) list"
  assumes "\<forall>g\<in>set gs. fst g < n"
  shows "concat (map (\<lambda>p. filter (\<lambda>g. fst g = p) gs) [0..<n]) = sort_key fst gs"
proof (rule sym, rule properties_for_sort_key)
  let ?ys = "concat (map (\<lambda>p. filter (\<lambda>g. fst g = p) gs) [0..<n])"
  have "filter (\<lambda>g. fst g < n) gs = gs" using assms by (simp add: filter_id_conv)
  then show "mset ?ys = mset gs" by (simp add: by_table_mset)
  show "filter (\<lambda>x. fst k = fst x) ?ys = filter (\<lambda>x. fst k = fst x) gs" if "k \<in> set ?ys" for k
    using that by (intro by_table_filter) auto
  show "sorted (map fst ?ys)"
  proof (induction n)
    case (Suc n)
    have "sorted (map fst (filter (\<lambda>g. fst g = n) gs))" by (induction gs) auto
    then show ?case using Suc by (auto simp: sorted_append)
  qed simp
qed

lemma init_valid:
  assumes "\<forall>g\<in>set gs. valid_use g"
  shows "\<exists>r. init e (prog # concat (map use_text gs)) s0 = Some r \<and> i_server r = fold (run_use e) (sort_key fst gs) s0 \<and>
    i_unknown r = [] \<and> i_errors r = [] \<and> i_help r = (gs = [] \<or> (\<exists>g\<in>set gs. asks_help g)) \<and>
    i_printed r = (if i_help r \<and> logging (i_server r) then help_text [] else [])"
proof -
  let ?argv = "prog # concat (map use_text gs)"
  have lt: "\<forall>g\<in>set gs. fst g < length param_table" using assms by (simp add: valid_use_def)
  have m: "(\<Union>p\<in>{0..<length param_table}. marks p 1 gs) = {1..<length ?argv}" using all_marked [OF assms, of 1] by simp
  have left: "filter (\<lambda>i. i \<notin> {1..<n}) [1..<n] = []" for n :: nat by (simp add: filter_empty_conv)
  have ne: "(length ?argv \<le> 1) = (gs = [])" by (cases gs) (simp_all add: use_text_def)
  have h: "(\<exists>g\<in>set gs. fst g < length param_table \<and> asks_help g) = (\<exists>g\<in>set gs. asks_help g)" using lt by auto
  define st where "st = \<lparr>pr_server = fold (run_use e) (sort_key fst gs) s0, pr_done = {1..<length ?argv},
      pr_help = (length ?argv \<le> 1 \<or> (\<exists>g\<in>set gs. asks_help g)), pr_errors = []\<rparr>"
  have "param_loop e [0..<length param_table] ?argv \<lparr>pr_server = s0, pr_done = {}, pr_help = (length ?argv \<le> 1), pr_errors = []\<rparr> = Some st"
    unfolding param_loop_reads [OF assms] by_table_sort [OF lt] set_upt m st_def using h by simp
  then have "init e ?argv s0 = Some \<lparr>i_server = pr_server st, i_help = pr_help st, i_unknown = [], i_errors = [],
      i_go = (test (pr_server st) \<or> tcpListeners (pr_server st) \<noteq> [] \<or> udpListeners (pr_server st) \<noteq> [] \<or>
        testListeners (pr_server st) \<noteq> []),
      i_printed = (if logging (pr_server st) then if pr_help st then help_text [] else [] else [])\<rparr>"
    unfolding init_def using left [of "length ?argv"] by (simp only: option.case Let_def) (simp add: st_def)
  then show ?thesis using ne by (simp add: st_def)
qed

text \<open>C40: a command line made of options with as many arguments as they take is read completely, with no argument
  left over and no error: the options act on the server in the order of the table of parameters, uses of the same
  parameter in the order they are written in, which is a stable sort of the command line; the help is printed
  exactly when it is asked for or nothing is given, and not at all after \<^verbatim>\<open>--daemon\<close>.\<close>

theorem init_sorts_options:
  assumes "\<forall>g\<in>set gs. valid_use g"
  shows "\<exists>r. init e (prog # concat (map use_text gs)) s0 = Some r \<and> i_server r = fold (run_use e) (sort_key fst gs) s0 \<and>
    i_unknown r = [] \<and> i_errors r = [] \<and> i_help r = (gs = [] \<or> (\<exists>g\<in>set gs. asks_help g)) \<and>
    i_printed r = (if i_help r \<and> logging (i_server r) then help_text [] else [])"
  using init_valid [OF assms] .

section \<open>Settings reach the listeners\<close>

definition opened_with_settings :: "server \<Rightarrow> bool" where
  "opened_with_settings s \<longleftrightarrow> om_ok (udpListeners s) \<and>
     (\<forall>k l. om_find (udpListeners s) k = Some l \<longrightarrow> ul_receivePacketSize l = udpReceivePacketSize s)"

lemma table_length: "length param_table = 24"
  by (simp add: param_table_def)

text \<open>The first twenty parameters are settings, the others open listeners.\<close>

lemma setting_keeps: "q \<in> set (take 20 param_table) \<Longrightarrow> udpListeners (snd (p_func q e args s)) = udpListeners s"
  by (auto simp: param_table_def make_param_def setter_defs)

lemma opening_keeps: "q \<in> set (drop 20 param_table) \<Longrightarrow> opened_with_settings s \<Longrightarrow> opened_with_settings (snd (p_func q e args s))"
  by (auto simp: param_table_def make_param_def setter_defs opened_with_settings_def createUdpListener_def createTcpListener_def
      createTestListener_def server_tick_def Let_def split: if_splits)

lemma settings_first:
  assumes "\<forall>g\<in>set gs. valid_use g" "sorted (map fst gs)" "udpListeners s = []"
  shows "opened_with_settings (fold (run_use e) gs s)"
proof -
  have opened: "opened_with_settings (fold (run_use e) xs t)"
    if "\<forall>g\<in>set xs. valid_use g" "\<forall>g\<in>set xs. 20 \<le> fst g" "opened_with_settings t" for xs t
    using that
  proof (induction xs arbitrary: t)
    case (Cons g xs)
    have "fst g - 20 < length (drop 20 param_table)" "drop 20 param_table ! (fst g - 20) = param_table ! fst g"
      using Cons.prems by (simp_all add: valid_use_def) (auto simp: param_table_def)
    then have "param_table ! fst g \<in> set (drop 20 param_table)" by (metis nth_mem)
    then have "opened_with_settings (run_use e g t)" using opening_keeps Cons.prems(3) by (simp add: run_use_def)
    then show ?case using Cons by simp
  qed simp
  show ?thesis using assms
  proof (induction gs arbitrary: s)
    case Nil
    then show ?case by (simp add: opened_with_settings_def)
  next
    case (Cons g gs)
    show ?case
    proof (cases "fst g < 20")
      case True
      then have "param_table ! fst g \<in> set (take 20 param_table)"
        using table_length nth_mem [of "fst g" "take 20 param_table"] by simp
      then have "udpListeners (run_use e g s) = []" using setting_keeps Cons.prems(3) by (simp add: run_use_def)
      then show ?thesis using Cons by simp
    next
      case False
      then have "\<forall>x\<in>set (g # gs). 20 \<le> fst x" using Cons.prems(2) by auto
      moreover have "opened_with_settings s" using Cons.prems(3) by (simp add: opened_with_settings_def)
      ultimately show ?thesis using opened Cons.prems(1) by blast
    qed
  qed
qed

text \<open>Settings reach the listeners wherever they stand on the command line: every udp listener a well-formed
  command line opens has a receive buffer of the size the server ends up with, also when
  \<^verbatim>\<open>--udp-receive-packet-size\<close> is written behind \<^verbatim>\<open>--udp-listener\<close>.\<close>

theorem settings_before_listeners:
  assumes "\<forall>g\<in>set gs. valid_use g" "udpListeners s0 = []" "init e (prog # concat (map use_text gs)) s0 = Some r"
    "om_find (udpListeners (i_server r)) k = Some l"
  shows "ul_receivePacketSize l = udpReceivePacketSize (i_server r)"
proof -
  have "opened_with_settings (fold (run_use e) (sort_key fst gs) s0)"
    by (rule settings_first) (use assms(1,2) in simp_all)
  then have "opened_with_settings (i_server r)" using init_valid [OF assms(1), of e prog s0] assms(3) by auto
  then show ?thesis using assms(4) by (simp add: opened_with_settings_def)
qed

section \<open>An option without its arguments\<close>

lemma arg_loop_short:
  assumes "\<forall>g\<in>set gs. valid_use g" "p < length param_table" "length as < p_count (param_table ! p)"
  shows "arg_loop e j (prog # concat (map use_text gs) @ option_text (param_table ! p) # as) 1 st =
    (if j = p then None else Some (advance e j 1 gs st))"
proof -
  let ?argv = "[prog] @ concat (map use_text gs) @ option_text (param_table ! p) # as"
  have "arg_loop e j ?argv 1 st = arg_loop e j ?argv (1 + length (concat (map use_text gs))) (advance e j 1 gs st)"
    using arg_loop_reads [OF assms(1), of e j "[prog]" _ st] by simp
  also have "\<dots> = (if j = p then None else Some (advance e j 1 gs st))"
    using assms(3) find_option [OF assms(2)]
    by (subst arg_loop.simps) (simp add: nth_append use_param_def arg_loop_end)
  finally show ?thesis by simp
qed

lemma param_loop_short:
  assumes "\<forall>g\<in>set gs. valid_use g" "p < length param_table" "length as < p_count (param_table ! p)"
  shows "p \<in> set ps \<Longrightarrow> param_loop e ps (prog # concat (map use_text gs) @ option_text (param_table ! p) # as) st = None"
  by (induction ps arbitrary: st) (auto simp: arg_loop_short [OF assms, unfolded One_nat_def])

text \<open>An option at the end of the command line with too few arguments is not reported: whatever well-formed
  options precede it, its function reads \<^verbatim>\<open>argv\<close> behind its end, which is undefined.\<close>

theorem missing_argument_undefined:
  assumes "\<forall>g\<in>set gs. valid_use g" "p < length param_table" "length as < p_count (param_table ! p)"
  shows "init e (prog # concat (map use_text gs) @ option_text (param_table ! p) # as) s0 = None"
  using param_loop_short [OF assms, of "[0..<length param_table]"] assms(2) by (simp add: init_def)

section \<open>A sample command line\<close>

text \<open>\<^verbatim>\<open>icetunnel --udp-listener 1234 1.2.3.4:1080 --udp-receive-packet-size 4096\<close>\<close>

definition sample_uses :: "option_use list" where
  "sample_uses = [(20, [''1234'', ''1.2.3.4:1080'']), (6, [''4096''])]"

definition sample_env :: env where
  "sample_env = \<lparr>e_os = sample_os, e_resolve = (\<lambda>host. None), e_mem = (\<lambda>s. 1), e_sock = (\<lambda>s. sock_new False True True True)\<rparr>"

lemma sample_uses_valid: "\<forall>g\<in>set sample_uses. valid_use g"
  by (simp add: sample_uses_def valid_use_def param_table_def make_param_def)

lemma sample_server:
  "udpReceivePacketSize (fold (run_use sample_env) (sort_key fst sample_uses) server_new) = 4096"
  "om_find (udpListeners (fold (run_use sample_env) (sort_key fst sample_uses) server_new)) 1 \<noteq> None"
proof -
  have s: "sort_key fst sample_uses = [(6, [''4096'']), (20, [''1234'', ''1.2.3.4:1080''])]" by (simp add: sample_uses_def)
  have "atoi ''4096'' = 4096" by code_simp
  then show "udpReceivePacketSize (fold (run_use sample_env) (sort_key fst sample_uses) server_new) = 4096"
    "om_find (udpListeners (fold (run_use sample_env) (sort_key fst sample_uses) server_new)) 1 \<noteq> None"
    unfolding s
    by (simp_all add: run_use_def use_text_def param_table_def make_param_def setter_defs createUdpListener_def Let_def
        server_tick_def server_new_def sample_env_def)
qed

theorem init_sorts_options_witness:
  "\<exists>r. init sample_env (''icetunnel'' # concat (map use_text sample_uses)) server_new = Some r \<and>
     udpReceivePacketSize (i_server r) = 4096 \<and> om_find (udpListeners (i_server r)) 1 \<noteq> None \<and> \<not> i_help r"
proof -
  have "\<not> (\<exists>g\<in>set sample_uses. asks_help g)" "sample_uses \<noteq> []"
    by (simp_all add: sample_uses_def asks_help_def param_table_def make_param_def)
  then show ?thesis
    using init_sorts_options [OF sample_uses_valid, of sample_env "''icetunnel''" server_new] sample_server by auto
qed

theorem settings_before_listeners_witness:
  "\<exists>r l. init sample_env (''icetunnel'' # concat (map use_text sample_uses)) server_new = Some r \<and>
     om_find (udpListeners (i_server r)) 1 = Some l \<and> ul_receivePacketSize l = 4096"
proof -
  obtain r where r: "init sample_env (''icetunnel'' # concat (map use_text sample_uses)) server_new = Some r"
    "i_server r = fold (run_use sample_env) (sort_key fst sample_uses) server_new"
    using init_valid [OF sample_uses_valid, of sample_env "''icetunnel''" server_new] by blast
  then obtain l where l: "om_find (udpListeners (i_server r)) 1 = Some l" using sample_server(2) by auto
  have "udpListeners server_new = []" by (simp add: server_new_def)
  from settings_before_listeners [OF sample_uses_valid this r(1) l] show ?thesis using r l sample_server(1) by auto
qed

theorem missing_argument_undefined_witness:
  "init sample_env [''icetunnel'', ''--udp-listener'', ''1234''] server_new = None"
proof -
  have "option_text (param_table ! 20) = ''--udp-listener''" by (simp add: option_text_def param_table_def make_param_def)
  then show ?thesis using missing_argument_undefined [of "[]" 20 "[''1234'']" sample_env "''icetunnel''" server_new]
    by (simp add: param_table_def make_param_def)
qed

end
