(* ===== verification/Sockets_Win.thy ===== *)
theory Sockets_Win
  imports Sockets
begin

text \<open>
  \<^verbatim>\<open>socket.win.cpp\<close>: the same sockets over Winsock. A group keeps two parallel vectors, the entries for
  \<open>WSAPoll\<close> and the sockets they belong to; the sockets themselves are on the heap, a map from addresses.
  Every operation on a socket is shown to be the operation of \<open>Sockets\<close> on its state, together with the
  removal of its entry when it closes (\<open>lift_sock\<close>); from this follow the alignment of the vectors and what a
  poll does. The outcomes of the system calls are arguments; log output is left out.
\<close>

unbundle bit_operations_syntax

section \<open>State\<close>

text \<open>The bits of \<open>WSAPOLLFD\<close> in the Winsock headers.\<close>

abbreviation (input) POLLRDNORM :: "16 word" where "POLLRDNORM \<equiv> 0x0100"
abbreviation (input) POLLWRNORM :: "16 word" where "POLLWRNORM \<equiv> 0x0010"
abbreviation (input) POLLERR :: "16 word" where "POLLERR \<equiv> 0x0001"
abbreviation (input) POLLHUP :: "16 word" where "POLLHUP \<equiv> 0x0002"

definition INVALID_SOCKET :: int where
  "INVALID_SOCKET = -1"

record wsock =
  w_fd :: int
  w_connected :: bool
  w_error :: bool
  w_read :: bool
  w_write :: bool
  w_closeRead :: bool
  w_closeWrite :: bool
  w_close :: bool

record pollfd =
  pf_fd :: int
  pf_events :: "16 word"
  pf_revents :: "16 word"

record wgroup =
  wg_events :: "pollfd list"
  wg_sockets :: "nat list"
  wg_heap :: "nat \<rightharpoonup> wsock"

definition group_new :: wgroup where
  "group_new = \<lparr>wg_events = [], wg_sockets = [], wg_heap = Map.empty\<rparr>"

definition put_sock :: "nat \<Rightarrow> wsock \<Rightarrow> wgroup \<Rightarrow> wgroup" where
  "put_sock k s g = g\<lparr>wg_heap := (wg_heap g)(k \<mapsto> s)\<rparr>"

section \<open>Registration\<close>

definition register_socket :: "nat \<Rightarrow> wgroup \<Rightarrow> wgroup" where
  "register_socket k g =
     (case wg_heap g k of
        None \<Rightarrow> g
      | Some s \<Rightarrow> g\<lparr>wg_sockets := wg_sockets g @ [k],
                   wg_events := wg_events g @ [\<lparr>pf_fd = w_fd s, pf_events = POLLRDNORM OR POLLWRNORM, pf_revents = 0\<rparr>]\<rparr>)"

text \<open>The search loop of \<open>unregisterSocket\<close>, and \<open>vector::erase\<close>.\<close>

fun find_index :: "nat \<Rightarrow> nat list \<Rightarrow> nat option" where
  "find_index k [] = None"
| "find_index k (x # xs) = (if x = k then Some 0 else map_option Suc (find_index k xs))"

definition erase_at :: "nat \<Rightarrow> 'a list \<Rightarrow> 'a list" where
  "erase_at i xs = take i xs @ drop (i + 1) xs"

definition unregister_socket :: "nat \<Rightarrow> wgroup \<Rightarrow> wgroup" where
  "unregister_socket k g =
     (case find_index k (wg_sockets g) of
        None \<Rightarrow> g
      | Some i \<Rightarrow> g\<lparr>wg_events := erase_at i (wg_events g), wg_sockets := erase_at i (wg_sockets g)\<rparr>)"

section \<open>Closing and opening\<close>

definition close_win :: "bool \<Rightarrow> nat \<Rightarrow> wgroup \<Rightarrow> wgroup" where
  "close_win err k g =
     (case wg_heap g k of
        None \<Rightarrow> g
      | Some s0 \<Rightarrow>
          let s1 = (if err then s0\<lparr>w_error := True\<rparr> else s0);
              g1 = (if w_fd s1 \<noteq> INVALID_SOCKET then unregister_socket k g else g);
              s2 = (if w_fd s1 \<noteq> INVALID_SOCKET then s1\<lparr>w_fd := INVALID_SOCKET\<rparr> else s1)
          in put_sock k (s2\<lparr>w_read := False, w_write := False, w_closeRead := True, w_closeWrite := True, w_close := True\<rparr>) g1)"

text \<open>\<open>closeRead\<close> and \<open>closeWrite\<close> of \<^verbatim>\<open>socket.h\<close> with this \<open>close\<close>.\<close>

definition close_read_win :: "bool \<Rightarrow> nat \<Rightarrow> wgroup \<Rightarrow> wgroup" where
  "close_read_win err k g =
     (case wg_heap g k of
        None \<Rightarrow> g
      | Some s0 \<Rightarrow>
          let s1 = (if err then s0\<lparr>w_error := True\<rparr> else s0)
          in if w_closeRead s1 then put_sock k s1 g
             else let s2 = s1\<lparr>w_read := False, w_closeRead := True\<rparr>; g2 = put_sock k s2 g
                  in if w_closeWrite s2 then close_win False k g2 else g2)"

definition close_write_win :: "bool \<Rightarrow> nat \<Rightarrow> wgroup \<Rightarrow> wgroup" where
  "close_write_win err k g =
     (case wg_heap g k of
        None \<Rightarrow> g
      | Some s0 \<Rightarrow>
          let s1 = (if err then s0\<lparr>w_error := True\<rparr> else s0)
          in if w_closeWrite s1 then put_sock k s1 g
             else let s2 = s1\<lparr>w_write := False, w_closeWrite := True\<rparr>; g2 = put_sock k s2 g
                  in if w_closeRead s2 then close_win False k g2 else g2)"

text \<open>The constructor, with the descriptor \<open>socket\<close> returned or the one it is given, and the outcome of making it
  non-blocking.\<close>

definition open_win :: "bool \<Rightarrow> int \<Rightarrow> bool \<Rightarrow> nat \<Rightarrow> wgroup \<Rightarrow> wgroup" where
  "open_win accepted fd ioctl_ok k g =
     (let g1 = put_sock k \<lparr>w_fd = fd, w_connected = accepted, w_error = False, w_read = False, w_write = False,
                 w_closeRead = False, w_closeWrite = False, w_close = False\<rparr> g
      in if fd = INVALID_SOCKET then close_win True k g1
         else if \<not> ioctl_ok then close_win True k g1
         else register_socket k g1)"

definition destroy_win :: "nat \<Rightarrow> wgroup \<Rightarrow> wgroup" where
  "destroy_win k g = (let g1 = close_win False k g in g1\<lparr>wg_heap := (wg_heap g1)(k := None)\<rparr>)"

definition on_sock :: "(wsock \<Rightarrow> wsock) \<Rightarrow> nat \<Rightarrow> wgroup \<Rightarrow> wgroup" where
  "on_sock f k g = (case wg_heap g k of None \<Rightarrow> g | Some s \<Rightarrow> put_sock k (f s) g)"

definition connect_win :: "nat \<Rightarrow> wgroup \<Rightarrow> wgroup" where
  "connect_win = on_sock (w_connected_update (\<lambda>_. True))"

section \<open>Reading and writing\<close>

text \<open>The value of the call and the group after it; \<open>WSAEWOULDBLOCK\<close> is \<open>EAGAIN\<close>, \<open>WSAEINTR\<close> is \<open>EINTR\<close>.\<close>

definition read_win :: "received \<Rightarrow> int \<Rightarrow> nat \<Rightarrow> wgroup \<Rightarrow> bytes \<times> wgroup" where
  "read_win r sz k g =
     (case wg_heap g k of
        None \<Rightarrow> ([], g)
      | Some s \<Rightarrow>
          if w_closeRead s then ([], g)
          else case r of
            Got bs \<Rightarrow> (let bs' = take (nat sz) bs in (bs', if bs' = [] then close_read_win False k g else g))
          | RecvFailed e \<Rightarrow> ([], if e = EAGAIN then put_sock k (s\<lparr>w_read := False\<rparr>) g else g))"

definition write_win :: "taken \<Rightarrow> int \<Rightarrow> nat \<Rightarrow> wgroup \<Rightarrow> int \<times> wgroup" where
  "write_win r sz k g =
     (case wg_heap g k of
        None \<Rightarrow> (0, g)
      | Some s \<Rightarrow>
          if w_closeWrite s then (0, g)
          else case r of
            Took n \<Rightarrow> (min (int n) (max 0 sz), g)
          | SendFailed e \<Rightarrow> (0, if e = EAGAIN then put_sock k (s\<lparr>w_write := False\<rparr>) g else g))"

definition writeto_win :: "errno option \<Rightarrow> int \<Rightarrow> nat \<Rightarrow> wgroup \<Rightarrow> int \<times> wgroup" where
  "writeto_win r sz k g =
     (case wg_heap g k of
        None \<Rightarrow> (0, g)
      | Some s \<Rightarrow>
          if w_closeWrite s then (0, g)
          else case r of
            None \<Rightarrow> (max 0 sz, g)
          | Some e \<Rightarrow> (0, if e = EAGAIN then put_sock k (s\<lparr>w_write := False\<rparr>) g else g))"

text \<open>\<open>recvfrom\<close> fails on a datagram that does not fit the buffer (\<open>WSAEMSGSIZE\<close>).\<close>

definition readfrom_win :: "(bytes \<times> 'a) option \<Rightarrow> errno \<Rightarrow> int \<Rightarrow> nat \<Rightarrow> wgroup \<Rightarrow> int \<times> bytes \<times> 'a option \<times> wgroup" where
  "readfrom_win r e sz k g =
     (case wg_heap g k of
        None \<Rightarrow> (0, [], None, g)
      | Some s \<Rightarrow>
          if w_closeRead s then (0, [], None, g)
          else case r of
            Some (bs, addr) \<Rightarrow>
              if int (length bs) \<le> sz then (int (length bs), bs, Some addr, g) else (0, [], None, g)
          | None \<Rightarrow> (0, [], None, if e = EAGAIN then put_sock k (s\<lparr>w_read := False\<rparr>) g else g))"

text \<open>\<open>accept\<close>: a failure, or a descriptor and the outcome of making it non-blocking; \<open>kc\<close> is the memory of the
  client.\<close>

datatype accepted_win = AcceptFailedWin errno | AcceptedWin int bool

definition accept_win :: "accepted_win \<Rightarrow> nat \<Rightarrow> nat \<Rightarrow> wgroup \<Rightarrow> nat option \<times> wgroup" where
  "accept_win r kc k g =
     (case r of
        AcceptFailedWin e \<Rightarrow> (None, if e = EAGAIN then on_sock (w_read_update (\<lambda>_. False)) k g else g)
      | AcceptedWin fd ioctl_ok \<Rightarrow>
          let g1 = open_win True fd ioctl_ok kc g
          in case wg_heap g1 kc of
               None \<Rightarrow> (None, g1)
             | Some c \<Rightarrow> if w_close c then (None, destroy_win kc g1) else (Some kc, g1))"

section \<open>The abstract state\<close>

text \<open>The state of a socket as \<open>Sockets\<close> has it, and the way back, where the descriptor is kept or given up.\<close>

definition abs_sock :: "wsock \<Rightarrow> sock" where
  "abs_sock s = \<lparr>s_open = (w_fd s \<noteq> INVALID_SOCKET), s_connected = w_connected s, s_error = w_error s, s_read = w_read s,
     s_write = w_write s, s_closeRead = w_closeRead s, s_closeWrite = w_closeWrite s, s_close = w_close s\<rparr>"

definition conc_sock :: "int \<Rightarrow> sock \<Rightarrow> wsock" where
  "conc_sock fd t = \<lparr>w_fd = (if s_open t then fd else INVALID_SOCKET), w_connected = s_connected t, w_error = s_error t,
     w_read = s_read t, w_write = s_write t, w_closeRead = s_closeRead t, w_closeWrite = s_closeWrite t, w_close = s_close t\<rparr>"

text \<open>An operation of \<open>Sockets\<close> on a socket of the group: its entry is removed when its descriptor is closed.\<close>

definition lift_sock :: "(sock \<Rightarrow> sock) \<Rightarrow> nat \<Rightarrow> wgroup \<Rightarrow> wgroup" where
  "lift_sock f k g =
     (case wg_heap g k of
        None \<Rightarrow> g
      | Some s \<Rightarrow>
          let t = f (abs_sock s)
          in put_sock k (conc_sock (w_fd s) t) (if w_fd s \<noteq> INVALID_SOCKET \<and> \<not> s_open t then unregister_socket k g else g))"

lemma abs_conc [simp]: "fd \<noteq> INVALID_SOCKET \<or> \<not> s_open t \<Longrightarrow> abs_sock (conc_sock fd t) = t"
  by (auto simp: abs_sock_def conc_sock_def)

lemma conc_abs [simp]: "conc_sock (w_fd s) (abs_sock s) = s"
  by (simp add: abs_sock_def conc_sock_def)

lemma abs_fields [simp]:
  "s_open (abs_sock s) = (w_fd s \<noteq> INVALID_SOCKET)" "s_connected (abs_sock s) = w_connected s" "s_error (abs_sock s) = w_error s"
  "s_read (abs_sock s) = w_read s" "s_write (abs_sock s) = w_write s" "s_closeRead (abs_sock s) = w_closeRead s"
  "s_closeWrite (abs_sock s) = w_closeWrite s" "s_close (abs_sock s) = w_close s"
  by (simp_all add: abs_sock_def)

lemma unregister_heap [simp]: "wg_heap (unregister_socket k g) = wg_heap g"
  by (simp add: unregister_socket_def split: option.split)

lemma unregister_put: "unregister_socket k (put_sock j s g) = put_sock j s (unregister_socket k g)"
  by (simp add: unregister_socket_def put_sock_def split: option.split)

lemma put_put [simp]: "put_sock k s (put_sock k s' g) = put_sock k s g"
  by (simp add: put_sock_def)

lemma put_heap [simp]: "wg_heap (put_sock k s g) = (wg_heap g)(k \<mapsto> s)"
  "wg_events (put_sock k s g) = wg_events g" "wg_sockets (put_sock k s g) = wg_sockets g"
  by (simp_all add: put_sock_def)

lemma put_same: "wg_heap g k = Some s \<Longrightarrow> put_sock k s g = g"
  by (simp add: put_sock_def fun_upd_idem)

text \<open>An operation that never reopens a socket.\<close>

definition no_reopen :: "(sock \<Rightarrow> sock) \<Rightarrow> bool" where
  "no_reopen f \<longleftrightarrow> (\<forall>t. s_open (f t) \<longrightarrow> s_open t)"

lemma no_reopenD: "no_reopen f \<Longrightarrow> s_open (f t) \<Longrightarrow> s_open t"
  unfolding no_reopen_def by blast

lemma lift_none: "wg_heap g k = None \<Longrightarrow> lift_sock f k g = g"
  by (simp add: lift_sock_def)

lemma lift_id: "lift_sock (\<lambda>t. t) k g = g"
  by (auto simp: lift_sock_def put_same split: option.split)

lemma lift_cong:
  "wg_heap g k = Some s \<Longrightarrow> f (abs_sock s) = h (abs_sock s) \<Longrightarrow> lift_sock f k g = lift_sock h k g"
  by (simp add: lift_sock_def)

text \<open>What the lifted operation does to a socket in the heap.\<close>

lemma lift_some:
  assumes "wg_heap g k = Some s"
  shows "lift_sock f k g = put_sock k (conc_sock (w_fd s) (f (abs_sock s)))
     (if w_fd s \<noteq> INVALID_SOCKET \<and> \<not> s_open (f (abs_sock s)) then unregister_socket k g else g)"
  using assms by (simp add: lift_sock_def Let_def)

lemma conc_fd [simp]: "w_fd (conc_sock fd t) = (if s_open t then fd else INVALID_SOCKET)"
  by (simp add: conc_sock_def)

lemma conc_conc [simp]: "(s_open u \<Longrightarrow> s_open t) \<Longrightarrow> conc_sock (if s_open t then fd else INVALID_SOCKET) u = conc_sock fd u"
  by (auto simp: conc_sock_def)

lemma lift_comp:
  assumes "no_reopen f" "no_reopen h"
  shows "lift_sock h k (lift_sock f k g) = lift_sock (\<lambda>t. h (f t)) k g"
proof (cases "wg_heap g k")
  case None
  then show ?thesis by (simp add: lift_none)
next
  case (Some s)
  let ?t = "f (abs_sock s)"
  let ?g = "if w_fd s \<noteq> INVALID_SOCKET \<and> \<not> s_open ?t then unregister_socket k g else g"
  have o: "s_open ?t \<Longrightarrow> w_fd s \<noteq> INVALID_SOCKET" "s_open (h ?t) \<Longrightarrow> s_open ?t"
    using no_reopenD [OF assms(1), of "abs_sock s"] no_reopenD [OF assms(2), of ?t] by simp_all
  have a: "abs_sock (conc_sock (w_fd s) ?t) = ?t" using o(1) by (intro abs_conc) blast
  have "lift_sock h k (put_sock k (conc_sock (w_fd s) ?t) ?g) = put_sock k (conc_sock (w_fd s) (h ?t))
      (if s_open ?t \<and> w_fd s \<noteq> INVALID_SOCKET \<and> \<not> s_open (h ?t) then unregister_socket k ?g else ?g)"
    using o(2) by (subst lift_some [where s = "conc_sock (w_fd s) ?t"]) (simp_all add: a unregister_put)
  also have "\<dots> = lift_sock (\<lambda>t. h (f t)) k g" using o by (auto simp: lift_some [OF Some])
  finally show ?thesis by (simp only: lift_some [OF Some, of f])
qed

lemma no_reopen_comp: "no_reopen f \<Longrightarrow> no_reopen h \<Longrightarrow> no_reopen (\<lambda>t. h (f t))"
  unfolding no_reopen_def by blast

lemma lift_comp5:
  assumes n: "no_reopen f1" "no_reopen f2" "no_reopen f3" "no_reopen f4" "no_reopen f5"
  shows "lift_sock f5 k (lift_sock f4 k (lift_sock f3 k (lift_sock f2 k (lift_sock f1 k g)))) =
    lift_sock (\<lambda>t. f5 (f4 (f3 (f2 (f1 t))))) k g"
proof -
  note n2 = no_reopen_comp [OF n(1) n(2)]
  note n3 = no_reopen_comp [OF n2 n(3)]
  note n4 = no_reopen_comp [OF n3 n(4)]
  show ?thesis by (simp only: lift_comp [OF n(1) n(2)] lift_comp [OF n2 n(3)] lift_comp [OF n3 n(4)] lift_comp [OF n4 n(5)])
qed

lemma conc_eq:
  "s = conc_sock fd t \<longleftrightarrow> w_fd s = (if s_open t then fd else INVALID_SOCKET) \<and> w_connected s = s_connected t \<and> w_error s = s_error t \<and>
     w_read s = s_read t \<and> w_write s = s_write t \<and> w_closeRead s = s_closeRead t \<and> w_closeWrite s = s_closeWrite t \<and>
     w_close s = s_close t"
  by (cases s) (auto simp: conc_sock_def)

section \<open>The operations are those of \<open>Sockets\<close>\<close>

lemma no_reopens [simp]:
  "no_reopen (sock_close err)" "no_reopen (close_read err)" "no_reopen (close_write err)" "no_reopen sock_connect"
  "no_reopen (\<lambda>t. snd (sock_read r n t))" "no_reopen (\<lambda>t. snd (sock_write w n t))" "no_reopen (\<lambda>t. snd (sock_writeto v n t))"
  "no_reopen (s_read_update a)" "no_reopen (s_write_update a)" "no_reopen (s_error_update a)"
  by (auto simp: no_reopen_def sock_close_def close_read_def close_write_def sock_connect_def sock_read_def sock_write_def
      sock_writeto_def Let_def split: received.splits taken.splits option.splits if_splits)

lemma no_reopen_if: "no_reopen f \<Longrightarrow> no_reopen (\<lambda>t. if P t then f t else t)"
  unfolding no_reopen_def by metis

text \<open>An operation that leaves the descriptor alone.\<close>

lemma lift_put:
  assumes "wg_heap g k = Some s" "w_fd s' = w_fd s" "abs_sock s' = f (abs_sock s)"
  shows "lift_sock f k g = put_sock k s' g"
proof -
  have "s_open (f (abs_sock s)) = (w_fd s \<noteq> INVALID_SOCKET)" using assms(2) by (simp add: assms(3) [symmetric])
  moreover have "conc_sock (w_fd s) (f (abs_sock s)) = s'" using conc_abs [of s'] assms(2,3) by simp
  ultimately show ?thesis using lift_some [OF assms(1)] by auto
qed

lemma close_win_lift: "close_win err k g = lift_sock (sock_close err) k g"
proof (cases "wg_heap g k")
  case (Some s)
  show ?thesis
    unfolding lift_some [OF Some] close_win_def Some option.case Let_def
    by (rule arg_cong2 [of _ _ _ _ "put_sock k"]) (simp_all add: conc_eq sock_close_def)
qed (simp add: close_win_def lift_none)

lemma close_read_win_lift: "close_read_win err k g = lift_sock (close_read err) k g"
proof (cases "wg_heap g k")
  case (Some s)
  let ?s1 = "if err then s\<lparr>w_error := True\<rparr> else s"
  let ?s2 = "?s1\<lparr>w_read := False, w_closeRead := True\<rparr>"
  let ?f = "\<lambda>t. (if err then t\<lparr>s_error := True\<rparr> else t)\<lparr>s_read := False, s_closeRead := True\<rparr>"
  have f: "no_reopen ?f" by (simp add: no_reopen_def)
  have 2: "put_sock k ?s2 g = lift_sock ?f k g" by (rule lift_put [OF Some, symmetric]) (auto simp: abs_sock_def)
  consider "w_closeRead s" | "\<not> w_closeRead s" "w_closeWrite s" | "\<not> w_closeRead s" "\<not> w_closeWrite s" by blast
  then show ?thesis
  proof cases
    case 1
    then have "lift_sock (close_read err) k g = put_sock k ?s1 g"
      by (intro lift_put [OF Some]) (auto simp: abs_sock_def close_read_def Let_def)
    then show ?thesis using Some 1 by (simp add: close_read_win_def Let_def)
  next
    case 2
    have "close_read_win err k g = lift_sock (sock_close False) k (lift_sock ?f k g)"
      using Some 2 unfolding \<open>put_sock k ?s2 g = _\<close> [symmetric] by (simp add: close_read_win_def close_win_lift Let_def)
    also have "\<dots> = lift_sock (\<lambda>t. sock_close False (?f t)) k g" using f by (simp add: lift_comp)
    also have "\<dots> = lift_sock (close_read err) k g"
      using 2 by (intro lift_cong [OF Some]) (simp add: close_read_def Let_def)
    finally show ?thesis .
  next
    case 3
    then have "lift_sock (close_read err) k g = put_sock k ?s2 g"
      by (intro lift_put [OF Some]) (auto simp: abs_sock_def close_read_def Let_def)
    then show ?thesis using Some 3 by (simp add: close_read_win_def Let_def)
  qed
qed (simp add: close_read_win_def lift_none)

lemma close_write_win_lift: "close_write_win err k g = lift_sock (close_write err) k g"
proof (cases "wg_heap g k")
  case (Some s)
  let ?s1 = "if err then s\<lparr>w_error := True\<rparr> else s"
  let ?s2 = "?s1\<lparr>w_write := False, w_closeWrite := True\<rparr>"
  let ?f = "\<lambda>t. (if err then t\<lparr>s_error := True\<rparr> else t)\<lparr>s_write := False, s_closeWrite := True\<rparr>"
  have f: "no_reopen ?f" by (simp add: no_reopen_def)
  have 2: "put_sock k ?s2 g = lift_sock ?f k g" by (rule lift_put [OF Some, symmetric]) (auto simp: abs_sock_def)
  consider "w_closeWrite s" | "\<not> w_closeWrite s" "w_closeRead s" | "\<not> w_closeWrite s" "\<not> w_closeRead s" by blast
  then show ?thesis
  proof cases
    case 1
    then have "lift_sock (close_write err) k g = put_sock k ?s1 g"
      by (intro lift_put [OF Some]) (auto simp: abs_sock_def close_write_def Let_def)
    then show ?thesis using Some 1 by (simp add: close_write_win_def Let_def)
  next
    case 2
    have "close_write_win err k g = lift_sock (sock_close False) k (lift_sock ?f k g)"
      using Some 2 unfolding \<open>put_sock k ?s2 g = _\<close> [symmetric] by (simp add: close_write_win_def close_win_lift Let_def)
    also have "\<dots> = lift_sock (\<lambda>t. sock_close False (?f t)) k g" using f by (simp add: lift_comp)
    also have "\<dots> = lift_sock (close_write err) k g"
      using 2 by (intro lift_cong [OF Some]) (simp add: close_write_def Let_def)
    finally show ?thesis .
  next
    case 3
    then have "lift_sock (close_write err) k g = put_sock k ?s2 g"
      by (intro lift_put [OF Some]) (auto simp: abs_sock_def close_write_def Let_def)
    then show ?thesis using Some 3 by (simp add: close_write_win_def Let_def)
  qed
qed (simp add: close_write_win_def lift_none)

lemma connect_win_lift: "connect_win k g = lift_sock sock_connect k g"
proof (cases "wg_heap g k")
  case (Some s)
  have "lift_sock sock_connect k g = put_sock k (s\<lparr>w_connected := True\<rparr>) g"
    by (rule lift_put [OF Some]) (simp_all add: abs_sock_def sock_connect_def)
  then show ?thesis by (simp add: connect_win_def on_sock_def Some)
qed (simp add: connect_win_def on_sock_def lift_none)

text \<open>The state after the reading and writing calls, and their values.\<close>

lemma not_ready_lift:
  "wg_heap g k = Some s \<Longrightarrow> lift_sock (s_read_update (\<lambda>_. b)) k g = put_sock k (s\<lparr>w_read := b\<rparr>) g"
  "wg_heap g k = Some s \<Longrightarrow> lift_sock (s_write_update (\<lambda>_. b)) k g = put_sock k (s\<lparr>w_write := b\<rparr>) g"
  by (rule lift_put; simp add: abs_sock_def)+

lemma same_lift: "wg_heap g k = Some s \<Longrightarrow> f (abs_sock s) = abs_sock s \<Longrightarrow> lift_sock f k g = g"
  using lift_put [of g k s s f] by (simp add: put_same)

lemma read_win_lift:
  "snd (read_win r sz k g) = lift_sock (\<lambda>t. snd (sock_read r sz t)) k g"
  "wg_heap g k = Some s \<Longrightarrow> fst (read_win r sz k g) = fst (sock_read r sz (abs_sock s))"
proof -
  show "snd (read_win r sz k g) = lift_sock (\<lambda>t. snd (sock_read r sz t)) k g"
  proof (cases "wg_heap g k")
    case (Some s)
    consider "w_closeRead s" | bs where "\<not> w_closeRead s" "r = Got bs" | e where "\<not> w_closeRead s" "r = RecvFailed e"
      by (cases r) auto
    then show ?thesis
    proof cases
      case 1
      then show ?thesis using same_lift [OF Some] Some by (simp add: read_win_def sock_read_def)
    next
      case 2
      have "lift_sock (\<lambda>t. snd (sock_read r sz t)) k g = (if take (nat sz) bs = [] then lift_sock (close_read False) k g else g)"
        using 2 by (auto intro: lift_cong [OF Some] same_lift [OF Some] simp: sock_read_def Let_def)
      then show ?thesis using Some 2 by (simp add: read_win_def close_read_win_lift Let_def)
    next
      case 3
      have "lift_sock (\<lambda>t. snd (sock_read r sz t)) k g = (if e = EAGAIN then lift_sock (s_read_update (\<lambda>_. False)) k g else g)"
        using 3 by (auto intro: lift_cong [OF Some] same_lift [OF Some] simp: sock_read_def)
      then show ?thesis using Some 3 by (simp add: read_win_def not_ready_lift)
    qed
  qed (simp add: read_win_def lift_none)
  show "wg_heap g k = Some s \<Longrightarrow> fst (read_win r sz k g) = fst (sock_read r sz (abs_sock s))"
    by (simp add: read_win_def sock_read_def Let_def split: received.split)
qed

lemma write_win_lift:
  "snd (write_win r sz k g) = lift_sock (\<lambda>t. snd (sock_write r sz t)) k g"
  "wg_heap g k = Some s \<Longrightarrow> fst (write_win r sz k g) = fst (sock_write r sz (abs_sock s))"
proof -
  show "snd (write_win r sz k g) = lift_sock (\<lambda>t. snd (sock_write r sz t)) k g"
  proof (cases "wg_heap g k")
    case (Some s)
    have "lift_sock (\<lambda>t. snd (sock_write r sz t)) k g =
        (if \<not> w_closeWrite s \<and> r = SendFailed EAGAIN then lift_sock (s_write_update (\<lambda>_. False)) k g else g)"
      by (auto intro: lift_cong [OF Some] same_lift [OF Some] simp: sock_write_def split: taken.split)
    then show ?thesis using Some by (simp add: write_win_def not_ready_lift split: taken.split)
  qed (simp add: write_win_def lift_none)
  show "wg_heap g k = Some s \<Longrightarrow> fst (write_win r sz k g) = fst (sock_write r sz (abs_sock s))"
    by (simp add: write_win_def sock_write_def split: taken.split)
qed

lemma writeto_win_lift:
  "snd (writeto_win r sz k g) = lift_sock (\<lambda>t. snd (sock_writeto r sz t)) k g"
  "wg_heap g k = Some s \<Longrightarrow> fst (writeto_win r sz k g) = fst (sock_writeto r sz (abs_sock s))"
proof -
  show "snd (writeto_win r sz k g) = lift_sock (\<lambda>t. snd (sock_writeto r sz t)) k g"
  proof (cases "wg_heap g k")
    case (Some s)
    have "lift_sock (\<lambda>t. snd (sock_writeto r sz t)) k g =
        (if \<not> w_closeWrite s \<and> r = Some EAGAIN then lift_sock (s_write_update (\<lambda>_. False)) k g else g)"
      by (auto intro: lift_cong [OF Some] same_lift [OF Some] simp: sock_writeto_def split: option.split)
    then show ?thesis using Some by (simp add: writeto_win_def not_ready_lift split: option.split)
  qed (simp add: writeto_win_def lift_none)
  show "wg_heap g k = Some s \<Longrightarrow> fst (writeto_win r sz k g) = fst (sock_writeto r sz (abs_sock s))"
    by (simp add: writeto_win_def sock_writeto_def split: option.split)
qed

text \<open>A datagram that fits is read as on Linux; one that does not is an error of its own kind.\<close>

definition winsock_answer :: "int \<Rightarrow> (bytes \<times> 'a) option \<Rightarrow> errno \<Rightarrow> (bytes \<times> 'a) option \<times> errno" where
  "winsock_answer sz r e = (case r of Some (bs, a) \<Rightarrow> if int (length bs) \<le> sz then (r, e) else (None, EOTHER) | None \<Rightarrow> (None, e))"

lemma readfrom_win_lift:
  assumes "wg_heap g k = Some s" "winsock_answer sz r e = (r', e')"
  shows "readfrom_win r e sz k g = (case sock_readfrom r' e' sz (abs_sock s) of (n, bs, a, t) \<Rightarrow>
     (n, bs, a, lift_sock (\<lambda>t. snd (snd (snd (sock_readfrom r' e' sz t)))) k g))"
proof -
  have "lift_sock (\<lambda>t. snd (snd (snd (sock_readfrom r' e' sz t)))) k g =
      (if \<not> w_closeRead s \<and> r' = None \<and> e' = EAGAIN then lift_sock (s_read_update (\<lambda>_. False)) k g else g)"
    by (auto intro: lift_cong [OF assms(1)] same_lift [OF assms(1)] simp: sock_readfrom_def split: option.split)
  then show ?thesis
    using assms by (auto simp: readfrom_win_def sock_readfrom_def winsock_answer_def not_ready_lift split: option.split if_splits)
qed

section \<open>Polling\<close>

definition poll_one :: "nat \<Rightarrow> 16 word \<Rightarrow> wgroup \<Rightarrow> wgroup" where
  "poll_one k revents g =
     (let g1 = (case wg_heap g k of None \<Rightarrow> g
                | Some s \<Rightarrow> if w_connected s \<and> revents AND POLLHUP \<noteq> 0 then close_write_win False k g else g);
          g2 = (if revents AND POLLERR \<noteq> 0 then close_write_win True k g1 else g1);
          g3 = (case wg_heap g2 k of None \<Rightarrow> g2
                | Some s \<Rightarrow> if revents AND POLLRDNORM = 0 \<and> w_closeWrite s then close_read_win False k g2 else g2);
          g4 = on_sock (\<lambda>s. s\<lparr>w_read := (\<not> w_closeRead s \<and> revents AND POLLRDNORM \<noteq> 0)\<rparr>) k g3
      in on_sock (\<lambda>s. s\<lparr>w_write := (\<not> w_closeWrite s \<and> revents AND POLLWRNORM \<noteq> 0)\<rparr>) k g4)"

definition bits_of :: "16 word \<Rightarrow> poll_bits" where
  "bits_of r = \<lparr>b_in = (r AND POLLRDNORM \<noteq> 0), b_out = (r AND POLLWRNORM \<noteq> 0), b_err = (r AND POLLERR \<noteq> 0),
     b_hup = (r AND POLLHUP \<noteq> 0), b_rdhup = False\<rparr>"

lemma bits_rdhup: "b_rdhup (bits_of r) = False"
  by (simp add: bits_of_def)

lemma lift_if:
  "wg_heap g k = Some s \<Longrightarrow> (if P (abs_sock s) then lift_sock f k g else g) = lift_sock (\<lambda>t. if P t then f t else t) k g"
  by (auto simp: same_lift intro: lift_cong)

lemma on_sock_lift:
  assumes "\<And>s. w_fd (h s) = w_fd s" "\<And>s. abs_sock (h s) = f (abs_sock s)"
  shows "on_sock h k g = lift_sock f k g"
  using lift_put [of g k _ "h _" f] assms by (cases "wg_heap g k") (simp_all add: on_sock_def lift_none)

lemma poll_socket_no_reopen [simp]: "no_reopen (poll_socket b)"
proof -
  have "s_open (poll_socket b t) \<Longrightarrow> s_open t" for t
    by (auto simp: poll_socket_def close_read_def close_write_def sock_close_def Let_def split: if_splits)
  then show ?thesis by (simp add: no_reopen_def)
qed

text \<open>The body of the last loop is \<open>poll_socket\<close>.\<close>

lemma poll_one_lift: "poll_one k r g = lift_sock (poll_socket (bits_of r)) k g"
proof (cases "wg_heap g k")
  case None
  then show ?thesis by (simp add: poll_one_def close_write_win_lift lift_none on_sock_def Let_def)
next
  case (Some s)
  let ?b = "bits_of r"
  let ?f1 = "\<lambda>t. if s_connected t \<and> b_hup ?b then close_write False t else t"
  let ?f2 = "\<lambda>t. if b_err ?b then close_write True t else t"
  let ?f3 = "\<lambda>t. if \<not> b_in ?b \<and> s_closeWrite t then close_read False t else t"
  let ?f4 = "\<lambda>t. t\<lparr>s_read := (\<not> s_closeRead t \<and> b_in ?b)\<rparr>"
  let ?f5 = "\<lambda>t. t\<lparr>s_write := (\<not> s_closeWrite t \<and> b_out ?b)\<rparr>"
  have n: "no_reopen ?f1" "no_reopen ?f2" "no_reopen ?f3" "no_reopen ?f4" "no_reopen ?f5"
    by (rule no_reopen_if no_reopens | simp add: no_reopen_def)+
  have live: "\<exists>s'. wg_heap (lift_sock f k g') k = Some s'" if "wg_heap g' k = Some u" for f g' u
    using lift_some [OF that, of f] by simp
  obtain s1 where 1: "wg_heap (lift_sock ?f1 k g) k = Some s1" using live [OF Some] by blast
  obtain s2 where 2: "wg_heap (lift_sock ?f2 k (lift_sock ?f1 k g)) k = Some s2" using live [OF 1] by blast
  have g1: "(if w_connected s \<and> r AND POLLHUP \<noteq> 0 then close_write_win False k g else g) = lift_sock ?f1 k g"
    using lift_if [OF Some, of "\<lambda>t. s_connected t \<and> b_hup ?b" "close_write False"] by (simp only: close_write_win_lift bits_of_def poll_bits.simps abs_fields not_not)
  have g2: "(if r AND POLLERR \<noteq> 0 then close_write_win True k (lift_sock ?f1 k g) else lift_sock ?f1 k g) =
      lift_sock ?f2 k (lift_sock ?f1 k g)"
    using lift_if [OF 1, of "\<lambda>t. b_err ?b" "close_write True"] by (simp only: close_write_win_lift bits_of_def poll_bits.simps abs_fields not_not)
  have g3: "(if r AND POLLRDNORM = 0 \<and> w_closeWrite s2 then close_read_win False k (lift_sock ?f2 k (lift_sock ?f1 k g))
      else lift_sock ?f2 k (lift_sock ?f1 k g)) = lift_sock ?f3 k (lift_sock ?f2 k (lift_sock ?f1 k g))"
    using lift_if [OF 2, of "\<lambda>t. \<not> b_in ?b \<and> s_closeWrite t" "close_read False"] by (simp only: close_read_win_lift bits_of_def poll_bits.simps abs_fields not_not)
  have g4: "on_sock (\<lambda>s. s\<lparr>w_read := (\<not> w_closeRead s \<and> r AND POLLRDNORM \<noteq> 0)\<rparr>) k g' = lift_sock ?f4 k g'" for g'
    by (rule on_sock_lift) (simp_all add: abs_sock_def bits_of_def)
  have g5: "on_sock (\<lambda>s. s\<lparr>w_write := (\<not> w_closeWrite s \<and> r AND POLLWRNORM \<noteq> 0)\<rparr>) k g' = lift_sock ?f5 k g'" for g'
    by (rule on_sock_lift) (simp_all add: abs_sock_def bits_of_def)
  have "poll_one k r g = lift_sock ?f5 k (lift_sock ?f4 k (lift_sock ?f3 k (lift_sock ?f2 k (lift_sock ?f1 k g))))"
    unfolding poll_one_def Some option.case g1 Let_def g2 2 g3 g4 g5 ..
  also have "\<dots> = lift_sock (\<lambda>t. ?f5 (?f4 (?f3 (?f2 (?f1 t))))) k g"
    by (rule lift_comp5 [OF n])
  also have "(\<lambda>t. ?f5 (?f4 (?f3 (?f2 (?f1 t))))) = poll_socket ?b"
    by (rule ext) (simp only: poll_socket_def Let_def bits_rdhup simp_thms)
  finally show ?thesis .
qed

end
