(* ===== verification/Sockets_Win_Group.thy ===== *)
theory Sockets_Win_Group
  imports Sockets_Win
begin

text \<open>
  The group of sockets on Windows: \<open>WSAPoll\<close> in two phases, with the loop that hands the results out while
  sockets may leave the vectors, and the invariant that keeps the two vectors aligned. What the loop does is a
  walk over the sockets (\<open>walk\<close>) that passes over the one behind a socket that closes.
\<close>

unbundle bit_operations_syntax

section \<open>The two calls\<close>

text \<open>The answer to a call: the bits of each entry, or a failure.\<close>

type_synonym wsapoll = "pollfd list \<Rightarrow> (nat \<Rightarrow> 16 word) option"

definition set_revents :: "(nat \<Rightarrow> 16 word) \<Rightarrow> pollfd list \<Rightarrow> pollfd list" where
  "set_revents r es = map (\<lambda>(i, e). e\<lparr>pf_revents := r i\<rparr>) (enumerate 0 es)"

definition missing_bits :: "pollfd \<Rightarrow> 16 word" where
  "missing_bits e = NOT (pf_revents e) AND (POLLRDNORM OR POLLWRNORM)"

text \<open>\<open>edgePointers\<close> and \<open>edgeEvents\<close>.\<close>

definition edge_list :: "pollfd list \<Rightarrow> (nat \<times> pollfd) list" where
  "edge_list es = map (\<lambda>(i, e). (i, e\<lparr>pf_events := missing_bits e\<rparr>)) (filter (\<lambda>(i, e). missing_bits e \<noteq> 0) (enumerate 0 es))"

fun merge_edges :: "(nat \<times> 16 word) list \<Rightarrow> pollfd list \<Rightarrow> pollfd list" where
  "merge_edges [] es = es"
| "merge_edges ((i, r) # ps) es = merge_edges ps (es[i := (es ! i)\<lparr>pf_revents := pf_revents (es ! i) OR r\<rparr>])"

text \<open>The entries after the first call, and after both; \<open>None\<close> when the call failed.\<close>

definition first_call :: "wsapoll \<Rightarrow> pollfd list \<Rightarrow> pollfd list option" where
  "first_call w es = map_option (\<lambda>r. set_revents r es) (w es)"

definition second_call :: "wsapoll \<Rightarrow> pollfd list \<Rightarrow> pollfd list option" where
  "second_call w es =
     (let edges = edge_list es; edgeEvents = map snd edges
      in map_option (\<lambda>r. merge_edges (zip (map fst edges) (map pf_revents (set_revents r edgeEvents))) es) (w edgeEvents))"

section \<open>Handing the results out\<close>

lemma erase_length [simp]: "length (erase_at i xs) \<le> length xs"
  by (simp add: erase_at_def)

lemma poll_one_length: "length (wg_events (poll_one k r g)) \<le> length (wg_events g)"
  by (simp add: poll_one_lift lift_sock_def unregister_socket_def Let_def split: option.split)

function poll_loop :: "nat \<Rightarrow> wgroup \<Rightarrow> wgroup" where
  "poll_loop i g =
     (if i < length (wg_events g) then
        let revents = pf_revents (wg_events g ! i)
        in if revents \<noteq> 0 then poll_loop (i + 1) (poll_one (wg_sockets g ! i) revents g) else poll_loop (i + 1) g
      else g)"
  by pat_completeness auto
termination
proof (relation "measure (\<lambda>(i, g). length (wg_events g) - i)")
  fix i :: nat and g :: wgroup and r :: "16 word"
  assume "i < length (wg_events g)" "r = pf_revents (wg_events g ! i)"
  then show "((i + 1, poll_one (wg_sockets g ! i) r g), i, g) \<in> measure (\<lambda>(i, g). length (wg_events g) - i)"
    using poll_one_length [of "wg_sockets g ! i" r g] by simp
qed auto

declare poll_loop.simps [simp del]

definition poll_win :: "wsapoll \<Rightarrow> wsapoll \<Rightarrow> wgroup \<Rightarrow> wgroup" where
  "poll_win w1 w2 g =
     (case first_call w1 (wg_events g) of
        None \<Rightarrow> g
      | Some es1 \<Rightarrow>
          (case second_call w2 es1 of
             None \<Rightarrow> g\<lparr>wg_events := es1\<rparr>
           | Some es2 \<Rightarrow> poll_loop 0 (g\<lparr>wg_events := es2\<rparr>)))"

section \<open>The invariant of the group\<close>

text \<open>An entry belongs to its socket, which is open.\<close>

definition entry_ok :: "(nat \<rightharpoonup> wsock) \<Rightarrow> nat \<Rightarrow> pollfd \<Rightarrow> bool" where
  "entry_ok h k e \<longleftrightarrow> (\<exists>s. h k = Some s \<and> w_fd s \<noteq> INVALID_SOCKET \<and> pf_fd e = w_fd s \<and> pf_events e = POLLRDNORM OR POLLWRNORM)"

definition group_ok :: "wgroup \<Rightarrow> bool" where
  "group_ok g \<longleftrightarrow> list_all2 (entry_ok (wg_heap g)) (wg_sockets g) (wg_events g) \<and> distinct (wg_sockets g) \<and>
     (\<forall>k s. wg_heap g k = Some s \<longrightarrow> sock_ok (abs_sock s) \<and> (w_fd s \<noteq> INVALID_SOCKET \<longrightarrow> k \<in> set (wg_sockets g)))"

lemma group_okI:
  assumes "list_all2 (entry_ok (wg_heap g)) (wg_sockets g) (wg_events g)" "distinct (wg_sockets g)"
    "\<And>k s. wg_heap g k = Some s \<Longrightarrow> sock_ok (abs_sock s)"
    "\<And>k s. wg_heap g k = Some s \<Longrightarrow> w_fd s \<noteq> INVALID_SOCKET \<Longrightarrow> k \<in> set (wg_sockets g)"
  shows "group_ok g"
  using assms by (simp add: group_ok_def)

lemma group_okD:
  assumes "group_ok g"
  shows "list_all2 (entry_ok (wg_heap g)) (wg_sockets g) (wg_events g)" "distinct (wg_sockets g)"
    "wg_heap g k = Some s \<Longrightarrow> sock_ok (abs_sock s)"
    "wg_heap g k = Some s \<Longrightarrow> w_fd s \<noteq> INVALID_SOCKET \<Longrightarrow> k \<in> set (wg_sockets g)"
    "length (wg_events g) = length (wg_sockets g)"
  using assms by (auto simp: group_ok_def dest: list_all2_lengthD)

lemma find_index_Some: "find_index k xs = Some i \<Longrightarrow> i < length xs \<and> xs ! i = k"
  by (induction xs arbitrary: i) (auto split: if_splits)

lemma find_index_None: "find_index k xs = None \<longleftrightarrow> k \<notin> set xs"
  by (induction xs) auto

lemma erase_set: "distinct xs \<Longrightarrow> i < length xs \<Longrightarrow> set (erase_at i xs) = set xs - {xs ! i}"
proof -
  assume d: "distinct xs" "i < length xs"
  then have "xs = take i xs @ xs ! i # drop (Suc i) xs" by (simp add: id_take_nth_drop)
  then have "distinct (take i xs @ xs ! i # drop (Suc i) xs)" "set xs = set (take i xs) \<union> {xs ! i} \<union> set (drop (Suc i) xs)"
    using d(1) by (metis, metis Un_insert_right insert_is_Un list.simps(15) set_append sup.commute sup_assoc)
  then show ?thesis by (auto simp: erase_at_def)
qed

lemma erase_distinct: "distinct xs \<Longrightarrow> distinct (erase_at i xs)"
  by (auto simp: erase_at_def set_take_disj_set_drop_if_distinct)

lemma erase_all2: "list_all2 P xs ys \<Longrightarrow> list_all2 P (erase_at i xs) (erase_at i ys)"
  by (simp add: erase_at_def list_all2_appendI)

text \<open>What unregistering does to an aligned group.\<close>

lemma unregister_parts:
  assumes "list_all2 P (wg_sockets g) (wg_events g)" "distinct (wg_sockets g)"
  shows "list_all2 P (wg_sockets (unregister_socket k g)) (wg_events (unregister_socket k g))"
    "distinct (wg_sockets (unregister_socket k g))" "set (wg_sockets (unregister_socket k g)) = set (wg_sockets g) - {k}"
  using assms find_index_Some [of k "wg_sockets g"] find_index_None [of k "wg_sockets g"]
  by (auto simp: unregister_socket_def erase_all2 erase_distinct erase_set split: option.split)

lemma all2_other_heap:
  assumes "list_all2 (entry_ok h) ks es" "\<And>k. k \<in> set ks \<Longrightarrow> (h' k = h k \<or> (\<exists>s s'. h k = Some s \<and> h' k = Some s' \<and> w_fd s' = w_fd s))"
  shows "list_all2 (entry_ok h') ks es"
  using assms(1)
proof (rule list.rel_mono_strong)
  fix k e assume "k \<in> set ks" "entry_ok h k e"
  then show "entry_ok h' k e" using assms(2) [of k] by (auto simp: entry_ok_def)
qed

text \<open>An operation of \<open>Sockets\<close> that keeps sockets well formed and never reopens one keeps the group.\<close>

locale socket_op =
  fixes win :: "nat \<Rightarrow> wgroup \<Rightarrow> wgroup" and f :: "sock \<Rightarrow> sock"
  assumes lifted: "win k g = lift_sock f k g"
    and closes: "no_reopen f"
    and keeps_ok: "sock_ok t \<Longrightarrow> sock_ok (f t)"
begin

lemma other_sockets: "j \<noteq> k \<Longrightarrow> wg_heap (win k g) j = wg_heap g j"
  by (simp add: lifted lift_sock_def Let_def split: option.split)

lemma this_socket: "map_option abs_sock (wg_heap (win k g) k) = map_option (\<lambda>s. f (abs_sock s)) (wg_heap g k)"
proof (cases "wg_heap g k")
  case (Some s)
  have "w_fd s \<noteq> INVALID_SOCKET \<or> \<not> s_open (f (abs_sock s))" using no_reopenD [OF closes, of "abs_sock s"] by auto
  then show ?thesis by (simp add: lifted lift_some [OF Some] Some)
qed (simp add: lifted lift_none)

lemma keeps_group: "group_ok g \<Longrightarrow> group_ok (win k g)"
proof (cases "wg_heap g k")
  case (Some s)
  assume ok: "group_ok g"
  note G = group_okD [OF ok]
  let ?t = "f (abs_sock s)"
  let ?s = "conc_sock (w_fd s) ?t"
  let ?g = "if w_fd s \<noteq> INVALID_SOCKET \<and> \<not> s_open ?t then unregister_socket k g else g"
  have e: "win k g = put_sock k ?s ?g" by (simp only: lifted lift_some [OF Some])
  have re: "s_open ?t \<Longrightarrow> w_fd s \<noteq> INVALID_SOCKET" using no_reopenD [OF closes, of "abs_sock s"] by simp
  have u: "list_all2 (entry_ok (wg_heap g)) (wg_sockets ?g) (wg_events ?g)" "distinct (wg_sockets ?g)"
    "set (wg_sockets ?g) = (if w_fd s \<noteq> INVALID_SOCKET \<and> \<not> s_open ?t then set (wg_sockets g) - {k} else set (wg_sockets g))"
    using G(1,2) unregister_parts [OF G(1,2)] by auto
  have reg: "w_fd s \<noteq> INVALID_SOCKET" if "k \<in> set (wg_sockets g)"
    using G(1) that Some by (auto simp: entry_ok_def list_all2_conv_all_nth in_set_conv_nth)
  show "group_ok (win k g)"
  proof (rule group_okI)
    show "list_all2 (entry_ok (wg_heap (win k g))) (wg_sockets (win k g)) (wg_events (win k g))"
      unfolding e put_heap
    proof (rule all2_other_heap [OF u(1)])
      fix j assume "j \<in> set (wg_sockets ?g)"
      then have "j = k \<Longrightarrow> s_open ?t" using u(3) reg by (auto split: if_splits)
      then show "((wg_heap ?g)(k \<mapsto> ?s)) j = wg_heap g j \<or>
          (\<exists>s' s''. wg_heap g j = Some s' \<and> ((wg_heap ?g)(k \<mapsto> ?s)) j = Some s'' \<and> w_fd s'' = w_fd s')"
        using Some by auto
    qed
    show "distinct (wg_sockets (win k g))" unfolding e put_heap by (rule u(2))
    fix j s' assume h: "wg_heap (win k g) j = Some s'"
    have a: "abs_sock ?s = ?t" using re by (intro abs_conc) blast
    show "sock_ok (abs_sock s')"
      using h a G(3) [OF Some] G(3) [of j] keeps_ok by (auto simp: e split: if_splits)
    show "j \<in> set (wg_sockets (win k g))" if "w_fd s' \<noteq> INVALID_SOCKET"
      unfolding e put_heap u(3) using h that G(4) [of j] G(4) [OF Some] re by (auto simp: e split: if_splits)
  qed
qed (simp add: lifted lift_none)

end

interpretation closing_op: socket_op "close_win err" "sock_close err" for err
  by unfold_locales (simp_all add: close_win_lift sock_close_ok)

interpretation close_read_op: socket_op "close_read_win err" "close_read err" for err
  by unfold_locales (simp_all add: close_read_win_lift close_read_ok)

interpretation close_write_op: socket_op "close_write_win err" "close_write err" for err
  by unfold_locales (simp_all add: close_write_win_lift close_write_ok)

interpretation connect_op: socket_op connect_win sock_connect
  by unfold_locales (simp_all add: connect_win_lift sock_connect_def sock_ok_def)

interpretation read_op: socket_op "\<lambda>k g. snd (read_win r n k g)" "\<lambda>t. snd (sock_read r n t)" for r n
  by unfold_locales (simp_all add: read_win_lift(1) sock_read_ok)

interpretation write_op: socket_op "\<lambda>k g. snd (write_win r n k g)" "\<lambda>t. snd (sock_write r n t)" for r n
  by unfold_locales (simp_all add: write_win_lift(1) sock_write_ok)

interpretation writeto_op: socket_op "\<lambda>k g. snd (writeto_win r n k g)" "\<lambda>t. snd (sock_writeto r n t)" for r n
  by unfold_locales (simp_all add: writeto_win_lift(1) sock_writeto_ok)

interpretation poll_op: socket_op "\<lambda>k g. poll_one k r g" "poll_socket (bits_of r)" for r
  by unfold_locales (simp_all add: poll_one_lift poll_socket_ok)

section \<open>Opening, destroying and polling\<close>

lemma unregistered: "group_ok g \<Longrightarrow> wg_heap g k = None \<Longrightarrow> k \<notin> set (wg_sockets g)"
  by (fastforce dest: group_okD(1) simp: entry_ok_def list_all2_conv_all_nth in_set_conv_nth)

lemma all2_heap_except:
  assumes "list_all2 (entry_ok h) ks es" "k \<notin> set ks"
  shows "list_all2 (entry_ok (h(k := x))) ks es"
  by (rule all2_other_heap [OF assms(1)]) (use assms(2) in auto)

lemma put_closed_ok:
  assumes "group_ok g" "wg_heap g k = None" "w_fd s = INVALID_SOCKET" "sock_ok (abs_sock s)"
  shows "group_ok (put_sock k s g)"
  by (rule group_okI) (use assms all2_heap_except [OF group_okD(1) [OF assms(1)] unregistered [OF assms(1,2)]]
      group_okD(2-4) [OF assms(1)] in \<open>auto split: if_splits\<close>)

lemma register_ok:
  assumes g: "group_ok g" "wg_heap g k = None" and s: "w_fd s \<noteq> INVALID_SOCKET" "sock_ok (abs_sock s)"
  shows "group_ok (register_socket k (put_sock k s g))"
proof -
  let ?e = "\<lparr>pf_fd = w_fd s, pf_events = POLLRDNORM OR POLLWRNORM, pf_revents = 0\<rparr>"
  have h: "list_all2 (entry_ok ((wg_heap g)(k \<mapsto> s))) (wg_sockets g) (wg_events g)"
    using all2_heap_except [OF group_okD(1) [OF g(1)] unregistered [OF g]] .
  have "entry_ok ((wg_heap g)(k \<mapsto> s)) k ?e" using s(1) by (simp add: entry_ok_def)
  then have "list_all2 (entry_ok ((wg_heap g)(k \<mapsto> s))) (wg_sockets g @ [k]) (wg_events g @ [?e])"
    using h by (intro list_all2_appendI) simp_all
  then show ?thesis
    by (intro group_okI) (use group_okD(2-4) [OF g(1)] unregistered [OF g] s(2) in \<open>auto simp: register_socket_def split: if_splits\<close>)
qed

lemma open_win_eq:
  assumes "k \<notin> set (wg_sockets g)"
  shows "open_win accepted fd ioctl_ok k g =
     (let s = \<lparr>w_fd = fd, w_connected = accepted, w_error = False, w_read = False, w_write = False,
          w_closeRead = False, w_closeWrite = False, w_close = False\<rparr>
      in if fd = INVALID_SOCKET \<or> \<not> ioctl_ok then put_sock k (conc_sock fd (sock_close True (abs_sock s))) g
         else register_socket k (put_sock k s g))"
proof -
  have "unregister_socket k (put_sock k s g) = put_sock k s g" for s
    using assms find_index_None [of k "wg_sockets g"] by (simp add: unregister_socket_def)
  then show ?thesis by (auto simp: open_win_def close_win_lift lift_sock_def sock_close_def Let_def)
qed

lemma open_win_ok: "group_ok g \<Longrightarrow> wg_heap g k = None \<Longrightarrow> group_ok (open_win accepted fd ioctl_ok k g)"
proof -
  assume g: "group_ok g" "wg_heap g k = None"
  let ?s = "\<lparr>w_fd = fd, w_connected = accepted, w_error = False, w_read = False, w_write = False,
     w_closeRead = False, w_closeWrite = False, w_close = False\<rparr>"
  let ?c = "conc_sock fd (sock_close True (abs_sock ?s))"
  have "\<not> s_open (sock_close True (abs_sock ?s))" by (simp add: sock_close_def)
  then have c: "group_ok (put_sock k ?c g)" using g by (intro put_closed_ok) (simp_all add: sock_close_ok)
  have r: "group_ok (register_socket k (put_sock k ?s g))" if "fd \<noteq> INVALID_SOCKET"
    using g that by (intro register_ok) (simp_all add: sock_ok_def abs_sock_def)
  show ?thesis unfolding open_win_eq [OF unregistered [OF g]] Let_def using c r by auto
qed

text \<open>A closed socket is in no entry, so its memory can be freed.\<close>

lemma closed_unregistered:
  "group_ok g \<Longrightarrow> wg_heap g k = Some s \<Longrightarrow> w_fd s = INVALID_SOCKET \<Longrightarrow> k \<notin> set (wg_sockets g)"
  by (fastforce dest: group_okD(1) simp: entry_ok_def list_all2_conv_all_nth in_set_conv_nth)

lemma close_win_unregisters:
  assumes "group_ok g"
  shows "k \<notin> set (wg_sockets (close_win err k g))"
proof (cases "wg_heap g k")
  case (Some s)
  have "w_fd (conc_sock (w_fd s) (sock_close err (abs_sock s))) = INVALID_SOCKET" by (simp add: sock_close_def)
  moreover have "wg_heap (close_win err k g) k = Some (conc_sock (w_fd s) (sock_close err (abs_sock s)))"
    by (simp add: close_win_lift lift_some [OF Some])
  ultimately show ?thesis using closed_unregistered [OF closing_op.keeps_group [OF assms]] by blast
qed (use assms unregistered in \<open>simp add: close_win_lift lift_none\<close>)

lemma destroy_win_ok: "group_ok g \<Longrightarrow> group_ok (destroy_win k g)"
proof -
  assume g: "group_ok g"
  let ?g = "close_win False k g"
  have c: "group_ok ?g" "k \<notin> set (wg_sockets ?g)" using closing_op.keeps_group [OF g] close_win_unregisters [OF g] by blast+
  show ?thesis
    by (rule group_okI) (use all2_heap_except [OF group_okD(1) [OF c(1)] c(2)] group_okD(2-4) [OF c(1)] in
        \<open>auto simp: destroy_win_def Let_def split: if_splits\<close>)
qed

lemma accept_win_ok:
  assumes "group_ok g" "wg_heap g kc = None"
  shows "group_ok (snd (accept_win r kc k g))"
proof (cases r)
  case (AcceptFailedWin e)
  have "group_ok (lift_sock (s_read_update (\<lambda>_. False)) k g)"
    using socket_op.keeps_group [of "lift_sock (s_read_update (\<lambda>_. False))" "s_read_update (\<lambda>_. False)"] assms(1)
    by (auto simp: socket_op_def sock_ok_def)
  then show ?thesis using assms(1) AcceptFailedWin
      on_sock_lift [of "w_read_update (\<lambda>_. False)" "s_read_update (\<lambda>_. False)" k g]
    by (simp add: accept_win_def abs_sock_def)
next
  case (AcceptedWin fd ok)
  then show ?thesis using open_win_ok [OF assms] destroy_win_ok by (auto simp: accept_win_def Let_def split: option.split)
qed

text \<open>The calls change the bits only.\<close>

definition same_entries :: "pollfd list \<Rightarrow> pollfd list \<Rightarrow> bool" where
  "same_entries es es' \<longleftrightarrow> map pf_fd es' = map pf_fd es \<and> map pf_events es' = map pf_events es"

lemma same_entriesD: "same_entries es es' \<Longrightarrow> length es' = length es \<and> (\<forall>i<length es. pf_fd (es' ! i) = pf_fd (es ! i) \<and> pf_events (es' ! i) = pf_events (es ! i))"
  unfolding same_entries_def by (metis length_map nth_map)

lemma set_revents_same: "same_entries es (set_revents r es)"
  by (simp add: same_entries_def set_revents_def list_eq_iff_nth_eq nth_enumerate_eq split_def)

lemma merge_edges_same: "same_entries es (merge_edges ps es)"
proof (induction ps es rule: merge_edges.induct)
  case (2 i r ps es)
  have "same_entries es (es[i := (es ! i)\<lparr>pf_revents := x\<rparr>])" for x
    by (cases "i < length es") (auto simp: same_entries_def list_eq_iff_nth_eq nth_list_update)
  then show ?case using 2 by (simp add: same_entries_def)
qed (simp add: same_entries_def)

lemma calls_same:
  "first_call w es = Some es' \<Longrightarrow> same_entries es es'" "second_call w es = Some es' \<Longrightarrow> same_entries es es'"
  by (auto simp: first_call_def second_call_def set_revents_same merge_edges_same Let_def)

lemma group_ok_revents:
  assumes "group_ok g" "same_entries (wg_events g) es"
  shows "group_ok (g\<lparr>wg_events := es\<rparr>)"
  by (rule group_okI) (use group_okD [OF assms(1)] same_entriesD [OF assms(2)] in
      \<open>auto simp: list_all2_conv_all_nth entry_ok_def\<close>)

lemma poll_loop_ok: "group_ok g \<Longrightarrow> group_ok (poll_loop i g)"
proof (induction i g rule: poll_loop.induct)
  case (1 i g)
  then show ?case using poll_op.keeps_group by (subst poll_loop.simps) (simp add: Let_def)
qed

lemma poll_win_ok: "group_ok g \<Longrightarrow> group_ok (poll_win w1 w2 g)"
proof -
  assume g: "group_ok g"
  have 1: "group_ok (g\<lparr>wg_events := es\<rparr>)" if "first_call w1 (wg_events g) = Some es" for es
    using group_ok_revents [OF g calls_same(1) [OF that]] .
  have 2: "group_ok (g\<lparr>wg_events := es'\<rparr>)" if "first_call w1 (wg_events g) = Some es" "second_call w2 es = Some es'" for es es'
    using group_ok_revents [OF 1 [OF that(1)], of es'] calls_same(2) [OF that(2)] by simp
  show ?thesis using g 1 2 by (auto simp: poll_win_def poll_loop_ok split: option.split)
qed

section \<open>Runs\<close>

text \<open>What can happen to the sockets of a group. New sockets get memory that is not in use.\<close>

inductive win_step :: "wgroup \<Rightarrow> wgroup \<Rightarrow> bool" where
  opened: "wg_heap g k = None \<Longrightarrow> win_step g (open_win False fd ioctl_ok k g)"
| destroyed: "win_step g (destroy_win k g)"
| closed: "win_step g (close_win err k g)"
| closed_read: "win_step g (close_read_win err k g)"
| closed_write: "win_step g (close_write_win err k g)"
| connected: "win_step g (connect_win k g)"
| accepted: "wg_heap g kc = None \<Longrightarrow> win_step g (snd (accept_win r kc k g))"
| was_read: "win_step g (snd (read_win r1 n k g))"
| written: "win_step g (snd (write_win r2 n k g))"
| written_to: "win_step g (snd (writeto_win r3 n k g))"
| read_from: "win_step g (snd (snd (snd (readfrom_win (r4 :: (bytes \<times> nat) option) e n k g))))"
| polled: "win_step g (poll_win w1 w2 g)"

lemma readfrom_ok: "group_ok g \<Longrightarrow> group_ok (snd (snd (snd (readfrom_win r e n k g))))"
proof (cases "wg_heap g k")
  case (Some s)
  assume g: "group_ok g"
  obtain r' e' where w: "winsock_answer n r e = (r', e')" by fastforce
  have "socket_op (lift_sock (\<lambda>t. snd (snd (snd (sock_readfrom r' e' n t))))) (\<lambda>t. snd (snd (snd (sock_readfrom r' e' n t))))"
    by unfold_locales (auto simp: no_reopen_def sock_readfrom_def sock_ok_def split: option.split)
  then show ?thesis using socket_op.keeps_group [of _ _ g k] g by (simp add: readfrom_win_lift [OF Some w] split_def)
qed (simp add: readfrom_win_def)

lemma win_step_ok: "win_step g g' \<Longrightarrow> group_ok g \<Longrightarrow> group_ok g'"
  by (induction rule: win_step.induct)
    (simp_all add: open_win_ok destroy_win_ok closing_op.keeps_group close_read_op.keeps_group close_write_op.keeps_group
      connect_op.keeps_group accept_win_ok read_op.keeps_group write_op.keeps_group writeto_op.keeps_group readfrom_ok poll_win_ok)

lemma group_new_ok: "group_ok group_new"
  by (simp add: group_ok_def group_new_def)

lemma reachable_group_ok: "win_step\<^sup>*\<^sup>* group_new g \<Longrightarrow> group_ok g"
  by (induction rule: rtranclp_induct) (simp_all add: group_new_ok win_step_ok)

text \<open>C37: in every state the group of sockets can reach on Windows, the entries handed to \<open>WSAPoll\<close> and the pointers
  beside them are aligned: entry and pointer at each position belong to the same open socket, each open socket stands
  at exactly one position, and no socket that was closed or deleted is left in the vectors.\<close>

theorem win_group_aligned:
  assumes "win_step\<^sup>*\<^sup>* group_new g"
  shows "length (wg_events g) = length (wg_sockets g) \<and> distinct (wg_sockets g) \<and>
    set (wg_sockets g) = {k. \<exists>s. wg_heap g k = Some s \<and> w_fd s \<noteq> INVALID_SOCKET} \<and>
    (\<forall>i<length (wg_sockets g). \<exists>s. wg_heap g (wg_sockets g ! i) = Some s \<and> pf_fd (wg_events g ! i) = w_fd s)"
proof -
  note G = group_okD [OF reachable_group_ok [OF assms]]
  have e: "entry_ok (wg_heap g) (wg_sockets g ! i) (wg_events g ! i)" if "i < length (wg_sockets g)" for i
    using list_all2_nthD [OF G(1) that] .
  then have "set (wg_sockets g) = {k. \<exists>s. wg_heap g k = Some s \<and> w_fd s \<noteq> INVALID_SOCKET}"
    using G(4) by (fastforce simp: entry_ok_def in_set_conv_nth)
  moreover have "\<exists>s. wg_heap g (wg_sockets g ! i) = Some s \<and> pf_fd (wg_events g ! i) = w_fd s" if "i < length (wg_sockets g)" for i
    using e [OF that] by (auto simp: entry_ok_def)
  ultimately show ?thesis using G(2,5) by blast
qed

section \<open>What a poll does\<close>

definition abs_heap :: "wgroup \<Rightarrow> nat \<rightharpoonup> sock" where
  "abs_heap g k = map_option abs_sock (wg_heap g k)"

text \<open>The walk of the last loop, on the sockets alone: behind a socket that closes the next one is passed over.\<close>

definition closes_on :: "16 word \<Rightarrow> sock \<Rightarrow> bool" where
  "closes_on r t \<longleftrightarrow> r \<noteq> 0 \<and> s_open t \<and> \<not> s_open (poll_socket (bits_of r) t)"

fun walk :: "(nat \<times> 16 word) list \<Rightarrow> (nat \<rightharpoonup> sock) \<Rightarrow> (nat \<rightharpoonup> sock)" where
  "walk [] h = h"
| "walk ((k, r) # rest) h =
     (case h k of
        None \<Rightarrow> walk rest h
      | Some t \<Rightarrow>
          if r = 0 then walk rest h
          else walk (if closes_on r t then drop 1 rest else rest) (h(k \<mapsto> poll_socket (bits_of r) t)))"

definition turns :: "wgroup \<Rightarrow> (nat \<times> 16 word) list" where
  "turns g = zip (wg_sockets g) (map pf_revents (wg_events g))"

lemma find_index_nth: "distinct xs \<Longrightarrow> i < length xs \<Longrightarrow> find_index (xs ! i) xs = Some i"
proof (induction xs arbitrary: i)
  case (Cons x xs)
  then show ?case by (cases i) auto
qed simp

lemma poll_loop_walk:
  assumes "group_ok g"
  shows "abs_heap (poll_loop i g) = walk (drop i (turns g)) (abs_heap g)"
  using assms
proof (induction i g rule: poll_loop.induct)
  case (1 i g)
  note G = group_okD [OF 1(3)]
  show ?case
  proof (cases "i < length (wg_events g)")
    case True
    let ?k = "wg_sockets g ! i" and ?r = "pf_revents (wg_events g ! i)"
    have i: "i < length (wg_sockets g)" using True G(5) by simp
    obtain s where s: "wg_heap g ?k = Some s" "w_fd s \<noteq> INVALID_SOCKET"
      using list_all2_nthD [OF G(1) i] by (auto simp: entry_ok_def)
    have d: "drop i (turns g) = (?k, ?r) # drop (i + 1) (turns g)"
      using True i by (simp add: turns_def Cons_nth_drop_Suc [symmetric])
    have a: "abs_heap g ?k = Some (abs_sock s)" by (simp add: abs_heap_def s)
    show ?thesis
    proof (cases "?r = 0")
      case True
      then show ?thesis using 1 \<open>i < length (wg_events g)\<close> by (subst poll_loop.simps) (simp add: d a)
    next
      case False
      let ?g = "poll_one ?k ?r g" and ?t = "poll_socket (bits_of ?r) (abs_sock s)"
      have ok: "group_ok ?g" using poll_op.keeps_group [OF 1(3)] .
      have o: "closes_on ?r (abs_sock s) = (\<not> s_open ?t)" using False s(2) by (simp add: closes_on_def)
      have h: "abs_heap ?g = (abs_heap g)(?k \<mapsto> ?t)"
        using poll_op.other_sockets poll_op.this_socket [of ?k ?r g] s(1) by (auto simp: abs_heap_def fun_eq_iff)
      have "drop (i + 1) (turns ?g) = (if \<not> s_open ?t then drop 1 (drop (i + 1) (turns g)) else drop (i + 1) (turns g))"
        using find_index_nth [OF G(2) i] s(2) i True
        by (simp add: turns_def poll_one_lift lift_some [OF s(1)] unregister_socket_def erase_at_def drop_zip drop_map [symmetric] take_map)
      then show ?thesis using 1(1) [OF True refl False ok] False True by (subst poll_loop.simps) (simp add: d a h o fun_upd_def)
    qed
  next
    case False
    then show ?thesis using G(5) by (subst poll_loop.simps) (simp add: turns_def)
  qed
qed

lemma walk_other: "k \<notin> fst ` set ps \<Longrightarrow> walk ps h k = h k"
proof (induction ps arbitrary: h rule: measure_induct_rule [of length])
  case (less ps)
  show ?case
  proof (cases ps)
    case (Cons p rest)
    obtain k' r where p: "p = (k', r)" by fastforce
    have "k \<notin> fst ` set rest" "k \<notin> fst ` set (drop 1 rest)" "k \<noteq> k'"
      using less.prems set_drop_subset [of 1 rest] by (auto simp: Cons p)
    then show ?thesis
      using less.IH [of rest] less.IH [of "drop 1 rest"] by (simp add: Cons p split: option.split)
  qed simp
qed

text \<open>As long as nothing has closed, every socket has its turn; the one behind the first that closes has none.\<close>

definition none_closes :: "(nat \<times> 16 word) list \<Rightarrow> (nat \<rightharpoonup> sock) \<Rightarrow> bool" where
  "none_closes ps h \<longleftrightarrow> (\<forall>k r u. (k, r) \<in> set ps \<longrightarrow> h k = Some u \<longrightarrow> \<not> closes_on r u)"

lemma walk_prefix:
  "distinct (map fst (xs @ ys)) \<Longrightarrow> none_closes xs h \<Longrightarrow>
   \<exists>h'. walk (xs @ ys) h = walk ys h' \<and> (\<forall>k\<in>fst ` set ys. h' k = h k)"
proof (induction xs arbitrary: h)
  case (Cons p xs)
  obtain k r where p: "p = (k, r)" by fastforce
  have nc: "h k = Some u \<Longrightarrow> \<not> closes_on r u" for u using Cons.prems(2) by (auto simp: none_closes_def p)
  have d: "distinct (map fst (xs @ ys))" "k \<notin> fst ` set xs" "k \<notin> fst ` set ys" using Cons.prems(1) by (auto simp: p)
  have n: "none_closes xs (h(k := x))" for x using Cons.prems(2) d(2)
    by (force simp: none_closes_def p split: if_splits)
  have n0: "none_closes xs h" using Cons.prems(2) by (auto simp: none_closes_def)
  show ?case
  proof (cases "h k")
    case None
    then show ?thesis using Cons.IH [OF d(1) n0] by (simp add: p)
  next
    case (Some u)
    show ?thesis
    proof (cases "r = 0")
      case True
      then show ?thesis using Cons.IH [OF d(1) n0] Some by (simp add: p)
    next
      case False
      let ?h = "h(k \<mapsto> poll_socket (bits_of r) u)"
      obtain h' where h': "walk (xs @ ys) ?h = walk ys h'" "\<forall>j\<in>fst ` set ys. h' j = ?h j"
        using Cons.IH [OF d(1) n] by blast
      have "walk ((p # xs) @ ys) h = walk ys h'" using False Some nc h'(1) by (simp add: p)
      moreover have "\<forall>j\<in>fst ` set ys. h' j = h j" using h'(2) d(3) by auto
      ultimately show ?thesis by blast
    qed
  qed
qed auto

lemma walk_turn:
  assumes "distinct (map fst (xs @ (k, r) # ys))" "none_closes xs h" "h k = Some t"
  shows "walk (xs @ (k, r) # ys) h k = Some (if r = 0 then t else poll_socket (bits_of r) t)"
    "closes_on r t \<Longrightarrow> ys = (k', r') # zs \<Longrightarrow> walk (xs @ (k, r) # ys) h k' = h k'"
proof -
  from walk_prefix [OF assms(1,2)] obtain h' where
    h': "walk (xs @ (k, r) # ys) h = walk ((k, r) # ys) h'" "\<forall>k\<in>fst ` set ((k, r) # ys). h' k = h k" by blast
  have k: "h' k = Some t" "k \<notin> fst ` set ys" "k \<notin> fst ` set (drop 1 ys)"
    using h'(2) assms(1,3) set_drop_subset [of 1 ys] by auto
  show "walk (xs @ (k, r) # ys) h k = Some (if r = 0 then t else poll_socket (bits_of r) t)"
    unfolding h'(1) using k by (simp add: walk_other)
  assume c: "closes_on r t" "ys = (k', r') # zs"
  then have "k' \<noteq> k" "k' \<notin> fst ` set zs" using assms(1) by auto
  moreover have "r \<noteq> 0" using c(1) by (simp add: closes_on_def)
  ultimately show "walk (xs @ (k, r) # ys) h k' = h k'"
    unfolding h'(1) using k c h'(2) by (simp add: walk_other)
qed

lemma walk_nth:
  assumes "distinct (map fst ps)" "i < length ps" "ps ! i = (k, r)" "none_closes (take i ps) h" "h k = Some t"
  shows "walk ps h k = Some (if r = 0 then t else poll_socket (bits_of r) t)"
    "closes_on r t \<Longrightarrow> i + 1 < length ps \<Longrightarrow> walk ps h (fst (ps ! (i + 1))) = h (fst (ps ! (i + 1)))"
proof -
  have e: "ps = take i ps @ (k, r) # drop (i + 1) ps" using id_take_nth_drop [OF assms(2)] assms(3) by simp
  have d: "distinct (map fst (take i ps @ (k, r) # drop (i + 1) ps))" using assms(1) e by metis
  note T = walk_turn [OF d assms(4,5)]
  show "walk ps h k = Some (if r = 0 then t else poll_socket (bits_of r) t)" using T(1) e by metis
  assume c: "closes_on r t" "i + 1 < length ps"
  then obtain k' r' where n: "ps ! (i + 1) = (k', r')" by fastforce
  have "drop (i + 1) ps = (k', r') # drop (i + 2) ps" using c(2) n Cons_nth_drop_Suc [of "i + 1" ps] by simp
  from T(2) [OF c(1) this] show "walk ps h (fst (ps ! (i + 1))) = h (fst (ps ! (i + 1)))" using e n by (metis fst_conv)
qed

section \<open>Properties of the poll\<close>

text \<open>No socket before position \<open>i\<close> closes in this poll.\<close>

definition none_closes_before :: "nat \<Rightarrow> pollfd list \<Rightarrow> wgroup \<Rightarrow> bool" where
  "none_closes_before i es g \<longleftrightarrow>
     (\<forall>j<i. \<forall>u. abs_heap g (wg_sockets g ! j) = Some u \<longrightarrow> \<not> closes_on (pf_revents (es ! j)) u)"

lemma poll_win_walk:
  assumes g: "group_ok g" and calls: "first_call w1 (wg_events g) = Some es1" "second_call w2 es1 = Some es2"
  shows "abs_heap (poll_win w1 w2 g) = walk (zip (wg_sockets g) (map pf_revents es2)) (abs_heap g)"
    "length es2 = length (wg_sockets g)"
proof -
  have s: "same_entries (wg_events g) es2" using calls_same(1) [OF calls(1)] calls_same(2) [OF calls(2)] by (simp add: same_entries_def)
  then have "group_ok (g\<lparr>wg_events := es2\<rparr>)" using group_ok_revents g by blast
  from poll_loop_walk [OF this, of 0]
  show "abs_heap (poll_win w1 w2 g) = walk (zip (wg_sockets g) (map pf_revents es2)) (abs_heap g)"
    using calls by (simp add: poll_win_def turns_def abs_heap_def [abs_def])
  show "length es2 = length (wg_sockets g)" using same_entriesD [OF s] group_okD(5) [OF g] by simp
qed

lemma poll_win_turn:
  assumes g: "group_ok g" and calls: "first_call w1 (wg_events g) = Some es1" "second_call w2 es1 = Some es2"
    and i: "i < length (wg_sockets g)" "none_closes_before i es2 g" "abs_heap g (wg_sockets g ! i) = Some t"
  shows "abs_heap (poll_win w1 w2 g) (wg_sockets g ! i) =
      Some (if pf_revents (es2 ! i) = 0 then t else poll_socket (bits_of (pf_revents (es2 ! i))) t)"
    "closes_on (pf_revents (es2 ! i)) t \<Longrightarrow> i + 1 < length (wg_sockets g) \<Longrightarrow>
      abs_heap (poll_win w1 w2 g) (wg_sockets g ! (i + 1)) = abs_heap g (wg_sockets g ! (i + 1))"
proof -
  note W = poll_win_walk [OF g calls]
  let ?ps = "zip (wg_sockets g) (map pf_revents es2)"
  have l: "length ?ps = length (wg_sockets g)" using W(2) by simp
  have p: "?ps ! j = (wg_sockets g ! j, pf_revents (es2 ! j))" if "j < length (wg_sockets g)" for j
    using that W(2) by simp
  have d: "distinct (map fst ?ps)" using group_okD(2) [OF g] W(2) by simp
  have n: "none_closes (take i ?ps) (abs_heap g)"
    using i(1,2) W(2) by (auto simp: none_closes_def none_closes_before_def in_set_conv_nth)
  note T = walk_nth [OF d i(1) [folded l] p [OF i(1)] n i(3)]
  show "abs_heap (poll_win w1 w2 g) (wg_sockets g ! i) =
      Some (if pf_revents (es2 ! i) = 0 then t else poll_socket (bits_of (pf_revents (es2 ! i))) t)"
    unfolding W(1) by (rule T(1))
  show "closes_on (pf_revents (es2 ! i)) t \<Longrightarrow> i + 1 < length (wg_sockets g) \<Longrightarrow>
      abs_heap (poll_win w1 w2 g) (wg_sockets g ! (i + 1)) = abs_heap g (wg_sockets g ! (i + 1))"
    using T(2) p [of "i + 1"] l unfolding W(1) by simp
qed

text \<open>C38: a poll on Windows does to each socket what a poll on Linux does with the same bits: as long as no socket before
  it closes, the socket at a position of the vectors is updated by the bits both calls of \<open>WSAPoll\<close> found for it.\<close>

theorem win_poll_updates:
  assumes "win_step\<^sup>*\<^sup>* group_new g" "first_call w1 (wg_events g) = Some es1" "second_call w2 es1 = Some es2"
    "i < length (wg_sockets g)" "none_closes_before i es2 g" "abs_heap g (wg_sockets g ! i) = Some t"
    "pf_revents (es2 ! i) \<noteq> 0"
  shows "abs_heap (poll_win w1 w2 g) (wg_sockets g ! i) = Some (poll_socket (bits_of (pf_revents (es2 ! i))) t)"
  using poll_win_turn(1) [OF reachable_group_ok [OF assms(1)] assms(2-6)] assms(7) by simp

text \<open>But the loop erases the entry of a socket that closes while it walks over the entries, so it passes over the
  next socket: whatever happened to that one, it is not told in this poll.\<close>

theorem win_poll_skips:
  assumes "win_step\<^sup>*\<^sup>* group_new g" "first_call w1 (wg_events g) = Some es1" "second_call w2 es1 = Some es2"
    "i + 1 < length (wg_sockets g)" "none_closes_before i es2 g" "abs_heap g (wg_sockets g ! i) = Some t"
    "closes_on (pf_revents (es2 ! i)) t"
  shows "abs_heap (poll_win w1 w2 g) (wg_sockets g ! (i + 1)) = abs_heap g (wg_sockets g ! (i + 1))"
  using poll_win_turn(2) [OF reachable_group_ok [OF assms(1)] assms(2,3) _ assms(5-7)] assms(4) by simp

lemma both_bits: "x AND 0x100 \<noteq> 0 \<Longrightarrow> x AND 0x10 \<noteq> 0 \<Longrightarrow> NOT x AND 0x110 = (0 :: 16 word)"
proof -
  assume a: "x AND 0x100 \<noteq> 0" "x AND 0x10 \<noteq> 0"
  have e: "(0x110 :: 16 word) = 2 ^ 8 OR 2 ^ 4" by simp
  have n: "n = 8 \<or> n = 4" if "bit (0x110 :: 16 word) n" for n
    using that unfolding e bit_or_iff bit_exp_iff by blast
  have "bit x 8" "bit x 4" using a and_exp_eq_0_iff_not_bit [of x 8] and_exp_eq_0_iff_not_bit [of x 4] by simp_all
  then show ?thesis by (intro bit_eqI) (use n in \<open>auto simp: bit_and_iff bit_not_iff\<close>)
qed

text \<open>When the first call finds every socket of the group readable and writable, the second one gets an empty array,
  which \<open>WSAPoll\<close> refuses; the poll then returns early and no socket is told that it is ready.\<close>

theorem win_poll_starves:
  assumes "w1 (wg_events g) = Some r" "w2 [] = None"
    "\<forall>i<length (wg_events g). r i AND POLLRDNORM \<noteq> 0 \<and> r i AND POLLWRNORM \<noteq> 0"
  shows "wg_heap (poll_win w1 w2 g) = wg_heap g \<and> wg_sockets (poll_win w1 w2 g) = wg_sockets g"
proof -
  have "missing_bits e = 0" if "(i, e) \<in> set (enumerate 0 (set_revents r (wg_events g)))" for i e
    using that assms(3) by (auto simp: in_set_enumerate_eq set_revents_def nth_enumerate_eq missing_bits_def both_bits)
  then have "edge_list (set_revents r (wg_events g)) = []" by (auto simp: edge_list_def filter_empty_conv)
  then show ?thesis using assms(1,2) by (simp add: poll_win_def first_call_def second_call_def)
qed

section \<open>A sample group\<close>

definition pair_group :: wgroup where
  "pair_group = open_win False 6 True 8 (open_win False 5 True 7 group_new)"

lemma pair_group_reached: "win_step\<^sup>*\<^sup>* group_new pair_group"
proof -
  let ?g = "open_win False 5 True 7 group_new"
  have "win_step group_new ?g" by (rule win_step.opened) (simp add: group_new_def)
  moreover have "wg_heap ?g 8 = None"
    by (simp add: open_win_def group_new_def put_sock_def register_socket_def INVALID_SOCKET_def)
  then have "win_step ?g pair_group" unfolding pair_group_def by (rule win_step.opened)
  ultimately show ?thesis by (meson converse_rtranclp_into_rtranclp rtranclp.rtrancl_refl)
qed

definition fresh_wsock :: "int \<Rightarrow> wsock" where
  "fresh_wsock fd = \<lparr>w_fd = fd, w_connected = False, w_error = False, w_read = False, w_write = False,
     w_closeRead = False, w_closeWrite = False, w_close = False\<rparr>"

lemma pair_group_parts:
  "wg_sockets pair_group = [7, 8]" "wg_heap pair_group = [7 \<mapsto> fresh_wsock 5, 8 \<mapsto> fresh_wsock 6]"
  "wg_events pair_group = [\<lparr>pf_fd = 5, pf_events = 0x110, pf_revents = 0\<rparr>, \<lparr>pf_fd = 6, pf_events = 0x110, pf_revents = 0\<rparr>]"
  by (simp_all add: pair_group_def open_win_def group_new_def put_sock_def register_socket_def INVALID_SOCKET_def fresh_wsock_def)

theorem win_group_aligned_witness:
  "set (wg_sockets pair_group) = {k. \<exists>s. wg_heap pair_group k = Some s \<and> w_fd s \<noteq> INVALID_SOCKET}"
  using win_group_aligned [OF pair_group_reached] by blast

text \<open>The first call finds the first socket readable and the second closed with an error, or the other way round; the
  second call finds the first writable.\<close>

definition calls1 :: wsapoll where
  "calls1 es = Some (\<lambda>i. if i = 0 then 0x100 else 0x1)"

definition calls2 :: wsapoll where
  "calls2 es = (if es = [] then None else Some (\<lambda>i. if i = 0 then 0x10 else 0))"

definition calls3 :: wsapoll where
  "calls3 es = Some (\<lambda>i. if i = 0 then 0x1 else 0x110)"

definition pair_events :: "16 word \<Rightarrow> 16 word \<Rightarrow> pollfd list" where
  "pair_events a b = [\<lparr>pf_fd = 5, pf_events = 0x110, pf_revents = a\<rparr>, \<lparr>pf_fd = 6, pf_events = 0x110, pf_revents = b\<rparr>]"

lemma pair_calls:
  "first_call calls1 (wg_events pair_group) = Some (pair_events 0x100 0x1)"
  "second_call calls2 (pair_events 0x100 0x1) = Some (pair_events 0x110 0x1)"
  "first_call calls3 (wg_events pair_group) = Some (pair_events 0x1 0x110)"
  "second_call calls2 (pair_events 0x1 0x110) = Some (pair_events 0x11 0x110)"
  by (simp_all add: first_call_def second_call_def calls1_def calls2_def calls3_def pair_group_parts pair_events_def
      set_revents_def enumerate_eq_zip edge_list_def missing_bits_def Let_def)

text \<open>After the first poll, socket 7 is readable and writable; in the second, its error closes it, and socket 8 is not told
  that it could be read and written.\<close>

lemma pair_abs: "abs_heap pair_group (wg_sockets pair_group ! 0) = Some (abs_sock (fresh_wsock 5))"
  by (simp add: abs_heap_def pair_group_parts)

theorem win_poll_updates_witness:
  "\<exists>t. abs_heap (poll_win calls1 calls2 pair_group) 7 = Some t \<and> s_read t \<and> s_write t"
proof -
  have "none_closes_before 0 (pair_events 0x110 0x1) pair_group" by (simp add: none_closes_before_def)
  from win_poll_updates [OF pair_group_reached pair_calls(1,2) _ this pair_abs]
  have "abs_heap (poll_win calls1 calls2 pair_group) 7 = Some (poll_socket (bits_of 0x110) (abs_sock (fresh_wsock 5)))"
    by (simp add: pair_group_parts pair_events_def)
  then show ?thesis by (simp add: poll_socket_def bits_of_def fresh_wsock_def abs_sock_def Let_def)
qed

theorem win_poll_skips_witness:
  "\<exists>t. abs_heap (poll_win calls3 calls2 pair_group) 8 = Some t \<and> \<not> s_read t \<and> \<not> s_write t"
proof -
  have n: "none_closes_before 0 (pair_events 0x11 0x110) pair_group" by (simp add: none_closes_before_def)
  have "closes_on 0x11 (abs_sock (fresh_wsock 5))"
    by (simp add: closes_on_def poll_socket_def bits_of_def fresh_wsock_def abs_sock_def close_write_def close_read_def
        sock_close_def INVALID_SOCKET_def Let_def)
  with win_poll_skips [OF pair_group_reached pair_calls(3,4) _ n pair_abs]
  have "abs_heap (poll_win calls3 calls2 pair_group) 8 = abs_heap pair_group 8" by (simp add: pair_group_parts pair_events_def)
  moreover have "abs_heap pair_group 8 = Some (abs_sock (fresh_wsock 6))" by (simp add: abs_heap_def pair_group_parts)
  ultimately show ?thesis by (simp add: fresh_wsock_def)
qed

text \<open>Both sockets are readable and writable.\<close>

definition calls4 :: wsapoll where
  "calls4 es = Some (\<lambda>i. 0x110)"

theorem win_poll_starves_witness: "wg_heap (poll_win calls4 calls2 pair_group) = wg_heap pair_group"
proof -
  have "calls4 (wg_events pair_group) = Some (\<lambda>i. 0x110)" "calls2 [] = None" by (simp_all add: calls4_def calls2_def)
  then show ?thesis using win_poll_starves [of calls4 pair_group "\<lambda>i. 0x110" calls2] by simp
qed

end
