(* ===== verification/Socket_Group.thy ===== *)
theory Socket_Group
  imports Sockets
begin

text \<open>
  \<^verbatim>\<open>Socket::Group\<close> of \<^verbatim>\<open>socket.linux.cpp\<close>: an epoll descriptor with the sockets registered in it, which it knows by
  their addresses, and the buffer its results are read into. The sockets are on the heap, a map from addresses; the
  answer of \<open>epoll_wait\<close> is an argument. Log output is left out.
\<close>

section \<open>State and operations\<close>

record egroup =
  eg_size :: int           \<comment> \<open>\<open>internal->events.size()\<close>\<close>
  eg_count :: int
  eg_heap :: "nat \<rightharpoonup> sock"
  eg_set :: "nat set"      \<comment> \<open>the pointers registered with epoll\<close>

definition egroup_new :: egroup where
  "egroup_new = \<lparr>eg_size = 1000, eg_count = 0, eg_heap = Map.empty, eg_set = {}\<rparr>"

text \<open>The constructor of a socket at the free address \<open>k\<close>. Making it non-blocking comes after the registration, so
  \<open>close\<close> takes it back when that fails.\<close>

definition socket_create :: "bool \<Rightarrow> bool \<Rightarrow> bool \<Rightarrow> bool \<Rightarrow> nat \<Rightarrow> egroup \<Rightarrow> egroup" where
  "socket_create accepted fd_ok epoll_ok ioctl_ok k g =
     (let registered = (if fd_ok \<and> epoll_ok then insert k (eg_set g) else eg_set g)
      in g\<lparr>eg_count := eg_count g + 1, eg_heap := (eg_heap g)(k \<mapsto> sock_new accepted fd_ok epoll_ok ioctl_ok),
           eg_set := (if fd_ok \<and> epoll_ok \<and> \<not> ioctl_ok then registered - {k} else registered)\<rparr>)"

text \<open>An operation on the socket at \<open>k\<close>: closing the descriptor unregisters it.\<close>

definition socket_do :: "(sock \<Rightarrow> sock) \<Rightarrow> nat \<Rightarrow> egroup \<Rightarrow> egroup" where
  "socket_do f k g =
     (case eg_heap g k of
        None \<Rightarrow> g
      | Some s \<Rightarrow> g\<lparr>eg_heap := (eg_heap g)(k \<mapsto> f s), eg_set := (if s_open s \<and> \<not> s_open (f s) then eg_set g - {k} else eg_set g)\<rparr>)"

definition socket_destroy :: "nat \<Rightarrow> egroup \<Rightarrow> egroup" where
  "socket_destroy k g =
     (case eg_heap g k of
        None \<Rightarrow> g
      | Some s \<Rightarrow> let g1 = socket_do (sock_close False) k g in g1\<lparr>eg_heap := (eg_heap g1)(k := None), eg_count := eg_count g1 - 1\<rparr>)"

definition reserve_events :: "egroup \<Rightarrow> egroup" where
  "reserve_events g = (if eg_size g < 3 * eg_count g then g\<lparr>eg_size := 6 * eg_count g\<rparr> else g)"

text \<open>\<open>poll\<close>: the pointers and bits \<open>epoll_wait\<close> returned, or its failure.\<close>

definition poll_group :: "(nat \<times> poll_bits) list option \<Rightarrow> egroup \<Rightarrow> egroup" where
  "poll_group r g0 =
     (let g = reserve_events g0
      in case r of None \<Rightarrow> g | Some evs \<Rightarrow> fold (\<lambda>(k, b). socket_do (poll_socket b) k) evs g)"

section \<open>The invariant\<close>

definition egroup_ok :: "egroup \<Rightarrow> bool" where
  "egroup_ok g \<longleftrightarrow> eg_set g = {k. \<exists>s. eg_heap g k = Some s \<and> s_open s} \<and> finite (dom (eg_heap g)) \<and>
     eg_count g = int (card (dom (eg_heap g))) \<and> (\<forall>k s. eg_heap g k = Some s \<longrightarrow> sock_ok s)"

text \<open>The operations on a single socket.\<close>

definition closing_only :: "(sock \<Rightarrow> sock) \<Rightarrow> bool" where
  "closing_only f \<longleftrightarrow> (\<forall>s. sock_ok s \<longrightarrow> sock_ok (f s)) \<and> (\<forall>s. s_open (f s) \<longrightarrow> s_open s)"

lemma closing_onlyD: "closing_only f \<Longrightarrow> sock_ok s \<Longrightarrow> sock_ok (f s)" "closing_only f \<Longrightarrow> s_open (f s) \<Longrightarrow> s_open s"
  unfolding closing_only_def by blast+

lemma run_sock_op_closing: "closing_only (run_sock_op p)"
  unfolding closing_only_def
proof (intro conjI allI impI)
  fix s
  show "sock_ok s \<Longrightarrow> sock_ok (run_sock_op p s)"
    by (cases p) (simp_all add: run_sock_op_def sock_close_ok close_read_ok close_write_ok
        sock_read_ok sock_write_ok sock_writeto_ok sock_readfrom_ok sock_accept_ok poll_socket_ok, simp add: sock_connect_def sock_ok_def)
  show "s_open (run_sock_op p s) \<Longrightarrow> s_open s"
    by (cases p) (auto simp: run_sock_op_def sock_connect_def close_read_def close_write_def sock_close_def sock_read_def
        sock_write_def sock_writeto_def sock_readfrom_def sock_accept_def poll_socket_def Let_def split: if_splits received.splits
        taken.splits option.splits accepted.splits)
qed

lemma socket_do_ok:
  assumes "egroup_ok g" "closing_only f"
  shows "egroup_ok (socket_do f k g)"
proof (cases "eg_heap g k")
  case (Some s)
  have "insert k (dom (eg_heap g)) = dom (eg_heap g)" using Some by auto
  moreover have "sock_ok (f s)" using assms Some by (auto simp: egroup_ok_def closing_onlyD)
  moreover have "{j. \<exists>s'. ((eg_heap g)(k \<mapsto> f s)) j = Some s' \<and> s_open s'} =
      (if s_open s \<and> \<not> s_open (f s) then eg_set g - {k} else eg_set g)"
    using assms Some closing_onlyD(2) [OF assms(2), of s] by (auto simp: egroup_ok_def split: if_splits)
  ultimately show ?thesis using assms(1) Some by (auto simp: egroup_ok_def socket_do_def)
qed (use assms in \<open>simp add: socket_do_def\<close>)

lemma poll_socket_closing: "closing_only (poll_socket b)"
  using run_sock_op_closing [of "OpPoll b"] by (simp add: run_sock_op_def [abs_def])

lemma sock_close_closing: "closing_only (sock_close err)"
  using run_sock_op_closing [of "OpClose err"] by (simp add: run_sock_op_def [abs_def])

lemma socket_create_ok: "egroup_ok g \<Longrightarrow> eg_heap g k = None \<Longrightarrow> egroup_ok (socket_create a1 a2 a3 a4 k g)"
proof -
  assume g: "egroup_ok g" "eg_heap g k = None"
  have k: "k \<notin> eg_set g" "k \<notin> dom (eg_heap g)" using g by (auto simp: egroup_ok_def)
  have o: "s_open (sock_new x y z w) = (y \<and> z \<and> w)" for x y z w by (simp add: sock_new_def sock_close_def Let_def)
  show ?thesis using g k by (auto simp: egroup_ok_def socket_create_def Let_def o sock_new_ok)
qed

lemma socket_destroy_ok:
  assumes "egroup_ok g"
  shows "egroup_ok (socket_destroy k g)"
proof (cases "eg_heap g k")
  case (Some s)
  let ?g = "socket_do (sock_close False) k g"
  have g: "egroup_ok ?g" using socket_do_ok [OF assms sock_close_closing] .
  have h: "eg_heap ?g k = Some (sock_close False s)" using Some by (simp add: socket_do_def)
  then have "k \<notin> eg_set ?g" "k \<in> dom (eg_heap ?g)" using g by (auto simp: egroup_ok_def sock_close_def)
  moreover have "dom ((eg_heap ?g)(k := None)) = dom (eg_heap ?g) - {k}" by auto
  moreover have "card (dom (eg_heap ?g)) > 0" using g \<open>k \<in> dom (eg_heap ?g)\<close> by (auto simp: egroup_ok_def card_gt_0_iff)
  ultimately show ?thesis using g Some by (auto simp: egroup_ok_def socket_destroy_def Let_def of_nat_diff)
qed (use assms in \<open>simp add: socket_destroy_def\<close>)

lemma reserve_ok: "egroup_ok g \<Longrightarrow> egroup_ok (reserve_events g)"
  by (simp add: egroup_ok_def reserve_events_def)

lemma poll_fold_ok: "egroup_ok g \<Longrightarrow> egroup_ok (fold (\<lambda>(k, b). socket_do (poll_socket b) k) evs g)"
  by (induction evs arbitrary: g) (auto simp: socket_do_ok poll_socket_closing)

section \<open>Runs\<close>

inductive egroup_step :: "egroup \<Rightarrow> egroup \<Rightarrow> bool" where
  created: "eg_heap g k = None \<Longrightarrow> egroup_step g (socket_create a1 a2 a3 a4 k g)"
| used: "egroup_step g (socket_do (run_sock_op p) k g)"
| destroyed: "egroup_step g (socket_destroy k g)"
| polled: "egroup_step g (poll_group r g)"

lemma egroup_reach: "egroup_step\<^sup>*\<^sup>* egroup_new g \<Longrightarrow> egroup_ok g"
proof (induction rule: rtranclp_induct)
  case base
  show ?case by (simp add: egroup_ok_def egroup_new_def)
next
  case (step g g')
  show ?case using step(2,3)
    by (cases rule: egroup_step.cases)
      (auto simp: socket_create_ok socket_do_ok run_sock_op_closing socket_destroy_ok poll_group_def Let_def reserve_ok poll_fold_ok
        split: option.split)
qed

text \<open>In every state the group can reach, the pointers epoll holds are exactly those of the open sockets on the heap, so
  none dangles, and the buffer \<open>poll\<close> prepares has room for the events of all of them in one call.\<close>

theorem epoll_pointers_live:
  assumes "egroup_step\<^sup>*\<^sup>* egroup_new g"
  shows "eg_set g = {k. \<exists>s. eg_heap g k = Some s \<and> s_open s} \<and> finite (eg_set g) \<and>
    int (card (eg_set g)) \<le> eg_size (reserve_events g)"
proof -
  have ok: "egroup_ok g" using egroup_reach [OF assms] .
  then have s: "eg_set g = {k. \<exists>s. eg_heap g k = Some s \<and> s_open s}" "eg_set g \<subseteq> dom (eg_heap g)" "finite (dom (eg_heap g))"
    by (auto simp: egroup_ok_def)
  then have "int (card (eg_set g)) \<le> eg_count g" using ok by (simp add: egroup_ok_def card_mono)
  then show ?thesis using s finite_subset [OF s(2,3)] by (auto simp: reserve_events_def)
qed

text \<open>Two sockets, one of which cannot be made non-blocking.\<close>

theorem epoll_pointers_live_witness:
  "eg_set (socket_create False True True True 8 (socket_create False True True False 7 egroup_new)) = {8}"
proof -
  let ?g1 = "socket_create False True True False 7 egroup_new" and ?g2 = "socket_create False True True True 8 (socket_create False True True False 7 egroup_new)"
  have "egroup_step egroup_new ?g1" by (rule egroup_step.created) (simp add: egroup_new_def)
  moreover have "egroup_step ?g1 ?g2" by (rule egroup_step.created) (simp add: egroup_new_def socket_create_def Let_def)
  ultimately have "egroup_step\<^sup>*\<^sup>* egroup_new ?g2" by (meson converse_rtranclp_into_rtranclp rtranclp.rtrancl_refl)
  from epoll_pointers_live [OF this] show ?thesis
    by (auto simp: egroup_new_def socket_create_def sock_new_def sock_close_def Let_def)
qed

end
