(* ===== verification/Addresses_Win.thy ===== *)
theory Addresses_Win
  imports Addresses
begin

text \<open>
  \<^verbatim>\<open>address.win.cpp\<close>: the conversions of addresses on Windows. \<open>fromString\<close> asks the resolver for a fixed host, and
  \<open>toString\<close> only reads addresses of the right size; on these the two platforms agree.
\<close>

definition from_string_win :: "(string \<Rightarrow> bytes option) \<Rightarrow> string \<Rightarrow> address" where
  "from_string_win resolve cs =
     (case split_address cs of (host, port) \<Rightarrow>
        let p = nat (atoi port mod 65536);
            ip = (case (if is_ip host then None else resolve ''127.0.0.1'') of
                    Some ip \<Rightarrow> ip | None \<Rightarrow> ip_of_numbers (scan_dotted 4 host))
        in Address (sockaddr p ip))"

definition to_string_win :: "address \<Rightarrow> string" where
  "to_string_win a =
     (let d = (if length (a_data a) = 16 then a_data a else replicate 16 0); b = (\<lambda>i. unat (d ! i))
      in print_nat (b 4) @ ''.'' @ print_nat (b 5) @ ''.'' @ print_nat (b 6) @ ''.'' @ print_nat (b 7)
           @ '':'' @ print_nat (256 * b 2 + b 3))"

lemma from_string_win_eq: "from_string_win resolve = from_string (\<lambda>host. resolve ''127.0.0.1'')"
  by (rule ext) (simp add: from_string_win_def from_string_def)

lemma to_string_win_eq: "length (a_data a) \<in> {0, 16} \<Longrightarrow> to_string_win a = to_string a"
  by (auto simp: to_string_win_def to_string_def resize_bytes_def)

text \<open>The round trip holds on Windows too, as printed addresses are numbers.\<close>

lemma read_printed_win:
  assumes "length ip = 4" "port < 65536"
  shows "from_string_win resolve (to_string_win (Address (sockaddr port ip))) = Address (sockaddr port ip)"
proof -
  have "to_string_win (Address (sockaddr port ip)) = to_string (Address (sockaddr port ip))"
    using assms(1) by (intro to_string_win_eq) (simp add: sockaddr_def)
  then show ?thesis by (simp add: from_string_win_eq read_printed [OF assms])
qed

lemma split_host: "CHR '':'' \<notin> set host \<Longrightarrow> split_address (host @ '':'' @ port) = (host, port)"
  by (induction host) (auto simp: split_address_def)

text \<open>On Windows the name of a host makes no difference: when the local address can be resolved, every name stands for
  it, whatever host it names.\<close>

theorem win_host_ignored:
  assumes "CHR '':'' \<notin> set host" "\<not> is_ip host" "resolve ''127.0.0.1'' = Some local"
  shows "from_string_win resolve (host @ '':'' @ port) = Address (sockaddr (nat (atoi port mod 65536)) local)"
  using assms split_host [OF assms(1), of port] by (simp add: from_string_win_def)

theorem win_host_ignored_witness:
  "from_string_win (\<lambda>host. Some [127, 0, 0, 1]) (''example.org'' @ '':'' @ ''80'') =
     Address (sockaddr (nat (atoi ''80'' mod 65536)) [127, 0, 0, 1])"
proof (rule win_host_ignored)
  show "\<not> is_ip ''example.org''" by (simp add: is_ip_def digit_def Let_def)
qed simp_all

end
