(* ===== verification/Log.thy ===== *)
theory Log
  imports Addresses
begin

text \<open>
  \<^verbatim>\<open>Log\<close> (\<^verbatim>\<open>src/log.h\<close>, \<^verbatim>\<open>src/log.cpp\<close>): lines of three types on three streams, which may be the same or missing. A
  stream is known by its address, and the text written to it is in the state, as streams are shared. Of the C library
  \<open>vsnprintf\<close> on a text whose conversions are done, \<open>gmtime\<close> and \<open>strftime\<close> are modelled; the texts of the
  error numbers are a parameter.
\<close>

section \<open>Formatting\<close>

text \<open>\<open>vsnprintf(buf, n, ...)\<close> stores at most \<open>n - 1\<close> characters (and the zero behind them) and returns the length of
  the whole text.\<close>

definition vsnprintf :: "nat \<Rightarrow> string \<Rightarrow> string \<times> nat" where
  "vsnprintf n txt = (take (n - 1) txt, length txt)"

definition vstrprintf :: "string \<Rightarrow> string" where
  "vstrprintf txt = (let n = snd (vsnprintf 0 txt) in if n > 0 then fst (vsnprintf (n + 1) txt) else [])"

lemma vstrprintf_whole [simp]: "vstrprintf txt = txt"
  by (simp add: vstrprintf_def vsnprintf_def Let_def)

definition print_int :: "int \<Rightarrow> string" where
  "print_int n = (if n < 0 then ''-'' @ print_nat (nat (- n)) else print_nat (nat n))"

section \<open>The time\<close>

definition leap_year :: "nat \<Rightarrow> bool" where
  "leap_year y \<longleftrightarrow> y mod 4 = 0 \<and> (y mod 100 \<noteq> 0 \<or> y mod 400 = 0)"

definition year_days :: "nat \<Rightarrow> nat" where
  "year_days y = (if leap_year y then 366 else 365)"

definition month_lengths :: "nat \<Rightarrow> nat list" where
  "month_lengths y = [31, if leap_year y then 29 else 28, 31, 30, 31, 30, 31, 31, 30, 31, 30, 31]"

function split_years :: "nat \<Rightarrow> nat \<Rightarrow> nat \<times> nat" where
  "split_years y d = (if d < year_days y then (y, d) else split_years (y + 1) (d - year_days y))"
  by pat_completeness auto
termination by (relation "measure snd") (auto simp: year_days_def)

declare split_years.simps [simp del]

fun split_months :: "nat list \<Rightarrow> nat \<Rightarrow> nat \<times> nat" where
  "split_months [] d = (0, d)"
| "split_months (n # ns) d = (if d < n then (0, d) else (case split_months ns (d - n) of (m, r) \<Rightarrow> (m + 1, r)))"

record tm =
  tm_year :: nat
  tm_mon :: nat
  tm_mday :: nat
  tm_hour :: nat
  tm_min :: nat
  tm_sec :: nat

text \<open>\<open>gmtime\<close>, with the year as \<open>strftime\<close> prints it and months and days from 1.\<close>

definition gmtime :: "nat \<Rightarrow> tm" where
  "gmtime t =
     (case split_years 1970 (t div 86400) of (y, d) \<Rightarrow>
        case split_months (month_lengths y) d of (m, r) \<Rightarrow>
          \<lparr>tm_year = y, tm_mon = m + 1, tm_mday = r + 1, tm_hour = t mod 86400 div 3600, tm_min = t mod 3600 div 60,
           tm_sec = t mod 60\<rparr>)"

definition print2 :: "nat \<Rightarrow> string" where
  "print2 n = print_nat (n div 10) @ print_nat (n mod 10)"

text \<open>\<open>strftime\<close> with \<^verbatim>\<open>"%Y.%m.%d %H:%M:%S UTC"\<close>.\<close>

definition time_text :: "nat \<Rightarrow> string" where
  "time_text t =
     (let f = gmtime t
      in print_nat (tm_year f) @ ''.'' @ print2 (tm_mon f) @ ''.'' @ print2 (tm_mday f) @ '' '' @ print2 (tm_hour f) @ '':'' @
         print2 (tm_min f) @ '':'' @ print2 (tm_sec f) @ '' UTC'')"

section \<open>Lines\<close>

datatype log_type = Info | Warning | Error

definition type_name :: "log_type \<Rightarrow> string" where
  "type_name ty = (case ty of Info \<Rightarrow> ''info'' | Warning \<Rightarrow> ''warning'' | Error \<Rightarrow> ''error'')"

record log =
  lg_streams :: "log_type \<Rightarrow> nat option"
  lg_text :: "nat \<Rightarrow> string"

definition log_new :: "(nat \<Rightarrow> string) \<Rightarrow> log" where
  "log_new out = \<lparr>lg_streams = (\<lambda>_. None), lg_text = out\<rparr>"

definition line_text :: "nat \<Rightarrow> log_type \<Rightarrow> string \<Rightarrow> string \<Rightarrow> string" where
  "line_text now ty name line = time_text now @ '': '' @ type_name ty @ '' - '' @ name @ '' - '' @ line @ [CHR 0x0A]"

definition log_line :: "nat \<Rightarrow> log_type \<Rightarrow> string \<Rightarrow> string \<Rightarrow> log \<Rightarrow> log" where
  "log_line now ty name line l =
     (case lg_streams l ty of
        None \<Rightarrow> l
      | Some k \<Rightarrow> l\<lparr>lg_text := (lg_text l)(k := lg_text l k @ line_text now ty name line)\<rparr>)"

definition log_msg :: "nat \<Rightarrow> log_type \<Rightarrow> string \<Rightarrow> string \<Rightarrow> log \<Rightarrow> log" where
  "log_msg now ty name txt = log_line now ty name (vstrprintf txt)"

definition log_info :: "nat \<Rightarrow> string \<Rightarrow> string \<Rightarrow> log \<Rightarrow> log" where
  "log_info now name txt = log_line now Info name (vstrprintf txt)"

definition log_warning :: "nat \<Rightarrow> string \<Rightarrow> string \<Rightarrow> log \<Rightarrow> log" where
  "log_warning now name txt = log_line now Warning name (vstrprintf txt)"

definition log_error :: "nat \<Rightarrow> string \<Rightarrow> string \<Rightarrow> log \<Rightarrow> log" where
  "log_error now name txt = log_line now Error name (vstrprintf txt)"

text \<open>The four \<open>errorno\<close>; \<open>errs\<close> is \<open>Platform::lastErrorString\<close> or \<open>strerror\<close>, \<open>lasterr\<close> the number of the last error.\<close>

definition errorno_text :: "nat \<Rightarrow> (int \<Rightarrow> string) \<Rightarrow> string \<Rightarrow> string \<Rightarrow> int \<Rightarrow> log \<Rightarrow> log" where
  "errorno_text now errs name msg err = log_msg now Error name (msg @ '' - '' @ errs err @ '' ('' @ print_int err @ '')'')"

definition errorno_last :: "nat \<Rightarrow> (int \<Rightarrow> string) \<Rightarrow> int \<Rightarrow> string \<Rightarrow> string \<Rightarrow> log \<Rightarrow> log" where
  "errorno_last now errs lasterr name msg = errorno_text now errs name msg lasterr"

definition errorno_num :: "nat \<Rightarrow> (int \<Rightarrow> string) \<Rightarrow> string \<Rightarrow> int \<Rightarrow> log \<Rightarrow> log" where
  "errorno_num now errs name err = log_msg now Error name (errs err @ '' ('' @ print_int err @ '')'')"

definition errorno_plain :: "nat \<Rightarrow> (int \<Rightarrow> string) \<Rightarrow> int \<Rightarrow> string \<Rightarrow> log \<Rightarrow> log" where
  "errorno_plain now errs lasterr name = errorno_num now errs name lasterr"

section \<open>The date can be read back\<close>

definition days_before :: "nat \<Rightarrow> nat" where
  "days_before y = (\<Sum>i\<in>{1970..<y}. year_days i)"

text \<open>The seconds of a date since 1970.\<close>

definition timegm :: "tm \<Rightarrow> nat" where
  "timegm f = (days_before (tm_year f) + sum_list (take (tm_mon f - 1) (month_lengths (tm_year f))) + (tm_mday f - 1)) * 86400 +
     tm_hour f * 3600 + tm_min f * 60 + tm_sec f"

definition tm_ok :: "tm \<Rightarrow> bool" where
  "tm_ok f \<longleftrightarrow> 1970 \<le> tm_year f \<and> 1 \<le> tm_mon f \<and> tm_mon f \<le> 12 \<and> 1 \<le> tm_mday f \<and>
     tm_mday f \<le> month_lengths (tm_year f) ! (tm_mon f - 1) \<and> tm_hour f < 24 \<and> tm_min f < 60 \<and> tm_sec f < 60"

lemma split_years_spec:
  "1970 \<le> y \<Longrightarrow> split_years y d = (y', d') \<Longrightarrow> d' < year_days y' \<and> y \<le> y' \<and> days_before y + d = days_before y' + d'"
proof (induction y d arbitrary: y' d' rule: split_years.induct)
  case (1 y d)
  show ?case
  proof (cases "d < year_days y")
    case True
    then show ?thesis using 1(3) by (subst (asm) split_years.simps) simp
  next
    case False
    have "split_years (y + 1) (d - year_days y) = (y', d')" using 1(3) False by (subst (asm) split_years.simps) simp
    from 1(1) [OF False _ this] 1(2) False show ?thesis by (simp add: days_before_def)
  qed
qed

lemma split_months_spec:
  "d < sum_list ns \<Longrightarrow> split_months ns d = (m, r) \<Longrightarrow> m < length ns \<and> r < ns ! m \<and> d = sum_list (take m ns) + r"
proof (induction ns arbitrary: d m r)
  case (Cons n ns)
  show ?case
  proof (cases "d < n")
    case False
    obtain m' r' where s: "split_months ns (d - n) = (m', r')" by fastforce
    then have "m = m' + 1" "r = r'" using Cons.prems(2) False by auto
    moreover have "d - n < sum_list ns" using Cons.prems(1) False by simp
    ultimately show ?thesis using Cons.IH [OF _ s] False by auto
  qed (use Cons.prems in auto)
qed simp

lemma month_lengths_sum: "sum_list (month_lengths y) = year_days y"
  by (simp add: month_lengths_def year_days_def)

lemma day_seconds: "t mod 86400 = (t mod 86400 div 3600) * 3600 + (t mod 3600 div 60) * 60 + t mod (60 :: nat)"
proof -
  have "t mod 86400 = (t mod 86400 div 3600) * 3600 + t mod 86400 mod 3600" by (simp only: div_mult_mod_eq)
  moreover have "t mod 86400 mod 3600 = t mod (3600 :: nat)" by (rule mod_mod_cancel) simp
  moreover have "t mod 3600 = (t mod 3600 div 60) * 60 + t mod 3600 mod (60 :: nat)" by (simp only: div_mult_mod_eq)
  moreover have "t mod 3600 mod 60 = t mod (60 :: nat)" by (rule mod_mod_cancel) simp
  ultimately show ?thesis by simp
qed

lemma gmtime_spec: "tm_ok (gmtime t)" "timegm (gmtime t) = t"
proof -
  obtain y d where y: "split_years 1970 (t div 86400) = (y, d)" by fastforce
  from split_years_spec [OF _ this] have Y: "d < year_days y" "1970 \<le> y" "t div 86400 = days_before y + d"
    by (simp_all add: days_before_def)
  obtain m r where m: "split_months (month_lengths y) d = (m, r)" by fastforce
  have "length (month_lengths y) = 12" by (simp add: month_lengths_def)
  with split_months_spec [OF _ m] have M: "m < 12" "r < month_lengths y ! m" "d = sum_list (take m (month_lengths y)) + r"
    using Y(1) by (simp_all add: month_lengths_sum)
  have g: "gmtime t = \<lparr>tm_year = y, tm_mon = m + 1, tm_mday = r + 1, tm_hour = t mod 86400 div 3600, tm_min = t mod 3600 div 60,
      tm_sec = t mod 60\<rparr>" by (simp add: gmtime_def y m)
  have "t mod 86400 div 3600 < 24" "t mod 3600 div 60 < 60"
    by (simp_all add: less_mult_imp_div_less)
  then show "tm_ok (gmtime t)" using Y M by (simp add: tm_ok_def g)
  have "timegm (gmtime t) = (t div 86400) * 86400 + ((t mod 86400 div 3600) * 3600 + (t mod 3600 div 60) * 60 + t mod 60)"
    by (simp add: timegm_def g Y(3) M(3))
  also have "\<dots> = (t div 86400) * 86400 + t mod 86400" by (simp only: day_seconds [symmetric])
  also have "\<dots> = t" by simp
  finally show "timegm (gmtime t) = t" .
qed

section \<open>What a line is\<close>

lemma log_line_other:
  "lg_streams (log_line now ty name line l) = lg_streams l"
  "lg_streams l ty \<noteq> Some k \<Longrightarrow> lg_text (log_line now ty name line l) k = lg_text l k"
  by (auto simp: log_line_def split: option.split)

text \<open>A log without streams, as \<open>Log\<close> is constructed and as \<^verbatim>\<open>--daemon\<close> leaves it, writes nothing.\<close>

lemma log_silent: "lg_streams l = (\<lambda>_. None) \<Longrightarrow> log_line now ty name line l = l"
  by (simp add: log_line_def)

text \<open>A line whose name and text hold no line feed is one line of the stream of its type, after everything written
  before; it begins with a date from which the time of the call can be read back, and nothing else is written.\<close>

theorem log_line_appends:
  assumes "lg_streams l ty = Some k" "CHR 0x0A \<notin> set name" "CHR 0x0A \<notin> set line"
  shows "\<exists>txt. lg_text (log_line now ty name line l) = (lg_text l)(k := lg_text l k @ txt @ [CHR 0x0A]) \<and>
    CHR 0x0A \<notin> set txt \<and> prefix (time_text now) txt \<and> tm_ok (gmtime now) \<and> timegm (gmtime now) = now"
proof -
  let ?txt = "time_text now @ '': '' @ type_name ty @ '' - '' @ name @ '' - '' @ line"
  have d: "CHR 0x0A \<notin> set (print_nat n)" for n
  proof
    assume "CHR 0x0A \<in> set (print_nat n)"
    then show False using print_nat_digits [of "CHR 0x0A" n] by (simp add: digit_def Let_def)
  qed
  have "CHR 0x0A \<notin> set (time_text now)" using d by (simp add: time_text_def print2_def Let_def)
  moreover have "CHR 0x0A \<notin> set (type_name ty)" by (cases ty) (simp_all add: type_name_def)
  ultimately have "CHR 0x0A \<notin> set ?txt" using assms(2,3) by simp
  moreover have "lg_text (log_line now ty name line l) = (lg_text l)(k := lg_text l k @ ?txt @ [CHR 0x0A])"
    using assms(1) by (simp add: log_line_def line_text_def)
  ultimately show ?thesis using gmtime_spec [of now] by (intro exI [of _ ?txt]) simp
qed

definition sample_log :: log where
  "sample_log = \<lparr>lg_streams = (\<lambda>ty. Some (if ty = Info then 1 else 2)), lg_text = (\<lambda>k. [])\<rparr>"

theorem log_line_appends_witness:
  "\<exists>txt. lg_text (log_line 1456704000 Info ''main'' ''start'' sample_log) 1 = txt @ [CHR 0x0A] \<and> prefix (time_text 1456704000) txt"
  using log_line_appends [of sample_log Info 1 "''main''" "''start''" 1456704000] by (auto simp: sample_log_def)

text \<open>The last day of February in a leap year.\<close>

lemma sample_time: "time_text 1456704000 = ''2016.02.29 00:00:00 UTC''"
  by (simp add: time_text_def gmtime_def split_years.simps year_days_def leap_year_def month_lengths_def print2_def print_nat.simps
      Let_def char_of_eq_iff)

end
