(* ===== verification/Platform.thy ===== *)
theory Platform
  imports Prelude "HOL-Library.Word"
begin

text \<open>
  The clocks of \<^verbatim>\<open>src/platform.linux.cpp\<close> and \<^verbatim>\<open>src/platform.win.cpp\<close>, the rounding of the time to sleep in
  \<open>Socket::Group::poll\<close>, and the state of the Windows service with the requests it is sent. The functions \<open>main\<close> of
  both files are in \<open>Program\<close>.
\<close>

section \<open>The clock\<close>

text \<open>\<open>gettimeofday\<close> gives seconds and microseconds since 1970.\<close>

definition now_us_linux :: "int \<Rightarrow> int \<Rightarrow> usec" where
  "now_us_linux tv_sec tv_usec = 1000000 * tv_sec + tv_usec"

text \<open>\<open>GetSystemTimeAsFileTime\<close> gives the tenths of microseconds since 1601 in two halves. The shift and the
  or are on 64 bits, the division truncates.\<close>

definition now_us_win :: "32 word \<Rightarrow> 32 word \<Rightarrow> usec" where
  "now_us_win high low =
     (let t = or (push_bit 32 (ucast high :: 64 word)) (ucast low) in cdiv (sint t) 10 - 11644473600000000)"

lemma filetime_join:
  "uint (or (push_bit 32 (ucast high :: 64 word)) (ucast low)) = 2 ^ 32 * uint high + uint low"
  for high low :: "32 word"
proof -
  have "uint (or (push_bit 32 (ucast high :: 64 word)) (ucast low)) = concat_bit 32 (uint low) (uint high)"
    by (rule bit_eqI) (auto simp: bit_simps dest: bit_imp_le_length)
  moreover have "take_bit 32 (uint low) = uint low"
    using uint_bounded [of low] by (intro take_bit_int_eq_self) simp_all
  ultimately show ?thesis by (simp only: concat_bit_eq push_bit_eq_mult) simp
qed

text \<open>No date before the year 30828 overflows.\<close>

lemma now_us_win_value:
  assumes "uint high < 2 ^ 31"
  shows "now_us_win high low = (2 ^ 32 * uint high + uint low) div 10 - 11644473600000000"
proof -
  let ?t = "or (push_bit 32 (ucast high :: 64 word)) (ucast low)"
  have u: "uint ?t = 2 ^ 32 * uint high + uint low" by (rule filetime_join)
  have "uint low < 2 ^ 32" "0 \<le> uint low" "0 \<le> uint high" using uint_bounded [of low] by simp_all
  then have "uint ?t < 2 ^ 63" using assms unfolding u by simp
  moreover have "- (2 ^ 63) \<le> uint ?t" using uint_ge_0 [of ?t] by (rule order_trans [rotated]) simp
  ultimately have "sint ?t = uint ?t"
    unfolding sint_uint by (intro signed_take_bit_int_eq_self) simp_all
  then show ?thesis using u by (simp add: now_us_win_def Let_def)
qed

text \<open>The clocks of the two platforms agree: when the system time of Windows counts the tenths of microseconds since 1601
  of the instant that \<open>gettimeofday\<close> gives as seconds and microseconds since 1970, both give the same number, without
  overflow on the way.\<close>

theorem clocks_agree:
  assumes "2 ^ 32 * uint high + uint low = 10 * (1000000 * (tv_sec + 11644473600) + tv_usec) + tenth"
    "0 \<le> tenth" "tenth < 10" "uint high < 2 ^ 31"
  shows "now_us_win high low = now_us_linux tv_sec tv_usec"
  using assms by (simp add: now_us_win_value now_us_linux_def)

theorem clocks_agree_witness:
  "now_us_win 30503556 568295424 = now_us_linux 1456704000 0"
  by (rule clocks_agree [where tenth = 0]) simp_all

section \<open>Sleeping\<close>

text \<open>The time \<open>Socket::Group::poll\<close> may sleep, in milliseconds, rounded at random; \<open>r\<close> is \<^verbatim>\<open>rand()%1000\<close>.\<close>

definition poll_ms :: "int \<Rightarrow> usec \<Rightarrow> int" where
  "poll_ms r durationUs = cdiv ((if durationUs < 0 then 0 else durationUs) + r) 1000"

lemma poll_ms_bounds:
  assumes "0 \<le> r" "r < 1000"
  shows "0 \<le> poll_ms r d" "1000 * poll_ms r d < max 0 d + 1000" "max 0 d - 1000 < 1000 * poll_ms r d"
  using assms by (auto simp: poll_ms_def)

section \<open>The Windows service\<close>

datatype service_state = SERVICE_RUNNING | SERVICE_STOPPED
datatype request = CONTROL_STOP | CONTROL_SHUTDOWN | CONTROL_OTHER nat

record service =
  sv_state :: service_state
  sv_reports :: "service_state list"  \<comment> \<open>the calls of \<open>SetServiceStatus\<close>\<close>

definition report :: "service \<Rightarrow> service" where
  "report s = s\<lparr>sv_reports := sv_reports s @ [sv_state s]\<rparr>"

definition control_handler :: "request \<Rightarrow> service \<Rightarrow> service" where
  "control_handler q s =
     report (case q of CONTROL_STOP \<Rightarrow> s\<lparr>sv_state := SERVICE_STOPPED\<rparr> | CONTROL_SHUTDOWN \<Rightarrow> s\<lparr>sv_state := SERVICE_STOPPED\<rparr>
             | CONTROL_OTHER n \<Rightarrow> s)"

text \<open>The requests that stop the service.\<close>

definition stops_service :: "request \<Rightarrow> bool" where
  "stops_service q \<longleftrightarrow> q \<in> {CONTROL_STOP, CONTROL_SHUTDOWN}"

lemma handlers_state:
  "sv_state (fold control_handler qs s) = (if \<exists>q\<in>set qs. stops_service q then SERVICE_STOPPED else sv_state s)"
  by (induction qs arbitrary: s) (auto simp: control_handler_def report_def stops_service_def split: request.split)

text \<open>Without them it reports nothing but that it runs.\<close>

lemma handlers_reports:
  "\<forall>q\<in>set qs. \<not> stops_service q \<Longrightarrow> sv_state s = SERVICE_RUNNING \<Longrightarrow> set (sv_reports s) \<subseteq> {SERVICE_RUNNING} \<Longrightarrow>
    set (sv_reports (fold control_handler qs s)) \<subseteq> {SERVICE_RUNNING} \<and> sv_state (fold control_handler qs s) = SERVICE_RUNNING"
  by (induction qs arbitrary: s) (auto simp: control_handler_def report_def stops_service_def split: request.split)

end
