(* ===== verification/Server_Step.thy ===== *)
theory Server_Step
  imports Server_Runs
begin

text \<open>
  \<^verbatim>\<open>Server::step\<close> and \<^verbatim>\<open>Server::run\<close>: the manager of events with the handlers of the server. The events of the
  listeners and connections have addresses in their objects (\<open>event_at\<close>); the manager's view of them is that of
  \<open>event_of\<close>, and after every handler its lists follow the server (\<open>update_view\<close>). The handlers are an instance of
  the locale \<open>event_handler\<close>. A step is then a sequence of the actions of \<open>server_step\<close>, so the main loop stays in
  the reachable states; which events a step raises and how long it sleeps is stated exactly. The events of test
  listeners, which the manager also serves, are left out.
\<close>

section \<open>The events of the server\<close>

datatype server_event = TcpEvent nat listener_event | UdpEvent nat listener_event | ConnEvent nat conn_event

definition listener_priority :: "udp_listener \<Rightarrow> int" where
  "listener_priority l = (if ul_tcpAddress l = no_address then 0 else 1)"

definition conn_source :: "conn_event \<Rightarrow> conn \<Rightarrow> bool" where
  "conn_source e c =
     (case e of EvTcpRead \<Rightarrow> s_read (tcpSocket c) | EvTcpWrite \<Rightarrow> s_write (tcpSocket c) | EvTcpClose \<Rightarrow> s_close (tcpSocket c)
      | EvUdpWrite \<Rightarrow> s_write (udpSocket c) | EvUdpClose \<Rightarrow> s_close (udpSocket c) | _ \<Rightarrow> True)"

definition event_of :: "server \<Rightarrow> server_event \<Rightarrow> event" where
  "event_of s x =
     (case x of
        TcpEvent k e \<Rightarrow>
          (case om_find (tcpListeners s) k of
             None \<Rightarrow> no_event
           | Some l \<Rightarrow> \<lparr>e_timeUs = (if e = ListenerRead then tl_evRead l else tl_evClose l),
               e_ready = (if e = ListenerRead then s_read (tl_sock l) else s_close (tl_sock l)),
               e_priority = 0, e_managed = True\<rparr>)
      | UdpEvent k e \<Rightarrow>
          (case om_find (udpListeners s) k of
             None \<Rightarrow> no_event
           | Some l \<Rightarrow> \<lparr>e_timeUs = (if e = ListenerRead then ul_evRead l else ul_evClose l),
               e_ready = (if e = ListenerRead then s_read (ul_sock l) else s_close (ul_sock l)),
               e_priority = (if e = ListenerRead then listener_priority l else 0), e_managed = True\<rparr>)
      | ConnEvent k e \<Rightarrow>
          (case om_find (connections s) k of
             None \<Rightarrow> no_event
           | Some sc \<Rightarrow> \<lparr>e_timeUs = ev (sc_conn sc) e, e_ready = conn_source e (load_conn s sc),
               e_priority = (case om_find (udpListeners s) (sc_listener sc) of
                  None \<Rightarrow> 0 | Some l \<Rightarrow> if e = EvUdpWrite then listener_priority l else 0),
               e_managed = True\<rparr>))"

text \<open>An event lies inside its object, so its address is that of the object with an offset.\<close>

definition conn_events :: "conn_event list" where
  "conn_events = [EvTcpRead, EvTcpWrite, EvTcpClose, EvUdpWrite, EvUdpClose, EvBuildUdpPackets, EvBuildConfirmations,
     EvBuildByeBye, EvUdpResend, EvUdpCloseWait, EvClose]"

definition member_events :: "nat \<Rightarrow> server_event list" where
  "member_events k = [TcpEvent k ListenerRead, TcpEvent k ListenerClose, UdpEvent k ListenerRead, UdpEvent k ListenerClose] @
     map (ConnEvent k) conn_events"

definition event_at :: "nat \<Rightarrow> server_event" where
  "event_at i = member_events (i div 15) ! (i mod 15)"

definition object_ids :: "nat \<Rightarrow> nat list" where
  "object_ids k = [15 * k ..< 15 * k + 15]"

definition server_ids :: "server \<Rightarrow> nat list" where
  "server_ids s = concat (map object_ids (remdups (map fst (tcpListeners s) @ map fst (udpListeners s) @ map fst (connections s))))"

definition view :: "server \<Rightarrow> nat \<Rightarrow> event" where
  "view s i = event_of s (event_at i)"

definition listed_ids :: "server \<Rightarrow> nat list" where
  "listed_ids s = filter (\<lambda>i. listed (view s i)) (server_ids s)"

lemma om_find_key: "om_find m k = Some v \<Longrightarrow> k \<in> fst ` set m"
  by (induction m) (auto split: if_splits)

lemma no_event_listed [simp]: "\<not> listed no_event"
  by (simp add: no_event_def listed_def)

lemma member_events_length [simp]: "length (member_events k) = 15"
  by (simp add: member_events_def conn_events_def)

fun event_object :: "server_event \<Rightarrow> nat" where
  "event_object (TcpEvent k e) = k"
| "event_object (UdpEvent k e) = k"
| "event_object (ConnEvent k e) = k"

lemma event_at_object [simp]: "event_object (event_at i) = i div 15"
proof -
  have "event_at i \<in> set (member_events (i div 15))" unfolding event_at_def by (rule nth_mem) simp
  then show ?thesis by (auto simp: member_events_def)
qed

lemma event_object_known:
  "listed (event_of s x) \<Longrightarrow>
     event_object x \<in> fst ` set (tcpListeners s) \<union> fst ` set (udpListeners s) \<union> fst ` set (connections s)"
  by (cases x) (auto simp: event_of_def dest: om_find_key split: option.splits)

lemma object_ids_set: "i \<in> set (object_ids k) \<longleftrightarrow> i div 15 = k"
  by (auto simp: object_ids_def)

lemma object_ids_distinct: "distinct ks \<Longrightarrow> distinct (concat (map object_ids ks))"
  by (induction ks) (auto simp: object_ids_set, simp add: object_ids_def)

lemma listed_ids_set: "i \<in> set (listed_ids s) \<longleftrightarrow> listed (view s i)"
  using event_object_known [of s "event_at i"]
  by (auto simp: listed_ids_def server_ids_def view_def object_ids_set)

lemma listed_ids_distinct: "distinct (listed_ids s)"
  unfolding listed_ids_def server_ids_def by (intro distinct_filter object_ids_distinct distinct_remdups)

lemma listed_managed: "listed (view s i) \<Longrightarrow> e_managed (view s i)"
  by (auto simp: view_def event_of_def split: server_event.splits option.splits)

text \<open>Every event has an address.\<close>

lemma event_at_onto: "\<exists>i. event_at i = x"
proof -
  have m: "x \<in> set (member_events (event_object x))"
  proof (cases x)
    case (ConnEvent k e)
    then show ?thesis by (cases e) (simp_all add: member_events_def conn_events_def)
  next
    case (TcpEvent k e)
    then show ?thesis by (cases e) (simp_all add: member_events_def)
  next
    case (UdpEvent k e)
    then show ?thesis by (cases e) (simp_all add: member_events_def)
  qed
  then obtain j where "j < 15" "member_events (event_object x) ! j = x" by (metis in_set_conv_nth member_events_length)
  then have "event_at (15 * event_object x + j) = x" by (simp add: event_at_def)
  then show ?thesis by blast
qed

section \<open>Raising an event\<close>

text \<open>What the outside gives to one handler: memory and sockets for new objects, the answers of \<open>accept\<close> and
  \<open>recvfrom\<close>; and of the manager's lists, the order of the ready events afterwards (\<open>t_order\<close>) and which events leave
  the round because the handler has switched them off for a moment (\<open>t_leave\<close>).\<close>

record turn =
  t_new :: "server \<Rightarrow> fresh_objects"
  t_accept :: accepted
  t_datagram :: "(bytes \<times> address) option"
  t_errno :: errno
  t_order :: "nat \<Rightarrow> nat"
  t_leave :: "nat set"

definition server_raise :: "os \<Rightarrow> turn \<Rightarrow> server_event \<Rightarrow> server \<Rightarrow> server" where
  "server_raise os t x s =
     (case x of
        TcpEvent k e \<Rightarrow> tcpListenerEvent os (t_new t s) (t_accept t) e k s
      | UdpEvent k e \<Rightarrow> udpListenerEvent os (t_new t s) (t_datagram t) (t_errno t) e k s
      | ConnEvent k e \<Rightarrow> connectionEvent os e k s)"

text \<open>The manager of a server, with the server; \<open>sm_turn\<close> counts the handlers, \<open>sm_raised\<close> records them.\<close>

record server_mgr = mgr +
  sm_server :: server
  sm_turn :: nat
  sm_raised :: "nat list"

text \<open>The manager after the server has changed: events and lists follow, whatever the order of the ready list.\<close>

definition update_view :: "(nat \<Rightarrow> nat) \<Rightarrow> nat set \<Rightarrow> server \<Rightarrow> server_mgr \<Rightarrow> server_mgr" where
  "update_view order leave s m =
     m\<lparr>m_event := view s, m_listReady := shuffle_events order (length (listed_ids s)) (listed_ids s),
       m_listRaise := filter (\<lambda>i. listed (view s i) \<and> i \<notin> leave) (m_listRaise m),
       m_sourceList := (\<lambda>k. []), sm_server := s, sm_turn := sm_turn m + 1\<rparr>"

definition handle_event :: "os \<Rightarrow> (nat \<Rightarrow> turn) \<Rightarrow> nat \<Rightarrow> usec \<Rightarrow> server_mgr \<Rightarrow> server_mgr" where
  "handle_event os ts i planned m =
     (let t = ts (sm_turn m); s = server_raise os t (event_at i) (sm_server m)
      in (update_view (t_order t) (t_leave t) s m)\<lparr>sm_raised := sm_raised m @ [i]\<rparr>)"

definition synced :: "server_mgr \<Rightarrow> bool" where
  "synced m \<longleftrightarrow> mgr_ok m \<and> m_event m = view (sm_server m)"

lemma ready_order: "mset (shuffle_events order (length (listed_ids s)) (listed_ids s)) = mset (listed_ids s)"
  by (rule mset_shuffle) simp

lemma ready_order_set:
  "set (shuffle_events order (length (listed_ids s)) (listed_ids s)) = {i. listed (view s i)}"
  "distinct (shuffle_events order (length (listed_ids s)) (listed_ids s))"
  using mset_eq_setD [OF ready_order, of order s] listed_ids_set mset_eq_imp_distinct_iff [OF ready_order, of order s] listed_ids_distinct
  by auto

lemma update_view_synced:
  assumes "distinct (m_listRaise m)"
  shows "synced (update_view order leave s m)"
  using assms listed_managed
  by (auto simp: synced_def mgr_ok_def ready_ok_def sources_ok_def update_view_def ready_order_set)

lemma synced_raised [simp]: "synced (m\<lparr>sm_raised := r\<rparr>) = synced m"
  by (simp add: synced_def mgr_ok_def ready_ok_def sources_ok_def)

lemma handle_event_synced: "mgr_ok m \<Longrightarrow> synced (handle_event os ts i planned m)"
  using update_view_synced by (simp add: handle_event_def Let_def mgr_ok_def ready_ok_def)

interpretation server_handler: event_handler "handle_event os ts" for os ts
proof unfold_locales
  show "mgr_ok (handle_event os ts e t m)" if "mgr_ok m" for m e t
    using handle_event_synced [OF that] by (simp add: synced_def)
  show "set (m_listRaise (handle_event os ts e t m)) \<subseteq> set (m_listRaise m)" for m e t
    by (auto simp: handle_event_def Let_def update_view_def)
qed

section \<open>A round of events\<close>

text \<open>New objects get memory that is not in use.\<close>

definition allocates :: "(nat \<Rightarrow> turn) \<Rightarrow> bool" where
  "allocates ts \<longleftrightarrow> (\<forall>n s. objects_fresh (t_new (ts n) s) s)"

lemma server_raise_step:
  assumes "allocates ts" "clock_ok os" "listed (event_of s x)"
  shows "server_step os s (server_raise os (ts n) x s)"
proof -
  have f: "objects_fresh (t_new (ts n) s) s" using assms(1) by (simp add: allocates_def)
  show ?thesis
  proof (cases x)
    case (TcpEvent k e)
    then obtain l where l: "om_find (tcpListeners s) k = Some l" using assms(3) by (fastforce simp: event_of_def split: option.splits)
    then have "tcp_event_due e l" using assms(3) TcpEvent
      by (cases e) (auto simp: event_of_def listed_def is_enabled_def tcp_event_due_def)
    then show ?thesis using server_act.tcp_event [OF l _ f assms(2)] TcpEvent by (auto simp: server_raise_def intro: server_stepI)
  next
    case (UdpEvent k e)
    then obtain l where l: "om_find (udpListeners s) k = Some l" using assms(3) by (fastforce simp: event_of_def split: option.splits)
    then have "udp_event_due e l" using assms(3) UdpEvent
      by (cases e) (auto simp: event_of_def listed_def is_enabled_def udp_event_due_def)
    then show ?thesis using server_act.udp_read [OF l _ f assms(2)] server_act.udp_close [OF l _ f assms(2)] UdpEvent
      by (cases e) (simp_all add: server_raise_def, blast intro: server_stepI, blast intro: server_stepI)
  next
    case (ConnEvent k e)
    then obtain sc where sc: "om_find (connections s) k = Some sc" using assms(3) by (fastforce simp: event_of_def split: option.splits)
    then have "ev_enabled e (sc_conn sc)" using assms(3) ConnEvent
      by (auto simp: event_of_def listed_def is_enabled_def ev_enabled_def split: option.splits)
    then show ?thesis using server_act.conn_event [OF sc _ assms(2)] ConnEvent by (auto simp: server_raise_def intro: server_stepI)
  qed
qed

lemma disable_parts [simp]:
  "e_managed (m_event (disable i m) j) = e_managed (m_event m j)"
  by (simp add: disable_def set_time_def Let_def set_event_def update_ready_def)

lemma disable_server [simp]:
  "sm_server (disable i m) = sm_server m" "sm_turn (disable i m) = sm_turn m" "sm_raised (disable i m) = sm_raised m"
  by (simp_all add: disable_def set_time_def Let_def set_event_def update_ready_def)

lemma raise_listed:
  assumes "synced m" "listed (m_event m i)"
  shows "raise_event (handle_event os ts) i m = handle_event os ts i (e_timeUs (m_event m i)) (disable i m)"
  using assms listed_managed by (simp add: raise_event_def Let_def synced_def)

lemma raise_synced:
  assumes "synced m" "listed (m_event m i)"
  shows "synced (raise_event (handle_event os ts) i m)"
    "sm_server (raise_event (handle_event os ts) i m) = server_raise os (ts (sm_turn m)) (event_at i) (sm_server m)"
    "sm_raised (raise_event (handle_event os ts) i m) = sm_raised m @ [i]"
  using assms handle_event_synced [OF disable_ok] unfolding raise_listed [OF assms]
  by (simp_all add: synced_def) (simp_all add: handle_event_def Let_def update_view_def)

text \<open>What a run of the raise loop does: each event it raises was on its list and is raised once.\<close>

lemma raise_loop_steps:
  assumes "allocates ts" "clock_ok os"
  shows "synced m \<Longrightarrow> raise_loop (handle_event os ts) n m = Inr m' \<Longrightarrow>
    synced m' \<and> (server_step os)\<^sup>*\<^sup>* (sm_server m) (sm_server m') \<and>
    (\<exists>es. sm_raised m' = sm_raised m @ es \<and> distinct es \<and> set es \<subseteq> set (m_listRaise m) \<and>
      (m_listRaise m \<noteq> [] \<longrightarrow> es \<noteq> []))"
proof (induction n arbitrary: m)
  case (Suc n)
  show ?case
  proof (cases "m_listRaise m")
    case (Cons i rest)
    let ?m = "raise_event (handle_event os ts) i m"
    have l: "listed (m_event m i)" and run: "raise_loop (handle_event os ts) n ?m = Inr m'"
      using Suc.prems(2) Cons by (simp_all split: if_splits)
    note S = raise_synced [OF Suc.prems(1) l, of os ts]
    note IH = Suc.IH [OF S(1) run]
    have "listed (event_of (sm_server m) (event_at i))" using l Suc.prems(1) by (simp add: synced_def view_def)
    from server_raise_step [OF assms this] have "server_step os (sm_server m) (sm_server ?m)" by (simp add: S(2))
    then have run': "(server_step os)\<^sup>*\<^sup>* (sm_server m) (sm_server m')" using IH by (meson converse_rtranclp_into_rtranclp)
    obtain es where es: "sm_raised m' = sm_raised ?m @ es" "distinct es" "set es \<subseteq> set (m_listRaise ?m)" using IH by blast
    have "mgr_ok m" using Suc.prems(1) by (simp add: synced_def)
    from server_handler.raise_event_shrinks [OF this, of os ts i] have "i \<notin> set es" "set es \<subseteq> set (m_listRaise m)" using es(3) by blast+
    then have "sm_raised m' = sm_raised m @ (i # es) \<and> distinct (i # es) \<and> set (i # es) \<subseteq> set (m_listRaise m)"
      using es(1,2) S(3) Cons by simp
    then show ?thesis using IH run' by blast
  qed (use Suc.prems in auto)
qed (auto split: if_splits)

lemma round_steps:
  assumes "allocates ts" "clock_ok os" "synced m"
  shows "\<exists>m'. do_events (handle_event os ts) rnd now m = Inr (next_time m', m') \<and> synced m' \<and>
    (server_step os)\<^sup>*\<^sup>* (sm_server m) (sm_server m') \<and>
    (\<exists>es. sm_raised m' = sm_raised m @ es \<and> distinct es \<and> set es \<subseteq> selected now m \<and> (selected now m \<noteq> {} \<longrightarrow> es \<noteq> []))"
proof -
  have ok: "mgr_ok m" using assms(3) by (simp add: synced_def)
  obtain m' where m': "do_events (handle_event os ts) rnd now m = Inr (next_time m', m')"
    using server_handler.do_events_total [OF ok] by blast
  let ?es = "due_events rnd now m"
  have d: "distinct ?es" "set ?es = selected now m"
    using due_events_selected ok by (auto simp: mgr_ok_def ready_ok_def)
  have "synced (m\<lparr>m_listRaise := ?es\<rparr>)"
    using assms(3) d by (auto simp: synced_def mgr_ok_def ready_ok_def sources_ok_def selected_def)
  moreover have "raise_loop (handle_event os ts) (length ?es) (m\<lparr>m_listRaise := ?es\<rparr>) = Inr m'"
    using m' by (auto simp: do_events_def Let_def split: sum.splits)
  ultimately have "synced m' \<and> (server_step os)\<^sup>*\<^sup>* (sm_server m) (sm_server m') \<and>
      (\<exists>es. sm_raised m' = sm_raised m @ es \<and> distinct es \<and> set es \<subseteq> set ?es \<and> (?es \<noteq> [] \<longrightarrow> es \<noteq> []))"
    using raise_loop_steps [OF assms(1,2)] by fastforce
  then show ?thesis using m' d(2) by (metis set_empty)
qed

section \<open>A step of the server\<close>

text \<open>The sockets a poll can report on, by their owners.\<close>

datatype socket_ref = TcpSocket nat | UdpSocket nat | ConnSocket nat

definition poll_ref :: "socket_ref \<times> poll_bits \<Rightarrow> server \<Rightarrow> server" where
  "poll_ref rb s =
     (let b = snd rb
      in case fst rb of
           TcpSocket k \<Rightarrow>
             (case om_find (tcpListeners s) k of
                None \<Rightarrow> s
              | Some l \<Rightarrow> s\<lparr>tcpListeners := om_put k (l\<lparr>tl_sock := poll_socket b (tl_sock l)\<rparr>) (tcpListeners s)\<rparr>)
         | UdpSocket k \<Rightarrow>
             (case om_find (udpListeners s) k of
                None \<Rightarrow> s
              | Some l \<Rightarrow> s\<lparr>udpListeners := om_put k (l\<lparr>ul_sock := poll_socket b (ul_sock l)\<rparr>) (udpListeners s)\<rparr>)
         | ConnSocket k \<Rightarrow> with_conn k (\<lambda>c. c\<lparr>tcpSocket := poll_socket b (tcpSocket c)\<rparr>) s)"

text \<open>\<open>step\<close>, given the readings of the clock and what the poll returns after sleeping for the given time: whether the
  server goes on, how long it may sleep, and the state.\<close>

definition step_server ::
    "os \<Rightarrow> (nat \<Rightarrow> turn) \<Rightarrow> (nat \<Rightarrow> nat) \<Rightarrow> usec \<Rightarrow> usec \<Rightarrow> usec \<Rightarrow> (usec \<Rightarrow> (socket_ref \<times> poll_bits) list option) \<Rightarrow>
       server_mgr \<Rightarrow> round_error + (bool \<times> usec \<times> server_mgr)" where
  "step_server os ts rnd stepUs beginUs pollBeginUs wait m =
     (case do_events (handle_event os ts) rnd beginUs m of
        Inl err \<Rightarrow> Inl err
      | Inr (nextUs, m1) \<Rightarrow>
          let durationUs = poll_duration beginUs stepUs nextUs pollBeginUs;
              s = (case wait durationUs of None \<Rightarrow> sm_server m1 | Some evs \<Rightarrow> fold poll_ref evs (sm_server m1));
              m2 = update_view (t_order (ts (sm_turn m1))) {} s m1
          in Inr (server_alive s, durationUs, m2))"

text \<open>The manager when the server starts to run.\<close>

definition start_mgr :: "server \<Rightarrow> server_mgr" where
  "start_mgr s = update_view (\<lambda>n. 0) {} s
     \<lparr>m_event = (\<lambda>i. no_event), m_listReady = [], m_listRaise = [], m_sourceList = (\<lambda>k. []), m_sourceReady = (\<lambda>k. False),
      sm_server = s, sm_turn = 0, sm_raised = []\<rparr>"

inductive main_loop :: "os \<Rightarrow> (nat \<Rightarrow> turn) \<Rightarrow> server_mgr \<Rightarrow> server_mgr \<Rightarrow> bool" for os ts where
  turn: "step_server os ts rnd stepUs beginUs pollBeginUs wait m = Inr (alive, durationUs, m') \<Longrightarrow> main_loop os ts m m'"

inductive_cases main_loopE: "main_loop os ts m m'"

lemma start_mgr_synced: "synced (start_mgr s)"
  unfolding start_mgr_def by (rule update_view_synced) simp

lemma start_mgr_server [simp]: "sm_server (start_mgr s) = s"
  by (simp add: start_mgr_def update_view_def)

lemma poll_ref_steps: "(server_step os)\<^sup>*\<^sup>* s (poll_ref rb s)"
proof -
  obtain r b where rb: "rb = (r, b)" by fastforce
  show ?thesis
  proof (cases r)
    case (TcpSocket k)
    then show ?thesis using rb server_act.poll_tcp [of s k] by (auto simp: poll_ref_def intro!: r_into_rtranclp server_stepI split: option.split)
  next
    case (UdpSocket k)
    then show ?thesis using rb server_act.poll_udp [of s k] by (auto simp: poll_ref_def intro!: r_into_rtranclp server_stepI split: option.split)
  next
    case (ConnSocket k)
    then show ?thesis
    proof (cases "om_find (connections s) k")
      case None
      then show ?thesis using rb ConnSocket by (simp add: poll_ref_def with_conn_def)
    next
      case (Some sc)
      then show ?thesis using rb ConnSocket by (auto simp: poll_ref_def intro!: r_into_rtranclp server_stepI server_act.poll_conn [OF Some])
    qed
  qed
qed

lemma poll_steps: "(server_step os)\<^sup>*\<^sup>* s (fold poll_ref evs s)"
proof (induction evs arbitrary: s)
  case (Cons rb evs)
  show ?case using poll_ref_steps [of os s rb] Cons.IH [of "poll_ref rb s"] by simp
qed simp

lemma step_server_runs:
  assumes "synced m" "allocates ts" "clock_ok os"
  shows "\<exists>m1 alive d m'. do_events (handle_event os ts) rnd beginUs m = Inr (next_time m1, m1) \<and> synced m1 \<and>
    step_server os ts rnd stepUs beginUs pollBeginUs wait m = Inr (alive, d, m') \<and>
    d = poll_duration beginUs stepUs (next_time m1) pollBeginUs \<and> alive = server_alive (sm_server m') \<and>
    synced m' \<and> (server_step os)\<^sup>*\<^sup>* (sm_server m) (sm_server m') \<and> sm_raised m' = sm_raised m1"
proof -
  obtain m1 where m1: "do_events (handle_event os ts) rnd beginUs m = Inr (next_time m1, m1)" "synced m1"
    "(server_step os)\<^sup>*\<^sup>* (sm_server m) (sm_server m1)"
    using round_steps [OF assms(2,3,1)] by blast
  define d where "d = poll_duration beginUs stepUs (next_time m1) pollBeginUs"
  define s where "s = (case wait d of None \<Rightarrow> sm_server m1 | Some evs \<Rightarrow> fold poll_ref evs (sm_server m1))"
  define m' where "m' = update_view (t_order (ts (sm_turn m1))) {} s m1"
  have "(server_step os)\<^sup>*\<^sup>* (sm_server m1) s" using poll_steps by (simp add: s_def split: option.split)
  then have "(server_step os)\<^sup>*\<^sup>* (sm_server m) s" using m1(3) by (meson rtranclp_trans)
  moreover have "synced m'" using m1(2) unfolding m'_def by (intro update_view_synced) (simp add: synced_def mgr_ok_def ready_ok_def)
  moreover have "step_server os ts rnd stepUs beginUs pollBeginUs wait m = Inr (server_alive s, d, m')"
    by (simp add: step_server_def m1(1) Let_def d_def s_def m'_def)
  moreover have "sm_server m' = s" "sm_raised m' = sm_raised m1" by (simp_all add: m'_def update_view_def)
  ultimately show ?thesis using m1(1,2) d_def by blast
qed

text \<open>C7: a step of the server always returns, and everything it does is a sequence of the actions whose properties are
  shown for all reachable states of the server; its answer is whether the server still has something to do. So what
  holds in every reachable state holds while the program runs, whatever the outside does.\<close>

theorem main_loop_refines:
  assumes "server_start s0" "(server_step os)\<^sup>*\<^sup>* s0 s" "allocates ts" "clock_ok os" "(main_loop os ts)\<^sup>*\<^sup>* (start_mgr s) m"
  shows "(server_step os)\<^sup>*\<^sup>* s0 (sm_server m) \<and> server_inv os (sm_server m) \<and>
    (\<exists>d m'. step_server os ts rnd stepUs beginUs pollBeginUs wait m = Inr (server_alive (sm_server m'), d, m'))"
proof -
  have "synced m \<and> (server_step os)\<^sup>*\<^sup>* s (sm_server m)"
    using assms(5)
  proof (induction rule: rtranclp_induct)
    case (step m1 m2)
    then obtain rnd stepUs beginUs pollBeginUs wait alive d
      where "step_server os ts rnd stepUs beginUs pollBeginUs wait m1 = Inr (alive, d, m2)" by (blast elim: main_loopE)
    then show ?case
      using step_server_runs [of m1 ts os rnd beginUs stepUs pollBeginUs wait] step.IH assms(3,4) by (auto intro: rtranclp_trans)
  qed (simp add: start_mgr_synced)
  moreover from this have "(server_step os)\<^sup>*\<^sup>* s0 (sm_server m)" using assms(2) by (meson rtranclp_trans)
  moreover from this have "server_inv os (sm_server m)" using serving.reachable_inv [OF assms(1)] by blast
  ultimately show ?thesis using step_server_runs [of m ts os rnd beginUs stepUs pollBeginUs wait] assms(3,4) by blast
qed

lemma all_events: "(\<forall>x. P x) \<longleftrightarrow> (\<forall>i. P (event_at i))"
  using event_at_onto by metis

lemma top_exists:
  fixes p :: "'a \<Rightarrow> int"
  assumes "finite S" "S \<noteq> {}"
  shows "\<exists>x\<in>S. \<forall>y\<in>S. p y \<le> p x"
proof -
  have "Max (p ` S) \<in> p ` S" using assms by simp
  then obtain x where "x \<in> S" "p x = Max (p ` S)" by auto
  then show ?thesis using assms(1) by (intro bexI [of _ x]) simp_all
qed

text \<open>C8: the handlers a step runs are those of events that were due and ready when it began and had the highest priority
  of those; each runs at most once, and at least one does when any event was due.\<close>

theorem step_raises_due:
  assumes "synced m" "allocates ts" "clock_ok os"
    "step_server os ts rnd stepUs beginUs pollBeginUs wait m = Inr (alive, durationUs, m')"
  shows "\<exists>is. sm_raised m' = sm_raised m @ is \<and> distinct is \<and>
    (let due = {x. listed (event_of (sm_server m) x) \<and> e_timeUs (event_of (sm_server m) x) \<le> beginUs};
         top = {x \<in> due. \<forall>y\<in>due. e_priority (event_of (sm_server m) y) \<le> e_priority (event_of (sm_server m) x)}
     in event_at ` set is \<subseteq> top \<and> (is = [] \<longleftrightarrow> due = {}))"
proof -
  let ?s = "sm_server m"
  obtain m1 where m1: "do_events (handle_event os ts) rnd beginUs m = Inr (next_time m1, m1)" "sm_raised m' = sm_raised m1"
    using step_server_runs [OF assms(1-3), of rnd beginUs stepUs pollBeginUs wait] assms(4) by auto
  obtain es where es: "sm_raised m1 = sm_raised m @ es" "distinct es" "set es \<subseteq> selected beginUs m"
    "selected beginUs m \<noteq> {} \<longrightarrow> es \<noteq> []"
    using round_steps [OF assms(2,3,1), of rnd beginUs] m1(1) by auto
  have e: "m_event m i = event_of ?s (event_at i)" for i using assms(1) by (simp add: synced_def view_def)
  have r: "i \<in> set (m_listReady m) \<longleftrightarrow> listed (event_of ?s (event_at i))" for i
    using assms(1) listed_managed [of ?s i] by (auto simp: synced_def mgr_ok_def ready_ok_def view_def)
  define due where "due = {x. listed (event_of ?s x) \<and> e_timeUs (event_of ?s x) \<le> beginUs}"
  define top where "top = {x \<in> due. \<forall>y\<in>due. e_priority (event_of ?s y) \<le> e_priority (event_of ?s x)}"
  have sel: "i \<in> selected beginUs m \<longleftrightarrow> event_at i \<in> top" for i
  proof -
    have "(\<forall>y\<in>due. e_priority (event_of ?s y) \<le> p) \<longleftrightarrow>
        (\<forall>j\<in>set (m_listReady m). e_timeUs (m_event m j) \<le> beginUs \<longrightarrow> e_priority (m_event m j) \<le> p)" for p
      unfolding Ball_def all_events by (auto simp: due_def e r)
    then show ?thesis by (auto simp: selected_def top_def due_def e r)
  qed
  have "es \<noteq> []" if "due \<noteq> {}"
  proof -
    have "due \<subseteq> event_at ` set (m_listReady m)" using event_at_onto r by (auto simp: due_def image_iff) metis
    then have "finite due" by (rule finite_surj [rotated]) simp
    from top_exists [OF this that, of "\<lambda>x. e_priority (event_of ?s x)"] obtain x where x: "x \<in> top" unfolding top_def by blast
    obtain i where "event_at i = x" using event_at_onto by blast
    then have "i \<in> selected beginUs m" using sel x by simp
    then show ?thesis using es(4) by blast
  qed
  moreover have "es = []" if "due = {}" using es(3) sel that by (cases es) (auto simp: top_def)
  moreover have "event_at ` set es \<subseteq> top" using es(3) sel by blast
  ultimately show ?thesis using es(1,2) m1(2) unfolding Let_def due_def [symmetric] top_def [symmetric] by auto
qed

lemma synced_ready: "synced m \<Longrightarrow> i \<in> set (m_listReady m) \<longleftrightarrow> listed (event_of (sm_server m) (event_at i))"
  using listed_managed [of "sm_server m" i] by (auto simp: synced_def mgr_ok_def ready_ok_def view_def)

lemma synced_times:
  assumes "synced m"
  shows "{e_timeUs (event_of (sm_server m) x) |x. listed (event_of (sm_server m) x)} = (\<lambda>i. e_timeUs (m_event m i)) ` set (m_listReady m)"
proof -
  have "(\<exists>x. t = e_timeUs (event_of (sm_server m) x) \<and> listed (event_of (sm_server m) x)) \<longleftrightarrow>
      (\<exists>i. t = e_timeUs (event_of (sm_server m) (event_at i)) \<and> listed (event_of (sm_server m) (event_at i)))" for t
    using event_at_onto by metis
  moreover have "m_event m i = event_of (sm_server m) (event_at i)" for i using assms by (simp add: synced_def view_def)
  ultimately show ?thesis using synced_ready [OF assms] by auto
qed


section \<open>Running\<close>

text \<open>One turn of the loop of \<open>Server::run\<close>: the random numbers, the readings of the clock and the answer of the poll.\<close>

record round_input =
  ri_rnd :: "nat \<Rightarrow> nat"
  ri_begin :: usec
  ri_poll :: usec
  ri_wait :: "usec \<Rightarrow> (socket_ref \<times> poll_bits) list option"

definition step_round :: "os \<Rightarrow> (nat \<Rightarrow> turn) \<Rightarrow> usec \<Rightarrow> round_input \<Rightarrow> server_mgr \<Rightarrow> round_error + (bool \<times> server_mgr)" where
  "step_round os ts stepUs r m =
     (case step_server os ts (ri_rnd r) stepUs (ri_begin r) (ri_poll r) (ri_wait r) m of
        Inl err \<Rightarrow> Inl err
      | Inr (alive, durationUs, m') \<Rightarrow> Inr (alive, m'))"

text \<open>How far a run has come: it goes on, it has returned, or an assertion has failed.\<close>

datatype ending = Running server_mgr | Exited server | Failed round_error

fun run_rounds :: "os \<Rightarrow> (nat \<Rightarrow> turn) \<Rightarrow> usec \<Rightarrow> round_input list \<Rightarrow> server_mgr \<Rightarrow> ending" where
  "run_rounds os ts stepUs [] m = Running m"
| "run_rounds os ts stepUs (r # rs) m =
     (case step_round os ts stepUs r m of
        Inl err \<Rightarrow> Failed err
      | Inr (alive, m') \<Rightarrow> if alive then run_rounds os ts stepUs rs m' else Exited (sm_server m'))"

definition server_run :: "os \<Rightarrow> (nat \<Rightarrow> turn) \<Rightarrow> usec \<Rightarrow> round_input list \<Rightarrow> server \<Rightarrow> ending" where
  "server_run os ts stepUs rs s = run_rounds os ts stepUs rs (start_mgr (server_begin s))"

lemma step_round_returns:
  assumes "synced m" "allocates ts" "clock_ok os"
  shows "\<exists>m'. step_round os ts stepUs r m = Inr (server_alive (sm_server m'), m') \<and> synced m' \<and>
    (server_step os)\<^sup>*\<^sup>* (sm_server m) (sm_server m')"
  using step_server_runs [OF assms, of "ri_rnd r" "ri_begin r" stepUs "ri_poll r" "ri_wait r"] by (auto simp: step_round_def)

text \<open>What a run has reached from a state: it may go on in a state of the main loop, or have returned in one where the
  condition \<open>Q\<close> holds.\<close>

definition sound_ending :: "os \<Rightarrow> server \<Rightarrow> (server \<Rightarrow> bool) \<Rightarrow> ending \<Rightarrow> bool" where
  "sound_ending os s Q fin \<longleftrightarrow>
     (case fin of
        Running m \<Rightarrow> synced m \<and> (server_step os)\<^sup>*\<^sup>* s (sm_server m)
      | Exited s' \<Rightarrow> (server_step os)\<^sup>*\<^sup>* s s' \<and> Q s'
      | Failed err \<Rightarrow> False)"

lemma sound_ending_from: "(server_step os)\<^sup>*\<^sup>* s s' \<Longrightarrow> sound_ending os s' Q fin \<Longrightarrow> sound_ending os s Q fin"
  by (auto simp: sound_ending_def split: ending.splits)

lemma run_rounds_sound:
  assumes "allocates ts" "clock_ok os"
  shows "synced m \<Longrightarrow> sound_ending os (sm_server m) (\<lambda>s. \<not> server_alive s) (run_rounds os ts stepUs rs m)"
proof (induction rs arbitrary: m)
  case (Cons r rs)
  obtain m' where m': "step_round os ts stepUs r m = Inr (server_alive (sm_server m'), m')" "synced m'"
    "(server_step os)\<^sup>*\<^sup>* (sm_server m) (sm_server m')" using step_round_returns [OF Cons.prems assms] by blast
  show ?case using m' Cons.IH [OF m'(2)] sound_ending_from [OF m'(3)] by (auto simp: sound_ending_def [where fin = "Exited _"])
qed (simp add: sound_ending_def)

lemma server_run_sound:
  assumes "allocates ts" "clock_ok os"
  shows "sound_ending os s (\<lambda>s. \<not> server_alive s) (server_run os ts stepUs rs s)"
proof -
  have "(server_step os)\<^sup>*\<^sup>* s (server_begin s)" using server_stepI [OF server_act.begins] by (rule r_into_rtranclp)
  then show ?thesis using run_rounds_sound [OF assms start_mgr_synced] sound_ending_from by (fastforce simp: server_run_def)
qed

section \<open>A sample step\<close>

text \<open>Memory behind all objects, so not in use.\<close>

definition free_memory :: "server \<Rightarrow> nat" where
  "free_memory s = Suc (sum_list (map fst (tcpListeners s)) + sum_list (map fst (udpListeners s)) + sum_list (map fst (connections s)))"

definition sample_turn :: turn where
  "sample_turn = \<lparr>t_new = (\<lambda>s. sample_objects\<lparr>f_listener := free_memory s, f_conn := free_memory s\<rparr>),
     t_accept = AcceptFailed EAGAIN, t_datagram = Some (frame Hello 0 [], sample_client), t_errno = EAGAIN,
     t_order = (\<lambda>n. 0), t_leave = {}\<rparr>"

lemma find_below: "om_find m k = Some v \<Longrightarrow> k \<le> sum_list (map fst (m :: (nat, 'a) omap))"
  by (induction m) (auto split: if_splits)

lemma find_above: "sum_list (map fst m) < k \<Longrightarrow> om_find (m :: (nat, 'a) omap) k = None"
  using find_below [of m k] by (cases "om_find m k") auto

lemma free_memory_unused:
  "om_find (tcpListeners s) (free_memory s) = None" "om_find (udpListeners s) (free_memory s) = None"
  "om_find (connections s) (free_memory s) = None"
  by (rule find_above, simp add: free_memory_def)+

lemma sample_allocates: "allocates (\<lambda>n. sample_turn)"
  by (simp add: allocates_def objects_fresh_def sample_turn_def free_memory_unused sample_objects_def sock_new_ok)

theorem step_raises_due_witness:
  "\<exists>alive d m'. step_server sample_os (\<lambda>n. sample_turn) (\<lambda>n. 0) 0 5000 5000 (\<lambda>d. None) (start_mgr serve2) = Inr (alive, d, m') \<and>
     sm_raised m' \<noteq> [] \<and> distinct (sm_raised m')"
proof -
  let ?ts = "\<lambda>n. sample_turn"
  obtain alive d m' where run: "step_server sample_os ?ts (\<lambda>n. 0) 0 5000 5000 (\<lambda>d. None) (start_mgr serve2) = Inr (alive, d, m')"
    using step_server_runs [OF start_mgr_synced sample_allocates sample_clock] by blast
  have e: "event_of serve2 (UdpEvent 1 ListenerRead) = \<lparr>e_timeUs = 1000, e_ready = True, e_priority = 1, e_managed = True\<rparr>"
    using sample_addresses by (simp add: event_of_def serve2_parts ready1_def listener_priority_def)
  have "sm_raised (start_mgr serve2) = []" by (simp add: start_mgr_def update_view_def)
  moreover have "listed (event_of serve2 (UdpEvent 1 ListenerRead))" unfolding e by (simp add: listed_def is_enabled_def)
  moreover have "e_timeUs (event_of serve2 (UdpEvent 1 ListenerRead)) \<le> 5000" unfolding e by simp
  ultimately show ?thesis
    using step_raises_due [OF start_mgr_synced sample_allocates sample_clock run] run
    by (auto simp: Let_def)
qed

theorem main_loop_refines_witness:
  "\<exists>d m'. step_server sample_os (\<lambda>n. sample_turn) (\<lambda>n. 0) 0 5000 5000 (\<lambda>d. None) (start_mgr serve2) =
     Inr (server_alive (sm_server m'), d, m')"
  using main_loop_refines [OF serve2_reached sample_allocates sample_clock rtranclp.rtrancl_refl] by blast


end
