(* ===== verification/Program.thy ===== *)
theory Program
  imports Command_Line Log Platform Server_Step
begin

text \<open>
  The whole program: \<^verbatim>\<open>main\<close> of \<^verbatim>\<open>src/platform.linux.cpp\<close> and \<^verbatim>\<open>src/platform.win.cpp\<close> with the loop of the Windows service.
  They put together the command line, the steps of the server and its destructor. The command line brings the server
  from a configured, empty state to one with listeners by the actions of \<open>server_step\<close> (\<open>init_reachable\<close>), so every
  state of the program is one the theorems on reachable states speak of.
\<close>

section \<open>The command line\<close>

text \<open>New listeners get memory that is not in use and a socket in one of the states a new socket can have.\<close>

definition env_fresh :: "env \<Rightarrow> bool" where
  "env_fresh e \<longleftrightarrow> (\<forall>s. om_find (tcpListeners s) (e_mem e s) = None \<and> om_find (udpListeners s) (e_mem e s) = None \<and> sock_ok (e_sock e s))"

lemma find_param_nth: "find_param_from n ps arg = Some (i, q) \<Longrightarrow> n \<le> i \<and> i - n < length ps \<and> q = ps ! (i - n)"
  by (induction ps arbitrary: n) (fastforce split: if_splits simp: nth_Cons')+

text \<open>What all functions of a parameter keep, the loop over the arguments keeps.\<close>

lemma arg_loop_keeps:
  assumes "arg_loop e p argv i st = Some st'" "P (pr_server st)" "\<And>args s. P s \<Longrightarrow> P (snd (p_func (param_table ! p) e args s))"
  shows "P (pr_server st')"
  using assms
proof (induction e p argv i st rule: arg_loop.induct)
  case (1 e p argv i st)
  note run = 1(3) [unfolded arg_loop.simps [of e p argv i st]]
  show ?case
  proof (cases "i < length argv")
    case True
    show ?thesis
    proof (cases "find_param_from 0 param_table (argv ! i)")
      case None
      then show ?thesis using 1(1) [OF True None] run True 1(4,5) by simp
    next
      case (Some pq)
      obtain pp q where pq: "pq = (pp, q)" by fastforce
      have q: "q = param_table ! pp" using find_param_nth [OF Some [unfolded pq]] by simp
      obtain st1 where st1: "(if p = pp then use_param e argv i q st else Some st) = Some st1"
          "arg_loop e p argv (i + p_count q + 1) st1 = Some st'"
        using run True Some pq by (auto split: option.splits)
      have "P (pr_server st1)"
      proof (cases "p = pp")
        case True
        then have "pr_server st1 = snd (p_func (param_table ! p) e (drop i argv) (pr_server st))"
          using st1(1) q by (auto simp: use_param_def split: if_splits prod.splits)
        then show ?thesis using 1(4,5) by simp
      qed (use st1(1) 1(4) in simp)
      then show ?thesis using 1(2) [OF True Some pq [symmetric] st1(1)] st1(2) 1(5) by simp
    qed
  qed (use run 1(4) in simp)
qed

lemma param_loop_keeps:
  assumes "\<And>p args s. p \<in> set ps \<Longrightarrow> P s \<Longrightarrow> P (snd (p_func (param_table ! p) e args s))"
  shows "param_loop e ps argv st = Some st' \<Longrightarrow> P (pr_server st) \<Longrightarrow> P (pr_server st')"
  using assms
proof (induction ps arbitrary: st)
  case (Cons p ps)
  obtain st1 where st1: "arg_loop e p argv 1 st = Some st1" "param_loop e ps argv st1 = Some st'"
    using Cons.prems(1) by (auto split: option.splits)
  have "P (pr_server st1)" by (rule arg_loop_keeps [OF st1(1)]) (use Cons.prems in auto)
  then show ?case using Cons.IH [OF st1(2)] Cons.prems(3) by simp
qed simp

lemma param_loop_append:
  "param_loop e (ps @ qs) argv st = (case param_loop e ps argv st of None \<Rightarrow> None | Some st' \<Rightarrow> param_loop e qs argv st')"
  by (induction ps arbitrary: st) (simp_all split: option.split)

lemma settings_keep_start:
  "p < 20 \<Longrightarrow> server_start s \<Longrightarrow> server_start (snd (p_func (param_table ! p) e args s))"
  by (simp add: less_Suc_eq numeral_nat, elim disjE)
    (simp_all add: param_table_def make_param_def setter_defs server_start_def)

lemma listeners_act:
  assumes "20 \<le> p" "p < 24" "env_fresh e"
  shows "(server_step (e_os e))\<^sup>*\<^sup>* s (snd (p_func (param_table ! p) e args s))"
proof -
  let ?f = "\<lparr>f_listener = e_mem e s, f_listenerSock = e_sock e s, f_conn = free_memory s, f_clientSock = e_sock e s\<rparr>"
  have f: "objects_fresh ?f s" using assms(3) by (simp add: objects_fresh_def env_fresh_def free_memory_unused)
  have "p = 20 \<or> p = 21 \<or> p = 22 \<or> p = 23" using assms(1,2) by linarith
  then show ?thesis
    using server_act.new_udp [OF f, of "e_os e"] server_act.new_tcp [OF f, of "e_os e"]
    by (elim disjE) (auto simp: param_table_def make_param_def setter_defs intro!: r_into_rtranclp server_stepI server_act.new_test)
qed

text \<open>The options are used in the order of the table, settings first: the server the command line builds is one that has
  been configured while it was empty, and then has opened its listeners.\<close>

lemma init_reachable:
  assumes "env_fresh e" "init e argv server_new = Some r"
  shows "\<exists>s0. server_start s0 \<and> (server_step (e_os e))\<^sup>*\<^sup>* s0 (i_server r)"
proof -
  define st0 where "st0 = \<lparr>pr_server = server_new, pr_done = {}, pr_help = (length argv \<le> 1), pr_errors = []\<rparr>"
  have t: "[0..<length param_table] = [0..<20] @ [20..<24]" by (simp add: param_table_def upt_conv_Cons)
  obtain st where st: "param_loop e [0..<length param_table] argv st0 = Some st" "i_server r = pr_server st"
    using assms(2) unfolding init_def st0_def by (auto simp: Let_def split: option.splits)
  obtain st1 where st1: "param_loop e [0..<20] argv st0 = Some st1" "param_loop e [20..<24] argv st1 = Some st"
    using st(1) unfolding t param_loop_append by (auto split: option.splits)
  have "server_start (pr_server st0)" by (simp add: st0_def server_start_def server_new_def)
  then have s1: "server_start (pr_server st1)"
    using param_loop_keeps [OF _ st1(1), of server_start] settings_keep_start by simp
  have "(server_step (e_os e))\<^sup>*\<^sup>* (pr_server st1) (pr_server st)"
  proof (rule param_loop_keeps [OF _ st1(2), of "\<lambda>s. (server_step (e_os e))\<^sup>*\<^sup>* (pr_server st1) s"])
    show "(server_step (e_os e))\<^sup>*\<^sup>* (pr_server st1) (snd (p_func (param_table ! p) e args s))"
      if "p \<in> set [20..<24]" "(server_step (e_os e))\<^sup>*\<^sup>* (pr_server st1) s" for p args s
      using that by (auto intro!: rtranclp_trans [OF that(2) listeners_act [OF _ _ assms(1)]])
  qed simp
  then show ?thesis using s1 st(2) by auto
qed

section \<open>The functions main\<close>

text \<open>\<open>run\<close> is called with its default, two seconds a step, and so is \<open>step\<close>. At the end of \<open>main\<close> the server is
  destroyed.\<close>

definition default_step :: usec where
  "default_step = 2000000"

definition leave_main :: "os \<Rightarrow> ending \<Rightarrow> ending" where
  "leave_main os fin = (case fin of Exited s \<Rightarrow> Exited (server_destroy os s) | _ \<Rightarrow> fin)"

text \<open>The results: the exit code, what \<open>init\<close> has printed and how far the server has come. There is none when \<open>init\<close>
  reads behind the end of \<open>argv\<close>.\<close>

definition main_linux :: "env \<Rightarrow> (nat \<Rightarrow> turn) \<Rightarrow> round_input list \<Rightarrow> string list \<Rightarrow> (int \<times> string \<times> ending) option" where
  "main_linux e ts rs argv =
     (case init e argv server_new of
        None \<Rightarrow> None
      | Some r \<Rightarrow> Some (0, i_printed r, leave_main (e_os e)
          (if i_go r then server_run (e_os e) ts default_step rs (i_server r) else Exited (i_server r))))"

text \<open>The loop of \<open>Service::main\<close>: before each test of the state some requests are handled, then \<open>step\<close> runs.\<close>

fun service_loop ::
    "os \<Rightarrow> (nat \<Rightarrow> turn) \<Rightarrow> (request list \<times> round_input) list \<Rightarrow> service \<Rightarrow> server_mgr \<Rightarrow> ending \<times> service" where
  "service_loop os ts [] sv m = (Running m, sv)"
| "service_loop os ts ((qs, r) # turns) sv m =
     (let sv1 = fold control_handler qs sv
      in if sv_state sv1 \<noteq> SERVICE_RUNNING then (Exited (sm_server m), sv1)
         else case step_round os ts default_step r m of
                Inl err \<Rightarrow> (Failed err, sv1)
              | Inr (alive, m') \<Rightarrow> if alive then service_loop os ts turns sv1 m' else (Exited (sm_server m'), sv1))"

definition service_main ::
    "os \<Rightarrow> (nat \<Rightarrow> turn) \<Rightarrow> bool \<Rightarrow> (request list \<times> round_input) list \<Rightarrow> server \<Rightarrow> ending \<times> service" where
  "service_main os ts registered turns s =
     (let sv = \<lparr>sv_state = SERVICE_RUNNING, sv_reports = []\<rparr>
      in if \<not> registered then (Exited s, sv)
         else service_loop os ts turns (report (report sv)) (start_mgr (server_begin s)))"

text \<open>What \<open>StartServiceCtrlDispatcher\<close> does: it runs the service, or there is no service manager, or it fails.\<close>

datatype dispatched = Dispatched bool "(request list \<times> round_input) list" | NoController | DispatchFailed

definition main_win :: "env \<Rightarrow> (nat \<Rightarrow> turn) \<Rightarrow> dispatched \<Rightarrow> round_input list \<Rightarrow> string list \<Rightarrow> (int \<times> string \<times> ending) option" where
  "main_win e ts d rs argv =
     (case init e argv server_new of
        None \<Rightarrow> None
      | Some r \<Rightarrow> Some (0, i_printed r, leave_main (e_os e)
          (if i_go r then
             (case d of
                Dispatched registered turns \<Rightarrow> fst (service_main (e_os e) ts registered turns (i_server r))
              | NoController \<Rightarrow> server_run (e_os e) ts default_step rs (i_server r)
              | DispatchFailed \<Rightarrow> Exited (i_server r))
           else Exited (i_server r))))"

section \<open>The service\<close>

text \<open>After a request to stop there is no further step, whatever was reported before.\<close>

lemma service_loop_stop:
  "\<exists>q\<in>set qs. stops_service q \<Longrightarrow>
     \<exists>sv1. service_loop os ts ((qs, r) # turns) sv m = (Exited (sm_server m), sv1) \<and> sv_state sv1 = SERVICE_STOPPED"
  by (simp add: handlers_state Let_def)

text \<open>A service whose server ends by itself has reported nothing but that it runs.\<close>

lemma service_loop_reports:
  assumes "\<forall>(qs, r)\<in>set turns. \<forall>q\<in>set qs. \<not> stops_service q" "sv_state sv = SERVICE_RUNNING"
    "set (sv_reports sv) \<subseteq> {SERVICE_RUNNING}" "service_loop os ts turns sv m = (fin, sv')"
  shows "set (sv_reports sv') \<subseteq> {SERVICE_RUNNING}"
  using assms
proof (induction os ts turns sv m rule: service_loop.induct)
  case (2 os ts qs r turns sv m)
  have q: "\<forall>q\<in>set qs. \<not> stops_service q" using 2(2) by auto
  note S = handlers_reports [OF q 2(3,4)]
  show ?case
  proof (cases "step_round os ts default_step r m")
    case (Inl err)
    then show ?thesis using 2(5) S by (simp add: Let_def)
  next
    case (Inr am)
    obtain alive m' where am: "am = (alive, m')" by fastforce
    show ?thesis
    proof (cases alive)
      case True
      have "\<not> sv_state (fold control_handler qs sv) \<noteq> SERVICE_RUNNING" using S by simp
      from 2(1) [OF refl this Inr am [symmetric] True] show ?thesis using 2(2,5) S Inr am True by (simp add: Let_def)
    qed (use 2(5) S Inr am in \<open>simp add: Let_def\<close>)
  qed
qed simp

lemma service_loop_sound:
  assumes "allocates ts" "clock_ok os"
  shows "synced m \<Longrightarrow> sound_ending os (sm_server m) (\<lambda>s. True) (fst (service_loop os ts turns sv m))"
proof (induction turns arbitrary: sv m)
  case (Cons t turns)
  obtain qs r where t: "t = (qs, r)" by fastforce
  obtain m' where m': "step_round os ts default_step r m = Inr (server_alive (sm_server m'), m')" "synced m'"
    "(server_step os)\<^sup>*\<^sup>* (sm_server m) (sm_server m')" using step_round_returns [OF Cons.prems assms] by blast
  show ?case using m' Cons.IH [OF m'(2)] sound_ending_from [OF m'(3)]
    by (auto simp: t Let_def sound_ending_def [where fin = "Exited _"])
qed (simp add: sound_ending_def)

lemma service_main_sound:
  assumes "allocates ts" "clock_ok os"
  shows "sound_ending os s (\<lambda>s. True) (fst (service_main os ts registered turns s))"
proof -
  have "(server_step os)\<^sup>*\<^sup>* s (server_begin s)" using server_stepI [OF server_act.begins] by (rule r_into_rtranclp)
  then show ?thesis using service_loop_sound [OF assms start_mgr_synced, of "server_begin s"] sound_ending_from
    by (fastforce simp: service_main_def Let_def sound_ending_def [where fin = "Exited _"])
qed

section \<open>Every run\<close>

lemma sound_ending_weaken: "sound_ending os s Q fin \<Longrightarrow> sound_ending os s (\<lambda>s. True) fin"
  by (auto simp: sound_ending_def split: ending.splits)

lemma main_ending:
  assumes "main_linux e ts rs argv = Some (code, printed, fin) \<or> main_win e ts d rs argv = Some (code, printed, fin)"
    "allocates ts" "clock_ok (e_os e)"
  shows "\<exists>r fin1. init e argv server_new = Some r \<and> code = 0 \<and> printed = i_printed r \<and>
    sound_ending (e_os e) (i_server r) (\<lambda>s. True) fin1 \<and> fin = leave_main (e_os e) fin1"
proof (cases "init e argv server_new")
  case (Some r)
  have "sound_ending (e_os e) (i_server r) (\<lambda>s. True) (Exited (i_server r))" by (simp add: sound_ending_def)
  then show ?thesis using assms(1) Some
      sound_ending_weaken [OF server_run_sound [OF assms(2,3), of "i_server r" default_step rs]]
      service_main_sound [OF assms(2,3), of "i_server r"]
    by (auto simp: main_linux_def main_win_def split: dispatched.splits if_splits)
qed (use assms(1) in \<open>simp add: main_linux_def main_win_def\<close>)


text \<open>The command line of \<open>sample_uses\<close>, and one turn of the loop.\<close>

definition sample_round :: round_input where
  "sample_round = \<lparr>ri_rnd = (\<lambda>n. n), ri_begin = 5000, ri_poll = 5000, ri_wait = (\<lambda>d. None)\<rparr>"

definition program_env :: env where
  "program_env = sample_env\<lparr>e_mem := free_memory\<rparr>"

lemma program_env_fresh: "env_fresh program_env" "clock_ok (e_os program_env)"
  using sample_clock by (simp_all add: env_fresh_def program_env_def sample_env_def free_memory_unused sock_new_ok)


end
