(* ===== verification/Byte_Queue.thy ===== *)
theory Byte_Queue
  imports Packets
begin

text \<open>
  \<^verbatim>\<open>src/test/queue.h\<close>: the buffer of the test clients, a vector of bytes with the indices of its first byte and of the
  end. The locale \<open>byte_queue\<close> is what its clients rely on: an abstract list of bytes (\<open>queue_bytes\<close>) that grows at
  the end and shrinks at the front.
\<close>

section \<open>State and operations\<close>

record queue =
  q_buffer :: bytes
  q_begin :: int
  q_end :: int

definition queue_new :: "int \<Rightarrow> queue" where
  "queue_new n = \<lparr>q_buffer = replicate (nat (if n > 1024 then n else 1024)) 0, q_begin = 0, q_end = 0\<rparr>"

definition queue_reserve :: "int \<Rightarrow> queue \<Rightarrow> queue" where
  "queue_reserve n q =
     (if q_end q + n > int (length (q_buffer q)) then q\<lparr>q_buffer := resize (nat (q_end q + n)) (q_buffer q)\<rparr> else q)"

definition queue_size :: "queue \<Rightarrow> int" where
  "queue_size q = q_end q - q_begin q"

definition queue_empty :: "queue \<Rightarrow> bool" where
  "queue_empty q \<longleftrightarrow> queue_size q \<le> 0"

text \<open>Bytes stored through the pointer \<open>end()\<close>, and \<open>push(int)\<close>, which makes them part of the queue.\<close>

definition store_end :: "bytes \<Rightarrow> queue \<Rightarrow> queue" where
  "store_end bs q =
     q\<lparr>q_buffer := take (nat (q_end q)) (q_buffer q) @ bs @ drop (nat (q_end q) + length bs) (q_buffer q)\<rparr>"

definition push_size :: "int \<Rightarrow> queue \<Rightarrow> int \<times> queue" where
  "push_size n q = (if n > 0 then let q1 = queue_reserve n q in (n, q1\<lparr>q_end := q_end q1 + n\<rparr>) else (0, q))"

definition push_data :: "bytes \<Rightarrow> queue \<Rightarrow> int \<times> queue" where
  "push_data bs q =
     (let n = int (length bs) in if n > 0 then push_size n (store_end bs (queue_reserve n q)) else (0, q))"

definition pop_size :: "int \<Rightarrow> queue \<Rightarrow> int \<times> queue" where
  "pop_size n q =
     (if n \<le> 0 then (0, q)
      else let m = (if n > queue_size q then queue_size q else n); q1 = q\<lparr>q_begin := q_begin q + m\<rparr>
           in (m, if queue_empty q1 then q1\<lparr>q_begin := 0, q_end := 0\<rparr> else q1))"

definition queue_front :: "int \<Rightarrow> queue \<Rightarrow> bytes" where
  "queue_front n q = take (nat n) (drop (nat (q_begin q)) (q_buffer q))"

definition pop_data :: "int \<Rightarrow> queue \<Rightarrow> bytes \<times> queue" where
  "pop_data n q =
     (if n \<le> 0 then ([], q)
      else let m = (if n > queue_size q then queue_size q else n)
           in if m > 0 then (queue_front m q, snd (pop_size m q)) else ([], q))"

definition queue_clear :: "queue \<Rightarrow> queue" where
  "queue_clear q = snd (pop_size (queue_size q) q)"

section \<open>The bytes of a queue\<close>

definition queue_ok :: "queue \<Rightarrow> bool" where
  "queue_ok q \<longleftrightarrow> 0 \<le> q_begin q \<and> q_begin q \<le> q_end q \<and> q_end q \<le> int (length (q_buffer q)) \<and>
     (q_begin q = q_end q \<longrightarrow> q_end q = 0)"

definition queue_bytes :: "queue \<Rightarrow> bytes" where
  "queue_bytes q = take (nat (queue_size q)) (drop (nat (q_begin q)) (q_buffer q))"

locale byte_queue =
  fixes ok :: "'q \<Rightarrow> bool" and content :: "'q \<Rightarrow> bytes" and size_of :: "'q \<Rightarrow> int"
    and push :: "bytes \<Rightarrow> 'q \<Rightarrow> 'q" and pop :: "int \<Rightarrow> 'q \<Rightarrow> 'q" and front :: "int \<Rightarrow> 'q \<Rightarrow> bytes"
  assumes push_ok: "ok q \<Longrightarrow> ok (push bs q)"
    and push_content: "ok q \<Longrightarrow> content (push bs q) = content q @ bs"
    and pop_ok: "ok q \<Longrightarrow> ok (pop n q)"
    and pop_content: "ok q \<Longrightarrow> content (pop n q) = drop (nat n) (content q)"
    and size_content: "ok q \<Longrightarrow> size_of q = int (length (content q))"
    and front_content: "ok q \<Longrightarrow> n \<le> size_of q \<Longrightarrow> front n q = take (nat n) (content q)"
begin

text \<open>What is taken from the front and what is left make up what was there.\<close>

lemma front_pop: "ok q \<Longrightarrow> n \<le> size_of q \<Longrightarrow> front n q @ content (pop n q) = content q"
  by (simp add: front_content pop_content)

lemma pop_all: "ok q \<Longrightarrow> size_of q \<le> n \<Longrightarrow> content (pop n q) = []"
  by (simp add: pop_content size_content)

text \<open>Bytes come out in the order they went in, whatever is pushed in between.\<close>

lemma push_pop: "ok q \<Longrightarrow> n \<le> size_of q \<Longrightarrow> front n q @ content (push bs (pop n q)) = content q @ bs"
  using front_pop by (simp add: push_content pop_ok flip: append_assoc)

lemma empty_content: "ok q \<Longrightarrow> size_of q \<le> 0 \<longleftrightarrow> content q = []"
  by (simp add: size_content)

end

lemma queue_bytes_length: "queue_ok q \<Longrightarrow> int (length (queue_bytes q)) = queue_size q"
  by (auto simp: queue_ok_def queue_bytes_def queue_size_def min_def)

lemma queue_reserve_ok: "queue_ok q \<Longrightarrow> queue_ok (queue_reserve n q)"
  by (auto simp: queue_ok_def queue_reserve_def)

lemma queue_reserve_bytes: "queue_ok q \<Longrightarrow> queue_bytes (queue_reserve n q) = queue_bytes q"
  by (auto simp: queue_ok_def queue_reserve_def queue_bytes_def queue_size_def resize_def take_drop min_def)

lemma queue_reserve_room: "0 \<le> n \<Longrightarrow> q_end (queue_reserve n q) + n \<le> int (length (q_buffer (queue_reserve n q)))"
  by (auto simp: queue_reserve_def)

lemma queue_reserve_end [simp]: "q_end (queue_reserve n q) = q_end q" "q_begin (queue_reserve n q) = q_begin q"
  by (simp_all add: queue_reserve_def)

lemma splice_bytes:
  assumes "a \<le> e" "e + length bs \<le> length xs"
  shows "take (e + length bs - a) (drop a (take e xs @ bs @ drop (e + length bs) xs)) = take (e - a) (drop a xs) @ bs"
proof -
  have "drop a (take e xs @ bs @ drop (e + length bs) xs) = (take (e - a) (drop a xs) @ bs) @ drop (e + length bs) xs"
    using assms by (simp add: drop_take)
  moreover have "length (take (e - a) (drop a xs) @ bs) = e + length bs - a" using assms by simp
  ultimately show ?thesis by (metis append_eq_conv_conj)
qed

text \<open>Storing bytes where there is room and pushing their number appends them.\<close>

lemma store_push:
  assumes "queue_ok q" "q_end q + int (length bs) \<le> int (length (q_buffer q))"
  shows "queue_ok (snd (push_size (int (length bs)) (store_end bs q)))"
    "queue_bytes (snd (push_size (int (length bs)) (store_end bs q))) = queue_bytes q @ bs"
proof -
  have r: "queue_reserve (int (length bs)) (store_end bs q) = store_end bs q"
    using assms by (auto simp: queue_reserve_def store_end_def queue_ok_def)
  then show "queue_ok (snd (push_size (int (length bs)) (store_end bs q)))"
    using assms by (auto simp: push_size_def Let_def store_end_def queue_ok_def)
  define a where "a = nat (q_begin q)"
  define e where "e = nat (q_end q)"
  have ae: "q_begin q = int a" "q_end q = int e" "a \<le> e" "e + length bs \<le> length (q_buffer q)"
    using assms by (auto simp: a_def e_def queue_ok_def)
  show "queue_bytes (snd (push_size (int (length bs)) (store_end bs q))) = queue_bytes q @ bs"
  proof (cases "bs = []")
    case False
    then have "snd (push_size (int (length bs)) (store_end bs q)) = (store_end bs q)\<lparr>q_end := int (e + length bs)\<rparr>"
      using r ae(2) by (simp add: push_size_def Let_def store_end_def)
    moreover have "nat (int (e + length bs) - int a) = e + length bs - a" "nat (int e - int a) = e - a" using ae(3) by simp_all
    ultimately show ?thesis using splice_bytes [OF ae(3,4)] ae(1,2)
      by (simp add: queue_bytes_def queue_size_def store_end_def del: of_nat_add)
  qed (use ae in \<open>simp add: push_size_def store_end_def queue_bytes_def queue_size_def\<close>)
qed

lemma push_data_queue:
  assumes "queue_ok q"
  shows "queue_ok (snd (push_data bs q))" "queue_bytes (snd (push_data bs q)) = queue_bytes q @ bs"
  using store_push [OF queue_reserve_ok [OF assms, of "int (length bs)"] queue_reserve_room] assms
  by (auto simp: push_data_def Let_def queue_reserve_bytes)

lemma pop_size_queue:
  assumes "queue_ok q"
  shows "queue_ok (snd (pop_size n q))" "queue_bytes (snd (pop_size n q)) = drop (nat n) (queue_bytes q)"
    "fst (pop_size n q) = max 0 (min n (queue_size q))"
  using assms
  by (auto simp: pop_size_def Let_def queue_ok_def queue_size_def queue_empty_def queue_bytes_def drop_take nat_diff_distrib
      add.commute nat_add_distrib)

lemma queue_front_bytes: "queue_ok q \<Longrightarrow> n \<le> queue_size q \<Longrightarrow> queue_front n q = take (nat n) (queue_bytes q)"
  by (simp add: queue_front_def queue_bytes_def min_def nat_le_eq_zle)

interpretation buffer: byte_queue queue_ok queue_bytes queue_size "\<lambda>bs q. snd (push_data bs q)" "\<lambda>n q. snd (pop_size n q)" queue_front
  by unfold_locales (simp_all add: push_data_queue pop_size_queue queue_bytes_length queue_front_bytes)

lemma queue_new_ok [simp]: "queue_ok (queue_new n)" "queue_bytes (queue_new n) = []"
  by (simp_all add: queue_new_def queue_ok_def queue_bytes_def queue_size_def)

lemma queue_clear_queue: "queue_ok q \<Longrightarrow> queue_ok (queue_clear q)" "queue_ok q \<Longrightarrow> queue_bytes (queue_clear q) = []"
  using buffer.pop_ok buffer.pop_all by (simp_all add: queue_clear_def)

lemma pop_data_queue:
  assumes "queue_ok q"
  shows "pop_data n q = (take (nat n) (queue_bytes q), snd (pop_size n q))"
proof (cases "n \<le> 0 \<or> queue_size q \<le> 0")
  case True
  then show ?thesis using buffer.empty_content [OF assms] assms
    by (auto simp: pop_data_def pop_size_def Let_def queue_ok_def queue_size_def queue_empty_def)
next
  case False
  have "(if n > queue_size q then queue_size q else n) \<le> queue_size q" by simp
  from queue_front_bytes [OF assms this] show ?thesis using False queue_bytes_length [OF assms]
    by (auto simp: pop_data_def pop_size_def Let_def)
qed

end
