(* ===== verification/Test_Clients.thy ===== *)
theory Test_Clients
  imports Byte_Queue Sockets
begin

text \<open>
  \<^verbatim>\<open>src/test/simpletcpclient.*\<close>, \<^verbatim>\<open>src/test/simpletcpserver.*\<close>, \<^verbatim>\<open>src/test/benchmarktcpclient.*\<close>,
  \<^verbatim>\<open>src/test/benchmarktcpserver.*\<close>, \<^verbatim>\<open>src/test/random.h\<close>: the peers the tests and \<open>--test-listener\<close> run over the
  tunnel. A client moves bytes between its two queues and its socket; the benchmark client sends requests of random
  bytes and checks the answers, which are random bytes from a seed both sides compute. The outcomes of system calls and
  the clock are arguments.
\<close>

section \<open>SimpleTcpClient\<close>

text \<open>\<open>tc_in\<close> and \<open>tc_out\<close> record what the socket gave and took, \<open>tc_pushed\<close> and \<open>tc_popped\<close> what the user did.\<close>

record tcp_client =
  tc_sock :: sock
  tc_evRead :: usec
  tc_evWrite :: usec
  tc_closeOnEof :: bool
  tc_readBuffer :: queue
  tc_writeBuffer :: queue
  tc_in :: bytes
  tc_out :: bytes
  tc_pushed :: bytes
  tc_popped :: bytes

definition tcp_client_new :: "usec \<Rightarrow> sock \<Rightarrow> tcp_client" where
  "tcp_client_new now sk =
     \<lparr>tc_sock = sk, tc_evRead = now, tc_evWrite = -1, tc_closeOnEof = False, tc_readBuffer = queue_new 0,
      tc_writeBuffer = queue_new 0, tc_in = [], tc_out = [], tc_pushed = [], tc_popped = []\<rparr>"

definition client_push :: "usec \<Rightarrow> bytes \<Rightarrow> 'z tcp_client_scheme \<Rightarrow> 'z tcp_client_scheme" where
  "client_push now bs c =
     (let c1 = (if queue_empty (tc_writeBuffer c) then c\<lparr>tc_evWrite := set_time_value (tc_evWrite c) now False\<rparr> else c)
      in c1\<lparr>tc_writeBuffer := snd (push_data bs (tc_writeBuffer c1)), tc_pushed := tc_pushed c1 @ bs\<rparr>)"

definition client_pop :: "int \<Rightarrow> 'z tcp_client_scheme \<Rightarrow> bytes \<times> 'z tcp_client_scheme" where
  "client_pop n c = (case pop_data n (tc_readBuffer c) of (bs, q) \<Rightarrow> (bs, c\<lparr>tc_readBuffer := q, tc_popped := tc_popped c @ bs\<rparr>))"

definition client_finish :: "'z tcp_client_scheme \<Rightarrow> 'z tcp_client_scheme" where
  "client_finish c = c\<lparr>tc_closeOnEof := True\<rparr>"

text \<open>Reading into the free space behind the end of the queue.\<close>

definition read_into :: "received \<Rightarrow> int \<Rightarrow> 'z tcp_client_scheme \<Rightarrow> int \<times> 'z tcp_client_scheme" where
  "read_into r n c =
     (let q = queue_reserve n (tc_readBuffer c)
      in case sock_read r n (tc_sock c) of
           (bs, sk) \<Rightarrow>
             case push_size (int (length bs)) (store_end bs q) of
               (m, q1) \<Rightarrow> (m, c\<lparr>tc_sock := sk, tc_readBuffer := q1, tc_in := tc_in c @ bs\<rparr>))"

definition write_from :: "taken \<Rightarrow> 'z tcp_client_scheme \<Rightarrow> 'z tcp_client_scheme" where
  "write_from r c =
     (case sock_write r (queue_size (tc_writeBuffer c)) (tc_sock c) of
        (n, sk) \<Rightarrow> c\<lparr>tc_sock := sk, tc_writeBuffer := snd (pop_size n (tc_writeBuffer c)),
                      tc_out := tc_out c @ queue_front n (tc_writeBuffer c)\<rparr>)"

text \<open>The loop of the read handler, over the outcomes of \<open>recv\<close>; \<open>None\<close> while it goes on.\<close>

fun client_read_loop :: "received list \<Rightarrow> 'z tcp_client_scheme \<Rightarrow> 'z tcp_client_scheme option" where
  "client_read_loop rs c =
     (if \<not> s_read (tc_sock c) then Some c
      else case rs of
             [] \<Rightarrow> None
           | r # rs' \<Rightarrow>
               (case read_into r 10000 c of (n, c1) \<Rightarrow> if n < 10000 then Some c1 else client_read_loop rs' c1))"

declare client_read_loop.simps [simp del]

definition client_read :: "usec \<Rightarrow> received list \<Rightarrow> tcp_client \<Rightarrow> tcp_client option" where
  "client_read now rs c = map_option (\<lambda>c1. c1\<lparr>tc_evRead := set_time_value (tc_evRead c1) now False\<rparr>) (client_read_loop rs c)"

definition client_write :: "usec \<Rightarrow> taken \<Rightarrow> tcp_client \<Rightarrow> tcp_client" where
  "client_write now r c =
     (let c1 = (if \<not> queue_empty (tc_writeBuffer c) then write_from r c else c);
          c2 = (if \<not> queue_empty (tc_writeBuffer c1) then c1\<lparr>tc_evWrite := set_time_value (tc_evWrite c1) now False\<rparr> else c1)
      in if tc_closeOnEof c2 \<and> queue_empty (tc_writeBuffer c2) then c2\<lparr>tc_sock := sock_close False (tc_sock c2)\<rparr> else c2)"

section \<open>SimpleTcpServer\<close>

text \<open>Clients are known by their addresses. The handler gives an accepted socket to a new client.\<close>

record tcp_server =
  ts_sock :: sock
  ts_evRead :: usec
  ts_clients :: "nat \<rightharpoonup> tcp_client"

definition tcp_server_new :: "usec \<Rightarrow> sock \<Rightarrow> tcp_server" where
  "tcp_server_new now sk = \<lparr>ts_sock = sk, ts_evRead = now, ts_clients = Map.empty\<rparr>"

definition tcp_server_read :: "usec \<Rightarrow> accepted \<Rightarrow> nat \<Rightarrow> tcp_server \<Rightarrow> tcp_server" where
  "tcp_server_read now r k s =
     (case sock_accept r (ts_sock s) of
        (client, sk) \<Rightarrow> s\<lparr>ts_sock := sk, ts_evRead := set_time_value (ts_evRead s) now False,
           ts_clients := (case client of None \<Rightarrow> ts_clients s | Some c \<Rightarrow> (ts_clients s)(k \<mapsto> tcp_client_new now c))\<rparr>)"

section \<open>What a client does to its streams\<close>

definition streams_ok :: "'z tcp_client_scheme \<Rightarrow> bool" where
  "streams_ok c \<longleftrightarrow> queue_ok (tc_readBuffer c) \<and> queue_ok (tc_writeBuffer c) \<and>
     tc_popped c @ queue_bytes (tc_readBuffer c) = tc_in c \<and> tc_out c @ queue_bytes (tc_writeBuffer c) = tc_pushed c"

lemma streams_new: "streams_ok (tcp_client_new now sk)"
  by (simp add: streams_ok_def tcp_client_new_def)

lemma streams_push: "streams_ok c \<Longrightarrow> streams_ok (client_push now bs c)"
  using buffer.push_ok buffer.push_content by (auto simp: streams_ok_def client_push_def Let_def)

lemma streams_pop: "streams_ok c \<Longrightarrow> streams_ok (snd (client_pop n c))"
  using buffer.pop_ok buffer.pop_content by (auto simp: streams_ok_def client_pop_def pop_data_queue)

lemma streams_read_into:
  assumes "streams_ok c" "0 \<le> n"
  shows "streams_ok (snd (read_into r n c))"
proof -
  obtain bs sk where r: "sock_read r n (tc_sock c) = (bs, sk)" by fastforce
  then have l: "int (length bs) \<le> n" using assms(2)
    by (auto simp: sock_read_def Let_def min_def split: if_splits received.splits)
  let ?q = "queue_reserve n (tc_readBuffer c)"
  have q: "queue_ok ?q" "queue_bytes ?q = queue_bytes (tc_readBuffer c)"
    using assms(1) queue_reserve_ok queue_reserve_bytes by (auto simp: streams_ok_def)
  have "q_end ?q + int (length bs) \<le> int (length (q_buffer ?q))" using queue_reserve_room [OF assms(2), of "tc_readBuffer c"] l by simp
  from store_push [OF q(1) this] show ?thesis using assms(1) q(2) r
    by (auto simp: read_into_def Let_def streams_ok_def split_def)
qed

lemma streams_write_from:
  assumes "streams_ok c"
  shows "streams_ok (write_from r c)"
proof -
  obtain n sk where w: "sock_write r (queue_size (tc_writeBuffer c)) (tc_sock c) = (n, sk)" by fastforce
  have q: "queue_ok (tc_writeBuffer c)" using assms by (simp add: streams_ok_def)
  then have "n \<le> queue_size (tc_writeBuffer c)" using w queue_bytes_length [OF q]
    by (auto simp: sock_write_def split: if_splits taken.splits)
  from buffer.front_pop [OF q this] show ?thesis using assms buffer.pop_ok [OF q] w
    by (simp add: write_from_def streams_ok_def)
qed

lemma streams_events [simp]:
  "streams_ok (c\<lparr>tc_evRead := t\<rparr>) = streams_ok c" "streams_ok (c\<lparr>tc_evWrite := t\<rparr>) = streams_ok c"
  "streams_ok (c\<lparr>tc_sock := sk\<rparr>) = streams_ok c" "streams_ok (c\<lparr>tc_closeOnEof := b\<rparr>) = streams_ok c"
  by (simp_all add: streams_ok_def)

lemma streams_read_loop: "client_read_loop rs c = Some c' \<Longrightarrow> streams_ok c \<Longrightarrow> streams_ok c'"
proof (induction rs c rule: client_read_loop.induct)
  case (1 rs c)
  note run = 1(2) [unfolded client_read_loop.simps [of rs c]]
  show ?case
  proof (cases "s_read (tc_sock c)")
    case True
    then obtain r rs' where rs: "rs = r # rs'" using run by (cases rs) auto
    obtain n c1 where c1: "read_into r 10000 c = (n, c1)" by fastforce
    then have "streams_ok c1" using streams_read_into [OF 1(3), of 10000 r] by simp
    then show ?thesis using 1(1) [OF _ rs c1 [symmetric]] run True rs c1 by (auto split: if_splits)
  qed (use run 1(3) in simp)
qed

inductive client_step :: "tcp_client \<Rightarrow> tcp_client \<Rightarrow> bool" where
  pushed: "client_step c (client_push now bs c)"
| popped: "client_step c (snd (client_pop n c))"
| finish: "client_step c (client_finish c)"
| reads: "client_read now rs c = Some c' \<Longrightarrow> client_step c c'"
| writes: "client_step c (client_write now r c)"
| polls: "client_step c (c\<lparr>tc_sock := poll_socket b (tc_sock c)\<rparr>)"

lemma client_step_streams: "client_step c c' \<Longrightarrow> streams_ok c \<Longrightarrow> streams_ok c'"
  by (induction rule: client_step.induct)
    (auto simp: streams_push streams_pop client_finish_def client_read_def client_write_def Let_def streams_write_from
      dest: streams_read_loop)

text \<open>Whatever is done with a test client, the bytes taken from it are a prefix of those its socket gave, and the
  bytes its socket took are a prefix of those pushed into it, in order, the rest being in its queues.\<close>

lemma client_streams:
  assumes "client_step\<^sup>*\<^sup>* (tcp_client_new now sk) c"
  shows "tc_popped c @ queue_bytes (tc_readBuffer c) = tc_in c \<and> tc_out c @ queue_bytes (tc_writeBuffer c) = tc_pushed c"
proof -
  have "streams_ok c" using assms by (induction rule: rtranclp_induct) (simp_all add: streams_new client_step_streams)
  then show ?thesis by (simp add: streams_ok_def)
qed

section \<open>Random bytes\<close>

definition random_next :: "32 word \<Rightarrow> 32 word" where
  "random_next seed = seed * 1103515245 + 12345"

text \<open>\<open>(char)((int)random(seed)%256 - 128)\<close>: the remainder of a signed number, cut to a byte.\<close>

definition random_char :: "32 word \<Rightarrow> byte" where
  "random_char w = word_of_int (sint w - 256 * cdiv (sint w) 256 - 128)"

fun random_chars :: "nat \<Rightarrow> 32 word \<Rightarrow> bytes \<times> 32 word" where
  "random_chars 0 seed = ([], seed)"
| "random_chars (Suc n) seed =
     (let s1 = random_next seed in case random_chars n s1 of (bs, s2) \<Rightarrow> (random_char s1 # bs, s2))"

section \<open>BenchmarkTcpClient\<close>

record bench = tcp_client +
  bc_evClose :: usec
  bc_server :: bool
  bc_requestsCount :: int
  bc_requestSize :: int
  bc_answerSize :: int
  bc_requestsCountRemain :: int
  bc_requestSizeRemain :: int
  bc_answerSizeRemain :: int
  bc_currentSeed :: "32 word"
  bc_currentCrc32 :: "32 word"
  bc_beginUs :: usec
  bc_endUs :: usec
  bc_receivedSize :: int

definition format_error :: "bench \<Rightarrow> bench" where
  "format_error c = c\<lparr>tc_sock := sock_close True (tc_sock c)\<rparr>"

text \<open>\<open>popInt\<close> and \<open>pushInt\<close>: a number is stored in four bytes, the lowest first.\<close>

definition has_int :: "bench \<Rightarrow> bool" where
  "has_int c \<longleftrightarrow> queue_size (tc_readBuffer c) \<ge> 4"

definition pop_int :: "bench \<Rightarrow> int \<times> bench" where
  "pop_int c = (if \<not> has_int c then (0, c) else case client_pop 4 c of (bs, c1) \<Rightarrow> (sint (bytes_u32 bs), c1))"

definition push_int :: "usec \<Rightarrow> int \<Rightarrow> bench \<Rightarrow> bench" where
  "push_int now n c = client_push now (u32_bytes (word_of_int n)) c"

text \<open>Random bytes written behind the end of the write queue.\<close>

definition push_random :: "int \<Rightarrow> bench \<Rightarrow> bytes \<times> bench" where
  "push_random n c =
     (case random_chars (nat n) (bc_currentSeed c) of
        (bs, seed) \<Rightarrow> (bs, c\<lparr>bc_currentSeed := seed, tc_writeBuffer := snd (push_size n (store_end bs (tc_writeBuffer c))),
                          tc_pushed := tc_pushed c @ bs\<rparr>))"

definition ev_write_now :: "usec \<Rightarrow> bench \<Rightarrow> bench" where
  "ev_write_now now c = c\<lparr>tc_evWrite := set_time_value (tc_evWrite c) now False\<rparr>"

definition build_answer :: "usec \<Rightarrow> bench \<Rightarrow> bench" where
  "build_answer now c =
     (if bc_answerSizeRemain c > 0 then
        let n = min (bc_answerSizeRemain c) 1024;
            c1 = snd (push_random n (c\<lparr>tc_writeBuffer := queue_reserve n (tc_writeBuffer c)\<rparr>));
            c2 = ev_write_now now (c1\<lparr>bc_answerSizeRemain := bc_answerSizeRemain c1 - n\<rparr>)
        in if bc_answerSizeRemain c2 \<le> 0 then c2\<lparr>bc_requestSize := -1, bc_answerSize := -1\<rparr> else c2
      else c)"

text \<open>The rest of a request: as many random bytes as fit into the chunk.\<close>

definition build_body :: "usec \<Rightarrow> int \<Rightarrow> bench \<Rightarrow> bench" where
  "build_body now n0 c =
     (if bc_requestSizeRemain c > 0 then
        let n = min (bc_requestSizeRemain c) (n0 - queue_size (tc_writeBuffer c));
            c1 = (if n > 0 then
                    case push_random n c of
                      (bs, c') \<Rightarrow> c'\<lparr>bc_currentCrc32 := crc32 bs n (bc_currentCrc32 c'),
                                    bc_requestSizeRemain := bc_requestSizeRemain c' - n\<rparr>
                  else c);
            c2 = (if bc_requestSizeRemain c1 \<le> 0
                  then c1\<lparr>bc_answerSizeRemain := bc_answerSize c1, bc_currentSeed := bc_currentCrc32 c1, bc_currentCrc32 := 0\<rparr>
                  else c1)
        in ev_write_now now c2
      else c)"

definition build_request :: "usec \<Rightarrow> bench \<Rightarrow> bench" where
  "build_request now c =
     (let n = min (bc_requestSize c + 3 * 4) 1024;
          c1 = c\<lparr>tc_writeBuffer := queue_reserve n (tc_writeBuffer c)\<rparr>;
          c2 = (if bc_requestsCountRemain c1 = bc_requestsCount c1
                then (push_int now (bc_requestsCount c1) c1)\<lparr>bc_requestSizeRemain := bc_requestSize c1\<rparr> else c1)
      in if bc_requestSizeRemain c2 = bc_requestSize c2 then
           (if bc_requestsCountRemain c2 \<le> 0 \<or> bc_requestSize c2 \<le> 0 \<or> bc_answerSize c2 \<le> 0 then format_error c2
            else let c3 = push_int now (bc_answerSize c2) (push_int now (bc_requestSize c2) c2)
                 in build_body now n (c3\<lparr>bc_requestsCountRemain := bc_requestsCountRemain c3 - 1\<rparr>))
         else build_body now n c2)"

definition build_write_chunk :: "usec \<Rightarrow> bench \<Rightarrow> bench" where
  "build_write_chunk now c =
     (if queue_empty (tc_writeBuffer c) then if bc_server c then build_answer now c else build_request now c else c)"

text \<open>The constructor.\<close>

definition bench_new :: "usec \<Rightarrow> sock \<Rightarrow> int \<Rightarrow> int \<Rightarrow> int \<Rightarrow> 32 word \<Rightarrow> bench" where
  "bench_new now sk requests request answer seed =
     (let server = (requests = 0);
          c = tcp_client.extend (tcp_client_new now sk)
            \<lparr>bc_evClose = now, bc_server = server, bc_requestsCount = requests,
             bc_requestSize = (if server then 0 else request), bc_answerSize = (if server then 0 else answer),
             bc_requestsCountRemain = requests, bc_requestSizeRemain = 0, bc_answerSizeRemain = 0, bc_currentSeed = seed,
             bc_currentCrc32 = 0, bc_beginUs = now, bc_endUs = -1, bc_receivedSize = 0\<rparr>
      in if server then c
         else if requests \<le> 0 \<or> request \<le> 0 \<or> answer \<le> 0 then format_error c else build_write_chunk now c)"

text \<open>What a server reads: three numbers, then the request. \<open>None\<close> stands for an early return after an error.\<close>

definition read_count :: "bench \<Rightarrow> bench + bench" where
  "read_count c =
     (if has_int c \<and> bc_requestsCount c = 0 then
        case pop_int c of (n, c1) \<Rightarrow>
          let c2 = c1\<lparr>bc_requestsCount := n\<rparr>
          in if n \<le> 0 then Inl (format_error c2) else Inr (c2\<lparr>bc_requestsCountRemain := n\<rparr>)
      else Inr c)"

definition read_request_size :: "bench \<Rightarrow> bench + bench" where
  "read_request_size c =
     (if has_int c \<and> bc_requestSize c = 0 then
        case pop_int c of (n, c1) \<Rightarrow>
          let c2 = c1\<lparr>bc_requestSize := n\<rparr>
          in if n \<le> 0 then Inl (format_error c2)
             else if bc_requestsCountRemain c2 \<le> 0 then Inl (format_error c2)
             else Inr (c2\<lparr>bc_requestsCountRemain := bc_requestsCountRemain c2 - 1\<rparr>)
      else Inr c)"

definition read_answer_size :: "bench \<Rightarrow> bench + bench" where
  "read_answer_size c =
     (if has_int c \<and> bc_answerSize c = 0 then
        case pop_int c of (n, c1) \<Rightarrow>
          let c2 = c1\<lparr>bc_answerSize := n\<rparr>
          in if n \<le> 0 then Inl (format_error c2) else Inr (c2\<lparr>bc_requestSizeRemain := bc_requestSize c2\<rparr>)
      else Inr c)"

definition read_request :: "usec \<Rightarrow> bench \<Rightarrow> bench" where
  "read_request now c =
     (if bc_requestSizeRemain c > 0 then
        let n = queue_size (tc_readBuffer c); bs = queue_front n (tc_readBuffer c);
            c1 = c\<lparr>bc_currentCrc32 := crc32 bs n (bc_currentCrc32 c), bc_requestSizeRemain := bc_requestSizeRemain c - n,
                   tc_readBuffer := queue_clear (tc_readBuffer c), tc_popped := tc_popped c @ bs\<rparr>
        in if bc_requestSizeRemain c1 < 0 then format_error c1
           else if bc_requestSizeRemain c1 = 0
           then build_write_chunk now (c1\<lparr>bc_currentSeed := bc_currentCrc32 c1, bc_currentCrc32 := 0,
                  bc_answerSizeRemain := bc_answerSize c1\<rparr>)
           else c1
      else c)"

definition and_then :: "bench + bench \<Rightarrow> (bench \<Rightarrow> bench + bench) \<Rightarrow> bench + bench" where
  "and_then r f = (case r of Inl c \<Rightarrow> Inl c | Inr c \<Rightarrow> f c)"

definition read_as_server :: "usec \<Rightarrow> bench \<Rightarrow> bench" where
  "read_as_server now c =
     (case and_then (and_then (read_count c) read_request_size) read_answer_size of
        Inl c1 \<Rightarrow> c1
      | Inr c1 \<Rightarrow> read_request now c1)"

text \<open>What a client reads: every byte must be the next random one.\<close>

fun check_answer :: "nat \<Rightarrow> bench \<Rightarrow> bench + bench" where
  "check_answer 0 c = Inr c"
| "check_answer (Suc k) c =
     (if queue_empty (tc_readBuffer c) then Inr c
      else if bc_answerSizeRemain c \<le> 0 then Inl (format_error c)
      else case client_pop 1 c of (bs, c1) \<Rightarrow>
        let seed = random_next (bc_currentSeed c1); c2 = c1\<lparr>bc_currentSeed := seed\<rparr>
        in if bs \<noteq> [random_char seed] then Inl (format_error c2)
           else check_answer k (c2\<lparr>bc_answerSizeRemain := bc_answerSizeRemain c2 - 1\<rparr>))"

definition read_as_client :: "usec \<Rightarrow> bench \<Rightarrow> bench" where
  "read_as_client now c =
     (case check_answer (nat (queue_size (tc_readBuffer c))) c of
        Inl c1 \<Rightarrow> c1
      | Inr c1 \<Rightarrow>
          if bc_answerSizeRemain c1 = 0 then
            (if bc_requestsCountRemain c1 = 0 then c1\<lparr>tc_sock := sock_close False (tc_sock c1)\<rparr>
             else build_write_chunk now (c1\<lparr>bc_requestSizeRemain := bc_requestSize c1\<rparr>))
          else c1)"

definition bench_read :: "usec \<Rightarrow> received \<Rightarrow> bench \<Rightarrow> bench" where
  "bench_read now r c =
     (case read_into r 1024 c of
        (n, c1) \<Rightarrow>
          let c2 = c1\<lparr>bc_receivedSize := bc_receivedSize c1 + queue_size (tc_readBuffer c1) - queue_size (tc_readBuffer c),
                      tc_evRead := set_time_value (tc_evRead c1) now False\<rparr>
          in if queue_empty (tc_readBuffer c2) then c2
             else if \<not> queue_empty (tc_writeBuffer c2) then format_error c2
             else if bc_server c2 then read_as_server now c2 else read_as_client now c2)"

definition bench_write :: "usec \<Rightarrow> taken \<Rightarrow> bench \<Rightarrow> bench" where
  "bench_write now r c =
     (if queue_empty (tc_writeBuffer c) then c
      else if \<not> queue_empty (tc_readBuffer c) then format_error c
      else let c1 = build_write_chunk now (write_from r c)
           in if \<not> queue_empty (tc_writeBuffer c1) then ev_write_now now c1 else c1)"

text \<open>The close event deletes the client; the destructor notes the bytes received and the time it took, or zeros when
  the exchange was not complete.\<close>

definition bench_close :: "usec \<Rightarrow> bench \<Rightarrow> int \<times> usec" where
  "bench_close now c =
     (let done = (\<not> s_error (tc_sock c) \<and> bc_requestsCountRemain c = 0 \<and> bc_requestSizeRemain c = 0 \<and>
            bc_answerSizeRemain c = 0 \<and> queue_empty (tc_readBuffer c) \<and> queue_empty (tc_writeBuffer c));
          endUs = (if done then now else bc_endUs c)
      in if endUs \<le> bc_beginUs c \<or> bc_receivedSize c \<le> 0 then (0, 0) else (bc_receivedSize c, endUs - bc_beginUs c))"

section \<open>BenchmarkTcpServer\<close>

record bench_server =
  bs_sock :: sock
  bs_evRead :: usec
  bs_clients :: "nat \<rightharpoonup> bench"
  bs_stats :: "(int \<times> usec) list"

definition bench_server_new :: "usec \<Rightarrow> sock \<Rightarrow> bench_server" where
  "bench_server_new now sk = \<lparr>bs_sock = sk, bs_evRead = now, bs_clients = Map.empty, bs_stats = []\<rparr>"

definition bench_server_read :: "usec \<Rightarrow> 32 word \<Rightarrow> accepted \<Rightarrow> nat \<Rightarrow> bench_server \<Rightarrow> bench_server" where
  "bench_server_read now seed r k s =
     (case sock_accept r (bs_sock s) of
        (client, sk) \<Rightarrow> s\<lparr>bs_sock := sk, bs_evRead := set_time_value (bs_evRead s) now False,
           bs_clients := (case client of None \<Rightarrow> bs_clients s | Some c \<Rightarrow> (bs_clients s)(k \<mapsto> bench_new now c 0 0 0 seed))\<rparr>)"

text \<open>The close event of a client of the server.\<close>

definition bench_server_closed :: "usec \<Rightarrow> nat \<Rightarrow> bench_server \<Rightarrow> bench_server" where
  "bench_server_closed now k s =
     (case bs_clients s k of
        None \<Rightarrow> s
      | Some c \<Rightarrow> s\<lparr>bs_clients := (bs_clients s)(k := None), bs_stats := bs_stats s @ [bench_close now c]\<rparr>)"

section \<open>Requests and answers\<close>

text \<open>A client accepts what a server sends from the same seed, however it is cut into pieces.\<close>

lemma check_answer_random:
  assumes "streams_ok c" "queue_bytes (tc_readBuffer c) = fst (random_chars n (bc_currentSeed c))" "int n \<le> bc_answerSizeRemain c"
  shows "\<exists>c'. check_answer n c = Inr c' \<and> streams_ok c' \<and> queue_bytes (tc_readBuffer c') = [] \<and>
    bc_answerSizeRemain c' = bc_answerSizeRemain c - int n \<and> bc_currentSeed c' = snd (random_chars n (bc_currentSeed c)) \<and>
    tc_sock c' = tc_sock c"
  using assms
proof (induction n arbitrary: c)
  case (Suc n)
  let ?s = "random_next (bc_currentSeed c)" and ?q = "snd (pop_size 1 (tc_readBuffer c))"
  have q: "queue_ok (tc_readBuffer c)" using Suc.prems(1) by (simp add: streams_ok_def)
  have b: "queue_bytes (tc_readBuffer c) = random_char ?s # fst (random_chars n ?s)"
    using Suc.prems(2) by (simp add: Let_def split_def)
  define c1 where "c1 = snd (client_pop 1 c)"
  define c2 where "c2 = c1\<lparr>bc_currentSeed := ?s, bc_answerSizeRemain := bc_answerSizeRemain c - 1\<rparr>"
  have pop: "client_pop 1 c = ([random_char ?s], c1)" using b by (simp add: c1_def client_pop_def pop_data_queue [OF q])
  have f: "bc_currentSeed c1 = bc_currentSeed c" "bc_answerSizeRemain c1 = bc_answerSizeRemain c" "tc_sock c1 = tc_sock c"
    "tc_readBuffer c1 = ?q" by (simp_all add: c1_def client_pop_def pop_data_queue [OF q])
  have ok: "streams_ok c2" using streams_pop [OF Suc.prems(1), of 1] by (simp add: c2_def c1_def streams_ok_def)
  have "queue_bytes (tc_readBuffer c2) = fst (random_chars n (bc_currentSeed c2))"
    using buffer.pop_content [OF q, of 1] b by (simp add: c2_def f(4))
  moreover have "int n \<le> bc_answerSizeRemain c2" using Suc.prems(3) by (simp add: c2_def)
  moreover have "check_answer (Suc n) c = check_answer n c2"
    using buffer.empty_content [OF q] b Suc.prems(3) f(1,2) by (simp add: queue_empty_def pop Let_def c2_def)
  ultimately show ?case using Suc.IH [OF ok] f(3) by (auto simp: c2_def Let_def split_def)
qed simp

text \<open>After its first answer a server is deaf: the sizes are \<open>-1\<close>, not the zero that asks for new ones, so what it
  reads stays in its queue and is never answered.\<close>

definition deaf :: "bench \<Rightarrow> bool" where
  "deaf c \<longleftrightarrow> bc_server c \<and> bc_requestsCount c \<noteq> 0 \<and> bc_requestSize c = -1 \<and> bc_answerSize c = -1 \<and>
     bc_requestSizeRemain c \<le> 0 \<and> queue_empty (tc_writeBuffer c)"

lemma answered_deaf:
  assumes "bc_server c" "bc_requestsCount c \<noteq> 0" "bc_requestSizeRemain c \<le> 0" "0 < bc_answerSizeRemain c" "bc_answerSizeRemain c \<le> 1024"
    "queue_empty (tc_writeBuffer (write_from r (build_answer now c)))"
  shows "deaf (write_from r (build_answer now c))"
  using assms by (simp add: deaf_def build_answer_def Let_def push_random_def write_from_def ev_write_now_def split_def)

lemma deaf_stays: "deaf c \<Longrightarrow> deaf (bench_read now r c) \<and> tc_pushed (bench_read now r c) = tc_pushed c"
  by (simp add: deaf_def bench_read_def read_into_def read_as_server_def and_then_def read_count_def read_request_size_def
      read_answer_size_def read_request_def Let_def split_def)

end
