(* ===== verification/Pacing.thy ===== *)
theory Pacing
  imports Conn_Life Rate
begin

text \<open>
  Which events each operation of a connection can switch on or off, and the pace of its datagrams: the interval
  between them and the time of the latest one never become negative, so that every time an
  operation sets an event to is one that comes.
\<close>

section \<open>Which events an operation can touch\<close>

lemma ev_touch_basic [simp]:
  "e' \<noteq> e \<Longrightarrow> ev (ev_at e t c) e' = ev c e'" "e' \<noteq> e \<Longrightarrow> ev (ev_in os e t c) e' = ev c e'"
  "e' \<noteq> e \<Longrightarrow> ev (ev_off e c) e' = ev c e'" "ev (ev_off e c) e = -1"
  by (simp_all add: tick_def ev_at_def ev_in_def ev_off_def)

lemma ev_touch_helpers [simp]:
  "e \<noteq> EvTcpRead \<Longrightarrow> ev (on_sent_buffer_changed os d c) e = ev c e"
  "e \<noteq> EvUdpWrite \<Longrightarrow> ev (set_event_udp_write os c) e = ev c e"
  "ev (snd (enqueue_packet ty bs n c)) = ev c"
  "e \<noteq> EvTcpRead \<Longrightarrow> ev (push_control os ty i bs n c) e = ev c e"
  "ev (finish_received k p n c) = ev c" "e \<noteq> EvUdpWrite \<Longrightarrow> ev (write_again c) e = ev c e"
  by (simp_all add: on_sent_buffer_changed_def set_event_udp_write_def enqueue_packet_def push_control_def
      finish_received_def write_again_def Let_def)

lemma build_loop_touch [simp]:
  "e \<noteq> EvTcpRead \<Longrightarrow> e \<noteq> EvUdpWrite \<Longrightarrow> ev (snd (build_loop os flush psize rest c)) e = ev c e"
  by (rule build_loop_invariant [where Q = "\<lambda>_ x. ev x e = ev c e"]) simp_all

lemma fold_changed_touch [simp]:
  "e \<noteq> EvTcpRead \<Longrightarrow> ev (fold (\<lambda>p. on_sent_buffer_changed os (g p)) ps c) e = ev c e"
  by (induction ps arbitrary: c) simp_all

lemma confirm_loop_touch [simp]:
  "e \<noteq> EvTcpRead \<Longrightarrow> ev (snd (snd (confirm_loop os psize master ks prev buf sz c))) e = ev c e"
  by (induction os psize master ks prev buf sz c rule: confirm_loop.induct)
    (simp_all add: Let_def split_def split: option.split)

lemma confirm_packet_touch [simp]: "e \<noteq> EvTcpRead \<Longrightarrow> ev (confirm_packet os k c) e = ev c e"
  by (simp add: confirm_packet_def Let_def split: option.split)

lemma fold_confirm_touch [simp]: "e \<noteq> EvTcpRead \<Longrightarrow> ev (fold (confirm_packet os) ks c) e = ev c e"
  by (induction ks arbitrary: c) simp_all

lemma ev_touch_ops [simp]:
  "e \<notin> {EvTcpRead, EvUdpWrite, EvBuildUdpPackets} \<Longrightarrow> ev (build_udp_packets os flush c) e = ev c e"
  "e \<noteq> EvTcpWrite \<Longrightarrow> ev (write_packet os k p c) e = ev c e"
  "e \<noteq> EvTcpRead \<Longrightarrow> ev (drop_confirmations os c) e = ev c e"
  by (simp_all add: build_udp_packets_def write_packet_def drop_confirmations_def Let_def split_def)

lemma ev_touch_handlers [simp]:
  "e \<notin> {EvTcpRead, EvUdpWrite, EvBuildUdpPackets} \<Longrightarrow> ev (tcp_read os c) e = ev c e"
  "e \<notin> {EvTcpRead, EvUdpWrite, EvBuildConfirmations} \<Longrightarrow> ev (build_confirmations os c) e = ev c e"
  "e \<notin> {EvTcpRead, EvUdpWrite, EvBuildByeBye} \<Longrightarrow> ev (build_bye_bye os c) e = ev c e"
  "e \<notin> {EvTcpRead, EvUdpResend, EvBuildByeBye} \<Longrightarrow> ev (read_confirmation os p c) e = ev c e"
  "e \<notin> {EvTcpRead, EvBuildConfirmations, EvUdpCloseWait} \<Longrightarrow> ev (read_bye_bye os c) e = ev c e"
  "e \<notin> {EvTcpWrite, EvUdpCloseWait} \<Longrightarrow> ev (store_received os p c) e = ev c e"
  by (simp_all add: tcp_read_def build_confirmations_def build_bye_bye_def read_confirmation_def read_bye_bye_def
      store_received_def Let_def split_def)

lemma tcp_close_touch [simp]:
  "e \<notin> {EvTcpRead, EvTcpWrite, EvUdpWrite, EvBuildUdpPackets, EvClose} \<Longrightarrow> ev (tcp_close os err c) e = ev c e"
  by (simp add: tcp_close_def Let_def split_def)

lemma udp_close_touch [simp]:
  "e \<in> {EvTcpClose, EvUdpClose, EvBuildByeBye, EvUdpCloseWait} \<Longrightarrow> ev (udp_close os c) e = ev c e"
  by (auto simp: udp_close_def Let_def)

lemma write_loop_touch [simp]:
  "e \<notin> {EvTcpRead, EvTcpWrite, EvUdpWrite, EvBuildUdpPackets, EvClose} \<Longrightarrow> ev (write_loop os n c) e = ev c e"
  by (induction n arbitrary: c) (simp_all add: Let_def split: option.split)

lemma send_touch [simp]: "ev (snd (send_datagram os p c)) = ev c" "ev (on_udp_sent os i u n c) = ev c" "ev (on_udp_delivered b i n c) = ev c"
  by (fact close_time_helpers)+

lemma write_confirmation_touch:
  assumes "e \<in> {EvTcpClose, EvUdpClose, EvBuildByeBye, EvUdpCloseWait}"
  shows "ev (write_confirmation os t p c) e = ev c e"
proof -
  obtain n c1 where s: "send_datagram os p c = (n, c1)" by fastforce
  have "ev c1 = ev c" using send_touch(1) [of os p c] s by simp
  moreover have "e \<noteq> EvTcpRead" "e \<noteq> EvUdpWrite" using assms by auto
  ultimately show ?thesis using assms by (simp add: write_confirmation_def s Let_def)
qed

lemma write_sent_packet_touch:
  assumes "e \<in> {EvTcpClose, EvUdpClose, EvBuildByeBye, EvUdpCloseWait}"
  shows "ev (write_sent_packet os t k p c) e = ev c e"
proof -
  obtain n c1 where s: "send_datagram os p c = (n, c1)" by fastforce
  have "ev c1 = ev c" using send_touch(1) [of os p c] s by simp
  moreover have "e \<noteq> EvTcpRead" "e \<noteq> EvUdpWrite" "e \<noteq> EvUdpResend" using assms by auto
  ultimately show ?thesis using assms by (simp add: write_sent_packet_def s Let_def)
qed

lemma udp_write_touch [simp]:
  "e \<in> {EvTcpClose, EvUdpClose, EvBuildByeBye, EvUdpCloseWait} \<Longrightarrow> ev (udp_write os t c) e = ev c e"
  by (simp add: udp_write_def write_confirmation_touch write_sent_packet_touch split: list.split option.split)

lemma resend_loop_touch [simp]:
  "e \<in> {EvTcpClose, EvUdpClose, EvBuildByeBye, EvUdpCloseWait} \<Longrightarrow> ev (resend_loop os t ks c) e = ev c e"
  by (induction ks arbitrary: c) (auto simp: Let_def split: option.split)

text \<open>An event that is set to a time that has come, or is to come, is enabled; setting an enabled event again
  leaves it enabled.\<close>

lemma ev_at_enabled [simp]: "0 \<le> t \<or> ev_enabled e c \<Longrightarrow> ev_enabled e (ev_at e t c)"
  by (auto simp: ev_enabled_def ev_at_def set_time_value_def)

lemma ev_in_enabled [simp]: "clock_ok os \<Longrightarrow> 0 \<le> d \<Longrightarrow> ev_enabled e (ev_in os e d c)"
  by (simp add: ev_in_def clock_ok_def answer_now_def)

lemma set_event_udp_write_enabled [simp]:
  assumes "clock_ok os"
  shows "ev_enabled EvUdpWrite (set_event_udp_write os c)"
proof -
  have "0 \<le> a_time (answer_now os c)" using assms by (simp add: clock_ok_def answer_now_def)
  then show ?thesis
    by (simp add: set_event_udp_write_def Let_def)
      (auto simp: tick_def ev_enabled_def ev_at_def set_time_value_def)
qed

lemma ev_enabled_frame: "ev c' e = ev c e \<Longrightarrow> ev_enabled e c' = ev_enabled e c"
  by (simp add: ev_enabled_def)

section \<open>The pace of sending\<close>

text \<open>Parameters of a sane configuration, and the times a datagram may be planned for.\<close>

definition timing_ok :: "params \<Rightarrow> bool" where
  "timing_ok ps \<longleftrightarrow> 0 < udpSendPacketSize ps \<and> 0 \<le> udpResendUs ps \<and> 0 \<le> buildConfirmationsUs ps \<and> 0 \<le> buildUdpPacketsUs ps"

definition paced :: "conn \<Rightarrow> bool" where
  "paced c \<longleftrightarrow> timing_ok (par c) \<and> 0 \<le> udpSendIntervalUs c \<and> 0 \<le> udpLastSentUs c"

lemma d_of_int_nonneg: "0 \<le> n \<Longrightarrow> d_of_int n = PInf \<or> (\<exists>y. d_of_int n = Fin y \<and> 0 \<le> y)"
proof -
  assume n: "0 \<le> n"
  have "0 \<le> round_even x" if "0 \<le> x" for x using round_even_ge [of 0 x] that by simp
  then show ?thesis using n by (auto simp: d_of_int_def round64_def round_pos_def Let_def)
qed

lemma measured_interval_nonneg:
  assumes "0 \<le> resendUs" "d_to_ll (d_round (measured_interval maxLoss resendUs m)) = Some n"
  shows "0 \<le> n"
proof -
  define M where "M = d_of_int (cdiv resendUs 3)"
  define i1 where "i1 = (let durationUs = d_of_int (m_endUs m - m_beginUs m);
          intervalUs = d_div (d_of_int (m_summaryIntervalUs m)) (d_of_int (m_count m));
          actualIntervalUs = d_div durationUs (d_of_int (m_count m));
          successPart = d_div (d_of_int (m_successSize m)) (d_of_int (m_size m));
          one = Fin 1; two = Fin 2; half = Fin (1 / 2);
          s0 = d_div successPart (d_sub one (d_mul (round64 (1 / 100)) maxLoss));
          s1 = (if m_failSize m \<le> 0 then two else s0);
          s2 = (if d_less one s1 \<and> d_less (d_mul (d_add intervalUs one) two) actualIntervalUs then one else s1);
          s3 = (if d_less s2 half then half else s2);
          s4 = (if d_less two s3 then two else s3);
          i0 = d_div intervalUs s4
      in d_div i0 (d_add one (d_mul (d_div one M) i0)))"
  have e: "measured_interval maxLoss resendUs m =
      (let i2 = (if d_less i1 (Fin tenth) then Fin tenth else i1) in if d_less M i2 then M else i2)"
    unfolding measured_interval_def i1_def M_def Let_def round_tenth by (rule refl)
  have tenth_nonneg: "0 \<le> tenth" by (simp add: tenth_def)
  have "M = PInf \<or> (\<exists>y. M = Fin y \<and> 0 \<le> y)" using assms(1) by (simp add: M_def d_of_int_nonneg)
  moreover have "i2 = NaN \<or> i2 = PInf \<or> (\<exists>y. i2 = Fin y \<and> 0 \<le> y)"
    if "i2 = (if d_less i1 (Fin tenth) then Fin tenth else i1)" for i2
    unfolding that using tenth_nonneg by (cases i1) auto
  ultimately have "f = NaN \<or> f = PInf \<or> (\<exists>y. f = Fin y \<and> 0 \<le> y)" if "f = measured_interval maxLoss resendUs m" for f
    unfolding that e Let_def by presburger
  then consider "measured_interval maxLoss resendUs m \<in> {NaN, PInf}"
    | y where "measured_interval maxLoss resendUs m = Fin y" "0 \<le> y" by blast
  then show ?thesis
  proof cases
    case 2
    then have "0 \<le> \<lfloor>y + 1 / 2\<rfloor>" by (simp add: le_floor_iff)
    then show ?thesis using assms(2) 2 by (auto simp: Let_def split: if_splits)
  qed (use assms(2) in auto)
qed

lemma paced_frame:
  "par c' = par c \<Longrightarrow> udpSendIntervalUs c' = udpSendIntervalUs c \<Longrightarrow> udpLastSentUs c' = udpLastSentUs c \<Longrightarrow> paced c' = paced c"
  by (simp add: paced_def)

lemma last_sent_frame [simp]:
  "udpLastSentUs (tick c) = udpLastSentUs c" "udpLastSentUs (ev_at e t c) = udpLastSentUs c"
  "udpLastSentUs (ev_in os e t c) = udpLastSentUs c" "udpLastSentUs (ev_off e c) = udpLastSentUs c"
  "udpLastSentUs (on_sent_buffer_changed os d c) = udpLastSentUs c" "udpLastSentUs (on_udp_sent os i t n c) = udpLastSentUs c"
  "udpLastSentUs (on_udp_delivered b i n c) = udpLastSentUs c" "udpLastSentUs (snd (enqueue_packet ty bs n c)) = udpLastSentUs c"
  "udpLastSentUs (push_control os ty j bs n c) = udpLastSentUs c" "udpLastSentUs (finish_received k p n c) = udpLastSentUs c"
  "udpLastSentUs (write_again c) = udpLastSentUs c" "udpLastSentUs (snd (send_datagram os p c)) = udpLastSentUs c"
  "udpLastSentUs (read_extra p c) = udpLastSentUs c" "udpLastSentUs (conn_delete c) = udpLastSentUs c"
  by (simp_all add: tick_def ev_at_def ev_in_def ev_off_def on_sent_buffer_changed_def on_udp_sent_def on_udp_delivered_def
      enqueue_packet_def push_control_def finish_received_def write_again_def send_datagram_def read_extra_def conn_delete_def
      Let_def split_def split: option.split)

lemma set_event_udp_write_last: "udpLastSentUs c \<le> udpLastSentUs (set_event_udp_write os c)"
  by (simp add: set_event_udp_write_def Let_def)

lemma set_event_udp_write_paced [step_intros]: "paced c \<Longrightarrow> paced (set_event_udp_write os c)"
  using set_event_udp_write_last [of c os] by (simp add: paced_def)

lemma on_udp_delivered_paced [step_intros]:
  assumes "paced c"
  shows "paced (on_udp_delivered b i n c)"
proof -
  have "0 \<le> udpSendIntervalUs (on_udp_delivered b i n c)"
    using assms measured_interval_nonneg
    by (auto simp: on_udp_delivered_def paced_def timing_ok_def Let_def split: option.split)
  then show ?thesis using assms by (simp add: paced_def)
qed

text \<open>Everything a connection does keeps the pace, as the time written to \<open>udpLastSentUs\<close> is the one the event was
  set to.\<close>

lemma build_loop_paced: "paced c \<Longrightarrow> paced (snd (build_loop os flush psize rest c))"
proof (rule build_loop_invariant [where Q = "\<lambda>_. paced"])
  fix rest c sz pc
  assume "paced c" "pc = enqueue_packet Data (take sz rest) (int sz) c"
  moreover have "paced (snd (enqueue_packet ty bs n c)) = paced c" for ty bs n by (rule paced_frame) simp_all
  moreover have "paced (on_sent_buffer_changed os d x) = paced x" for d x
    by (rule paced_frame) (simp_all add: on_sent_buffer_changed_def Let_def)
  ultimately show "paced (on_sent_buffer_changed os (get_size (fst pc)) (set_event_udp_write os (snd pc)))"
    by (simp add: set_event_udp_write_paced)
qed

lemma interval_helpers [simp]:
  "udpSendIntervalUs (on_sent_buffer_changed os d c) = udpSendIntervalUs c"
  "udpSendIntervalUs (push_control os ty j bs n c) = udpSendIntervalUs c"
  by (simp_all add: on_sent_buffer_changed_def push_control_def Let_def)

lemma paced_helpers [simp]:
  "paced (tick c) = paced c" "paced (ev_at e t c) = paced c" "paced (ev_in os e t c) = paced c" "paced (ev_off e c) = paced c"
  "paced (on_sent_buffer_changed os d c) = paced c" "paced (on_udp_sent os i t n c) = paced c"
  "paced (snd (enqueue_packet ty bs n c)) = paced c" "paced (push_control os ty j bs n c) = paced c"
  "paced (finish_received k p n c) = paced c" "paced (write_again c) = paced c"
  "paced (snd (send_datagram os p c)) = paced c" "paced (read_extra p c) = paced c"
  "paced (conn_delete c) = paced c"
  by (rule paced_frame; simp add: conn_delete_def)+

lemma paced_update [simp]:
  "paced (c\<lparr>tcpReceivedData := x1\<rparr>) = paced c" "paced (c\<lparr>udpSentPackets := x2\<rparr>) = paced c"
  "paced (c\<lparr>udpPacketsToSendCount := x3\<rparr>) = paced c" "paced (c\<lparr>udpConfirmationPackets := x4\<rparr>) = paced c"
  "paced (c\<lparr>remainConfirmationResendCount := x5\<rparr>) = paced c" "paced (c\<lparr>remainByeByeResendCount := x5\<rparr>) = paced c"
  "paced (c\<lparr>udpConnected := b\<rparr>) = paced c" "paced (c\<lparr>tcpConnected := b\<rparr>) = paced c" "paced (c\<lparr>tcpSocket := s\<rparr>) = paced c"
  "paced (c\<lparr>udpReceivedPackets := x6\<rparr>) = paced c" "paced (c\<lparr>udpReceiveBufferSize := x5\<rparr>) = paced c"
  "paced (c\<lparr>statTcpReceived := x5\<rparr>) = paced c" "paced (c\<lparr>statUdpSent := x5\<rparr>) = paced c" "paced (c\<lparr>log_tcpIn := x1\<rparr>) = paced c"
  "paced (c\<lparr>statUdpReceivedExtra := x5\<rparr>) = paced c" "paced (c\<lparr>udpConfirmedMasterIndex := x5\<rparr>) = paced c"
  "paced (c\<lparr>fault := b\<rparr>) = paced c" "0 \<le> t \<Longrightarrow> paced c \<Longrightarrow> paced (c\<lparr>udpLastSentUs := t\<rparr>)"
  by (simp_all add: paced_def)

lemma build_udp_packets_paced [step_intros]: "paced c \<Longrightarrow> paced (build_udp_packets os flush c)"
  by (simp add: build_udp_packets_def Let_def split_def build_loop_paced)

lemma tcp_read_paced: "paced c \<Longrightarrow> paced (tcp_read os c)"
  by (simp add: tcp_read_def Let_def split_def build_udp_packets_paced)

lemma discard_loop_paced [simp]: "paced (discard_loop n c) = paced c"
  by (induction n arbitrary: c) (simp_all split: option.split)

lemma tcp_close_paced [step_intros]: "paced c \<Longrightarrow> paced (tcp_close os err c)"
  by (simp add: tcp_close_def tcp_discard_def Let_def split_def build_udp_packets_paced set_event_udp_write_paced)

lemma udp_close_paced [step_intros]: "paced c \<Longrightarrow> paced (udp_close os c)"
  by (simp add: udp_close_def Let_def tcp_close_paced)

lemma write_packet_paced [simp]: "paced (write_packet os k p c) = paced c"
  by (rule paced_frame) (simp_all add: write_packet_def Let_def split_def)

lemma write_loop_paced: "paced c \<Longrightarrow> paced (write_loop os n c)"
  by (induction n arbitrary: c) (simp_all add: Let_def tcp_close_paced split: option.split)

lemma write_confirmation_paced:
  assumes "paced c" "0 \<le> t"
  shows "paced (write_confirmation os t p c)"
proof -
  obtain n c1 where s: "send_datagram os p c = (n, c1)" by fastforce
  have "paced c1" using paced_helpers(11) [of os p c] s assms(1) by simp
  then show ?thesis using assms by (simp add: write_confirmation_def s Let_def udp_close_paced)
qed

lemma write_sent_packet_paced:
  assumes "paced c" "0 \<le> t"
  shows "paced (write_sent_packet os t k p c)"
proof -
  obtain n c1 where s: "send_datagram os p c = (n, c1)" by fastforce
  have "paced c1" using paced_helpers(11) [of os p c] s assms(1) by simp
  then show ?thesis using assms by (simp add: write_sent_packet_def s Let_def udp_close_paced)
qed

lemma udp_write_paced: "paced c \<Longrightarrow> 0 \<le> t \<Longrightarrow> paced (udp_write os t c)"
  by (simp add: udp_write_def write_confirmation_paced write_sent_packet_paced split: list.split option.split)

lemma fold_changed_paced [simp]: "paced (fold (\<lambda>p. on_sent_buffer_changed os (g p)) ps c) = paced c"
  by (induction ps arbitrary: c) simp_all

lemma confirm_loop_paced [simp]: "paced (snd (snd (confirm_loop os psize master ks prev buf sz c))) = paced c"
  by (induction os psize master ks prev buf sz c rule: confirm_loop.induct)
    (simp_all add: Let_def split_def split: option.split)

lemma build_confirmations_paced: "paced c \<Longrightarrow> paced (build_confirmations os c)"
  by (simp add: build_confirmations_def drop_confirmations_def Let_def split_def set_event_udp_write_paced)

lemma build_bye_bye_paced: "paced c \<Longrightarrow> paced (build_bye_bye os c)"
  by (simp add: build_bye_bye_def Let_def set_event_udp_write_paced)

lemma resend_loop_paced: "paced c \<Longrightarrow> paced (resend_loop os t ks c)"
  by (induction ks arbitrary: c)
    (simp_all add: Let_def set_event_udp_write_paced on_udp_delivered_paced udp_close_paced split: option.split)

lemma confirm_packet_paced: "paced c \<Longrightarrow> paced (confirm_packet os k c)"
  by (simp add: confirm_packet_def Let_def on_udp_delivered_paced split: option.split)

lemma fold_confirm_paced: "paced c \<Longrightarrow> paced (fold (confirm_packet os) ks c)"
  by (induction ks arbitrary: c) (simp_all add: confirm_packet_paced)

lemma advance_master_paced: "paced (advance_master n c) = paced c"
proof -
  have "udpLastSentUs (advance_master n c) = udpLastSentUs c"
    by (induction n arbitrary: c) (simp_all add: Let_def split: option.split)
  then show ?thesis by (simp add: paced_def)
qed

lemma udp_dispatch_paced:
  assumes "paced c"
  shows "paced (udp_dispatch os p c)"
proof -
  have "paced (read_confirmation os p c)" using assms by (simp add: read_confirmation_def Let_def fold_confirm_paced)
  moreover have "paced (store_received os p c)"
    using assms by (simp add: store_received_def tcp_discard_def Let_def advance_master_paced)
  moreover have "paced (read_bye_bye os c)" using assms by (simp add: read_bye_bye_def drop_confirmations_def Let_def)
  ultimately show ?thesis using assms by (simp add: udp_dispatch_def Let_def)
qed

lemma udp_read_paced: "paced c \<Longrightarrow> paced (udp_read os p c)"
  by (simp add: udp_read_def Let_def udp_dispatch_paced udp_close_paced)

lemma handle_paced:
  assumes "paced c" "e = EvUdpWrite \<longrightarrow> 0 \<le> t"
  shows "paced (handle os e t c)"
  using assms by (cases e) (simp_all add: handle_def tcp_read_paced tcp_write_def write_loop_paced tcp_close_paced udp_write_paced
      udp_close_paced build_udp_packets_paced build_confirmations_paced build_bye_bye_paced udp_resend_def resend_loop_paced)

end
