(* ===== verification/Wakeups.thy ===== *)
theory Wakeups
  imports Pacing
begin

text \<open>
  No lost wake-up: whatever a connection still has to do, the event that will do it is enabled. The program
  has no other way to come back to a connection than its events, so a timer that is switched off and
  not set again would leave data, a confirmation or a whole connection behind for ever.
\<close>

section \<open>What is due\<close>

definition write_due :: "conn \<Rightarrow> bool" where
  "write_due c \<longleftrightarrow>
     (udpConnected c \<and> (0 < udpPacketsToSendCount c \<or> udpConfirmationPackets c \<noteq> []) \<longrightarrow> ev_enabled EvUdpWrite c)"

definition awaits :: "conn \<Rightarrow> bool" where
  "awaits c \<longleftrightarrow> (\<exists>k p. om_find (udpSentPackets c) k = Some p \<and> p_sent p)"

definition resend_due :: "conn \<Rightarrow> bool" where
  "resend_due c \<longleftrightarrow> (udpConnected c \<and> awaits c \<longrightarrow> ev_enabled EvUdpResend c)"

definition confirm_due :: "conn \<Rightarrow> bool" where
  "confirm_due c \<longleftrightarrow> (udpConnected c \<and> 0 < remainConfirmationResendCount c \<longrightarrow> ev_enabled EvBuildConfirmations c)"

definition bye_due :: "conn \<Rightarrow> bool" where
  "bye_due c \<longleftrightarrow> (udpConnected c \<and> 0 < remainByeByeResendCount c \<longrightarrow> ev_enabled EvBuildByeBye c)"

definition pack_due :: "conn \<Rightarrow> bool" where
  "pack_due c \<longleftrightarrow> (udpConnected c \<and> tcpReceivedData c \<noteq> [] \<longrightarrow> ev_enabled EvBuildUdpPackets c)"

definition tcp_due :: "conn \<Rightarrow> bool" where
  "tcp_due c \<longleftrightarrow> (tcpConnected c \<and> tcpNextSendIndex c < udpReceivedMasterIndex c \<longrightarrow> ev_enabled EvTcpWrite c)"

definition ends_due :: "conn \<Rightarrow> bool" where
  "ends_due c \<longleftrightarrow> (tcpConnected c \<longrightarrow> ev_enabled EvTcpClose c) \<and> (udpConnected c \<longrightarrow> ev_enabled EvUdpClose c)"

section \<open>Writing datagrams\<close>

lemma write_due_enabled: "ev_enabled EvUdpWrite c \<Longrightarrow> write_due c"
  by (simp add: write_due_def)

lemma write_due_closed: "\<not> udpConnected c \<Longrightarrow> write_due c"
  by (simp add: write_due_def)

lemma write_due_frame:
  "ev c' EvUdpWrite = ev c EvUdpWrite \<Longrightarrow> udpConnected c' = udpConnected c \<Longrightarrow>
   udpPacketsToSendCount c' \<le> udpPacketsToSendCount c \<Longrightarrow>
   udpConfirmationPackets c' = [] \<or> udpConfirmationPackets c \<noteq> [] \<Longrightarrow> write_due c \<Longrightarrow> write_due c'"
  by (auto simp: write_due_def ev_enabled_def)

lemma build_loop_write_due:
  assumes "clock_ok os" "write_due c"
  shows "write_due (snd (build_loop os flush psize rest c))"
proof (rule build_loop_invariant [where Q = "\<lambda>_. write_due"])
  fix pc :: "packet \<times> conn"
  have "ev_enabled EvUdpWrite (set_event_udp_write os (snd pc))" using assms(1) by simp
  then show "write_due (on_sent_buffer_changed os (get_size (fst pc)) (set_event_udp_write os (snd pc)))"
    by (intro write_due_enabled) (simp add: ev_enabled_def)
qed (use assms in simp)

lemma build_udp_packets_write_due:
  assumes "clock_ok os" "write_due c"
  shows "write_due (build_udp_packets os flush c)"
proof (cases "udpConnected c")
  case True
  define c1 where "c1 = (if udpReceivedFinalIndex c = udpReceivedMasterIndex c then c\<lparr>tcpReceivedData := []\<rparr> else c)"
  have "write_due c1" using assms(2) by (simp add: c1_def write_due_def ev_enabled_def)
  then have "write_due (snd (build_loop os flush (udpSendPacketSize (par c1)) (tcpReceivedData c1) c1))"
    using assms(1) by (rule build_loop_write_due [rotated])
  then show ?thesis
    by (rule write_due_frame [rotated 4]) (use True in \<open>simp_all add: build_udp_packets_def c1_def [symmetric] Let_def split_def\<close>)
qed (use assms in \<open>simp add: build_udp_packets_def\<close>)

lemma tcp_read_write_due:
  assumes "clock_ok os" "write_due c"
  shows "write_due (tcp_read os c)"
proof -
  have f: "write_due (on_sent_buffer_changed os 0 x)" if "write_due x" for x
    using that by (rule write_due_frame [rotated 4]) simp_all
  have g: "write_due ((tick c)\<lparr>tcpSocket := s, log_tcpIn := l\<rparr>)"
    "write_due ((tick c)\<lparr>tcpSocket := s, log_tcpIn := l, statTcpReceived := n\<rparr>)"
    "write_due ((tick c)\<lparr>tcpSocket := s, log_tcpIn := l, statTcpReceived := n, tcpReceivedData := d\<rparr>)" for s l n d
    by (rule write_due_frame [rotated 4, OF assms(2)]; simp)+
  show ?thesis using assms by (simp add: tcp_read_def Let_def split_def f g build_udp_packets_write_due)
qed

lemma tcp_close_write_due:
  assumes "clock_ok os" "write_due c"
  shows "write_due (tcp_close os err c)"
proof (cases "tcpConnected c \<and> udpConnected c")
  case True
  have "write_due (set_event_udp_write os x)" for x using assms(1) by (simp add: write_due_enabled)
  then show ?thesis using True by (simp add: tcp_close_def Let_def split_def)
next
  case False
  then have "tcp_close os err c = c \<or> \<not> udpConnected (tcp_close os err c)" by (auto simp: tcp_close_def)
  then show ?thesis using assms(2) write_due_closed by auto
qed

lemma write_loop_write_due: "clock_ok os \<Longrightarrow> write_due c \<Longrightarrow> write_due (write_loop os n c)"
proof (induction n arbitrary: c)
  case (Suc n)
  have f: "write_due (finish_received k p z c)" "write_due (write_packet os k p c)" for k p z
    by (rule write_due_frame [rotated 4, OF Suc.prems(2)]; simp)+
  show ?case using Suc by (simp add: Let_def f tcp_close_write_due split: option.split)
qed simp

lemma write_again_enabled: "paced c \<Longrightarrow> ev_enabled EvUdpWrite (write_again c)"
  by (simp add: write_again_def paced_def)

lemma send_datagram_paced: "send_datagram os p c = (n, c1) \<Longrightarrow> paced c1 = paced c"
  using paced_helpers(11) [of os p c] by simp

lemma write_confirmation_write_due:
  assumes "paced c" "0 \<le> t"
  shows "write_due (write_confirmation os t p c)"
proof -
  obtain n c1 where s: "send_datagram os p c = (n, c1)" by fastforce
  have p1: "paced c1" using send_datagram_paced [OF s] assms(1) by simp
  define c3 where "c3 = (on_sent_buffer_changed os (- get_size p) (c1\<lparr>statUdpSent := statUdpSent c1 + n, udpLastSentUs := t\<rparr>))
      \<lparr>udpConfirmationPackets := tl (udpConfirmationPackets c1)\<rparr>"
  have "paced c3" using p1 assms(2) by (simp add: c3_def)
  then show ?thesis using p1
    by (auto simp: write_confirmation_def s Let_def c3_def [symmetric] write_due_enabled write_again_enabled write_due_closed write_due_def)
qed

lemma write_sent_packet_write_due:
  assumes "paced c" "0 \<le> t" "udpConfirmationPackets c = []"
  shows "write_due (write_sent_packet os t k p c)"
proof -
  obtain n c1 where s: "send_datagram os p c = (n, c1)" by fastforce
  have p1: "paced c1" "udpConfirmationPackets c1 = []"
    using send_datagram_paced [OF s] assms(1,3) send_datagram_frame [of os p c] s by simp_all
  define again where "again = (\<lambda>c. if 0 < udpPacketsToSendCount c then write_again c else c)"
  have again: "write_due (again x)" if "paced x" "udpConfirmationPackets x = []" for x
    using that write_again_enabled by (auto simp: again_def write_due_def)
  have closed: "write_due (udp_close os x)" for x by (simp add: write_due_closed)
  show ?thesis unfolding write_sent_packet_def s Let_def prod.case again_def [symmetric]
    using p1 assms(2) by (simp add: again closed)
qed

lemma all_sent: "om_sum unsent m \<le> 0 \<longleftrightarrow> (\<forall>kp\<in>set m. p_sent (snd kp))"
proof (induction m)
  case (Cons kp m)
  have "0 \<le> om_sum unsent m" by (simp add: om_sum_def unsent_def sum_list_nonneg_int)
  then show ?case using Cons by (auto simp: om_sum_def unsent_def)
qed (simp add: om_sum_def)

lemma udp_write_write_due:
  assumes "paced c" "0 \<le> t" "send_inv 0 c"
  shows "write_due (udp_write os t c)"
proof (cases "udpConnected c")
  case True
  have "write_due c" if "udpConfirmationPackets c = []" "find (\<lambda>kp. \<not> p_sent (snd kp)) (udpSentPackets c) = None"
  proof -
    have "om_sum unsent (udpSentPackets c) \<le> 0" using that(2) unfolding all_sent find_None_iff by fastforce
    then show ?thesis using assms(3) that(1) True by (simp add: write_due_def send_inv_def)
  qed
  then show ?thesis using assms True
    by (simp add: udp_write_def write_confirmation_write_due write_sent_packet_write_due split: list.split option.split)
qed (simp add: udp_write_def write_due_closed)

lemma resend_loop_write_due: "clock_ok os \<Longrightarrow> write_due c \<Longrightarrow> write_due (resend_loop os t ks c)"
proof (induction ks arbitrary: c)
  case (Cons k ks)
  have "write_due (ev_at EvUdpResend u c)" for u by (rule write_due_frame [rotated 4, OF Cons.prems(2)]) simp_all
  then show ?case using Cons by (simp add: Let_def write_due_enabled write_due_closed split: option.split)
qed simp

lemma set_write_time: "clock_ok os \<Longrightarrow> 0 \<le> ev (set_event_udp_write os c) EvUdpWrite"
  using set_event_udp_write_enabled [of os c] by (simp only: ev_enabled_def)

lemma build_confirmations_write: "clock_ok os \<Longrightarrow> udpConnected c \<Longrightarrow> ev_enabled EvUdpWrite (build_confirmations os c)"
  by (simp add: build_confirmations_def Let_def split_def ev_enabled_def set_write_time)

lemma build_bye_bye_write: "clock_ok os \<Longrightarrow> udpConnected c \<Longrightarrow> ev_enabled EvUdpWrite (build_bye_bye os c)"
  by (simp add: build_bye_bye_def Let_def ev_enabled_def set_write_time)

lemma handle_write_due:
  assumes "clock_ok os" "paced c" "send_inv 0 c" "write_due c \<or> e = EvUdpWrite" "e = EvUdpWrite \<longrightarrow> 0 \<le> t"
  shows "write_due (handle os e t c)"
proof (cases "e = EvUdpWrite")
  case True
  then show ?thesis using assms by (simp add: handle_def udp_write_write_due)
next
  case False
  then have w: "write_due c" using assms(4) by simp
  have t: "write_due (tick c)" "write_due (conn_delete c)"
    by (rule write_due_frame [rotated 4, OF w]; simp add: conn_delete_def)+
  have bc: "write_due (build_confirmations os c)"
    using w build_confirmations_write [OF assms(1)] by (cases "udpConnected c") (simp_all add: write_due_enabled write_due_closed)
  have bb: "write_due (build_bye_bye os c)"
    using w build_bye_bye_write [OF assms(1)] by (cases "udpConnected c") (simp_all add: write_due_enabled write_due_closed)
  show ?thesis using assms(1) w t bc bb False
    by (simp add: handle_def tcp_read_write_due tcp_write_def write_loop_write_due tcp_close_write_due write_due_closed
        build_udp_packets_write_due udp_resend_def resend_loop_write_due split: conn_event.split)
qed

lemma fold_confirm_count: "udpPacketsToSendCount (fold (confirm_packet os) ks c) \<le> udpPacketsToSendCount c"
proof (induction ks arbitrary: c)
  case (Cons k ks)
  have "udpPacketsToSendCount (confirm_packet os k c) \<le> udpPacketsToSendCount c"
    by (simp add: confirm_packet_def Let_def split: option.split)
  then show ?case using Cons.IH [of "confirm_packet os k c"] by simp
qed simp

lemma read_confirmation_count: "udpPacketsToSendCount (read_confirmation os p c) \<le> udpPacketsToSendCount c"
proof -
  let ?a = "fold (confirm_packet os) (takeWhile (\<lambda>k. k < get_index p) (om_keys (udpSentPackets c))) c"
  let ?b = "fold (confirm_packet os) (pair_indices (get_index p) (fst (unpack_pairs (get_data p)))) ?a"
  have "udpPacketsToSendCount (read_confirmation os p c) = udpPacketsToSendCount ?b"
    by (simp add: read_confirmation_def Let_def)
  moreover have "udpPacketsToSendCount ?b \<le> udpPacketsToSendCount ?a" by (rule fold_confirm_count)
  moreover have "udpPacketsToSendCount ?a \<le> udpPacketsToSendCount c" by (rule fold_confirm_count)
  ultimately show ?thesis by linarith
qed

lemma drop_confirmations_less: "udpConfirmationPackets (drop_confirmations os c) = filter (\<lambda>p. \<not> is_confirmation p) (udpConfirmationPackets c)"
  by (simp add: drop_confirmations_def Let_def)

lemma read_bye_bye_less: "udpConfirmationPackets (read_bye_bye os c) = [] \<or> udpConfirmationPackets c \<noteq> []"
  by (auto simp: read_bye_bye_def Let_def drop_confirmations_less)

lemma udp_read_write_due:
  assumes "write_due c"
  shows "write_due (udp_read os p c)"
proof -
  have "write_due (read_confirmation os p c)" "write_due (read_bye_bye os c)" "write_due (store_received os p c)"
    "write_due (read_extra p c)" "write_due (c\<lparr>fault := True\<rparr>)"
    by (rule write_due_frame [rotated 4, OF assms];
        simp add: read_confirmation_count read_bye_bye_less read_extra_def)+
  moreover have "write_due (ev_in os EvBuildConfirmations d (x\<lparr>remainConfirmationResendCount := n\<rparr>))" if "write_due x" for x d n
    by (rule write_due_frame [rotated 4, OF that]) simp_all
  ultimately have "write_due (udp_dispatch os p c)" by (simp add: udp_dispatch_def Let_def)
  then show ?thesis using assms by (simp add: udp_read_def Let_def write_due_closed)
qed

section \<open>Resending\<close>

lemma resend_due_enabled: "ev_enabled EvUdpResend c \<Longrightarrow> resend_due c"
  by (simp add: resend_due_def)

lemma resend_due_closed: "\<not> udpConnected c \<Longrightarrow> resend_due c"
  by (simp add: resend_due_def)

lemma resend_due_frame:
  "ev c' EvUdpResend = ev c EvUdpResend \<Longrightarrow> udpConnected c' = udpConnected c \<Longrightarrow> (awaits c' \<Longrightarrow> awaits c) \<Longrightarrow>
   resend_due c \<Longrightarrow> resend_due c'"
  by (auto simp: resend_due_def ev_enabled_def)

lemma awaits_frame: "udpSentPackets c' = udpSentPackets c \<Longrightarrow> awaits c' = awaits c"
  by (simp add: awaits_def)

lemma resend_due_same:
  assumes "ev c' EvUdpResend = ev c EvUdpResend" "udpConnected c' = udpConnected c" "udpSentPackets c' = udpSentPackets c"
  shows "resend_due c' = resend_due c"
  using assms by (simp add: resend_due_def ev_enabled_def awaits_frame [OF assms(3)])

text \<open>A new packet starts unsent.\<close>

lemma enqueue_awaits: "om_ok (udpSentPackets c) \<Longrightarrow> awaits (snd (enqueue_packet ty bs n c)) \<Longrightarrow> awaits c"
  by (auto simp: awaits_def enqueue_packet_def Let_def encode_flags sent_slot_def new_packet_def split: if_splits option.splits)

lemma enqueue_resend_due:
  assumes "om_ok (udpSentPackets c)" "resend_due c"
  shows "resend_due (snd (enqueue_packet ty bs n c))"
  using assms(2) by (rule resend_due_frame [rotated 3]) (simp_all add: enqueue_awaits [OF assms(1)])

lemma build_loop_resend_due:
  assumes "send_inv 0 c" "udpConnected c" "resend_due c"
  shows "resend_due (snd (build_loop os flush psize rest c))"
proof -
  let ?Q = "\<lambda>_ x. send_inv 0 x \<and> udpConnected x \<and> resend_due x"
  have "?Q (fst (build_loop os flush psize rest c)) (snd (build_loop os flush psize rest c))"
  proof (rule build_loop_invariant [where Q = ?Q])
    fix rest x sz and pc :: "packet \<times> conn"
    assume x: "send_inv 0 x \<and> udpConnected x \<and> resend_due x" and sz: "sz \<le> length rest"
      and pc: "pc = enqueue_packet Data (take sz rest) (int sz) x"
    have "om_ok (udpSentPackets x)" using x by (simp add: send_inv_def)
    then have r: "resend_due (snd pc)" using x enqueue_resend_due by (simp add: pc)
    have "resend_due (on_sent_buffer_changed os (get_size (fst pc)) (set_event_udp_write os (snd pc))) = resend_due (snd pc)"
      by (rule resend_due_same) simp_all
    then show "?Q (drop sz rest) (on_sent_buffer_changed os (get_size (fst pc)) (set_event_udp_write os (snd pc)))"
      using x r sz enqueue_packet_inv [of 0 x Data "int sz" "take sz rest"] by (simp add: stream_type_def pc)
  qed (use assms in simp)
  then show ?thesis by simp
qed

lemma build_udp_packets_resend_due:
  assumes "send_inv 0 c" "resend_due c"
  shows "resend_due (build_udp_packets os flush c)"
proof (cases "udpConnected c")
  case True
  define c1 where "c1 = (if udpReceivedFinalIndex c = udpReceivedMasterIndex c then c\<lparr>tcpReceivedData := []\<rparr> else c)"
  have "resend_due c1" using assms(2) resend_due_same [of c1 c] by (simp add: c1_def)
  moreover have "send_inv 0 c1" "udpConnected c1" using assms True by (simp_all add: c1_def send_inv_data)
  ultimately have r: "resend_due (snd (build_loop os flush (udpSendPacketSize (par c1)) (tcpReceivedData c1) c1))"
    by (rule build_loop_resend_due [rotated 2])
  have "resend_due (build_udp_packets os flush c) =
      resend_due (snd (build_loop os flush (udpSendPacketSize (par c1)) (tcpReceivedData c1) c1))"
    by (rule resend_due_same) (use True in \<open>simp_all add: build_udp_packets_def c1_def [symmetric] Let_def split_def\<close>)
  then show ?thesis using r by simp
qed (use assms in \<open>simp add: build_udp_packets_def\<close>)

lemma tcp_read_resend_due:
  assumes "send_inv 0 c" "resend_due c"
  shows "resend_due (tcp_read os c)"
proof -
  have f: "resend_due (on_sent_buffer_changed os 0 x) = resend_due x" for x by (rule resend_due_same) simp_all
  have g: "resend_due ((tick c)\<lparr>tcpSocket := s, log_tcpIn := l\<rparr>) = resend_due c"
    "resend_due ((tick c)\<lparr>tcpSocket := s, log_tcpIn := l, statTcpReceived := n\<rparr>) = resend_due c"
    "resend_due ((tick c)\<lparr>tcpSocket := s, log_tcpIn := l, statTcpReceived := n, tcpReceivedData := d\<rparr>) = resend_due c" for s l n d
    by (rule resend_due_same; simp)+
  show ?thesis using assms
    by (simp add: tcp_read_def Let_def split_def f g build_udp_packets_resend_due send_inv_data)
qed

lemma tcp_close_resend_due:
  assumes "send_inv 0 c" "resend_due c"
  shows "resend_due (tcp_close os err c)"
proof (cases "tcpConnected c \<and> udpConnected c")
  case True
  define c2 where "c2 = (ev_off EvTcpWrite (ev_off EvTcpRead (c\<lparr>tcpConnected := False\<rparr>)))
      \<lparr>tcpSocket := sock_close False (tcpSocket c)\<rparr>"
  define c3 where "c3 = build_udp_packets os True (tcp_discard c2)"
  define pc where "pc = enqueue_packet (if err then Disconnect else Bye) [] 0 c3"
  have "send_inv 0 c2" using assms by (simp add: c2_def)
  then have s: "send_inv 0 (tcp_discard c2)" "send_inv 0 c3" by (simp_all add: c3_def build_udp_packets_inv)
  have "resend_due (tcp_discard c2) = resend_due c" by (rule resend_due_same) (simp_all add: c2_def)
  then have "resend_due c3" using s assms(2) build_udp_packets_resend_due by (simp add: c3_def)
  then have r: "resend_due (snd pc)" using s(2) by (simp add: pc_def enqueue_resend_due send_inv_def)
  have "resend_due (set_event_udp_write os (on_sent_buffer_changed os (get_size (fst pc)) (snd pc))) = resend_due (snd pc)"
    by (rule resend_due_same) simp_all
  then show ?thesis using r True
    by (simp add: tcp_close_def c2_def c3_def pc_def Let_def split_def)
next
  case False
  then have "tcp_close os err c = c \<or> \<not> udpConnected (tcp_close os err c)" by (auto simp: tcp_close_def)
  then show ?thesis using assms(2) resend_due_closed by auto
qed

lemma write_loop_resend_due: "send_inv 0 c \<Longrightarrow> resend_due c \<Longrightarrow> resend_due (write_loop os n c)"
proof (induction n arbitrary: c)
  case (Suc n)
  have f: "resend_due (finish_received k p z c) = resend_due c" "resend_due (write_packet os k p c) = resend_due c" for k p z
    by (rule resend_due_same; simp)+
  show ?case using Suc by (simp add: Let_def f tcp_close_resend_due split: option.split)
qed simp

lemma send_datagram_parts:
  assumes "send_datagram os p c = (n, c1)"
  shows "udpSentPackets c1 = udpSentPackets c" "udpConnected c1 = udpConnected c" "ev c1 = ev c" "par c1 = par c"
    "udpConfirmationPackets c1 = udpConfirmationPackets c"
  using send_datagram_frame [of os p c] send_touch(1) [of os p c] assms by simp_all

lemma write_confirmation_resend_due:
  assumes "resend_due c"
  shows "resend_due (write_confirmation os t p c)"
proof -
  obtain n c1 where s: "send_datagram os p c = (n, c1)" by fastforce
  have c1: "resend_due c1" using assms resend_due_same [of c1 c] send_datagram_parts [OF s] by simp
  define c2 where "c2 = on_sent_buffer_changed os (- get_size p) (c1\<lparr>statUdpSent := statUdpSent c1 + n, udpLastSentUs := t\<rparr>)"
  define c3 where "c3 = c2\<lparr>udpConfirmationPackets := tl (udpConfirmationPackets c2)\<rparr>"
  have c3: "resend_due c3" using c1 resend_due_same [of c3 c1] by (simp add: c3_def c2_def)
  have "resend_due (write_again x) = resend_due x" for x by (rule resend_due_same) simp_all
  then show ?thesis using c1 c3
    unfolding write_confirmation_def s Let_def prod.case c2_def [symmetric] c3_def [symmetric]
    by (simp add: resend_due_closed)
qed

lemma write_sent_packet_resend_due:
  assumes "clock_ok os" "paced c" "resend_due c" "\<not> p_confirmed p"
  shows "resend_due (write_sent_packet os t k p c)"
proof -
  obtain n c1 where s: "send_datagram os p c = (n, c1)" by fastforce
  define again where "again = (\<lambda>c. if 0 < udpPacketsToSendCount c then write_again c else c)"
  have again: "resend_due (again x) = resend_due x" for x by (rule resend_due_same) (simp_all add: again_def)
  have c1: "resend_due (again c1)" using assms(3) resend_due_same [of c1 c] send_datagram_parts [OF s] by (simp add: again)
  have "0 \<le> udpResendUs (par c)" using assms(2) by (simp add: paced_def timing_ok_def)
  then have on: "resend_due (again (ev_in os EvUdpResend (udpResendUs (par c)) x))" for x
    using assms(1) by (simp add: again resend_due_enabled)
  show ?thesis unfolding write_sent_packet_def s Let_def prod.case again_def [symmetric]
    using c1 on assms(4) send_datagram_parts [OF s] by (simp add: is_complete_def)
qed

lemma udp_write_resend_due:
  assumes "clock_ok os" "paced c" "send_inv 0 c" "resend_due c"
  shows "resend_due (udp_write os t c)"
proof (cases "udpConnected c")
  case True
  have "\<not> p_confirmed p" if "find (\<lambda>kp. \<not> p_sent (snd kp)) (udpSentPackets c) = Some (k, p)" for k p
    using that find_in_map [of "udpSentPackets c"] send_inv_queue(1,2) [OF assms(3)] by blast
  then show ?thesis using assms True
    by (simp add: udp_write_def write_confirmation_resend_due write_sent_packet_resend_due split: list.split option.split)
qed (simp add: udp_write_def resend_due_closed)

text \<open>The resending loop sets the event for every packet it leaves sent.\<close>

definition left_sent :: "int list \<Rightarrow> conn \<Rightarrow> bool" where
  "left_sent ks c \<longleftrightarrow> (udpConnected c \<longrightarrow>
     (\<forall>k p. om_find (udpSentPackets c) k = Some p \<and> p_sent p \<longrightarrow> k \<in> set ks \<or> ev_enabled EvUdpResend c))"

lemma resend_loop_sets:
  assumes "om_ok (udpSentPackets c)" "0 \<le> t" "\<forall>k\<in>set ks. om_find (udpSentPackets c) k \<noteq> None" "left_sent ks c"
  shows "resend_due (resend_loop os t ks c)"
  using assms
proof (induction ks arbitrary: c)
  case Nil
  then show ?case by (auto simp: resend_due_def awaits_def left_sent_def)
next
  case (Cons k ks)
  obtain p where p: "om_find (udpSentPackets c) k = Some p" using Cons.prems(3) by auto
  show ?case
  proof (cases "p_sent p")
    case sent: True
    show ?thesis
    proof (cases "p_sentTimeUs p + udpResendUs (par c) \<le> t")
      case late: True
      show ?thesis
      proof (cases "0 < p_remainResendCount p")
        case True
        define c1 where "c1 = set_event_udp_write os (on_udp_delivered False (p_measureIndex (rearmed p)) (get_size (rearmed p))
            (c\<lparr>udpPacketsToSendCount := udpPacketsToSendCount c + 1, udpSentPackets := om_put k (rearmed p) (udpSentPackets c)\<rparr>))"
        have e: "resend_loop os t (k # ks) c = resend_loop os t ks c1"
          using p sent late True by (simp add: Let_def c1_def rearmed_def)
        have c1: "om_find (udpSentPackets c1) i = (if i = k then Some (rearmed p) else om_find (udpSentPackets c) i)"
          "ev c1 EvUdpResend = ev c EvUdpResend" "udpConnected c1 = udpConnected c" "om_ok (udpSentPackets c1)" for i
          using Cons.prems(1) by (simp_all add: c1_def)
        have "left_sent ks c1" using Cons.prems(4) c1 by (auto simp: left_sent_def ev_enabled_def rearmed_def split: if_splits)
        then show ?thesis unfolding e using Cons.prems c1 by (intro Cons.IH) auto
      next
        case False
        then show ?thesis using p sent late by (simp add: resend_due_closed)
      qed
    next
      case False
      let ?c = "ev_at EvUdpResend (p_sentTimeUs p + udpResendUs (par c)) c"
      have "ev_enabled EvUdpResend ?c" using False Cons.prems(2) by simp
      then have "left_sent ks ?c" by (simp add: left_sent_def)
      then show ?thesis using p sent False Cons by simp
    qed
  next
    case False
    then have "left_sent ks c" using Cons.prems(4) p by (auto simp: left_sent_def)
    then show ?thesis using p False Cons by simp
  qed
qed

lemma udp_resend_sets:
  assumes "clock_ok os" "send_inv 0 c"
  shows "resend_due (udp_resend os c)"
proof (cases "udpConnected c")
  case True
  have ok: "om_ok (udpSentPackets c)" using assms(2) by (simp add: send_inv_def)
  have "0 \<le> a_time (answer_now os c)" using assms(1) by (simp add: clock_ok_def answer_now_def)
  moreover have "left_sent (om_keys (udpSentPackets c)) (tick c)" by (auto simp: left_sent_def om_keys_find_aux)
  ultimately show ?thesis using True ok by (simp add: udp_resend_def resend_loop_sets om_keys_find_aux)
qed (simp add: udp_resend_def resend_due_closed)

lemma handle_resend_due:
  assumes "clock_ok os" "paced c" "send_inv 0 c" "resend_due c \<or> e = EvUdpResend"
  shows "resend_due (handle os e t c)"
proof (cases "e = EvUdpResend")
  case True
  then show ?thesis using assms by (simp add: handle_def udp_resend_sets)
next
  case False
  then have w: "resend_due c" using assms(4) by simp
  have "resend_due (conn_delete c) = resend_due c" "resend_due (build_confirmations os c) = resend_due c"
    "resend_due (build_bye_bye os c) = resend_due c"
    by (rule resend_due_same; simp add: conn_delete_def)+
  then show ?thesis using assms w False
    by (simp add: handle_def tcp_read_resend_due tcp_write_def write_loop_resend_due tcp_close_resend_due resend_due_closed
        build_udp_packets_resend_due udp_write_resend_due split: conn_event.split)
qed

text \<open>A confirmation switches the event off only when every packet left is waiting to be sent again.\<close>

lemma all_unsent: "int (length m) \<le> om_sum unsent m \<Longrightarrow> \<forall>kp\<in>set m. \<not> p_sent (snd kp)"
proof (induction m)
  case (Cons kp m)
  have "om_sum unsent m \<le> int (length m)" by (induction m) (simp_all add: om_sum_def unsent_def)
  then show ?case using Cons by (auto simp: om_sum_def unsent_def split: if_splits)
qed simp

lemma read_confirmation_resend_time:
  "ev (read_confirmation os p c) EvUdpResend =
     (if int (length (udpSentPackets (read_confirmation os p c))) \<le> udpPacketsToSendCount (read_confirmation os p c)
      then -1 else ev c EvUdpResend)"
  by (simp add: read_confirmation_def Let_def)

lemma read_confirmation_resend_due:
  assumes inv: "send_inv 0 c" and con: "udpConnected c" and due: "resend_due c"
  shows "resend_due (read_confirmation os p c)"
proof -
  define r where "r = read_confirmation os p c"
  have s: "send_inv 0 r" and u: "udpConnected r" using read_confirmation_inv(1) [OF inv] con by (simp_all add: r_def)
  have aw: "awaits c" if a: "awaits r"
  proof -
    obtain k q where q: "om_find (udpSentPackets r) k = Some q" "p_sent q" using a unfolding awaits_def by blast
    then have "om_find (udpSentPackets c) k = Some q"
      using read_confirmation_inv(2) [OF inv, of os p k] by (simp add: r_def split: if_splits)
    then show ?thesis using q(2) unfolding awaits_def by blast
  qed
  show ?thesis
  proof (cases "int (length (udpSentPackets r)) \<le> udpPacketsToSendCount r")
    case True
    then have "int (length (udpSentPackets r)) \<le> om_sum unsent (udpSentPackets r)" using s u by (simp add: send_inv_def)
    then have "\<forall>kp\<in>set (udpSentPackets r). \<not> p_sent (snd kp)" by (rule all_unsent)
    moreover have "om_ok (udpSentPackets r)" using s by (simp add: send_inv_def)
    ultimately have "\<not> awaits r" unfolding awaits_def using om_find_in_set by force
    then show ?thesis by (simp add: resend_due_def r_def)
  next
    case False
    then have "ev r EvUdpResend = ev c EvUdpResend" by (simp add: r_def read_confirmation_resend_time)
    then show ?thesis using due aw u con by (auto simp: resend_due_def r_def ev_enabled_def)
  qed
qed

lemma udp_read_resend_due:
  assumes "send_inv 0 c" "resend_due c"
  shows "resend_due (udp_read os p c)"
proof -
  have "resend_due (udp_dispatch os p c)" if "udpConnected c"
  proof -
    have f: "resend_due (ev_in os EvBuildConfirmations d (x\<lparr>remainConfirmationResendCount := n\<rparr>)) = resend_due x"
      "resend_due (store_received os p c) = resend_due c" "resend_due (read_bye_bye os c) = resend_due c"
      "resend_due (read_extra p c) = resend_due c" "resend_due (c\<lparr>fault := True\<rparr>) = resend_due c" for x d n
      by (rule resend_due_same; simp add: read_extra_def)+
    show ?thesis using assms that by (simp add: udp_dispatch_def Let_def f read_confirmation_resend_due)
  qed
  then show ?thesis using assms by (simp add: udp_read_def Let_def resend_due_closed)
qed

end
