(* ===== verification/Liveness.thy ===== *)
theory Liveness
  imports Wakeups
begin

text \<open>
  The remaining timers of a connection, the reading of tcp and the end of its life: the event of every
  pending task is enabled, a connection whose udp side has finished is closed at once, and one that only
  waits for its peer keeps a timer running.
\<close>

section \<open>Events that only closing switches off\<close>

definition still :: "conn_event \<Rightarrow> conn \<Rightarrow> bool" where
  "still e c \<longleftrightarrow> e = EvTcpWrite \<and> tcpConnected c \<or> e \<in> {EvBuildConfirmations, EvBuildUdpPackets} \<and> udpConnected c"

lemma udp_close_still: "still e (udp_close os c) \<Longrightarrow> ev (udp_close os c) e = ev c e"
  by (auto simp: still_def udp_close_def Let_def tcp_close_def)

text \<open>The outcomes of the two ways to write a datagram: nothing was sent, the last datagram closed udp, or more is to
  be sent.\<close>

lemma write_confirmation_shape:
  obtains n c1 c3 where "send_datagram os p c = (n, c1)"
    "c3 = (on_sent_buffer_changed os (- get_size p) (c1\<lparr>statUdpSent := statUdpSent c1 + n, udpLastSentUs := t\<rparr>))
       \<lparr>udpConfirmationPackets := tl (udpConfirmationPackets c1)\<rparr>"
    "write_confirmation os t p c = c1 \<or> write_confirmation os t p c = write_again c1 \<or>
     isUdpFinished c3 \<and> write_confirmation os t p c = udp_close os c3 \<or>
     \<not> isUdpFinished c3 \<and> (write_confirmation os t p c = c3 \<or> write_confirmation os t p c = write_again c3)"
proof -
  obtain n c1 where s: "send_datagram os p c = (n, c1)" by fastforce
  define c2 where "c2 = on_sent_buffer_changed os (- get_size p) (c1\<lparr>statUdpSent := statUdpSent c1 + n, udpLastSentUs := t\<rparr>)"
  define c3 where "c3 = c2\<lparr>udpConfirmationPackets := tl (udpConfirmationPackets c2)\<rparr>"
  have "write_confirmation os t p c = c1 \<or> write_confirmation os t p c = write_again c1 \<or>
     isUdpFinished c3 \<and> write_confirmation os t p c = udp_close os c3 \<or>
     \<not> isUdpFinished c3 \<and> (write_confirmation os t p c = c3 \<or> write_confirmation os t p c = write_again c3)"
    unfolding write_confirmation_def s Let_def prod.case c2_def [symmetric] c3_def [symmetric] by simp
  then show ?thesis by (rule that [OF s, rotated]) (simp add: c3_def c2_def)
qed

lemma write_sent_packet_shape:
  assumes "\<not> p_confirmed p"
  obtains n c1 c4 where "send_datagram os p c = (n, c1)" "udpSentPackets c4 \<noteq> []" "ev c4 = ev c1" "udpConnected c4 = udpConnected c1"
    "tcpReceivedData c4 = tcpReceivedData c1"
    "write_sent_packet os t k p c = c1 \<or> write_sent_packet os t k p c = write_again c1 \<or>
     write_sent_packet os t k p c = ev_in os EvUdpResend (udpResendUs (par c4)) c4 \<or>
     write_sent_packet os t k p c = write_again (ev_in os EvUdpResend (udpResendUs (par c4)) c4)"
proof -
  obtain n c1 where s: "send_datagram os p c = (n, c1)" by fastforce
  define p' where "p' = p\<lparr>p_sent := True, p_sentTimeUs := a_time (answer_now os c1), p_measureIndex := udpSendMeasureIndex c1\<rparr>"
  define c2 where "c2 = (tick c1)\<lparr>statUdpSent := statUdpSent c1 + n, udpSentPackets := om_put k p' (udpSentPackets c1), udpLastSentUs := t\<rparr>"
  define c3 where "c3 = on_udp_sent os (udpSendMeasureIndex c2) (udpSendIntervalUs c2) (get_size p') c2"
  define c4 where "c4 = c3\<lparr>udpPacketsToSendCount := udpPacketsToSendCount c3 - 1\<rparr>"
  have "\<not> is_complete p'" using assms by (simp add: is_complete_def p'_def)
  then have "write_sent_packet os t k p c = c1 \<or> write_sent_packet os t k p c = write_again c1 \<or>
     write_sent_packet os t k p c = ev_in os EvUdpResend (udpResendUs (par c4)) c4 \<or>
     write_sent_packet os t k p c = write_again (ev_in os EvUdpResend (udpResendUs (par c4)) c4)"
    unfolding write_sent_packet_def s Let_def prod.case p'_def [symmetric] c2_def [symmetric] c3_def [symmetric] c4_def [symmetric]
    by simp
  moreover have "om_put k p' m \<noteq> []" for m by (cases m) (auto split: if_splits)
  ultimately show ?thesis by (intro that [OF s, of c4]) (simp_all add: c4_def c3_def c2_def)
qed

lemma write_confirmation_still:
  assumes "still e (write_confirmation os t p c)"
  shows "ev (write_confirmation os t p c) e = ev c e"
proof (rule write_confirmation_shape [of os p c t])
  fix n c1 c3
  assume s: "send_datagram os p c = (n, c1)"
    and c3: "c3 = (on_sent_buffer_changed os (- get_size p) (c1\<lparr>statUdpSent := statUdpSent c1 + n, udpLastSentUs := t\<rparr>))
       \<lparr>udpConfirmationPackets := tl (udpConfirmationPackets c1)\<rparr>"
    and r: "write_confirmation os t p c = c1 \<or> write_confirmation os t p c = write_again c1 \<or>
     isUdpFinished c3 \<and> write_confirmation os t p c = udp_close os c3 \<or>
     \<not> isUdpFinished c3 \<and> (write_confirmation os t p c = c3 \<or> write_confirmation os t p c = write_again c3)"
  have e: "e \<noteq> EvTcpRead" "e \<noteq> EvUdpWrite" using assms by (auto simp: still_def)
  then have "ev c3 e = ev c e" using send_datagram_parts(3) [OF s] by (simp add: c3)
  then show ?thesis using r assms e udp_close_still [of e os c3] send_datagram_parts(3) [OF s] by auto
qed

lemma write_sent_packet_still:
  assumes "still e (write_sent_packet os t k p c)" "\<not> p_confirmed p"
  shows "ev (write_sent_packet os t k p c) e = ev c e"
proof (rule write_sent_packet_shape [OF assms(2), of os c t k])
  fix n c1 c4
  assume s: "send_datagram os p c = (n, c1)" and c4: "ev c4 = ev c1"
    and r: "write_sent_packet os t k p c = c1 \<or> write_sent_packet os t k p c = write_again c1 \<or>
     write_sent_packet os t k p c = ev_in os EvUdpResend (udpResendUs (par c4)) c4 \<or>
     write_sent_packet os t k p c = write_again (ev_in os EvUdpResend (udpResendUs (par c4)) c4)"
  have "e \<noteq> EvUdpResend" "e \<noteq> EvUdpWrite" using assms(1) by (auto simp: still_def)
  then show ?thesis using r c4 send_datagram_parts(3) [OF s] by auto
qed

lemma found_unconfirmed:
  "send_inv 0 c \<Longrightarrow> find (\<lambda>kp. \<not> p_sent (snd kp)) (udpSentPackets c) = Some (k, p) \<Longrightarrow> \<not> p_confirmed p"
  using find_in_map [of "udpSentPackets c" "\<lambda>kp. \<not> p_sent (snd kp)" k p] send_inv_queue(1,2) [of 0 c] by blast

lemma udp_write_still: "send_inv 0 c \<Longrightarrow> still e (udp_write os t c) \<Longrightarrow> ev (udp_write os t c) e = ev c e"
  by (auto simp: udp_write_def write_confirmation_still write_sent_packet_still found_unconfirmed
      split: list.splits option.splits if_splits)

lemma resend_loop_still: "still e (resend_loop os t ks c) \<Longrightarrow> ev (resend_loop os t ks c) e = ev c e"
proof (induction ks arbitrary: c)
  case (Cons k ks)
  have e: "e \<noteq> EvUdpResend" "e \<noteq> EvUdpWrite" using Cons.prems by (auto simp: still_def)
  show ?case
  proof (cases "om_find (udpSentPackets c) k")
    case (Some p)
    then show ?thesis using Cons e udp_close_still [of e os c] by (simp add: Let_def split: if_splits)
  qed simp
qed simp

lemma udp_resend_still: "still e (udp_resend os c) \<Longrightarrow> ev (udp_resend os c) e = ev c e"
  using resend_loop_still [of e os "a_time (answer_now os c)" "om_keys (udpSentPackets c)" "tick c"]
  by (auto simp: udp_resend_def)

lemma write_confirmation_data:
  assumes "udpConnected (write_confirmation os t p c)"
  shows "tcpReceivedData (write_confirmation os t p c) = tcpReceivedData c"
proof (rule write_confirmation_shape [of os p c t])
  fix n c1 c3
  assume s: "send_datagram os p c = (n, c1)"
    and c3: "c3 = (on_sent_buffer_changed os (- get_size p) (c1\<lparr>statUdpSent := statUdpSent c1 + n, udpLastSentUs := t\<rparr>))
       \<lparr>udpConfirmationPackets := tl (udpConfirmationPackets c1)\<rparr>"
    and r: "write_confirmation os t p c = c1 \<or> write_confirmation os t p c = write_again c1 \<or>
     isUdpFinished c3 \<and> write_confirmation os t p c = udp_close os c3 \<or>
     \<not> isUdpFinished c3 \<and> (write_confirmation os t p c = c3 \<or> write_confirmation os t p c = write_again c3)"
  have "tcpReceivedData c1 = tcpReceivedData c" using send_datagram_frame [of os p c] s by simp
  moreover then have "tcpReceivedData c3 = tcpReceivedData c" by (simp add: c3)
  ultimately show ?thesis using r assms by auto
qed

lemma write_sent_packet_data:
  assumes "\<not> p_confirmed p"
  shows "tcpReceivedData (write_sent_packet os t k p c) = tcpReceivedData c"
proof (rule write_sent_packet_shape [OF assms, of os c t k])
  fix n c1 c4
  assume s: "send_datagram os p c = (n, c1)" and c4: "tcpReceivedData c4 = tcpReceivedData c1"
    and r: "write_sent_packet os t k p c = c1 \<or> write_sent_packet os t k p c = write_again c1 \<or>
     write_sent_packet os t k p c = ev_in os EvUdpResend (udpResendUs (par c4)) c4 \<or>
     write_sent_packet os t k p c = write_again (ev_in os EvUdpResend (udpResendUs (par c4)) c4)"
  have "tcpReceivedData c1 = tcpReceivedData c" using send_datagram_frame [of os p c] s by simp
  then show ?thesis using r c4 by auto
qed

lemma udp_write_data:
  "send_inv 0 c \<Longrightarrow> udpConnected (udp_write os t c) \<Longrightarrow> tcpReceivedData (udp_write os t c) = tcpReceivedData c"
  by (auto simp: udp_write_def write_confirmation_data write_sent_packet_data found_unconfirmed
      split: list.splits option.splits if_splits)

lemma resend_loop_data: "udpConnected (resend_loop os t ks c) \<Longrightarrow> tcpReceivedData (resend_loop os t ks c) = tcpReceivedData c"
proof (induction ks arbitrary: c)
  case (Cons k ks)
  show ?case
  proof (cases "om_find (udpSentPackets c) k")
    case (Some p)
    then show ?thesis using Cons by (simp add: Let_def split: if_splits)
  qed simp
qed simp

lemma udp_resend_data: "udpConnected (udp_resend os c) \<Longrightarrow> tcpReceivedData (udp_resend os c) = tcpReceivedData c"
  using resend_loop_data [of os _ _ "tick c"] by (simp add: udp_resend_def split: if_splits)

section \<open>Confirmations and ByeByes\<close>

lemma confirm_due_frame:
  "(udpConnected c' \<Longrightarrow> udpConnected c \<and> ev c' EvBuildConfirmations = ev c EvBuildConfirmations \<and>
     remainConfirmationResendCount c' = remainConfirmationResendCount c) \<Longrightarrow> confirm_due c \<Longrightarrow> confirm_due c'"
  by (auto simp: confirm_due_def ev_enabled_def)

lemma build_confirmations_sets:
  assumes "clock_ok os" "paced c"
  shows "confirm_due (build_confirmations os c)"
proof -
  have "0 \<le> buildConfirmationsUs (par c)" using assms(2) by (simp add: paced_def timing_ok_def)
  then show ?thesis using assms(1)
    by (simp add: build_confirmations_def Let_def split_def confirm_due_def)
qed

lemma write_loop_remain [simp]:
  "remainConfirmationResendCount (write_loop os n c) = remainConfirmationResendCount c"
  "remainByeByeResendCount (write_loop os n c) = remainByeByeResendCount c"
  "udpConnected (write_loop os n c) = udpConnected c"
  by (induction n arbitrary: c) (simp_all add: Let_def split: option.split)

lemma udp_write_open: "udpConnected (udp_write os t c) \<Longrightarrow> udpConnected c"
  and udp_resend_open: "udpConnected (udp_resend os c) \<Longrightarrow> udpConnected c"
  using handle_udp_connected [of os EvUdpWrite t c] handle_udp_connected [of os EvUdpResend t c] by (simp_all add: handle_def)

lemma handle_confirm_due:
  assumes "clock_ok os" "paced c" "confirm_due c \<or> e = EvBuildConfirmations" "send_inv 0 c"
  shows "confirm_due (handle os e t c)"
proof (cases "e = EvBuildConfirmations")
  case True
  then show ?thesis using build_confirmations_sets [OF assms(1,2)] by (simp add: handle_def)
next
  case False
  then have due: "confirm_due c" using assms(3) by simp
  have c: "confirm_due (tcp_read os c)" "confirm_due (write_loop os n c)" "confirm_due (tcp_close os b c)"
    "confirm_due (build_udp_packets os b c)" "confirm_due (build_bye_bye os c)" "confirm_due (conn_delete c)"
    "confirm_due (udp_close os c)" for n b
    by (rule confirm_due_frame [OF _ due]; simp add: conn_delete_def)+
  have "confirm_due (udp_write os t c)" "confirm_due (udp_resend os c)"
    by (rule confirm_due_frame [OF _ due]; use udp_write_open [of os t c] udp_resend_open [of os c] in
        \<open>simp add: still_def udp_write_still [OF assms(4)] udp_resend_still\<close>)+
  then show ?thesis using c due False by (simp add: handle_def tcp_write_def split: conn_event.split)
qed

lemma udp_read_confirm_due:
  assumes "clock_ok os" "paced c" "confirm_due c"
  shows "confirm_due (udp_read os p c)"
proof -
  have "0 \<le> buildConfirmationsUs (par x)" if "paced x" for x using that by (simp add: paced_def timing_ok_def)
  moreover have "paced (store_received os p c)" using assms(2)
    by (simp add: store_received_def tcp_discard_def Let_def advance_master_paced)
  ultimately have "confirm_due (ev_in os EvBuildConfirmations (buildConfirmationsUs (par x)) (x\<lparr>remainConfirmationResendCount := n\<rparr>))"
    if "x = store_received os p c \<or> x = read_extra p c" for x n
    using assms(1,2) that by (auto simp: confirm_due_def)
  moreover have "confirm_due (read_confirmation os p c)" "confirm_due (read_extra p c)" "confirm_due (c\<lparr>fault := True\<rparr>)"
    by (rule confirm_due_frame [OF _ assms(3)]; simp add: read_extra_def)+
  moreover have "confirm_due (read_bye_bye os c)"
    by (simp add: confirm_due_def read_bye_bye_def Let_def)
  ultimately have "confirm_due (udp_dispatch os p c)" by (simp add: udp_dispatch_def Let_def)
  then show ?thesis using assms(3) by (simp add: udp_read_def Let_def confirm_due_def [of "udp_close os _"])
qed

lemma bye_due_frame:
  "(udpConnected c' \<Longrightarrow> udpConnected c) \<Longrightarrow> ev c' EvBuildByeBye = ev c EvBuildByeBye \<Longrightarrow>
     remainByeByeResendCount c' = remainByeByeResendCount c \<Longrightarrow> bye_due c \<Longrightarrow> bye_due c'"
  by (auto simp: bye_due_def ev_enabled_def)

lemma build_bye_bye_sets:
  assumes "clock_ok os" "paced c"
  shows "bye_due (build_bye_bye os c)"
proof -
  have "0 \<le> buildConfirmationsUs (par c)" using assms(2) by (simp add: paced_def timing_ok_def)
  then show ?thesis using assms(1) by (simp add: build_bye_bye_def Let_def bye_due_def)
qed

lemma udp_resend_touch:
  "e \<in> {EvTcpClose, EvUdpClose, EvBuildByeBye, EvUdpCloseWait} \<Longrightarrow> ev (udp_resend os c) e = ev c e"
  using resend_loop_touch [of e os _ _ "tick c"] by (simp add: udp_resend_def)

lemma handle_bye_due:
  assumes "clock_ok os" "paced c" "bye_due c \<or> e = EvBuildByeBye"
  shows "bye_due (handle os e t c)"
proof (cases "e = EvBuildByeBye")
  case True
  then show ?thesis using build_bye_bye_sets [OF assms(1,2)] by (simp add: handle_def)
next
  case False
  then have due: "bye_due c" using assms(3) by simp
  have "bye_due (tcp_read os c)" "bye_due (write_loop os n c)" "bye_due (tcp_close os b c)" "bye_due (build_udp_packets os b c)"
    "bye_due (build_confirmations os c)" "bye_due (conn_delete c)" "bye_due (udp_close os c)" "bye_due (udp_write os t c)"
    "bye_due (udp_resend os c)" for n b
    by (rule bye_due_frame [OF _ _ _ due];
        use udp_write_open [of os t c] udp_resend_open [of os c] in \<open>simp add: conn_delete_def udp_resend_touch\<close>)+
  then show ?thesis using due False by (simp add: handle_def tcp_write_def split: conn_event.split)
qed

lemma udp_read_bye_due:
  assumes "clock_ok os" "bye_due c"
  shows "bye_due (udp_read os p c)"
proof -
  have "bye_due (read_confirmation os p c)"
  proof (cases "remainByeByeResendCount (read_confirmation os p c) = remainByeByeResendCount c \<and>
      ev (read_confirmation os p c) EvBuildByeBye = ev c EvBuildByeBye")
    case True
    then show ?thesis using assms(2) by (simp add: bye_due_def ev_enabled_def)
  next
    case False
    have "remainByeByeResendCount (fold (confirm_packet os) ks x) = remainByeByeResendCount x" for ks x by simp
    then have "ev_enabled EvBuildByeBye (read_confirmation os p c)"
      using False assms(1) by (auto simp: read_confirmation_def Let_def)
    then show ?thesis by (simp add: bye_due_def)
  qed
  moreover have "bye_due (store_received os p c)" "bye_due (read_bye_bye os c)" "bye_due (read_extra p c)" "bye_due (c\<lparr>fault := True\<rparr>)"
    by (rule bye_due_frame [OF _ _ _ assms(2)]; simp add: read_extra_def)+
  moreover have "bye_due (ev_in os EvBuildConfirmations d (x\<lparr>remainConfirmationResendCount := n\<rparr>)) = bye_due x" for x d n
    by (simp add: bye_due_def ev_enabled_def)
  ultimately have "bye_due (udp_dispatch os p c)" by (simp add: udp_dispatch_def Let_def)
  then show ?thesis using assms(2) by (simp add: udp_read_def Let_def bye_due_def [of "udp_close os _"])
qed

section \<open>Data read from tcp\<close>

lemma pack_due_frame:
  "(udpConnected c' \<Longrightarrow> udpConnected c \<and> ev c' EvBuildUdpPackets = ev c EvBuildUdpPackets \<and> tcpReceivedData c' = tcpReceivedData c) \<Longrightarrow>
   pack_due c \<Longrightarrow> pack_due c'"
  by (auto simp: pack_due_def ev_enabled_def)

lemma build_udp_packets_sets:
  assumes "clock_ok os" "paced c"
  shows "pack_due (build_udp_packets os flush c)"
proof -
  have "0 \<le> buildUdpPacketsUs (par c)" using assms(2) by (simp add: paced_def timing_ok_def)
  then show ?thesis using assms(1)
    by (simp add: build_udp_packets_def Let_def split_def pack_due_def)
qed

lemma tcp_read_pack_due:
  assumes "clock_ok os" "paced c" "pack_due c"
  shows "pack_due (tcp_read os c)"
proof -
  have f: "pack_due (on_sent_buffer_changed os 0 x) = pack_due x" for x by (simp add: pack_due_def ev_enabled_def)
  have g: "pack_due ((tick c)\<lparr>tcpSocket := s, log_tcpIn := l\<rparr>)"
    "pack_due ((tick c)\<lparr>tcpSocket := s, log_tcpIn := l, statTcpReceived := n\<rparr>)" for s l n
    by (rule pack_due_frame [OF _ assms(3)]; simp)+
  show ?thesis using assms by (simp add: tcp_read_def Let_def split_def f g build_udp_packets_sets)
qed

lemma tcp_close_pack_due:
  assumes "clock_ok os" "paced c" "pack_due c"
  shows "pack_due (tcp_close os err c)"
proof (cases "tcpConnected c \<and> udpConnected c")
  case True
  define c2 where "c2 = (ev_off EvTcpWrite (ev_off EvTcpRead (c\<lparr>tcpConnected := False\<rparr>)))\<lparr>tcpSocket := sock_close False (tcpSocket c)\<rparr>"
  have "paced (tcp_discard c2)" using assms(2) by (simp add: c2_def tcp_discard_def)
  then have "pack_due (build_udp_packets os True (tcp_discard c2))" using assms(1) by (simp add: build_udp_packets_sets)
  then show ?thesis
    by (rule pack_due_frame [rotated]) (use True in \<open>simp add: tcp_close_def c2_def Let_def split_def\<close>)
next
  case False
  then have "tcp_close os err c = c \<or> \<not> udpConnected (tcp_close os err c)" by (auto simp: tcp_close_def)
  then show ?thesis using assms(3) by (auto simp: pack_due_def)
qed

lemma write_loop_pack_due: "clock_ok os \<Longrightarrow> paced c \<Longrightarrow> pack_due c \<Longrightarrow> pack_due (write_loop os n c)"
proof (induction n arbitrary: c)
  case (Suc n)
  have f: "pack_due (finish_received k p z c)" "pack_due (write_packet os k p c)" for k p z
    by (rule pack_due_frame [OF _ Suc.prems(3)]; simp)+
  show ?case using Suc by (simp add: Let_def f tcp_close_pack_due split: option.split)
qed simp

lemma handle_pack_due:
  assumes "clock_ok os" "paced c" "pack_due c \<or> e = EvBuildUdpPackets" "send_inv 0 c"
  shows "pack_due (handle os e t c)"
proof (cases "e = EvBuildUdpPackets")
  case True
  then show ?thesis using build_udp_packets_sets [OF assms(1,2)] by (simp add: handle_def)
next
  case False
  then have due: "pack_due c" using assms(3) by simp
  have "pack_due (build_confirmations os c)" "pack_due (build_bye_bye os c)" "pack_due (conn_delete c)" "pack_due (udp_close os c)"
    by (rule pack_due_frame [OF _ due]; simp add: conn_delete_def)+
  moreover have "tcpReceivedData (udp_write os t c) = tcpReceivedData c" if "udpConnected (udp_write os t c)"
    using assms(4) that by (rule udp_write_data)
  moreover have "tcpReceivedData (udp_resend os c) = tcpReceivedData c" if "udpConnected (udp_resend os c)"
    using that by (rule udp_resend_data)
  ultimately have "pack_due (udp_write os t c)" "pack_due (udp_resend os c)"
    by - (rule pack_due_frame [OF _ due]; use udp_write_open [of os t c] udp_resend_open [of os c] in
        \<open>simp add: still_def udp_write_still [OF assms(4)] udp_resend_still\<close>)+
  then show ?thesis using due False assms(1,2) \<open>pack_due (build_confirmations os c)\<close> \<open>pack_due (build_bye_bye os c)\<close>
      \<open>pack_due (conn_delete c)\<close> \<open>pack_due (udp_close os c)\<close>
    by (simp add: handle_def tcp_write_def tcp_read_pack_due write_loop_pack_due tcp_close_pack_due split: conn_event.split)
qed

lemma udp_read_pack_due:
  assumes "pack_due c"
  shows "pack_due (udp_read os p c)"
proof -
  have "pack_due (read_confirmation os p c)" "pack_due (store_received os p c)" "pack_due (read_bye_bye os c)"
    "pack_due (read_extra p c)" "pack_due (c\<lparr>fault := True\<rparr>)"
    by (rule pack_due_frame [OF _ assms]; simp add: read_extra_def)+
  moreover have "pack_due (ev_in os EvBuildConfirmations d (x\<lparr>remainConfirmationResendCount := n\<rparr>)) = pack_due x" for x d n
    by (simp add: pack_due_def ev_enabled_def)
  ultimately have "pack_due (udp_dispatch os p c)" by (simp add: udp_dispatch_def Let_def)
  then show ?thesis using assms by (simp add: udp_read_def Let_def pack_due_def [of "udp_close os _"])
qed

section \<open>Data for tcp\<close>

lemma tcp_due_frame:
  "(tcpConnected c' \<Longrightarrow> tcpConnected c \<and> ev c' EvTcpWrite = ev c EvTcpWrite \<and> tcpNextSendIndex c' = tcpNextSendIndex c \<and>
     udpReceivedMasterIndex c' = udpReceivedMasterIndex c) \<Longrightarrow> tcp_due c \<Longrightarrow> tcp_due c'"
  by (auto simp: tcp_due_def ev_enabled_def)

lemma tcp_due_closed: "\<not> tcpConnected c \<Longrightarrow> tcp_due c"
  by (simp add: tcp_due_def)

lemma write_packet_sets: "clock_ok os \<Longrightarrow> tcp_due (write_packet os k p c)"
  by (simp add: write_packet_def Let_def split_def tcp_due_def)

lemma write_loop_sets:
  assumes "clock_ok os"
  shows "recv_ok c \<Longrightarrow> write_turns c \<le> n \<Longrightarrow> tcp_due (write_loop os n c)"
proof (induction n arbitrary: c)
  case 0
  then show ?case by (simp add: write_turns_def tcp_due_def)
next
  case (Suc n)
  show ?case
  proof (cases "tcpNextSendIndex c < udpReceivedMasterIndex c")
    case True
    then obtain p where p: "om_find (udpReceivedPackets c) (tcpNextSendIndex c) = Some p"
      using Suc.prems(1) by (auto simp: recv_ok_def)
    let ?c = "finish_received (tcpNextSendIndex c) p (get_size p) c"
    have "write_turns ?c \<le> n" using Suc.prems(2) True by (simp add: write_turns_def)
    with Suc.IH [OF finish_received_ok [OF Suc.prems(1) p True, of "get_size p"]] True p assms
    show ?thesis by (simp add: Let_def write_packet_sets tcp_due_closed tcp_close_state)
  qed (simp add: Let_def tcp_due_def)
qed

lemma handle_tcp_due:
  assumes "clock_ok os" "recv_ok c" "tcp_due c \<or> e = EvTcpWrite" "send_inv 0 c"
  shows "tcp_due (handle os e t c)"
proof (cases "e = EvTcpWrite")
  case True
  then show ?thesis using write_loop_sets [OF assms(1,2) order_refl]
    by (simp add: handle_def tcp_write_def tcp_due_closed)
next
  case False
  then have due: "tcp_due c" using assms(3) by simp
  have "tcp_due (tcp_read os c)" "tcp_due (build_udp_packets os b c)" "tcp_due (build_confirmations os c)"
    "tcp_due (build_bye_bye os c)" "tcp_due (conn_delete c)" for b
    by (rule tcp_due_frame [OF _ due]; simp add: conn_delete_def)+
  moreover have "tcp_due (udp_close os c)" "tcp_due (udp_write os t c)" "tcp_due (udp_resend os c)"
    by (rule tcp_due_frame [OF _ due];
        use udp_close_connected [of os c] udp_write_connected [of os t c] udp_resend_connected [of os c] in
          \<open>simp add: still_def udp_close_still udp_write_still [OF assms(4)] udp_resend_still\<close>)+
  moreover have "tcp_due (tcp_close os b c)" for b by (simp add: tcp_due_closed tcp_close_state)
  ultimately show ?thesis using due False by (simp add: handle_def split: conn_event.split)
qed

lemma udp_read_tcp_due:
  assumes "clock_ok os" "tcp_due c"
  shows "tcp_due (udp_read os p c)"
proof -
  have "tcp_due (read_confirmation os p c)" "tcp_due (read_bye_bye os c)"
    "tcp_due (read_extra p c)" "tcp_due (c\<lparr>fault := True\<rparr>)"
    by (rule tcp_due_frame [OF _ assms(2)]; simp add: read_extra_def)+
  moreover have "tcp_due (store_received os p c)"
    using assms(1) by (simp add: store_received_def Let_def tcp_due_def ev_enabled_def [of _ "ev_in os EvUdpCloseWait _ _"])
      (simp add: ev_enabled_def [symmetric])
  moreover have "tcp_due (ev_in os EvBuildConfirmations d (x\<lparr>remainConfirmationResendCount := n\<rparr>)) = tcp_due x" for x d n
    by (simp add: tcp_due_def ev_enabled_def)
  ultimately have d: "tcp_due (udp_dispatch os p c)" by (simp add: udp_dispatch_def Let_def)
  have "tcp_due (udp_close os x)" if "tcp_due x" for x
    by (rule tcp_due_frame [OF _ that]) (use udp_close_connected [of os x] in \<open>simp add: still_def udp_close_still\<close>)
  then show ?thesis using assms(2) d by (simp add: udp_read_def Let_def)
qed

section \<open>Noticing the end of a socket\<close>

lemma ends_due_frame:
  assumes "tcpConnected c' \<Longrightarrow> tcpConnected c \<and> ev c' EvTcpClose = ev c EvTcpClose"
    "udpConnected c' \<Longrightarrow> udpConnected c \<and> ev c' EvUdpClose = ev c EvUdpClose" "ends_due c"
  shows "ends_due c'"
  using assms by (auto simp: ends_due_def ev_enabled_def)

lemma handle_tcp_connected: "tcpConnected (handle os e t c) \<Longrightarrow> tcpConnected c \<and> e \<noteq> EvTcpClose"
proof (cases "tcpConnected c")
  case True
  then show "tcpConnected (handle os e t c) \<Longrightarrow> tcpConnected c \<and> e \<noteq> EvTcpClose"
    by (auto simp: handle_def tcp_close_state)
next
  case False
  have "\<not> tcpConnected (handle os e t c)"
    using False udp_write_connected [of os t c] udp_close_connected [of os c] udp_resend_connected [of os c]
    by (cases e) (auto simp: handle_def tcp_read_def tcp_write_def tcp_close_def conn_delete_def)
  then show "tcpConnected (handle os e t c) \<Longrightarrow> tcpConnected c \<and> e \<noteq> EvTcpClose" by blast
qed

lemma handle_ends_time:
  "ev (handle os e t c) EvTcpClose = ev c EvTcpClose" "ev (handle os e t c) EvUdpClose = ev c EvUdpClose"
  by (cases e; simp add: handle_def tcp_write_def udp_resend_touch conn_delete_def)+

lemma raise_ends_due:
  assumes "ends_due c"
  shows "ends_due (raise_conn_event os e c)"
proof (rule ends_due_frame [OF _ _ assms])
  assume "tcpConnected (raise_conn_event os e c)"
  then have "tcpConnected (ev_off e c) \<and> e \<noteq> EvTcpClose" unfolding raise_conn_event_def by (rule handle_tcp_connected)
  then show "tcpConnected c \<and> ev (raise_conn_event os e c) EvTcpClose = ev c EvTcpClose"
    by (cases e) (simp_all add: raise_conn_event_def handle_ends_time)
next
  assume u: "udpConnected (raise_conn_event os e c)"
  then have "udpConnected (ev_off e c)" unfolding raise_conn_event_def by (rule handle_udp_connected)
  moreover have "e \<noteq> EvUdpClose" using u by (auto simp: raise_conn_event_def handle_def)
  ultimately show "udpConnected c \<and> ev (raise_conn_event os e c) EvUdpClose = ev c EvUdpClose"
    by (cases e) (simp_all add: raise_conn_event_def handle_ends_time)
qed

lemma udp_dispatch_touch [simp]:
  "e \<in> {EvTcpClose, EvUdpClose} \<Longrightarrow> ev (udp_dispatch os p c) e = ev c e"
  "tcpConnected (udp_dispatch os p c) = tcpConnected c" "udpConnected (udp_dispatch os p c) = udpConnected c"
  by (auto simp: udp_dispatch_def Let_def read_extra_def)

lemma udp_read_ends_due:
  assumes "ends_due c"
  shows "ends_due (udp_read os p c)"
proof -
  have "ends_due (udp_close os x)" if "ends_due x" for x
    by (rule ends_due_frame [OF _ _ that]) (use udp_close_connected [of os x] in simp_all)
  moreover have "ends_due (udp_dispatch os p c)" by (rule ends_due_frame [OF _ _ assms]) simp_all
  ultimately show ?thesis using assms by (simp add: udp_read_def Let_def)
qed

section \<open>The end of a connection\<close>

text \<open>Once tcp is closed, everything read from it is in packets and everything received is used up.\<close>

definition settled :: "conn \<Rightarrow> bool" where
  "settled c \<longleftrightarrow>
     (udpConnected c \<and> \<not> tcpConnected c \<longrightarrow> tcpReceivedData c = [] \<and> tcpNextSendIndex c = udpReceivedMasterIndex c)"

definition unfinished :: "conn \<Rightarrow> bool" where
  "unfinished c \<longleftrightarrow> (udpConnected c \<and> \<not> tcpConnected c \<longrightarrow> \<not> isUdpFinished c)"

lemma finished_frame:
  "udpConnected c' = udpConnected c \<Longrightarrow> tcpConnected c' = tcpConnected c \<Longrightarrow> udpReceivedFinalIndex c' = udpReceivedFinalIndex c \<Longrightarrow>
   udpReceivedMasterIndex c' = udpReceivedMasterIndex c \<Longrightarrow> tcpReceivedData c' = tcpReceivedData c \<Longrightarrow>
   udpSentPackets c' = udpSentPackets c \<Longrightarrow> udpConfirmationPackets c' = udpConfirmationPackets c \<Longrightarrow>
   udpConfirmedMasterIndex c' = udpConfirmedMasterIndex c \<Longrightarrow> tcpNextSendIndex c' = tcpNextSendIndex c \<Longrightarrow>
   remainConfirmationResendCount c' = remainConfirmationResendCount c \<Longrightarrow>
   remainByeByeResendCount c' = remainByeByeResendCount c \<Longrightarrow> ev c' EvUdpCloseWait = ev c EvUdpCloseWait \<Longrightarrow>
   isUdpFinished c' = isUdpFinished c"
  by (simp add: isUdpFinished_def isNoMoreDataWillBeSent_def ev_enabled_def)

lemma unfinished_queue: "udpSentPackets c \<noteq> [] \<or> udpConfirmationPackets c \<noteq> [] \<Longrightarrow> unfinished c"
  by (auto simp: unfinished_def isUdpFinished_def isNoMoreDataWillBeSent_def)

lemma closed_settled: "\<not> udpConnected c \<or> tcpConnected c \<Longrightarrow> settled c \<and> unfinished c"
  by (auto simp: settled_def unfinished_def)

lemma om_put_queued: "om_put k p m \<noteq> []"
  by (cases m) (auto split: if_splits)

lemma tcp_close_settled:
  assumes "recv_ok c" "paced c" "tcpConnected c"
  shows "settled (tcp_close os err c)" "unfinished (tcp_close os err c)"
proof -
  have "settled (tcp_close os err c) \<and> unfinished (tcp_close os err c)"
  proof (cases "udpConnected c")
    case True
    define c2 where "c2 = (ev_off EvTcpWrite (ev_off EvTcpRead (c\<lparr>tcpConnected := False\<rparr>)))\<lparr>tcpSocket := sock_close False (tcpSocket c)\<rparr>"
    define c3 where "c3 = build_udp_packets os True (tcp_discard c2)"
    have u: "udpConnected (tcp_discard c2)" using True by (simp add: c2_def)
    have "recv_ok c2" using assms(1) by (simp add: c2_def recv_ok_def)
    then have n: "tcpNextSendIndex c3 = udpReceivedMasterIndex c3"
      using tcp_discard_ends [of c2] by (simp add: c3_def c2_def)
    have "0 < udpSendPacketSize (par (tcp_discard c2))" using assms(2) by (simp add: c2_def paced_def timing_ok_def)
    then have d: "tcpReceivedData c3 = []"
      using u build_loop_all by (simp add: c3_def build_udp_packets_def Let_def split_def)
    have "tcp_close os err c = (case enqueue_packet (if err then Disconnect else Bye) [] 0 c3 of (p, c4) \<Rightarrow>
        set_event_udp_write os (on_sent_buffer_changed os (get_size p) c4))"
      using assms(3) True by (simp add: tcp_close_def c2_def c3_def Let_def)
    moreover have "udpSentPackets (snd (enqueue_packet ty bs i c3)) \<noteq> []" for ty bs i
      by (simp add: enqueue_packet_def Let_def om_put_queued)
    ultimately have "udpSentPackets (tcp_close os err c) \<noteq> []" "tcpReceivedData (tcp_close os err c) = []"
      "tcpNextSendIndex (tcp_close os err c) = udpReceivedMasterIndex (tcp_close os err c)"
      using n d by (simp_all add: split_def)
    then show ?thesis by (simp add: settled_def unfinished_queue)
  qed (simp add: closed_settled)
  then show "settled (tcp_close os err c)" "unfinished (tcp_close os err c)" by simp_all
qed

lemma write_loop_settled:
  assumes "recv_ok c" "paced c" "tcpConnected c"
  shows "settled (write_loop os n c) \<and> unfinished (write_loop os n c)"
  using assms
proof (induction n arbitrary: c)
  case (Suc n)
  show ?case
  proof (cases "tcpNextSendIndex c < udpReceivedMasterIndex c \<and> om_find (udpReceivedPackets c) (tcpNextSendIndex c) \<noteq> None")
    case True
    then obtain p where p: "om_find (udpReceivedPackets c) (tcpNextSendIndex c) = Some p" "tcpNextSendIndex c < udpReceivedMasterIndex c"
      by blast
    let ?c = "finish_received (tcpNextSendIndex c) p (get_size p) c"
    have c: "recv_ok ?c" "paced ?c" "tcpConnected ?c"
      using finish_received_ok [OF Suc.prems(1) p] Suc.prems by simp_all
    show ?thesis using Suc.IH [OF c] tcp_close_settled [OF c] p Suc.prems(3)
      by (simp add: Let_def closed_settled)
  next
    case False
    then show ?thesis using Suc.prems by (auto simp: Let_def closed_settled)
  qed
qed (simp add: closed_settled)

lemma same_settled:
  assumes "udpConnected c' \<Longrightarrow> udpConnected c" "tcpConnected c \<Longrightarrow> udpConnected c' \<Longrightarrow> tcpConnected c'"
    "udpConnected c' \<Longrightarrow> tcpReceivedData c' = tcpReceivedData c"
    "tcpNextSendIndex c' = tcpNextSendIndex c" "udpReceivedMasterIndex c' = udpReceivedMasterIndex c" "settled c"
  shows "settled c'"
  using assms by (auto simp: settled_def)

lemma build_udp_packets_nothing:
  assumes "tcpReceivedData c = []"
  shows "tcpReceivedData (build_udp_packets os flush c) = []" "udpSentPackets (build_udp_packets os flush c) = udpSentPackets c"
proof -
  have b: "build_loop os flush psize [] x = ([], x)" for psize x by (simp add: build_loop_stop)
  show "tcpReceivedData (build_udp_packets os flush c) = []" "udpSentPackets (build_udp_packets os flush c) = udpSentPackets c"
    using assms by (simp_all add: build_udp_packets_def Let_def b)
qed

lemma udp_write_tcp: "udpConnected (udp_write os t c) \<Longrightarrow> send_inv 0 c \<Longrightarrow> tcpConnected (udp_write os t c) = tcpConnected c"
proof -
  assume u: "udpConnected (udp_write os t c)" and inv: "send_inv 0 c"
  have 1: "tcpConnected (write_confirmation os t p c) = tcpConnected c" if "udpConnected (write_confirmation os t p c)" for p
    using that by (auto simp: write_confirmation_def Let_def split_def split: if_splits)
  have 2: "tcpConnected (write_sent_packet os t k p c) = tcpConnected c" if "\<not> p_confirmed p" for k p
    using that by (simp add: write_sent_packet_def Let_def split_def is_complete_def)
  show ?thesis using u inv
    by (auto simp: udp_write_def 1 2 found_unconfirmed split: list.splits option.splits if_splits)
qed

lemma resend_loop_tcp: "udpConnected (resend_loop os t ks c) \<Longrightarrow> tcpConnected (resend_loop os t ks c) = tcpConnected c"
proof (induction ks arbitrary: c)
  case (Cons k ks)
  then show ?case by (cases "om_find (udpSentPackets c) k") (simp_all add: Let_def split: if_splits)
qed simp

lemma resend_loop_queue: "udpConnected (resend_loop os t ks c) \<Longrightarrow> (udpSentPackets (resend_loop os t ks c) = []) = (udpSentPackets c = [])"
proof (induction ks arbitrary: c)
  case (Cons k ks)
  show ?case
  proof (cases "om_find (udpSentPackets c) k")
    case (Some p)
    then have "udpSentPackets c \<noteq> []" by (auto simp: om_find_def)
    then show ?thesis using Cons Some by (simp add: Let_def om_put_queued split: if_splits)
  qed simp
qed simp

lemma udp_resend_tcp: "udpConnected (udp_resend os c) \<Longrightarrow> tcpConnected (udp_resend os c) = tcpConnected c"
  using resend_loop_tcp [of os _ _ "tick c"] by (simp add: udp_resend_def split: if_splits)

lemma send_datagram_same:
  assumes "send_datagram os p c = (n, c1)"
  shows "isUdpFinished c1 = isUdpFinished c" "tcpConnected c1 = tcpConnected c" "udpConnected c1 = udpConnected c"
proof -
  have "isUdpFinished (snd (send_datagram os p c)) = isUdpFinished c" by (rule finished_frame) simp_all
  then show "isUdpFinished c1 = isUdpFinished c" "tcpConnected c1 = tcpConnected c" "udpConnected c1 = udpConnected c"
    using send_datagram_frame [of os p c] assms by simp_all
qed

lemma resend_loop_confirmations:
  "udpConnected (resend_loop os t ks c) \<Longrightarrow> udpConfirmationPackets (resend_loop os t ks c) = udpConfirmationPackets c"
proof (induction ks arbitrary: c)
  case (Cons k ks)
  then show ?case by (cases "om_find (udpSentPackets c) k") (simp_all add: Let_def split: if_splits)
qed simp

lemma write_confirmation_unfinished:
  assumes "unfinished c"
  shows "unfinished (write_confirmation os t p c)"
proof (rule write_confirmation_shape [of os p c t])
  fix n c1 c3
  assume s: "send_datagram os p c = (n, c1)"
    and r: "write_confirmation os t p c = c1 \<or> write_confirmation os t p c = write_again c1 \<or>
     isUdpFinished c3 \<and> write_confirmation os t p c = udp_close os c3 \<or>
     \<not> isUdpFinished c3 \<and> (write_confirmation os t p c = c3 \<or> write_confirmation os t p c = write_again c3)"
  have w: "unfinished (write_again x) = unfinished x" for x using finished_frame [of "write_again x" x] by (simp add: unfinished_def)
  have "unfinished c1" using assms send_datagram_same [OF s] by (simp add: unfinished_def)
  moreover have "unfinished c3" if "\<not> isUdpFinished c3" using that by (simp add: unfinished_def)
  ultimately show ?thesis using r by (elim disjE conjE) (simp_all add: w closed_settled)
qed

lemma write_sent_packet_unfinished:
  assumes "unfinished c" "\<not> p_confirmed p"
  shows "unfinished (write_sent_packet os t k p c)"
proof (rule write_sent_packet_shape [OF assms(2), of os c t k])
  fix n c1 c4
  assume s: "send_datagram os p c = (n, c1)" and c4: "udpSentPackets c4 \<noteq> []"
    and r: "write_sent_packet os t k p c = c1 \<or> write_sent_packet os t k p c = write_again c1 \<or>
     write_sent_packet os t k p c = ev_in os EvUdpResend (udpResendUs (par c4)) c4 \<or>
     write_sent_packet os t k p c = write_again (ev_in os EvUdpResend (udpResendUs (par c4)) c4)"
  have w: "unfinished (write_again x) = unfinished x" for x using finished_frame [of "write_again x" x] by (simp add: unfinished_def)
  have "unfinished c1" using assms(1) send_datagram_same [OF s] by (simp add: unfinished_def)
  moreover have "unfinished x" if "udpSentPackets x = udpSentPackets c4" for x using c4 that by (simp add: unfinished_queue)
  ultimately show ?thesis using r by (elim disjE) (simp_all add: w)
qed

text \<open>What a handler finds when it is called: its own event has just been switched off.\<close>

lemma tcp_ends:
  assumes "recv_ok c" "paced c" "x = tcp_read os c \<or> x = tcp_write os c \<or> x = tcp_close os b c"
  shows "settled c \<Longrightarrow> settled x" "unfinished c \<Longrightarrow> unfinished x"
proof -
  have "x = c \<or> settled x \<and> unfinished x"
  proof (cases "tcpConnected c")
    case True
    have "settled (tcp_read os c) \<and> unfinished (tcp_read os c)" by (rule closed_settled) (simp add: True)
    moreover have "settled (tcp_write os c) \<and> unfinished (tcp_write os c)"
      using write_loop_settled [OF assms(1,2) True] by (simp only: tcp_write_def True simp_thms if_False)
    ultimately show ?thesis using assms(3) tcp_close_settled [OF assms(1,2) True] by blast
  next
    case False
    then show ?thesis using assms(3) by (auto simp: tcp_read_def tcp_write_def tcp_close_def)
  qed
  then show "settled c \<Longrightarrow> settled x" "unfinished c \<Longrightarrow> unfinished x" by blast+
qed

lemma handle_settled:
  assumes "recv_ok c" "paced c" "send_inv 0 c" "settled c"
  shows "settled (handle os e t c)"
proof -
  have "settled (tcp_read os c)" "settled (tcp_write os c)" "settled (tcp_close os b c)" for b
    using tcp_ends [OF assms(1,2)] assms(4) by blast+
  moreover have "settled (udp_write os t c)" "settled (udp_resend os c)"
    by (rule same_settled [OF udp_write_open _ udp_write_data [OF assms(3)] _ _ assms(4)]; simp add: udp_write_tcp assms(3))
      (rule same_settled [OF udp_resend_open _ udp_resend_data _ _ assms(4)]; simp add: udp_resend_tcp)
  moreover have "settled (build_udp_packets os b c)" for b
    using assms(4) build_udp_packets_nothing(1) [of c os b] by (auto simp: settled_def)
  moreover have "settled (build_confirmations os c)" "settled (build_bye_bye os c)" "settled (conn_delete c)" "settled (udp_close os c)"
    by (rule same_settled [OF _ _ _ _ _ assms(4)]; simp add: conn_delete_def)+
  ultimately show ?thesis using assms(4) by (simp add: handle_def split: conn_event.split)
qed

lemma build_confirmations_queue: "udpConnected c \<Longrightarrow> udpConfirmationPackets (build_confirmations os c) \<noteq> []"
  by (simp add: build_confirmations_def Let_def split_def push_control_def)

lemma build_bye_bye_queue: "udpConnected c \<Longrightarrow> udpConfirmationPackets (build_bye_bye os c) \<noteq> []"
  by (simp add: build_bye_bye_def Let_def push_control_def)

lemma udp_resend_unfinished:
  assumes "unfinished c"
  shows "unfinished (udp_resend os c)"
proof (cases "udpConnected (udp_resend os c)")
  case True
  define x where "x = resend_loop os (a_time (answer_now os c)) (om_keys (udpSentPackets c)) (tick c)"
  have c: "udpConnected c" using True by (rule udp_resend_open)
  then have r: "udp_resend os c = x" by (simp add: udp_resend_def x_def)
  have "(udpSentPackets x = []) = (udpSentPackets c = [])" "tcpConnected x = tcpConnected c" "tcpReceivedData x = tcpReceivedData c"
    using True resend_loop_queue [of os _ _ "tick c"] resend_loop_tcp [of os _ _ "tick c"] resend_loop_data [of os _ _ "tick c"]
    by (simp_all add: r) (simp_all add: x_def)
  moreover have "udpReceivedFinalIndex x = udpReceivedFinalIndex c" "udpReceivedMasterIndex x = udpReceivedMasterIndex c"
    "udpConfirmationPackets x = udpConfirmationPackets c" "udpConfirmedMasterIndex x = udpConfirmedMasterIndex c"
    "tcpNextSendIndex x = tcpNextSendIndex c" "remainConfirmationResendCount x = remainConfirmationResendCount c"
    "remainByeByeResendCount x = remainByeByeResendCount c" "ev x EvUdpCloseWait = ev c EvUdpCloseWait"
    using True resend_loop_confirmations [of os _ _ "tick c"] by (simp_all add: r) (simp_all add: x_def)
  ultimately have "isUdpFinished x = isUdpFinished c"
    using True c by (simp add: r isUdpFinished_def isNoMoreDataWillBeSent_def ev_enabled_def)
  then show ?thesis using assms c \<open>tcpConnected x = tcpConnected c\<close> by (simp add: r unfinished_def)
qed (simp add: closed_settled)

lemma handle_unfinished:
  assumes "recv_ok c" "paced c" "send_inv 0 c" "settled c" "unfinished c \<or> e = EvUdpCloseWait"
  shows "unfinished (handle os e t c)"
proof (cases "e = EvUdpCloseWait")
  case True
  then show ?thesis by (simp add: handle_def unfinished_def)
next
  case False
  then have f: "unfinished c" using assms(5) by simp
  have "unfinished (tcp_read os c)" "unfinished (tcp_write os c)" "unfinished (tcp_close os b c)" for b
    using tcp_ends [OF assms(1,2)] f by blast+
  moreover have "unfinished (udp_write os t c)"
    using f assms(3) write_confirmation_unfinished write_sent_packet_unfinished found_unconfirmed
    by (auto simp: udp_write_def split: list.split option.split)
  moreover have "unfinished (udp_resend os c)" using f by (rule udp_resend_unfinished)
  moreover have "unfinished (build_udp_packets os b c)" for b
  proof -
    have "isUdpFinished (build_udp_packets os b c) = isUdpFinished c" if "udpConnected c" "\<not> tcpConnected c"
      using assms(4) that build_udp_packets_nothing [of c os b] by (intro finished_frame) (simp_all add: settled_def)
    then show ?thesis using f by (simp add: unfinished_def)
  qed
  moreover have "unfinished (build_confirmations os c)" "unfinished (build_bye_bye os c)"
    using f unfinished_queue build_confirmations_queue [of c os] build_bye_bye_queue [of c os]
    by (cases "udpConnected c"; auto simp: closed_settled)+
  moreover have "unfinished (conn_delete c)" "unfinished (udp_close os c)"
    using f by (simp_all add: conn_delete_def unfinished_def isUdpFinished_def isNoMoreDataWillBeSent_def ev_enabled_def)
  ultimately show ?thesis using False by (simp add: handle_def split: conn_event.split)
qed

lemma store_received_settled:
  assumes "recv_ok c" "om_find (udpReceivedPackets c) (get_index p) = None" "udpReceivedMasterIndex c \<le> get_index p" "fresh_flags p"
    "settled c"
  shows "settled (store_received os p c)"
proof -
  define c1 where "c1 = c\<lparr>udpReceivedPackets := om_put (get_index p) p (udpReceivedPackets c),
      udpReceiveBufferSize := udpReceiveBufferSize c + get_size p\<rparr>"
  define c2 where "c2 = advance_master (length (udpReceivedPackets c1)) c1"
  note parts = store_received_parts [OF assms(1-4), folded c1_def, folded c2_def]
  have "tcpNextSendIndex (store_received os p c) = tcpNextSendIndex (tcp_discard c2)"
    by (simp add: store_received_def Let_def c1_def [symmetric] c2_def [symmetric])
  then show ?thesis using assms(5) tcp_discard_ends [OF parts(2)] parts(4)
    by (simp add: settled_def) (simp add: c2_def c1_def)
qed

lemma udp_read_settled:
  assumes "recv_ok c" "fresh_flags p" "settled c"
  shows "settled (udp_read os p c)"
proof -
  have "settled (read_confirmation os p c)" "settled (read_bye_bye os c)" "settled (read_extra p c)" "settled (c\<lparr>fault := True\<rparr>)"
    by (rule same_settled [OF _ _ _ _ _ assms(3)]; simp add: read_extra_def)+
  moreover have "settled (ev_in os EvBuildConfirmations d (x\<lparr>remainConfirmationResendCount := n\<rparr>)) = settled x" for x d n
    by (simp add: settled_def)
  ultimately have "settled (udp_dispatch os p c)"
    using store_received_settled [OF assms(1) _ _ assms(2,3), of os] by (simp add: udp_dispatch_def Let_def accepts_def)
  then show ?thesis using assms(3) closed_settled [of "udp_close os (udp_dispatch os p c)"] by (simp add: udp_read_def Let_def)
qed

lemma udp_read_unfinished: "unfinished c \<Longrightarrow> unfinished (udp_read os p c)"
  using closed_settled [of "udp_close os (udp_dispatch os p c)"] by (simp add: udp_read_def Let_def unfinished_def)

section \<open>Every reachable state\<close>

definition awake :: "conn \<Rightarrow> bool" where
  "awake c \<longleftrightarrow> write_due c \<and> resend_due c \<and> confirm_due c \<and> bye_due c \<and> pack_due c \<and> tcp_due c \<and> ends_due c \<and>
     settled c \<and> unfinished c"

definition timed_inv :: "conn \<Rightarrow> bool" where
  "timed_inv c \<longleftrightarrow> life_inv c \<and> paced c \<and> awake c"

definition timed_start :: "conn \<Rightarrow> bool" where
  "timed_start c \<longleftrightarrow> life_start c \<and> timing_ok (par c) \<and> 0 \<le> udpSendIntervalUs c"

lemma switched_off:
  assumes "awake c"
  shows "write_due (ev_off e c) \<or> e = EvUdpWrite" "resend_due (ev_off e c) \<or> e = EvUdpResend"
    "confirm_due (ev_off e c) \<or> e = EvBuildConfirmations" "bye_due (ev_off e c) \<or> e = EvBuildByeBye"
    "pack_due (ev_off e c) \<or> e = EvBuildUdpPackets" "tcp_due (ev_off e c) \<or> e = EvTcpWrite"
    "settled (ev_off e c)" "unfinished (ev_off e c) \<or> e = EvUdpCloseWait"
proof -
  have f: "write_due c" "resend_due c" "confirm_due c" "bye_due c" "pack_due c" "tcp_due c" "settled c" "unfinished c"
    using assms by (simp_all add: awake_def)
  have t: "e \<noteq> e' \<Longrightarrow> ev (ev_off e c) e' = ev c e'" for e' by (simp add: not_sym)
  show "write_due (ev_off e c) \<or> e = EvUdpWrite" using f(1) t [of EvUdpWrite] by (auto simp: write_due_def ev_enabled_def)
  show "resend_due (ev_off e c) \<or> e = EvUdpResend" using f(2) t [of EvUdpResend] by (auto simp: resend_due_def ev_enabled_def awaits_def)
  show "confirm_due (ev_off e c) \<or> e = EvBuildConfirmations" using f(3) t [of EvBuildConfirmations] by (auto simp: confirm_due_def ev_enabled_def)
  show "bye_due (ev_off e c) \<or> e = EvBuildByeBye" using f(4) t [of EvBuildByeBye] by (auto simp: bye_due_def ev_enabled_def)
  show "pack_due (ev_off e c) \<or> e = EvBuildUdpPackets" using f(5) t [of EvBuildUdpPackets] by (auto simp: pack_due_def ev_enabled_def)
  show "tcp_due (ev_off e c) \<or> e = EvTcpWrite" using f(6) t [of EvTcpWrite] by (auto simp: tcp_due_def ev_enabled_def)
  show "settled (ev_off e c)" using f(7) by (simp add: settled_def)
  show "unfinished (ev_off e c) \<or> e = EvUdpCloseWait"
    using f(8) t [of EvUdpCloseWait] finished_frame [of "ev_off e c" c] by (cases "e = EvUdpCloseWait") (simp_all add: unfinished_def)
qed

lemma raise_awake:
  assumes "one_end c" "paced c" "awake c" "clock_ok os" "ev_enabled e c"
  shows "paced (raise_conn_event os e c)" "awake (raise_conn_event os e c)"
proof -
  let ?c = "ev_off e c"
  have ok: "recv_ok ?c" "send_inv 0 ?c" using assms(1) one_end_frame(1) [of e c] by (simp_all add: one_end_def)
  have p: "paced ?c" using assms(2) by simp
  have t: "0 \<le> ev c e" using assms(5) by (simp add: ev_enabled_def)
  note off = switched_off [OF assms(3), of e]
  show "paced (raise_conn_event os e c)" unfolding raise_conn_event_def by (rule handle_paced [OF p]) (use t in blast)
  have "ends_due (raise_conn_event os e c)" using assms(3) by (simp add: raise_ends_due awake_def)
  moreover have "write_due (raise_conn_event os e c)"
    unfolding raise_conn_event_def by (rule handle_write_due [OF assms(4) p ok(2) off(1)]) (use t in blast)
  moreover have "resend_due (raise_conn_event os e c)" "confirm_due (raise_conn_event os e c)" "bye_due (raise_conn_event os e c)"
    "pack_due (raise_conn_event os e c)" "tcp_due (raise_conn_event os e c)" "settled (raise_conn_event os e c)"
    "unfinished (raise_conn_event os e c)"
    unfolding raise_conn_event_def
    by (rule handle_resend_due [OF assms(4) p ok(2) off(2)] handle_confirm_due [OF assms(4) p off(3) ok(2)]
        handle_bye_due [OF assms(4) p off(4)] handle_pack_due [OF assms(4) p off(5) ok(2)]
        handle_tcp_due [OF assms(4) ok(1) off(6) ok(2)] handle_settled [OF ok(1) p ok(2) off(7)]
        handle_unfinished [OF ok(1) p ok(2) off(7,8)])+
  ultimately show "awake (raise_conn_event os e c)" by (simp add: awake_def)
qed

lemma read_awake:
  assumes "one_end c" "paced c" "awake c" "clock_ok os" "fresh_flags p"
  shows "awake (udp_read os p c)"
  using assms unfolding awake_def one_end_def
  by (intro conjI) (elim conjE; intro udp_read_write_due udp_read_resend_due udp_read_confirm_due udp_read_bye_due udp_read_pack_due
      udp_read_tcp_due udp_read_ends_due udp_read_settled udp_read_unfinished; assumption)+

lemma awake_frame:
  assumes "udpConnected c' = udpConnected c" "tcpConnected c' = tcpConnected c" "udpReceivedFinalIndex c' = udpReceivedFinalIndex c"
    "udpReceivedMasterIndex c' = udpReceivedMasterIndex c" "tcpReceivedData c' = tcpReceivedData c"
    "udpSentPackets c' = udpSentPackets c" "udpConfirmationPackets c' = udpConfirmationPackets c"
    "udpConfirmedMasterIndex c' = udpConfirmedMasterIndex c" "tcpNextSendIndex c' = tcpNextSendIndex c"
    "remainConfirmationResendCount c' = remainConfirmationResendCount c" "remainByeByeResendCount c' = remainByeByeResendCount c"
    "udpPacketsToSendCount c' = udpPacketsToSendCount c" "ev c' = ev c"
  shows "awake c' = awake c"
  using assms finished_frame [of c' c]
  by (simp add: awake_def write_due_def resend_due_def confirm_due_def bye_due_def pack_due_def tcp_due_def ends_due_def settled_def
      unfinished_def ev_enabled_def awaits_def)

lemma timed_step:
  assumes inv: "timed_inv c" and step: "life_step os c c'"
  shows "timed_inv c'"
proof -
  have l: "life_inv c'" using inv life_inv_step [OF _ step] by (simp add: timed_inv_def)
  have o: "one_end c" "paced c" "awake c" using inv by (simp_all add: timed_inv_def life_inv_def)
  have "paced c' \<and> awake c'"
    using step
  proof (cases rule: life_step_cases)
    case (raised e)
    then show ?thesis using raise_awake [OF o] by simp
  next
    case (polls b)
    have "awake c' = awake c" unfolding polls by (rule awake_frame) simp_all
    then show ?thesis using o(2,3) polls by simp
  next
    case (around n s x1 x2 x3 x4 x5)
    have "awake c' = awake c" unfolding around by (rule awake_frame) simp_all
    then show ?thesis using o(2,3) around by (simp add: paced_def)
  next
    case (arrives d)
    then show ?thesis using read_awake [OF o] udp_read_paced [OF o(2)] fresh_datagram by simp
  qed
  then show ?thesis using l by (simp add: timed_inv_def)
qed

lemma timed_new:
  assumes "clock_ok os" "fresh_host h" "timing_ok ps" "0 \<le> iv"
  shows "timed_inv (conn_new os ps iv h)"
proof -
  let ?c = "conn_new os ps iv h"
  have s: "udpSentPackets ?c \<noteq> []" "tcpConnected ?c" "udpConfirmationPackets ?c = []" "remainConfirmationResendCount ?c = 0"
    "remainByeByeResendCount ?c = 0" "tcpReceivedData ?c = []" "tcpNextSendIndex ?c = udpReceivedMasterIndex ?c"
    by (simp_all add: conn_new_def Let_def split_def) (simp add: enqueue_packet_def Let_def)
  have "ev_enabled EvUdpWrite ?c" "ev_enabled EvTcpClose ?c" "ev_enabled EvUdpClose ?c"
    using assms(1) ev_in_enabled [OF assms(1), of 0]
    by (simp_all add: conn_new_def Let_def split_def ev_enabled_def)
  moreover have "\<not> awaits ?c"
    by (simp add: awaits_def conn_new_def Let_def split_def) (simp add: enqueue_packet_def Let_def sent_slot_def encode_flags new_packet_def)
  ultimately have "awake ?c" using s
    by (simp add: awake_def write_due_def resend_due_def confirm_due_def bye_due_def pack_due_def tcp_due_def ends_due_def closed_settled)
  moreover have "paced ?c" using assms(3,4) by (simp add: paced_def conn_new_def Let_def split_def)
  ultimately show ?thesis using life_inv_new [OF assms(1,2)] by (simp add: timed_inv_def)
qed

lemma conn_new_parts: "par (conn_new os ps iv h) = ps" "udpSendIntervalUs (conn_new os ps iv h) = iv"
  by (simp_all add: conn_new_def Let_def split_def)

interpretation timed: invariant_system timed_start "life_step os" timed_inv for os
  by unfold_locales (auto simp: timed_start_def life_start_def conn_new_parts timed_new timed_step)



lemma sample_timed: "timed_start end0" "(life_step sample_os)\<^sup>*\<^sup>* end0 peer1"
proof -
  have "par end0 = sample_params" "udpSendIntervalUs end0 = 1000" by (simp_all add: end0_def conn_new_parts)
  then show "timed_start end0" using sample_life(1) by (simp add: timed_start_def timing_ok_def sample_params_def)
qed (rule sample_life(2))



end
