(* ===== verification/Stranded.thy ===== *)
theory Stranded
  imports Liveness
begin

text \<open>
  The exception of \<open>closing_goes_on\<close> is real: a ByeBye that arrives before the confirmation of the last packet
  was built switches that confirmation off for good, and a connection left like this is never closed.
\<close>

section \<open>A connection left behind\<close>

definition stranded :: "conn \<Rightarrow> bool" where
  "stranded c \<longleftrightarrow> udpConnected c \<and> \<not> tcpConnected c \<and> \<not> deleted c \<and> tcpReceivedData c = [] \<and> udpSentPackets c = [] \<and>
     udpConfirmationPackets c = [] \<and> udpReceivedFinalIndex c = udpReceivedMasterIndex c \<and>
     udpConfirmedMasterIndex c < udpReceivedMasterIndex c \<and>
     \<not> ev_enabled EvBuildConfirmations c \<and> \<not> ev_enabled EvBuildByeBye c \<and> \<not> ev_enabled EvUdpCloseWait c \<and> \<not> ev_enabled EvClose c"

lemma stranded_frame:
  assumes "udpConnected c' = udpConnected c" "tcpConnected c' = tcpConnected c" "deleted c' = deleted c"
    "tcpReceivedData c' = tcpReceivedData c" "udpSentPackets c' = udpSentPackets c"
    "udpConfirmationPackets c' = udpConfirmationPackets c" "udpReceivedFinalIndex c' = udpReceivedFinalIndex c"
    "udpReceivedMasterIndex c' = udpReceivedMasterIndex c" "udpConfirmedMasterIndex c' = udpConfirmedMasterIndex c"
    "\<And>e. e \<in> {EvBuildConfirmations, EvBuildByeBye, EvUdpCloseWait, EvClose} \<Longrightarrow> ev c' e = ev c e"
  shows "stranded c' = stranded c"
  using assms(1-9) assms(10) [of EvBuildConfirmations] assms(10) [of EvBuildByeBye] assms(10) [of EvUdpCloseWait] assms(10) [of EvClose]
  by (simp add: stranded_def ev_enabled_def)

lemma stranded_unfinished: "stranded c \<Longrightarrow> \<not> isUdpFinished c"
  by (simp add: stranded_def isUdpFinished_def)

lemma stranded_raise:
  assumes s: "stranded c" and e: "ev_enabled e c" "e \<noteq> EvUdpClose"
  shows "stranded (raise_conn_event os e c)"
proof -
  let ?c = "ev_off e c"
  have ne: "e \<notin> {EvBuildConfirmations, EvBuildByeBye, EvUdpCloseWait, EvClose}" using s e(1) by (auto simp: stranded_def)
  have "stranded ?c = stranded c" by (rule stranded_frame) (use ne in \<open>simp_all, fastforce simp: ev_off_def\<close>)
  then have off: "stranded ?c" using s by simp
  have t: "stranded (tick ?c)" using off stranded_frame [of "tick ?c" ?c] by simp
  have b: "build_loop os f psize [] x = ([], x)" for f psize x by (simp add: build_loop_stop)
  have p: "stranded (build_udp_packets os True ?c)"
  proof -
    have "tcpReceivedData ?c = []" "udpSentPackets (build_udp_packets os True ?c) = udpSentPackets ?c"
      using off build_udp_packets_nothing(2) [of ?c os True] by (simp_all add: stranded_def)
    then have "stranded (build_udp_packets os True ?c) = stranded ?c"
      using build_udp_packets_nothing(1) [of ?c os True] by (intro stranded_frame) auto
    then show ?thesis using off by simp
  qed
  have "e = EvTcpRead \<or> e = EvTcpWrite \<or> e = EvTcpClose \<or> e = EvUdpWrite \<or> e = EvBuildUdpPackets \<or> e = EvUdpResend"
    using ne e(2) by (cases e) auto
  then show ?thesis using off t p
    by (elim disjE) (simp_all add: raise_conn_event_def handle_def stranded_def tcp_read_def tcp_write_def tcp_close_def udp_write_def
        udp_resend_def om_keys_def)
qed

lemma stranded_read:
  assumes s: "stranded c"
  shows "stranded (udp_read os p c)"
proof -
  have "stranded (udp_dispatch os p c)"
  proof (cases "get_type p = Confirmation")
    case True
    have f: "fold (confirm_packet os) ks c = c" for ks
      using s by (induction ks) (simp_all add: stranded_def confirm_packet_def om_find_def)
    have "isNoMoreDataWillBeSent c" using s by (simp add: stranded_def isNoMoreDataWillBeSent_def)
    then have "stranded (read_confirmation os p c) = stranded c"
      using s by (intro stranded_frame) (auto simp: read_confirmation_def Let_def f stranded_def)
    then show ?thesis using True s by (simp add: udp_dispatch_def)
  next
    case False
    have "drop_confirmations os x = x" if "udpConfirmationPackets x = []" for x using that by (simp add: drop_confirmations_def)
    then have "stranded (read_bye_bye os c)"
      using s by (simp add: read_bye_bye_def stranded_def ev_enabled_def)
    moreover have "stranded (read_extra p c)" using s stranded_frame [of "read_extra p c" c] by (simp add: read_extra_def)
    moreover have "\<not> accepts p c" "\<not> (udpReceivedMasterIndex c \<le> get_index p \<and> get_index p < udpReceivedFinalIndex c)"
      using s by (auto simp: accepts_def stranded_def)
    ultimately show ?thesis using False by (auto simp: udp_dispatch_def)
  qed
  then show ?thesis using s stranded_unfinished by (simp add: udp_read_def stranded_def Let_def)
qed

text \<open>All steps but the one that closes the udp socket of the whole server.\<close>

definition ordinary_step :: "os \<Rightarrow> conn \<Rightarrow> conn \<Rightarrow> bool" where
  "ordinary_step os c c' \<longleftrightarrow> life_step os c c' \<and> c' \<noteq> raise_conn_event os EvUdpClose c"

lemma stranded_step:
  assumes "ordinary_step os c c'" "stranded c"
  shows "stranded c'"
proof -
  have "life_step os c c'" and n: "c' \<noteq> raise_conn_event os EvUdpClose c" using assms(1) by (simp_all add: ordinary_step_def)
  then show ?thesis
  proof (cases rule: life_step_cases)
    case (raised e)
    then show ?thesis using n stranded_raise [OF assms(2)] by blast
  next
    case (polls b)
    then show ?thesis using assms(2) stranded_frame [of c' c] by simp
  next
    case (around m s x1 x2 x3 x4 x5)
    then show ?thesis using assms(2) stranded_frame [of c' c] by simp
  next
    case (arrives d)
    then show ?thesis using assms(2) stranded_read by simp
  qed
qed

text \<open>C13: a stranded connection - tcp closed, nothing queued, less confirmed than received, and no timer running - stays
  as it is, whatever datagrams arrive and whatever events are raised, until the udp socket of the server itself
  is closed: the server never deletes it.\<close>

theorem stranded_forever:
  assumes "stranded c" "(ordinary_step os)\<^sup>*\<^sup>* c c'"
  shows "stranded c' \<and> \<not> deleted c' \<and> \<not> ev_enabled EvClose c'"
proof -
  have "stranded c'" using assms(2,1) by (induction rule: rtranclp_induct) (auto intro: stranded_step)
  then show ?thesis by (simp add: stranded_def)
qed

section \<open>A run that strands a connection\<close>

definition peer_packet :: "ptype \<Rightarrow> int \<Rightarrow> packet" where
  "peer_packet t i = new_packet\<lparr>p_data := frame t i []\<rparr>"

lemma datagram_reads:
  assumes "0 \<le> i" "i < 2 ^ 31" "t \<in> {Hello, Bye, ByeBye, Confirmation}"
  shows "get_type (peer_packet t i) = t" "get_index (peer_packet t i) = i" "check_crc32 (peer_packet t i)" "get_size (peer_packet t i) = 0"
    "fresh_flags (peer_packet t i)"
  using frame_type [of "peer_packet t i" t i "[]"] frame_index [of "peer_packet t i" t i "[]"] frame_crc [of "peer_packet t i" t i "[]"] assms
    get_size_frame [of "peer_packet t i" t i "[]"]
  by (auto simp: peer_packet_def fresh_flags_def new_packet_def)

lemma arrive:
  assumes "\<not> deleted c" "0 \<le> i" "i < 2 ^ 31" "clock_ok os" "t \<in> {Hello, Bye, ByeBye, Confirmation}"
  shows "life_step os c (udp_read os (peer_packet t i) c)"
  using life_step.arrives [of c "frame t i []" os] datagram_reads(3) [OF assms(2,3,5)] assms by (simp add: peer_packet_def)

lemma advance_one:
  assumes "om_find (udpReceivedPackets c) (udpReceivedMasterIndex c) = Some p" "udpReceivedMasterIndex c < udpReceivedFinalIndex c"
    "om_find (udpReceivedPackets c) (udpReceivedMasterIndex c + 1) = None"
  shows "advance_master (Suc n) c = c\<lparr>udpReceivedMasterIndex := udpReceivedMasterIndex c + 1,
      udpReceivedFinalIndex := (if get_type p = Bye \<or> get_type p = Disconnect then udpReceivedMasterIndex c + 1 else udpReceivedFinalIndex c)\<rparr>"
proof -
  let ?c = "c\<lparr>udpReceivedMasterIndex := udpReceivedMasterIndex c + 1,
      udpReceivedFinalIndex := (if get_type p = Bye \<or> get_type p = Disconnect then udpReceivedMasterIndex c + 1 else udpReceivedFinalIndex c)\<rparr>"
  have "advance_master n ?c = ?c" using assms(3) by (cases n) (simp_all add: Let_def)
  then show ?thesis using assms(1,2) by (simp add: Let_def)
qed

text \<open>The next packet in order arrives: it is stored, and confirmed and written to tcp later.\<close>

lemma arrives_next:
  fixes c :: conn and os :: os and p :: packet
  assumes c: "udpConnected c" "tcpConnected c" "udpSentPackets c \<noteq> []" "om_ok (udpReceivedPackets c)"
    and m: "get_index p = udpReceivedMasterIndex c" "udpReceivedMasterIndex c < udpReceivedFinalIndex c"
      "om_find (udpReceivedPackets c) (udpReceivedMasterIndex c) = None" "om_find (udpReceivedPackets c) (udpReceivedMasterIndex c + 1) = None"
    and p: "get_type p = Hello \<and> get_index p = 0 \<or> get_type p = Bye" "udpSendPacketSize (par c) \<noteq> 0"
      "get_index p - tcpNextSendIndex c \<le> window (par c)"
  defines "r \<equiv> udp_read os p c"
  shows "udpConnected r" "tcpConnected r" "udpSentPackets r = udpSentPackets c" "udpReceivedPackets r = om_put (get_index p) p (udpReceivedPackets c)"
    "udpReceivedMasterIndex r = udpReceivedMasterIndex c + 1" "tcpNextSendIndex r = tcpNextSendIndex c"
    "udpReceivedFinalIndex r = (if get_type p = Bye then udpReceivedMasterIndex c + 1 else udpReceivedFinalIndex c)"
    "udpConfirmedMasterIndex r = udpConfirmedMasterIndex c" "udpSocket r = udpSocket c" "par r = par c" "deleted r = deleted c"
    "tcpReceivedData r = tcpReceivedData c" "udpConfirmationPackets r = udpConfirmationPackets c"
    "udpNextSendIndex r = udpNextSendIndex c"
proof -
  define c1 where "c1 = c\<lparr>udpReceivedPackets := om_put (get_index p) p (udpReceivedPackets c),
      udpReceiveBufferSize := udpReceiveBufferSize c + get_size p\<rparr>"
  define c2 where "c2 = advance_master (length (udpReceivedPackets c1)) c1"
  have l: "length (udpReceivedPackets c1) = Suc (length (udpReceivedPackets c1) - 1)"
    using om_put_queued [of "get_index p" p "udpReceivedPackets c"] by (simp add: c1_def)
  have "c2 = c1\<lparr>udpReceivedMasterIndex := udpReceivedMasterIndex c1 + 1,
      udpReceivedFinalIndex := (if get_type p = Bye \<or> get_type p = Disconnect then udpReceivedMasterIndex c1 + 1 else udpReceivedFinalIndex c1)\<rparr>"
    unfolding c2_def by (subst l, rule advance_one) (use c(4) m in \<open>simp_all add: c1_def\<close>)
  then have c2: "udpReceivedMasterIndex c2 = udpReceivedMasterIndex c + 1" "udpReceivedPackets c2 = om_put (get_index p) p (udpReceivedPackets c)"
    "udpReceivedFinalIndex c2 = (if get_type p = Bye then udpReceivedMasterIndex c + 1 else udpReceivedFinalIndex c)"
    "tcpNextSendIndex c2 = tcpNextSendIndex c" "tcpConnected c2"
    using p(1) c(2) by (auto simp: c1_def)
  have "tcpConnected c1" using c(2) by (simp add: c1_def)
  define d where "d = store_received os p c"
  have d: "udpReceivedMasterIndex d = udpReceivedMasterIndex c + 1" "udpReceivedPackets d = om_put (get_index p) p (udpReceivedPackets c)"
    "udpReceivedFinalIndex d = (if get_type p = Bye then udpReceivedMasterIndex c + 1 else udpReceivedFinalIndex c)"
    "tcpNextSendIndex d = tcpNextSendIndex c"
    using c2 \<open>tcpConnected c1\<close> by (simp_all add: d_def store_received_def Let_def c1_def [symmetric] c2_def [symmetric] tcp_discard_def)
  have "accepts p c" using m(1,2) p by (auto simp: accepts_def window_def)
  moreover have "get_type p \<noteq> Confirmation" using p(1) by auto
  ultimately have e: "udp_dispatch os p c = ev_in os EvBuildConfirmations (buildConfirmationsUs (par d))
      (d\<lparr>remainConfirmationResendCount := confirmationResendCount (par d)\<rparr>)"
    using m p(2) by (simp add: udp_dispatch_def d_def Let_def)
  have "\<not> isUdpFinished (udp_dispatch os p c)"
    using c(1,3) by (simp add: e isUdpFinished_def isNoMoreDataWillBeSent_def) (simp add: d_def)
  then have r: "r = udp_dispatch os p c" using c(1) by (simp add: r_def udp_read_def Let_def)
  show "udpConnected r" "tcpConnected r" "udpSentPackets r = udpSentPackets c" "udpReceivedPackets r = om_put (get_index p) p (udpReceivedPackets c)"
    "udpReceivedMasterIndex r = udpReceivedMasterIndex c + 1" "tcpNextSendIndex r = tcpNextSendIndex c"
    "udpReceivedFinalIndex r = (if get_type p = Bye then udpReceivedMasterIndex c + 1 else udpReceivedFinalIndex c)"
    "udpConfirmedMasterIndex r = udpConfirmedMasterIndex c" "udpSocket r = udpSocket c" "par r = par c" "deleted r = deleted c"
    "tcpReceivedData r = tcpReceivedData c" "udpConfirmationPackets r = udpConfirmationPackets c"
    "udpNextSendIndex r = udpNextSendIndex c"
    using d by (simp_all add: r e) (simp_all add: d_def c(1,2))
qed

text \<open>Hello and Bye have arrived; nothing has been confirmed.\<close>

definition strand1 :: conn where
  "strand1 = udp_read sample_os (peer_packet Bye 1) peer1"

lemma peer1_next: "peer1 = udp_read sample_os (peer_packet Hello 0) end0"
  by (simp add: peer1_def hello_def peer_packet_def)

lemma peer1_parts:
  "udpConnected peer1" "tcpConnected peer1" "udpSentPackets peer1 \<noteq> []" "udpReceivedPackets peer1 = [(0, peer_packet Hello 0)]"
  "udpReceivedMasterIndex peer1 = 1" "tcpNextSendIndex peer1 = 0" "udpReceivedFinalIndex peer1 = int_max"
  "udpConfirmedMasterIndex peer1 = 0" "udpSocket peer1 = udpSocket end0" "par peer1 = sample_params" "\<not> deleted peer1"
  "tcpReceivedData peer1 = []" "udpConfirmationPackets peer1 = []" "udpNextSendIndex peer1 = 1"
proof -
  have "udpConfirmedMasterIndex end0 = 0" "tcpReceivedData end0 = []"
    by (simp_all add: end0_def conn_new_def Let_def split_def)
  then show "udpConnected peer1" "tcpConnected peer1" "udpSentPackets peer1 \<noteq> []" "udpReceivedPackets peer1 = [(0, peer_packet Hello 0)]"
    "udpReceivedMasterIndex peer1 = 1" "tcpNextSendIndex peer1 = 0" "udpReceivedFinalIndex peer1 = int_max"
    "udpConfirmedMasterIndex peer1 = 0" "udpSocket peer1 = udpSocket end0" "par peer1 = sample_params" "\<not> deleted peer1"
    "tcpReceivedData peer1 = []" "udpConfirmationPackets peer1 = []" "udpNextSendIndex peer1 = 1"
    using arrives_next [of end0 "peer_packet Hello 0" sample_os] unfolding peer1_next [symmetric]
    by (simp_all add: datagram_reads end0_state om_find_def om_ok_def int_max_def sample_params_def window_def)
qed

lemma strand1_parts:
  "udpConnected strand1" "tcpConnected strand1" "udpSentPackets strand1 \<noteq> []"
  "udpReceivedPackets strand1 = [(0, peer_packet Hello 0), (1, peer_packet Bye 1)]"
  "udpReceivedMasterIndex strand1 = 2" "tcpNextSendIndex strand1 = 0" "udpReceivedFinalIndex strand1 = 2"
  "udpConfirmedMasterIndex strand1 = 0" "udpSocket strand1 = udpSocket end0" "par strand1 = sample_params" "\<not> deleted strand1"
  "tcpReceivedData strand1 = []" "udpConfirmationPackets strand1 = []" "udpNextSendIndex strand1 = 1"
  using arrives_next [of peer1 "peer_packet Bye 1" sample_os] unfolding strand1_def [symmetric]
  by (simp_all add: datagram_reads peer1_parts om_find_def om_ok_def int_max_def sample_params_def window_def)

text \<open>Both are written to tcp, which closes it.\<close>

definition strand2 :: conn where
  "strand2 = raise_conn_event sample_os EvTcpWrite strand1"

lemma strand2_parts:
  "udpConnected strand2" "\<not> tcpConnected strand2" "udpReceivedMasterIndex strand2 = 2" "udpReceivedFinalIndex strand2 = 2"
  "udpConfirmedMasterIndex strand2 = 0" "udpSocket strand2 = udpSocket end0" "par strand2 = sample_params" "\<not> deleted strand2"
  "udpConfirmationPackets strand2 = []" "udpNextSendIndex strand2 = 2" "udpSentPackets strand2 \<noteq> []"
proof -
  define c where "c = ev_off EvTcpWrite strand1"
  define c1 where "c1 = finish_received 0 (peer_packet Hello 0) 0 c"
  define c2 where "c2 = finish_received 1 (peer_packet Bye 1) 0 c1"
  have u: "p_sent (peer_packet t i) = False" "p_confirmed (peer_packet t i) = False" for t i by (simp_all add: peer_packet_def new_packet_def)
  have c: "tcpConnected c" "udpReceivedMasterIndex c = 2" "tcpNextSendIndex c = 0"
    "om_find (udpReceivedPackets c) 0 = Some (peer_packet Hello 0)" by (simp_all add: c_def strand1_parts om_find_def)
  have c1: "udpReceivedMasterIndex c1 = 2" "tcpNextSendIndex c1 = 1" "om_find (udpReceivedPackets c1) 1 = Some (peer_packet Bye 1)"
    by (simp_all add: c1_def c_def strand1_parts) (simp add: finish_received_def Let_def strand1_parts is_complete_def u om_find_def)
  have "write_turns c = 2" by (simp add: write_turns_def c)
  then have st: "strand2 = tcp_close sample_os False c2"
    using c c1 by (simp add: strand2_def raise_conn_event_def handle_def c_def [symmetric] tcp_write_def numeral_2_eq_2 Let_def datagram_reads
        c1_def [symmetric] c2_def [symmetric])
  have d: "udpConnected c2" "tcpConnected c2" "tcpReceivedData c2 = []" "udpReceivedMasterIndex c2 = 2"
    "udpReceivedFinalIndex c2 = 2" "udpConfirmedMasterIndex c2 = 0" "udpSocket c2 = udpSocket end0" "par c2 = sample_params"
    "\<not> deleted c2" "udpConfirmationPackets c2 = []" "udpNextSendIndex c2 = 1"
    by (simp_all add: c2_def c1_def c_def strand1_parts)
  have b: "build_loop os f psize [] x = ([], x)" for os f psize x by (simp add: build_loop_stop)
  have "udpNextSendIndex (build_udp_packets os True x) = udpNextSendIndex x" if "tcpReceivedData x = []" for os x
    using that by (simp add: build_udp_packets_def Let_def b)
  then show "udpNextSendIndex strand2 = 2" using d by (simp add: st tcp_close_def Let_def split_def enqueue_packet_def)
  show "udpSentPackets strand2 \<noteq> []" using d(1,2)
    by (simp add: st tcp_close_def Let_def split_def) (simp add: enqueue_packet_def Let_def om_put_queued)
  show "udpConnected strand2" "\<not> tcpConnected strand2" "udpReceivedMasterIndex strand2 = 2" "udpReceivedFinalIndex strand2 = 2"
    "udpConfirmedMasterIndex strand2 = 0" "udpSocket strand2 = udpSocket end0" "par strand2 = sample_params" "\<not> deleted strand2"
    "udpConfirmationPackets strand2 = []"
    by (simp_all add: st d tcp_close_state)
qed

text \<open>The early ByeBye takes the pending confirmation away.\<close>

definition strand3 :: conn where
  "strand3 = udp_read sample_os (peer_packet ByeBye 2) strand2"

lemma strand3_parts:
  "udpConnected strand3" "\<not> tcpConnected strand3" "udpReceivedMasterIndex strand3 = 2" "udpReceivedFinalIndex strand3 = 2"
  "udpConfirmedMasterIndex strand3 = 0" "udpSocket strand3 = udpSocket end0" "par strand3 = sample_params" "\<not> deleted strand3"
  "udpConfirmationPackets strand3 = []" "udpNextSendIndex strand3 = 2" "udpSentPackets strand3 \<noteq> []"
  "remainConfirmationResendCount strand3 = 0" "\<not> ev_enabled EvBuildConfirmations strand3"
proof -
  have "\<not> accepts (peer_packet ByeBye 2) strand2" by (simp add: accepts_def datagram_reads)
  then have d: "udp_dispatch sample_os (peer_packet ByeBye 2) strand2 = read_bye_bye sample_os strand2"
    by (simp add: udp_dispatch_def datagram_reads strand2_parts)
  have "drop_confirmations sample_os x = x" if "udpConfirmationPackets x = []" for x using that by (simp add: drop_confirmations_def)
  then have b: "udpConfirmationPackets (read_bye_bye sample_os strand2) = []" "remainConfirmationResendCount (read_bye_bye sample_os strand2) = 0"
    "\<not> ev_enabled EvBuildConfirmations (read_bye_bye sample_os strand2)"
    by (simp_all add: read_bye_bye_def Let_def strand2_parts ev_enabled_def)
  have "\<not> isUdpFinished (read_bye_bye sample_os strand2)"
    by (simp add: isUdpFinished_def strand2_parts)
  then have r: "strand3 = read_bye_bye sample_os strand2" by (simp add: strand3_def udp_read_def strand2_parts d Let_def)
  show "udpConnected strand3" "\<not> tcpConnected strand3" "udpReceivedMasterIndex strand3 = 2" "udpReceivedFinalIndex strand3 = 2"
    "udpConfirmedMasterIndex strand3 = 0" "udpSocket strand3 = udpSocket end0" "par strand3 = sample_params" "\<not> deleted strand3"
    "udpConfirmationPackets strand3 = []" "udpNextSendIndex strand3 = 2" "udpSentPackets strand3 \<noteq> []"
    "remainConfirmationResendCount strand3 = 0" "\<not> ev_enabled EvBuildConfirmations strand3"
    by (simp_all add: r b strand2_parts)
qed

text \<open>Then the peer confirms the two packets of this end, which starts the ByeByes of this end. \<open>saying_bye n\<close>
  is the state in which \<open>n\<close> of them are left.\<close>

definition strand4 :: conn where
  "strand4 = udp_read sample_os (peer_packet Confirmation 2) strand3"

definition saying_bye :: "nat \<Rightarrow> conn \<Rightarrow> bool" where
  "saying_bye n c \<longleftrightarrow> timed_inv c \<and> udpConnected c \<and> \<not> tcpConnected c \<and> \<not> deleted c \<and> udpSentPackets c = [] \<and>
     udpConfirmationPackets c = [] \<and> udpReceivedFinalIndex c = udpReceivedMasterIndex c \<and>
     udpConfirmedMasterIndex c < udpReceivedMasterIndex c \<and> remainConfirmationResendCount c = 0 \<and>
     \<not> ev_enabled EvBuildConfirmations c \<and> remainByeByeResendCount c = int n \<and> (n = 0 \<longrightarrow> \<not> ev_enabled EvBuildByeBye c) \<and>
     \<not> s_closeWrite (udpSocket c)"

lemma strand_run: "(life_step sample_os)\<^sup>*\<^sup>* end0 strand3" "life_step sample_os strand3 strand4"
proof -
  have inv: "timed_inv strand1"
    using timed.reachable_inv [OF sample_timed] timed_step [of peer1 sample_os strand1] arrive [of peer1 1 sample_os Bye]
    by (simp add: strand1_def peer1_parts sample_clock)
  then have "ev_enabled EvTcpWrite strand1"
    using strand1_parts by (simp add: timed_inv_def awake_def tcp_due_def)
  then have "life_step sample_os strand1 strand2"
    unfolding strand2_def by (intro life_step.raised) (simp_all add: strand1_parts sample_clock)
  moreover have "life_step sample_os peer1 strand1" unfolding strand1_def by (rule arrive) (simp_all add: peer1_parts sample_clock)
  moreover have "life_step sample_os strand2 strand3" unfolding strand3_def by (rule arrive) (simp_all add: strand2_parts sample_clock)
  ultimately show "(life_step sample_os)\<^sup>*\<^sup>* end0 strand3"
    using sample_timed(2) by (meson rtranclp.rtrancl_into_rtrancl)
  show "life_step sample_os strand3 strand4" unfolding strand4_def by (rule arrive) (simp_all add: strand3_parts sample_clock)
qed

lemma read_confirmation_last:
  assumes "clock_ok os" "isNoMoreDataWillBeSent (read_confirmation os p c)" "\<not> isNoMoreDataWillBeSent c"
  shows "remainByeByeResendCount (read_confirmation os p c) = confirmationResendCount (par c) \<and>
    ev_enabled EvBuildByeBye (read_confirmation os p c)"
proof -
  have "\<exists>x. par x = par c \<and> read_confirmation os p c = (if isNoMoreDataWillBeSent x \<and> \<not> isNoMoreDataWillBeSent c
      then ev_in os EvBuildByeBye 0 (x\<lparr>remainByeByeResendCount := confirmationResendCount (par x)\<rparr>) else x)"
    unfolding read_confirmation_def Let_def by (rule exI, rule conjI [OF _ refl]) simp
  then obtain x where x: "par x = par c" "read_confirmation os p c = (if isNoMoreDataWillBeSent x \<and> \<not> isNoMoreDataWillBeSent c
      then ev_in os EvBuildByeBye 0 (x\<lparr>remainByeByeResendCount := confirmationResendCount (par x)\<rparr>) else x)" by blast
  then have "isNoMoreDataWillBeSent x" using assms(2,3) by (auto split: if_splits)
  then show ?thesis using x assms(1,3) by simp
qed

lemma strand4_bye: "saying_bye 5 strand4"
proof -
  have inv: "timed_inv strand3" "timed_inv strand4"
    using timed.reachable_inv [OF sample_timed(1) strand_run(1)] timed_step [OF _ strand_run(2)] by blast+
  have s: "send_inv 0 strand3" using inv(1) by (simp add: timed_inv_def life_inv_def one_end_def)
  let ?p = "peer_packet Confirmation 2"
  define r where "r = read_confirmation sample_os ?p strand3"
  have "om_find (udpSentPackets r) k = None" for k
  proof (cases "k < 2")
    case True
    then show ?thesis using read_confirmation_inv(2) [OF s, of sample_os ?p k] by (simp add: r_def acknowledged_def datagram_reads)
  next
    case False
    then have "om_find (udpSentPackets strand3) k = None"
      using s strand3_parts(10) by (cases "om_find (udpSentPackets strand3) k") (auto simp: send_inv_def)
    then show ?thesis using read_confirmation_inv(2) [OF s, of sample_os ?p k] by (simp add: r_def)
  qed
  then have q: "udpSentPackets r = []" by (cases "udpSentPackets r") (auto simp: om_find_def split: if_splits, metis option.distinct(1))
  have d: "tcpReceivedData strand3 = []" using inv(1) strand3_parts(1,2) by (simp add: timed_inv_def awake_def settled_def)
  have fresh: "\<not> isNoMoreDataWillBeSent strand3" using strand3_parts by (simp add: isNoMoreDataWillBeSent_def)
  have "isNoMoreDataWillBeSent r" using q d strand3_parts(2) by (simp add: isNoMoreDataWillBeSent_def) (simp add: r_def d strand3_parts)
  then have more: "remainByeByeResendCount r = 5 \<and> ev_enabled EvBuildByeBye r"
    using read_confirmation_last [OF sample_clock, of ?p strand3] fresh by (simp add: r_def strand3_parts sample_params_def)
  have "ev_enabled EvBuildConfirmations r = ev_enabled EvBuildConfirmations strand3" by (simp add: r_def ev_enabled_def)
  moreover have "\<not> isUdpFinished r" by (simp add: r_def isUdpFinished_def strand3_parts)
  moreover then have "strand4 = r" by (simp add: strand4_def udp_read_def udp_dispatch_def datagram_reads strand3_parts r_def Let_def)
  moreover have "\<not> s_closeWrite (udpSocket r)" by (simp add: r_def strand3_parts end0_state)
  moreover have "udpConnected r" "\<not> tcpConnected r" "\<not> deleted r" "udpConfirmationPackets r = []"
    "udpReceivedFinalIndex r = 2" "udpReceivedMasterIndex r = 2" "udpConfirmedMasterIndex r = 0" "remainConfirmationResendCount r = 0"
    "\<not> ev_enabled EvBuildConfirmations strand3"
    by (simp_all add: r_def strand3_parts)
  ultimately show ?thesis using inv(2) q more by (simp add: saying_bye_def)
qed

text \<open>One ByeBye is built and sent.\<close>

lemma send_takes:
  assumes "\<not> s_closeWrite (udpSocket c)" "a_sendto (answer_now os c) = None"
  shows "fst (send_datagram os p c) = int (length (p_data p))" "udpSocket (snd (send_datagram os p c)) = udpSocket c"
  using assms by (simp_all add: send_datagram_def sock_writeto_def Let_def split_def)

lemma build_bye_bye_parts:
  assumes "udpConnected c" "udpConfirmationPackets c = []"
  shows "udpConfirmationPackets (build_bye_bye os c) = [encode ByeBye (udpNextSendIndex c) [] 0 new_packet]"
    "remainByeByeResendCount (build_bye_bye os c) = remainByeByeResendCount c - 1"
    "remainByeByeResendCount c \<le> 1 \<Longrightarrow> ev (build_bye_bye os c) EvBuildByeBye = ev c EvBuildByeBye"
  using assms by (simp_all add: build_bye_bye_def Let_def push_control_def)

lemma udp_write_last:
  assumes c: "udpConnected c" "udpConfirmationPackets c = [p]" "\<not> s_closeWrite (udpSocket c)" "a_sendto (answer_now os c) = None"
    and p: "p_data p \<noteq> []" and open_work: "udpConfirmedMasterIndex c < udpReceivedMasterIndex c"
  shows "udpConfirmationPackets (udp_write os t c) = []" "udpConnected (udp_write os t c)" "tcpConnected (udp_write os t c) = tcpConnected c"
    "udpSentPackets (udp_write os t c) = udpSentPackets c" "udpSocket (udp_write os t c) = udpSocket c"
    "e \<notin> {EvTcpRead, EvUdpWrite} \<Longrightarrow> ev (udp_write os t c) e = ev c e"
proof -
  obtain n c1 where s: "send_datagram os p c = (n, c1)" by fastforce
  have n: "0 < n" "udpSocket c1 = udpSocket c" using send_takes [OF c(3,4), of p] s p by simp_all
  define c2 where "c2 = on_sent_buffer_changed os (- get_size p) (c1\<lparr>statUdpSent := statUdpSent c1 + n, udpLastSentUs := t\<rparr>)"
  define c3 where "c3 = c2\<lparr>udpConfirmationPackets := tl (udpConfirmationPackets c2)\<rparr>"
  have c1: "udpConfirmationPackets c1 = [p]" "udpSentPackets c1 = udpSentPackets c" "udpConnected c1" "tcpConnected c1 = tcpConnected c"
    "udpConfirmedMasterIndex c1 = udpConfirmedMasterIndex c" "udpReceivedMasterIndex c1 = udpReceivedMasterIndex c" "ev c1 = ev c"
    using send_datagram_frame [of os p c] send_datagram_parts(3) [OF s] s c by simp_all
  have "\<not> isUdpFinished c3" using open_work c1 by (simp add: isUdpFinished_def c3_def c2_def)
  then have "write_confirmation os t p c = c3 \<or> write_confirmation os t p c = write_again c3"
    unfolding write_confirmation_def s Let_def prod.case c2_def [symmetric] c3_def [symmetric] using n(1) by simp
  then have "udp_write os t c = c3 \<or> udp_write os t c = write_again c3" using c(1,2) by (simp add: udp_write_def)
  moreover have "udpConfirmationPackets c3 = []" "udpConnected c3" "tcpConnected c3 = tcpConnected c" "udpSentPackets c3 = udpSentPackets c"
    "udpSocket c3 = udpSocket c" "e \<notin> {EvTcpRead, EvUdpWrite} \<Longrightarrow> ev c3 e = ev c e"
    using c1 n(2) by (simp_all add: c3_def c2_def)
  ultimately show "udpConfirmationPackets (udp_write os t c) = []" "udpConnected (udp_write os t c)"
    "tcpConnected (udp_write os t c) = tcpConnected c" "udpSentPackets (udp_write os t c) = udpSentPackets c"
    "udpSocket (udp_write os t c) = udpSocket c" "e \<notin> {EvTcpRead, EvUdpWrite} \<Longrightarrow> ev (udp_write os t c) e = ev c e"
    by auto
qed

lemma bye_round:
  assumes b: "saying_bye (Suc n) c" and os: "clock_ok os" "\<forall>i. a_sendto (os i) = None"
  shows "\<exists>c'. (life_step os)\<^sup>*\<^sup>* c c' \<and> saying_bye n c'"
proof -
  define c1 where "c1 = raise_conn_event os EvBuildByeBye c"
  define c2 where "c2 = raise_conn_event os EvUdpWrite c1"
  have on: "ev_enabled EvBuildByeBye c" using b by (simp add: saying_bye_def timed_inv_def awake_def bye_due_def)
  have s1: "life_step os c c1" unfolding c1_def by (rule life_step.raised) (use b on os in \<open>simp_all add: saying_bye_def\<close>)
  have i1: "timed_inv c1" using b timed_step [OF _ s1] by (simp add: saying_bye_def)
  have c1: "c1 = build_bye_bye os (ev_off EvBuildByeBye c)" by (simp add: c1_def raise_conn_event_def handle_def)
  have p1: "udpConfirmationPackets c1 = [encode ByeBye (udpNextSendIndex c) [] 0 new_packet]" "remainByeByeResendCount c1 = int n"
    "n = 0 \<Longrightarrow> \<not> ev_enabled EvBuildByeBye c1"
    using build_bye_bye_parts [of "ev_off EvBuildByeBye c" os] b by (simp_all add: c1 saying_bye_def ev_enabled_def)
  have f1: "udpConnected c1" "\<not> tcpConnected c1" "\<not> deleted c1" "udpSentPackets c1 = []" "udpReceivedFinalIndex c1 = udpReceivedMasterIndex c1"
    "udpConfirmedMasterIndex c1 < udpReceivedMasterIndex c1" "remainConfirmationResendCount c1 = 0" "\<not> ev_enabled EvBuildConfirmations c1"
    "\<not> s_closeWrite (udpSocket c1)"
    using b by (simp_all add: c1 saying_bye_def ev_enabled_def)
  have "ev_enabled EvUdpWrite c1" using i1 f1(1) p1(1) by (simp add: timed_inv_def awake_def write_due_def)
  then have s2: "life_step os c1 c2" unfolding c2_def by (intro life_step.raised) (use f1 os in simp_all)
  let ?c = "ev_off EvUdpWrite c1"
  have c2: "c2 = udp_write os (ev c1 EvUdpWrite) ?c" by (simp add: c2_def raise_conn_event_def handle_def)
  have d: "p_data (encode ByeBye (udpNextSendIndex c) [] 0 new_packet) \<noteq> []"
    using encode_data [of ByeBye "udpNextSendIndex c" "[]" new_packet] length_frame [of ByeBye "udpNextSendIndex c" "[]"] by auto
  have "a_sendto (answer_now os ?c) = None" using os(2) by (simp add: answer_now_def)
  note w = udp_write_last [of ?c "encode ByeBye (udpNextSendIndex c) [] 0 new_packet" os, OF _ _ _ this d]
  have "saying_bye n c2"
    using timed_step [OF i1 s2] p1 f1 by (simp add: saying_bye_def c2 ev_enabled_def w)
  then show ?thesis using s1 s2 by (meson rtranclp.rtrancl_into_rtrancl r_into_rtranclp)
qed

lemma all_byes:
  assumes "clock_ok os" "\<forall>i. a_sendto (os i) = None"
  shows "saying_bye n c \<Longrightarrow> \<exists>c'. (life_step os)\<^sup>*\<^sup>* c c' \<and> saying_bye 0 c'"
proof (induction n arbitrary: c)
  case (Suc n)
  obtain c1 where c1: "(life_step os)\<^sup>*\<^sup>* c c1" "saying_bye n c1" using bye_round [OF Suc.prems assms] by blast
  obtain c2 where "(life_step os)\<^sup>*\<^sup>* c1 c2" "saying_bye 0 c2" using Suc.IH [OF c1(2)] by blast
  then show ?case using c1(1) by (meson rtranclp_trans)
qed blast

text \<open>At last the waiting time ends: udp has not finished, so nothing happens, and no timer is left.\<close>

lemma last_wait:
  assumes b: "saying_bye 0 c" and os: "clock_ok os"
  shows "\<exists>c'. (life_step os)\<^sup>*\<^sup>* c c' \<and> stranded c'"
proof -
  let ?c = "ev_off EvUdpCloseWait c"
  have i: "awake c" "closes c" using b by (auto simp: saying_bye_def timed_inv_def life_inv_def)
  have base: "udpConnected c" "\<not> tcpConnected c" "\<not> deleted c" "tcpReceivedData c = []" "\<not> ev_enabled EvClose c"
    using b i by (simp_all add: saying_bye_def awake_def settled_def closes_def)
  have off: "stranded ?c" using b base by (simp add: saying_bye_def stranded_def ev_enabled_def)
  show ?thesis
  proof (cases "ev_enabled EvUdpCloseWait c")
    case True
    have "raise_conn_event os EvUdpCloseWait c = ?c" using stranded_unfinished [OF off] by (simp add: raise_conn_event_def handle_def)
    then have "life_step os c ?c" using life_step.raised [OF base(3) True os] by simp
    then show ?thesis using off by blast
  next
    case False
    then have "stranded c" using b base by (simp add: saying_bye_def stranded_def)
    then show ?thesis by blast
  qed
qed

theorem stranded_forever_witness:
  "\<exists>c. timed_start end0 \<and> (life_step sample_os)\<^sup>*\<^sup>* end0 c \<and> stranded c \<and> \<not> ev_enabled EvClose c"
proof -
  have os: "clock_ok sample_os" "\<forall>i. a_sendto (sample_os i) = None" by (rule sample_clock) (simp add: sample_os_def)
  obtain c1 where c1: "(life_step sample_os)\<^sup>*\<^sup>* strand4 c1" "saying_bye 0 c1" using all_byes [OF os strand4_bye] by blast
  obtain c2 where c2: "(life_step sample_os)\<^sup>*\<^sup>* c1 c2" "stranded c2" using last_wait [OF c1(2) os(1)] by blast
  have "(life_step sample_os)\<^sup>*\<^sup>* end0 c2" using strand_run c1(1) c2(1) by (meson rtranclp_trans r_into_rtranclp)
  then show ?thesis using sample_timed(1) stranded_forever [OF c2(2) rtranclp.rtrancl_refl] by blast
qed

end
