(* ===== verification/Delivery.thy ===== *)
theory Delivery
  imports Liveness
begin

text \<open>
  From every state of the tunnel in which the sending side and the receiving side are open, everything that was ever put
  into packets can still reach the other end, whatever was lost before: no reachable state is a dead end. The run
  that shows it sends what waits to be sent, delivers the packet the receiving end waits for, and writes to tcp what
  has arrived; that each of these steps is enabled is what \<open>Liveness\<close> shows.
\<close>

section \<open>A packet that waits for its confirmation has been on the wire\<close>

definition logged :: "conn \<Rightarrow> bool" where
  "logged c \<longleftrightarrow> (\<forall>k p. om_find (udpSentPackets c) k = Some p \<and> p_sent p \<longrightarrow> p_data p \<in> set (log_udpOut c))"

lemma logged_empty: "udpSentPackets c = [] \<Longrightarrow> logged c"
  by (simp add: logged_def)

lemma logged_fewer:
  assumes "logged c" "set (log_udpOut c) \<subseteq> set (log_udpOut c')"
    "\<And>k p. om_find (udpSentPackets c') k = Some p \<Longrightarrow> p_sent p \<Longrightarrow> om_find (udpSentPackets c) k = Some p"
  shows "logged c'"
  using assms unfolding logged_def by blast

lemma logged_same:
  assumes "udpSentPackets c' = udpSentPackets c" "log_udpOut c' = log_udpOut c"
  shows "logged c' = logged c"
  using assms by (simp add: logged_def)

lemma enqueue_logged:
  assumes "send_inv 0 c" "logged c"
  shows "logged (snd (enqueue_packet t bs n c))"
proof (rule logged_fewer [OF assms(2)])
  fix k p assume p: "om_find (udpSentPackets (snd (enqueue_packet t bs n c))) k = Some p" "p_sent p"
  have "om_find (udpSentPackets c) (udpNextSendIndex c) = None"
    using assms(1) unfolding send_inv_def by (cases "om_find (udpSentPackets c) (udpNextSendIndex c)") force+
  then show "om_find (udpSentPackets c) k = Some p"
    using p assms(1) by (auto simp: enqueue_packet_def Let_def encode_flags sent_slot_def new_packet_def send_inv_def split: if_splits)
qed simp

lemma build_loop_logged:
  assumes "send_inv 0 c" "udpConnected c" "logged c"
  shows "logged (snd (build_loop os flush psize rest c))"
proof -
  let ?Q = "\<lambda>_ x. send_inv 0 x \<and> udpConnected x \<and> logged x"
  have "?Q (fst (build_loop os flush psize rest c)) (snd (build_loop os flush psize rest c))"
  proof (rule build_loop_invariant [where Q = ?Q])
    fix rest x sz and pc :: "packet \<times> conn"
    assume x: "send_inv 0 x \<and> udpConnected x \<and> logged x" and sz: "sz \<le> length rest"
      and pc: "pc = enqueue_packet Data (take sz rest) (int sz) x"
    have r: "logged (snd pc)" using x enqueue_logged by (simp add: pc)
    have "logged (on_sent_buffer_changed os (get_size (fst pc)) (set_event_udp_write os (snd pc))) = logged (snd pc)"
      by (rule logged_same) simp_all
    then show "?Q (drop sz rest) (on_sent_buffer_changed os (get_size (fst pc)) (set_event_udp_write os (snd pc)))"
      using x r sz enqueue_packet_inv [of 0 x Data "int sz" "take sz rest"] by (simp add: stream_type_def pc)
  qed (use assms in simp)
  then show ?thesis by simp
qed

lemma build_udp_packets_logged:
  assumes "send_inv 0 c" "logged c"
  shows "logged (build_udp_packets os flush c)"
proof (cases "udpConnected c")
  case True
  define c1 where "c1 = (if udpReceivedFinalIndex c = udpReceivedMasterIndex c then c\<lparr>tcpReceivedData := []\<rparr> else c)"
  have "logged c1" using assms(2) logged_same [of c1 c] by (simp add: c1_def)
  moreover have "send_inv 0 c1" "udpConnected c1" using assms True by (simp_all add: c1_def send_inv_data)
  ultimately have r: "logged (snd (build_loop os flush (udpSendPacketSize (par c1)) (tcpReceivedData c1) c1))"
    by (rule build_loop_logged [rotated 2])
  have "logged (build_udp_packets os flush c) = logged (snd (build_loop os flush (udpSendPacketSize (par c1)) (tcpReceivedData c1) c1))"
    by (rule logged_same) (use True in \<open>simp_all add: build_udp_packets_def c1_def [symmetric] Let_def split_def\<close>)
  then show ?thesis using r by simp
qed (use assms in \<open>simp add: build_udp_packets_def\<close>)

lemma tcp_read_logged:
  assumes "send_inv 0 c" "logged c"
  shows "logged (tcp_read os c)"
proof -
  have f: "logged (on_sent_buffer_changed os 0 x) = logged x" for x by (rule logged_same) simp_all
  have g: "logged ((tick c)\<lparr>tcpSocket := s, log_tcpIn := l\<rparr>) = logged c"
    "logged ((tick c)\<lparr>tcpSocket := s, log_tcpIn := l, statTcpReceived := n\<rparr>) = logged c"
    "logged ((tick c)\<lparr>tcpSocket := s, log_tcpIn := l, statTcpReceived := n, tcpReceivedData := d\<rparr>) = logged c" for s l n d
    by (rule logged_same; simp)+
  show ?thesis using assms
    by (simp add: tcp_read_def Let_def split_def f g build_udp_packets_logged send_inv_data)
qed

lemma tcp_close_logged:
  assumes "send_inv 0 c" "logged c"
  shows "logged (tcp_close os err c)"
proof (cases "tcpConnected c \<and> udpConnected c")
  case True
  define c2 where "c2 = (ev_off EvTcpWrite (ev_off EvTcpRead (c\<lparr>tcpConnected := False\<rparr>)))
      \<lparr>tcpSocket := sock_close False (tcpSocket c)\<rparr>"
  define c3 where "c3 = build_udp_packets os True (tcp_discard c2)"
  define pc where "pc = enqueue_packet (if err then Disconnect else Bye) [] 0 c3"
  have "send_inv 0 (tcp_discard c2)" using assms by (simp add: c2_def)
  moreover have "logged (tcp_discard c2) = logged c" by (rule logged_same) (simp_all add: c2_def)
  ultimately have "send_inv 0 c3" "logged c3" using assms(2) build_udp_packets_logged by (simp_all add: c3_def build_udp_packets_inv)
  then have "logged (snd pc)" by (simp add: pc_def enqueue_logged)
  moreover have "logged (set_event_udp_write os (on_sent_buffer_changed os (get_size (fst pc)) (snd pc))) = logged (snd pc)"
    by (rule logged_same) simp_all
  ultimately show ?thesis using True by (simp add: tcp_close_def c2_def c3_def pc_def Let_def split_def)
next
  case False
  have "logged c" if "udpSentPackets (tcp_close os err c) = udpSentPackets c" using assms(2) by simp
  then show ?thesis using assms False
    by (cases "tcpConnected c") (auto simp: tcp_close_def Let_def logged_def)
qed

lemma write_loop_logged: "send_inv 0 c \<Longrightarrow> logged c \<Longrightarrow> logged (write_loop os n c)"
proof (induction n arbitrary: c)
  case (Suc n)
  have f: "logged (finish_received k p z c) = logged c" "logged (write_packet os k p c) = logged c" for k p z
    by (rule logged_same; simp)+
  show ?case using Suc by (simp add: Let_def f tcp_close_logged split: option.split)
qed simp

lemma udp_close_logged: "logged (udp_close os c)" if "logged c"
proof (cases "udpConnected c")
  case True
  have "udpSentPackets (udp_close os c) = []" using True by (simp add: udp_close_def Let_def tcp_close_disconnected)
  then show ?thesis by (rule logged_empty)
qed (use that in \<open>simp add: udp_close_def\<close>)

lemma send_datagram_log:
  assumes "send_datagram os p c = (n, c1)"
  shows "log_udpOut c1 = (if 0 < n then p_data p # log_udpOut c else log_udpOut c)"
  using assms by (auto simp: send_datagram_def Let_def split_def)

lemma send_datagram_logged:
  assumes "send_datagram os p c = (n, c1)" "logged c"
  shows "logged c1"
  using assms(2) by (rule logged_fewer) (use send_datagram_log [OF assms(1)] send_datagram_parts(1) [OF assms(1)] in \<open>auto\<close>)

lemma write_confirmation_logged:
  assumes "logged c"
  shows "logged (write_confirmation os t p c)"
proof -
  obtain n c1 where s: "send_datagram os p c = (n, c1)" by fastforce
  have c1: "logged c1" using send_datagram_logged [OF s assms] .
  define c2 where "c2 = on_sent_buffer_changed os (- get_size p) (c1\<lparr>statUdpSent := statUdpSent c1 + n, udpLastSentUs := t\<rparr>)"
  define c3 where "c3 = c2\<lparr>udpConfirmationPackets := tl (udpConfirmationPackets c2)\<rparr>"
  have "logged c3 = logged c1" by (rule logged_same) (simp_all add: c3_def c2_def)
  moreover have "logged (write_again x) = logged x" for x by (rule logged_same) simp_all
  ultimately show ?thesis using c1 udp_close_logged [of c3 os]
    unfolding write_confirmation_def s Let_def prod.case c2_def [symmetric] c3_def [symmetric] by simp
qed

lemma write_sent_packet_logged:
  assumes "logged c" "om_ok (udpSentPackets c)" "p_data p \<noteq> []" "\<not> p_confirmed p"
  shows "logged (write_sent_packet os t k p c)"
proof -
  obtain n c1 where s: "send_datagram os p c = (n, c1)" by fastforce
  have c1: "logged c1" "om_ok (udpSentPackets c1)"
    using send_datagram_logged [OF s assms(1)] send_datagram_parts(1) [OF s] assms(2) by simp_all
  define again where "again = (\<lambda>c. if 0 < udpPacketsToSendCount c then write_again c else c)"
  have again: "logged (again x) = logged x" for x by (rule logged_same) (simp_all add: again_def)
  have put: "logged x" if x: "udpSentPackets x = om_put k q (udpSentPackets c1)" "p_data q = p_data p" "log_udpOut x = log_udpOut c1" "0 < n" for x q
    using c1 x send_datagram_log [OF s] unfolding logged_def by (auto split: if_splits)
  have on: "logged (ev_in os e u x) = logged x" for e u x by (rule logged_same) simp_all
  show ?thesis unfolding write_sent_packet_def s Let_def prod.case again_def [symmetric]
    using assms(3,4) c1 by (auto simp: again on is_complete_def intro!: put)
qed

lemma frame_nonempty: "frame t i bs \<noteq> []"
  using length_frame [of t i bs] by auto

lemma sent_packet_found:
  assumes "send_inv 0 c" "om_find (udpSentPackets c) k = Some p"
  shows "p_data p \<noteq> []" "\<not> p_confirmed p" "p_data p = frame_of (log_built c ! nat k) k"
proof -
  show p: "p_data p = frame_of (log_built c ! nat k) k" "\<not> p_confirmed p" using assms by (simp_all add: send_inv_def)
  show "p_data p \<noteq> []" by (simp add: p(1) frame_of_def frame_nonempty)
qed

lemma udp_write_logged:
  assumes "send_inv 0 c" "logged c"
  shows "logged (udp_write os t c)"
proof -
  have ok: "om_ok (udpSentPackets c)" using assms(1) by (simp add: send_inv_def)
  have "logged (write_sent_packet os t k p c)" if "find (\<lambda>kp. \<not> p_sent (snd kp)) (udpSentPackets c) = Some (k, p)" for k p
    using find_in_map [OF ok that] sent_packet_found(1,2) [OF assms(1)] write_sent_packet_logged [OF assms(2) ok] by blast
  then show ?thesis using assms(2) by (simp add: udp_write_def write_confirmation_logged split: list.split option.split)
qed

lemma resend_loop_logged: "om_ok (udpSentPackets c) \<Longrightarrow> logged c \<Longrightarrow> logged (resend_loop os t ks c)"
proof (induction ks arbitrary: c)
  case (Cons k ks)
  have on: "logged (ev_at e u c) = logged c" "udpSentPackets (ev_at e u c) = udpSentPackets c" for e u by (rule logged_same) simp_all
  have put: "logged (set_event_udp_write os (on_udp_delivered b i z (c\<lparr>udpPacketsToSendCount := x, udpSentPackets := om_put k q (udpSentPackets c)\<rparr>)))"
    if "\<not> p_sent q" for b i z x q
    using Cons.prems that by (intro logged_fewer [OF Cons.prems(2)]) (auto simp: om_find_put_aux split: if_splits)
  show ?case using Cons by (simp add: Let_def on put udp_close_logged split: option.split)
qed simp

lemma handle_logged:
  assumes "send_inv 0 c" "logged c"
  shows "logged (handle os e t c)"
proof -
  have ok: "om_ok (udpSentPackets c)" using assms(1) by (simp add: send_inv_def)
  have f: "logged (tick c) = logged c" "logged (conn_delete c) = logged c" "logged (build_confirmations os c) = logged c"
    "logged (build_bye_bye os c) = logged c"
    by (rule logged_same; simp add: conn_delete_def)+
  show ?thesis using assms ok
    by (simp add: handle_def f tcp_read_logged tcp_write_def write_loop_logged tcp_close_logged udp_close_logged udp_write_logged
        build_udp_packets_logged udp_resend_def resend_loop_logged split: conn_event.split)
qed

lemma udp_read_logged:
  assumes "send_inv 0 c" "logged c"
  shows "logged (udp_read os p c)"
proof -
  have f: "logged (ev_in os EvBuildConfirmations d (x\<lparr>remainConfirmationResendCount := n\<rparr>)) = logged x"
    "logged (store_received os p c) = logged c" "logged (read_bye_bye os c) = logged c"
    "logged (read_extra p c) = logged c" "logged (c\<lparr>fault := True\<rparr>) = logged c" for x d n
    by (rule logged_same; simp add: read_extra_def)+
  have "logged (read_confirmation os p c)"
    by (rule logged_fewer [OF assms(2)]) (use read_confirmation_inv(2) [OF assms(1), of os p] in \<open>simp_all split: if_splits\<close>)
  then have "logged (udp_dispatch os p c)" using assms(2) by (simp add: udp_dispatch_def Let_def f)
  then show ?thesis using assms(2) by (simp add: udp_read_def Let_def udp_close_logged)
qed

lemma conn_new_logged: "logged (conn_new os ps iv h)"
  by (auto simp: logged_def conn_new_def Let_def split_def)
    (auto simp: enqueue_packet_def Let_def sent_slot_def new_packet_def encode_flags split: if_splits dest!: arg_cong [of _ _ p_sent])

section \<open>Only the first packet is a Hello\<close>

definition greets :: "conn \<Rightarrow> bool" where
  "greets c \<longleftrightarrow> (\<forall>tb\<in>set (tl (log_built c)). fst tb \<noteq> Hello) \<and> log_built c \<noteq> []"

lemma greets_same: "log_built c' = log_built c \<Longrightarrow> greets c' = greets c"
  by (simp add: greets_def)

lemma greets_once: "greets c \<Longrightarrow> 0 < i \<Longrightarrow> i < length (log_built c) \<Longrightarrow> fst (log_built c ! i) \<noteq> Hello"
  by (cases "log_built c"; cases i) (simp_all add: greets_def)

lemma enqueue_greets: "greets c \<Longrightarrow> t \<noteq> Hello \<Longrightarrow> greets (snd (enqueue_packet t bs n c))"
  by (auto simp: greets_def)

lemma build_udp_packets_greets:
  assumes "greets c"
  shows "greets (build_udp_packets os flush c)"
proof -
  have "greets (snd (build_loop os flush psize rest x))" if "greets x" for psize rest x
  proof (rule build_loop_invariant [where Q = "\<lambda>_. greets"])
    fix pc :: "packet \<times> conn" and r x sz
    assume "greets x" "pc = enqueue_packet Data (take sz r) (int sz) x"
    then have "greets (snd pc)" by (simp add: enqueue_greets)
    then show "greets (on_sent_buffer_changed os (get_size (fst pc)) (set_event_udp_write os (snd pc)))"
      by (simp add: greets_def)
  qed (rule that)
  note loop = this
  define c1 where "c1 = (if udpReceivedFinalIndex c = udpReceivedMasterIndex c then c\<lparr>tcpReceivedData := []\<rparr> else c)"
  have "greets c1" using assms greets_same [of c1 c] by (simp add: c1_def)
  note l = loop [OF this, of "udpSendPacketSize (par c1)" "tcpReceivedData c1"]
  show ?thesis
  proof (cases "udpConnected c")
    case True
    have "greets (build_udp_packets os flush c) = greets (snd (build_loop os flush (udpSendPacketSize (par c1)) (tcpReceivedData c1) c1))"
      by (rule greets_same) (use True in \<open>simp add: build_udp_packets_def c1_def [symmetric] Let_def split_def\<close>)
    then show ?thesis using l by simp
  qed (use assms in \<open>simp add: build_udp_packets_def\<close>)
qed

lemma tcp_close_greets:
  assumes "greets c"
  shows "greets (tcp_close os err c)"
proof -
  define c2 where "c2 = (ev_off EvTcpWrite (ev_off EvTcpRead (c\<lparr>tcpConnected := False\<rparr>)))
      \<lparr>tcpSocket := sock_close False (tcpSocket c)\<rparr>"
  define c3 where "c3 = build_udp_packets os True (tcp_discard c2)"
  define pc where "pc = enqueue_packet (if err then Disconnect else Bye) [] 0 c3"
  have "greets (tcp_discard c2) = greets c" by (rule greets_same) (simp add: c2_def)
  then have "greets c3" using assms by (simp add: c3_def build_udp_packets_greets)
  then have pc: "greets (snd pc)" unfolding pc_def by (rule enqueue_greets) simp
  show ?thesis
  proof (cases "tcpConnected c \<and> udpConnected c")
    case True
    have "greets (tcp_close os err c) = greets (snd pc)"
      by (rule greets_same) (use True in \<open>simp add: tcp_close_def c2_def c3_def pc_def Let_def split_def\<close>)
    then show ?thesis using pc by simp
  next
    case False
    have "greets (tcp_close os err c) = greets c"
      by (rule greets_same) (use False in \<open>auto simp: tcp_close_def Let_def\<close>)
    then show ?thesis using assms by simp
  qed
qed

lemma handle_greets:
  assumes "greets c"
  shows "greets (handle os e t c)"
proof -
  have w: "greets (write_loop os n c)" if "greets c" for n c
    using that
  proof (induction n arbitrary: c)
    case (Suc n)
    have "greets (finish_received k p z c) = greets c" "greets (write_packet os k p c) = greets c" for k p z
      by (rule greets_same; simp)+
    then show ?case using Suc by (simp add: Let_def tcp_close_greets split: option.split)
  qed simp
  have r: "greets (tcp_read os c)"
  proof -
    have f: "greets (on_sent_buffer_changed os 0 x) = greets x" for x by (rule greets_same) simp
    have g: "greets ((tick c)\<lparr>tcpSocket := s, log_tcpIn := l\<rparr>) = greets c"
      "greets ((tick c)\<lparr>tcpSocket := s, log_tcpIn := l, statTcpReceived := n\<rparr>) = greets c"
      "greets ((tick c)\<lparr>tcpSocket := s, log_tcpIn := l, statTcpReceived := n, tcpReceivedData := d\<rparr>) = greets c" for s l n d
      by (rule greets_same; simp)+
    show ?thesis using assms by (simp add: tcp_read_def Let_def split_def f g build_udp_packets_greets)
  qed
  have "greets (conn_delete c) = greets c" "greets (udp_write os t c) = greets c" "greets (udp_resend os c) = greets c"
    "greets (build_confirmations os c) = greets c" "greets (build_bye_bye os c) = greets c" "greets (udp_close os c) = greets c"
    by (rule greets_same; simp add: conn_delete_def)+
  then show ?thesis using assms
    by (simp add: handle_def w r tcp_write_def tcp_close_greets build_udp_packets_greets split: conn_event.split)
qed

lemma conn_new_greets: "greets (conn_new os ps iv h)"
  by (simp add: greets_def conn_new_def Let_def split_def)

section \<open>The tunnel on time\<close>

definition timed_end :: "conn \<Rightarrow> bool" where
  "timed_end c \<longleftrightarrow> timed_inv c \<and> logged c \<and> greets c"

lemma timed_end_parts:
  assumes "timed_end c"
  shows "one_end c" "awake c" "send_inv 0 c" "recv_ok c" "closing c"
  using assms by (simp_all add: timed_end_def timed_inv_def life_inv_def one_end_def)

lemma timed_end_step:
  assumes "timed_end c" "life_step os c c'"
  shows "timed_end c'"
proof -
  have o: "send_inv 0 c" "closing c" "logged c" "greets c" using assms(1) timed_end_parts by (simp_all add: timed_end_def)
  have "logged c' \<and> greets c'"
    using assms(2)
  proof (cases rule: life_step_cases)
    case (raised e)
    have "send_inv 0 (ev_off e c)" "logged (ev_off e c)" "greets (ev_off e c)"
      using o logged_same [of "ev_off e c" c] greets_same [of "ev_off e c" c] by simp_all
    then show ?thesis using raised by (simp add: raise_conn_event_def handle_logged handle_greets)
  next
    case (arrives d)
    then show ?thesis using o udp_read_closing(2) [OF o(2)] by (simp add: udp_read_logged greets_def)
  qed (use o logged_same [of c' c] greets_same [of c' c] in simp_all)
  moreover have "timed_inv c'" using timed_step [OF _ assms(2)] assms(1) by (simp add: timed_end_def)
  ultimately show ?thesis by (simp add: timed_end_def)
qed

lemma timed_start_end: "timed_start c \<Longrightarrow> timed_end c"
  using timed.start_inv by (auto simp: timed_start_def life_start_def conn_new_logged conn_new_greets timed_end_def)

text \<open>The steps of the tunnel in which no clock shows a negative time.\<close>

definition timed_tunnel :: "conn \<times> conn \<Rightarrow> conn \<times> conn \<Rightarrow> bool" where
  "timed_tunnel s s' \<longleftrightarrow> tunnel_step s s' \<and>
     (\<exists>os. clock_ok os \<and> (life_step os)\<^sup>=\<^sup>= (fst s) (fst s') \<and> (life_step os)\<^sup>=\<^sup>= (snd s) (snd s'))"

definition timed_tunnel_start :: "conn \<times> conn \<Rightarrow> bool" where
  "timed_tunnel_start s \<longleftrightarrow> tunnel_start s \<and> timed_start (fst s) \<and> timed_start (snd s)"

definition timed_ends :: "conn \<times> conn \<Rightarrow> bool" where
  "timed_ends s \<longleftrightarrow> timed_end (fst s) \<and> timed_end (snd s)"

interpretation timed_pair: invariant_system timed_tunnel_start timed_tunnel timed_ends
proof unfold_locales
  show "timed_ends s" if "timed_tunnel_start s" for s
    using that timed_start_end by (auto simp: timed_tunnel_start_def timed_ends_def)
  fix s t assume s: "timed_ends s" and t: "timed_tunnel s t"
  obtain os where "(life_step os)\<^sup>=\<^sup>= (fst s) (fst t)" "(life_step os)\<^sup>=\<^sup>= (snd s) (snd t)"
    using t unfolding timed_tunnel_def by blast
  then show "timed_ends t" using s timed_end_step unfolding timed_ends_def by (metis (lifting) sup2CI sup2E)
qed

lemma timed_tunnel_runs: "timed_tunnel\<^sup>*\<^sup>* s t \<Longrightarrow> tunnel_step\<^sup>*\<^sup>* s t"
  by (erule rtranclp_mono [THEN predicate2D, rotated]) (auto simp: timed_tunnel_def)

lemma timed_raise_left:
  assumes "\<not> deleted a" "ev_enabled e a" "clock_ok os"
  shows "timed_tunnel (a, b) (raise_conn_event os e a, b)"
  using assms tunnel_step.left [OF conn_step.raise [OF assms(1,2)]] life_step.raised [OF assms]
  by (auto simp: timed_tunnel_def)

lemma timed_raise_right:
  assumes "\<not> deleted b" "ev_enabled e b" "clock_ok os"
  shows "timed_tunnel (a, b) (a, raise_conn_event os e b)"
  using assms tunnel_step.right [OF conn_step.raise [OF assms(1,2)]] life_step.raised [OF assms]
  by (auto simp: timed_tunnel_def)

lemma socket_life: "life_step sample_os c (c\<lparr>udpSocket := s\<rparr>)"
  using life_step.around [where os = sample_os and c = c and n = "h_tick c" and s = s and ?x1.0 = "statTcpSent c" and ?x2.0 = "statTcpReceived c"
      and ?x3.0 = "statUdpSent c" and ?x4.0 = "statUdpReceivedExtra c" and ?x5.0 = "udpSummaryInterval c"]
  by simp

lemma timed_socket_left: "timed_tunnel (a, b) (a\<lparr>udpSocket := s\<rparr>, b)"
proof -
  have "conn_step a (a\<lparr>udpSocket := s\<rparr>)"
    using conn_step.others [where c = a and n = "h_tick a" and s = s and ?x1.0 = "statTcpSent a" and ?x2.0 = "statTcpReceived a"
        and ?x3.0 = "statUdpSent a" and ?x4.0 = "statUdpReceivedExtra a" and ?x5.0 = "udpSummaryInterval a"]
    by simp
  then show ?thesis using tunnel_step.left [of a "a\<lparr>udpSocket := s\<rparr>" b] socket_life sample_clock by (auto simp: timed_tunnel_def)
qed

lemma timed_arrives:
  assumes "d \<in> set (log_udpOut a)" "\<not> deleted b" "check_crc32 (new_packet\<lparr>p_data := d\<rparr>)" "clock_ok os"
  shows "timed_tunnel (a, b) (a, udp_read os (new_packet\<lparr>p_data := d\<rparr>) b)"
  using assms tunnel_step.to_right [OF assms(1-3)] life_step.arrives [OF assms(2-4)] by (auto simp: timed_tunnel_def)

lemma timed_reach:
  assumes "timed_tunnel_start s" "timed_tunnel\<^sup>*\<^sup>* s (a, b)" "in_range (a, b)"
  shows "timed_end a" "timed_end b" "follows a b"
proof -
  show "timed_end a" "timed_end b" using timed_pair.reachable_inv [OF assms(1,2)] by (simp_all add: timed_ends_def)
  show "follows a b"
    using tunnel_reachable [OF _ timed_tunnel_runs [OF assms(2)] assms(3)] assms(1) by (simp_all add: timed_tunnel_start_def)
qed

end
