(* ===== verification/No_Dead_End.thy ===== *)
theory No_Dead_End
  imports Delivery
begin

text \<open>
  The run that delivers everything: \<open>send_waiting\<close> puts a given packet on the wire, \<open>deliver_next\<close> hands it to the
  receiving end, \<open>write_next\<close> writes to tcp; \<open>no_dead_end\<close> puts them together.
\<close>

section \<open>Sending\<close>

definition to_send :: "conn \<Rightarrow> nat" where
  "to_send c = length (udpConfirmationPackets c) + nat (om_sum unsent (udpSentPackets c))"

text \<open>With an open socket and a system that takes the datagram, \<^verbatim>\<open>udpWrite\<close> sends one.\<close>

lemma write_confirmation_transmits:
  fixes t :: usec
  assumes "\<not> s_closeWrite (udpSocket c)" "a_sendto (answer_now os c) = None" "p_data p \<noteq> []"
    "udpSentPackets c \<noteq> []" "udpConnected c"
  defines "r \<equiv> write_confirmation os t p c"
  shows "udpConfirmationPackets r = tl (udpConfirmationPackets c)" "udpSentPackets r = udpSentPackets c" "udpConnected r"
    "set (log_udpOut c) \<subseteq> set (log_udpOut r)"
proof -
  obtain n c1 where s: "send_datagram os p c = (n, c1)" by fastforce
  have n: "n = int (length (p_data p))" using s assms(1,2) by (simp add: send_datagram_def sock_writeto_def Let_def)
  define c2 where "c2 = on_sent_buffer_changed os (- get_size p) (c1\<lparr>statUdpSent := statUdpSent c1 + n, udpLastSentUs := t\<rparr>)"
  define c3 where "c3 = c2\<lparr>udpConfirmationPackets := tl (udpConfirmationPackets c2)\<rparr>"
  note c1 = send_datagram_parts [OF s]
  have "\<not> isUdpFinished c3" using assms(4,5) c1 by (simp add: isUdpFinished_def isNoMoreDataWillBeSent_def c3_def c2_def)
  then have r: "r = c3 \<or> r = write_again c3"
    unfolding r_def write_confirmation_def s Let_def prod.case c2_def [symmetric] c3_def [symmetric] using n assms(3) by simp
  have "udpConfirmationPackets c3 = tl (udpConfirmationPackets c)" "udpSentPackets c3 = udpSentPackets c" "udpConnected c3"
    "set (log_udpOut c) \<subseteq> set (log_udpOut c3)"
    using c1 assms(5) send_datagram_log [OF s] by (auto simp: c3_def c2_def)
  then show "udpConfirmationPackets r = tl (udpConfirmationPackets c)" "udpSentPackets r = udpSentPackets c" "udpConnected r"
    "set (log_udpOut c) \<subseteq> set (log_udpOut r)"
    using r by auto
qed

lemma write_sent_packet_transmits:
  fixes t :: usec and k :: int
  assumes "\<not> s_closeWrite (udpSocket c)" "a_sendto (answer_now os c) = None" "p_data p \<noteq> []" "\<not> p_confirmed p"
    "udpConnected c"
  defines "r \<equiv> write_sent_packet os t k p c"
  shows "udpConfirmationPackets r = udpConfirmationPackets c" "udpConnected r" "p_data p \<in> set (log_udpOut r)"
    "\<exists>q. p_sent q \<and> udpSentPackets r = om_put k q (udpSentPackets c)" "set (log_udpOut c) \<subseteq> set (log_udpOut r)"
proof -
  obtain n c1 where s: "send_datagram os p c = (n, c1)" by fastforce
  have n: "0 < n" using s assms(1-3) by (auto simp: send_datagram_def sock_writeto_def Let_def)
  define p' where "p' = p\<lparr>p_sent := True, p_sentTimeUs := a_time (answer_now os c1), p_measureIndex := udpSendMeasureIndex c1\<rparr>"
  define c2 where "c2 = (tick c1)\<lparr>statUdpSent := statUdpSent c1 + n, udpSentPackets := om_put k p' (udpSentPackets c1), udpLastSentUs := t\<rparr>"
  define c3 where "c3 = on_udp_sent os (udpSendMeasureIndex c2) (udpSendIntervalUs c2) (get_size p') c2"
  define c4 where "c4 = c3\<lparr>udpPacketsToSendCount := udpPacketsToSendCount c3 - 1\<rparr>"
  define c5 where "c5 = ev_in os EvUdpResend (udpResendUs (par c4)) c4"
  have "\<not> is_complete p'" using assms(4) by (simp add: p'_def is_complete_def)
  then have r: "r = c5 \<or> r = write_again c5"
    unfolding r_def write_sent_packet_def s Let_def prod.case p'_def [symmetric] c2_def [symmetric] c3_def [symmetric]
      c4_def [symmetric] c5_def [symmetric] using n by simp
  note c1 = send_datagram_parts [OF s]
  have "udpConfirmationPackets c5 = udpConfirmationPackets c" "udpConnected c5" "log_udpOut c5 = p_data p # log_udpOut c"
    "p_sent p'" "udpSentPackets c5 = om_put k p' (udpSentPackets c)"
    using c1 assms(5) send_datagram_log [OF s] n by (simp_all add: c5_def c4_def c3_def c2_def p'_def)
  then show "udpConfirmationPackets r = udpConfirmationPackets c" "udpConnected r" "p_data p \<in> set (log_udpOut r)"
    "\<exists>q. p_sent q \<and> udpSentPackets r = om_put k q (udpSentPackets c)" "set (log_udpOut c) \<subseteq> set (log_udpOut r)"
    using r by auto
qed

lemma unsent_nonneg: "0 \<le> om_sum unsent m"
  by (simp add: om_sum_def unsent_def sum_list_nonneg_int)

lemma unsent_counts: "om_ok m \<Longrightarrow> om_find m k = Some p \<Longrightarrow> \<not> p_sent p \<Longrightarrow> 0 < om_sum unsent m"
  using all_sent [of m] om_find_in_set [of m k p] by force

lemma udp_write_transmits:
  assumes inv: "send_inv 0 c" and c: "udpConnected c" "\<not> s_closeWrite (udpSocket c)" "a_sendto (answer_now os c) = None"
    and k: "om_find (udpSentPackets c) k = Some p" "\<not> p_sent p"
  shows "udpConnected (udp_write os t c)" "to_send (udp_write os t c) < to_send c"
    "p_data p \<in> set (log_udpOut (udp_write os t c)) \<or> om_find (udpSentPackets (udp_write os t c)) k = Some p"
proof -
  have ok: "om_ok (udpSentPackets c)" using inv by (simp add: send_inv_def)
  have "udpConnected (udp_write os t c) \<and> to_send (udp_write os t c) < to_send c \<and>
    (p_data p \<in> set (log_udpOut (udp_write os t c)) \<or> om_find (udpSentPackets (udp_write os t c)) k = Some p)"
  proof (cases "udpConfirmationPackets c")
    case (Cons q qs)
    have "control_frame (p_data q)" using inv Cons by (simp add: send_inv_def)
    then have "p_data q \<noteq> []" unfolding control_frame_def using frame_nonempty by metis
    moreover have "udpSentPackets c \<noteq> []" using k(1) by auto
    ultimately have "udpConfirmationPackets (udp_write os t c) = qs" "udpSentPackets (udp_write os t c) = udpSentPackets c"
      "udpConnected (udp_write os t c)"
      using write_confirmation_transmits [OF c(2,3)] c(1) Cons by (simp_all add: udp_write_def)
    then show ?thesis using k(1) Cons by (simp add: to_send_def)
  next
    case Nil
    obtain j q where j: "find (\<lambda>kp. \<not> p_sent (snd kp)) (udpSentPackets c) = Some (j, q)"
      using om_find_in_set [OF ok, of k p] k by (cases "find (\<lambda>kp. \<not> p_sent (snd kp)) (udpSentPackets c)") (auto simp: find_None_iff)
    have q: "om_find (udpSentPackets c) j = Some q" "\<not> p_sent q" using find_in_map [OF ok j] by simp_all
    have w: "udp_write os t c = write_sent_packet os t j q c" using c(1) Nil j by (simp add: udp_write_def)
    note W = write_sent_packet_transmits [OF c(2,3) sent_packet_found(1,2) [OF inv q(1)] c(1), of t j, folded w]
    obtain q' where q': "p_sent q'" "udpSentPackets (udp_write os t c) = om_put j q' (udpSentPackets c)" using W(4) by blast
    have "om_sum unsent (udpSentPackets (udp_write os t c)) = om_sum unsent (udpSentPackets c) - 1"
      using ok q q'(1) unfolding q'(2) by (simp add: unsent_def)
    then have "to_send (udp_write os t c) < to_send c" using W(1) unsent_counts [OF ok k] by (simp add: to_send_def)
    moreover have "p_data p \<in> set (log_udpOut (udp_write os t c)) \<or> om_find (udpSentPackets (udp_write os t c)) k = Some p"
      using W(3) k(1) q(1) ok unfolding q'(2) by (cases "k = j") (simp_all add: om_find_put_aux)
    ultimately show ?thesis using W(2) by blast
  qed
  then show "udpConnected (udp_write os t c)" "to_send (udp_write os t c) < to_send c"
    "p_data p \<in> set (log_udpOut (udp_write os t c)) \<or> om_find (udpSentPackets (udp_write os t c)) k = Some p" by blast+
qed

text \<open>A packet in the queue can always be put on the wire.\<close>

definition open_socket :: sock where
  "open_socket = sock_new False True True True"

lemma send_waiting:
  assumes "timed_end a" "udpConnected a" "\<not> deleted a" "om_find (udpSentPackets a) k = Some p"
  shows "\<exists>a'. timed_tunnel\<^sup>*\<^sup>* (a, b) (a', b) \<and> udpConnected a' \<and> \<not> deleted a' \<and> log_built a' = log_built a \<and>
    p_data p \<in> set (log_udpOut a')"
  using assms
proof (induction "to_send a" arbitrary: a rule: less_induct)
  case less
  show ?case
  proof (cases "p_sent p")
    case True
    then have "p_data p \<in> set (log_udpOut a)" using less.prems(1,4) by (auto simp: timed_end_def logged_def)
    then show ?thesis using less.prems(2,3) by blast
  next
    case False
    define a0 where "a0 = a\<lparr>udpSocket := open_socket\<rparr>"
    define a1 where "a1 = raise_conn_event sample_os EvUdpWrite a0"
    have inv: "send_inv 0 a" "awake a" using timed_end_parts [OF less.prems(1)] by simp_all
    have ok: "om_ok (udpSentPackets a)" using inv(1) by (simp add: send_inv_def)
    have "0 < udpPacketsToSendCount a"
      using inv(1) less.prems(2) unsent_counts [OF ok less.prems(4) False] by (simp add: send_inv_def)
    then have "ev_enabled EvUdpWrite a" using inv(2) less.prems(2) by (simp add: awake_def write_due_def)
    then have on: "ev_enabled EvUdpWrite a0" "\<not> deleted a0" using less.prems(3) by (simp_all add: a0_def ev_enabled_def)
    have s0: "timed_tunnel (a, b) (a0, b)" unfolding a0_def by (rule timed_socket_left)
    have s1: "timed_tunnel (a0, b) (a1, b)" unfolding a1_def by (rule timed_raise_left [OF on(2,1) sample_clock])
    have run: "timed_tunnel\<^sup>*\<^sup>* (a, b) (a1, b)" using s0 s1 by (meson converse_rtranclp_into_rtranclp r_into_rtranclp)
    let ?c = "ev_off EvUdpWrite a0"
    have t0: "timed_end a0" unfolding a0_def using less.prems(1) socket_life by (rule timed_end_step)
    then have "send_inv 0 ?c" using timed_end_parts(3) [OF t0] by simp
    then have c: "send_inv 0 ?c" "udpConnected ?c" "\<not> s_closeWrite (udpSocket ?c)" "a_sendto (answer_now sample_os ?c) = None"
      "om_find (udpSentPackets ?c) k = Some p"
      using less.prems(2,4) by (simp_all add: a0_def open_socket_def sock_new_def answer_now_def sample_os_def)
    have a1: "a1 = udp_write sample_os (ev a0 EvUdpWrite) ?c" by (simp add: a1_def raise_conn_event_def handle_def)
    note W = udp_write_transmits [OF c False, of "ev a0 EvUdpWrite", folded a1]
    have f: "\<not> deleted a1" "log_built a1 = log_built a" using less.prems(3) by (simp_all add: a1 a0_def)
    have "to_send ?c = to_send a" by (simp add: to_send_def a0_def)
    then have m: "to_send a1 < to_send a" using W(2) by simp
    have t: "timed_end a1" unfolding a1_def using t0 life_step.raised [OF on(2,1) sample_clock] by (rule timed_end_step)
    show ?thesis
    proof (cases "p_data p \<in> set (log_udpOut a1)")
      case True
      then show ?thesis using run W(1) f by blast
    next
      case False
      then have "om_find (udpSentPackets a1) k = Some p" using W(3) by blast
      from less.hyps [OF m t W(1) f(1) this]
      obtain a' where "timed_tunnel\<^sup>*\<^sup>* (a1, b) (a', b)" "udpConnected a'" "\<not> deleted a'" "log_built a' = log_built a1"
        "p_data p \<in> set (log_udpOut a')" by blast
      then show ?thesis using run f(2) by (metis rtranclp_trans)
    qed
  qed
qed

section \<open>Delivering\<close>

text \<open>The receiving end does not have the packet at its master index, and is not past its last one, as long as it has
  not received them all.\<close>

lemma waits_for_next:
  assumes "timed_end a" "timed_end b" "follows a b" "in_range (a, b)" "udpReceivedMasterIndex b < int (length (log_built a))"
  shows "udpReceivedMasterIndex b < udpReceivedFinalIndex b" "\<not> has b (udpReceivedMasterIndex b)"
proof -
  let ?m = "udpReceivedMasterIndex b"
  have a: "one_end a" "closing a" and b: "recv_ok b" using assms(1,2) by (simp_all add: timed_end_parts)
  show m: "?m < udpReceivedFinalIndex b"
  proof (rule ccontr)
    assume "\<not> ?m < udpReceivedFinalIndex b"
    moreover have "?m < int_max" using assms(4,5) next_index [OF a(1)] by (simp add: in_range_def)
    ultimately have "0 < ?m \<and> ended (log_built a ! nat (?m - 1))" using assms(3) by (auto simp: follows_def final_ok_def)
    moreover then have "nat (?m - 1) < length (log_built a)" using assms(5) by linarith
    ultimately have "Suc (nat (?m - 1)) = length (log_built a) \<and> 0 < ?m" using a(2) by (simp add: closing_def)
    then show False using assms(5) by linarith
  qed
  show "\<not> has b ?m" using m assms(3) by (auto simp: follows_def caught_up_def has_def)
qed

lemma advance_master_grows: "udpReceivedMasterIndex c \<le> udpReceivedMasterIndex (advance_master n c)"
proof (induction n arbitrary: c)
  case (Suc n)
  have "udpReceivedMasterIndex c \<le> udpReceivedMasterIndex (advance_master n (c\<lparr>udpReceivedMasterIndex := udpReceivedMasterIndex c + 1,
      udpReceivedFinalIndex := x\<rparr>))" for x
    using Suc.IH [of "c\<lparr>udpReceivedMasterIndex := udpReceivedMasterIndex c + 1, udpReceivedFinalIndex := x\<rparr>"] by simp
  then show ?case by (simp add: Let_def split: option.split)
qed simp

lemma store_next:
  assumes "tcpConnected c" "om_ok (udpReceivedPackets c)" "get_index p = udpReceivedMasterIndex c"
    "udpReceivedMasterIndex c < udpReceivedFinalIndex c"
  shows "udpReceivedMasterIndex c < udpReceivedMasterIndex (store_received os p c)"
proof -
  define c1 where "c1 = c\<lparr>udpReceivedPackets := om_put (get_index p) p (udpReceivedPackets c),
      udpReceiveBufferSize := udpReceiveBufferSize c + get_size p\<rparr>"
  have f: "om_find (udpReceivedPackets c1) (udpReceivedMasterIndex c) = Some p"
    using assms(2,3) by (simp add: c1_def om_find_put_aux)
  then obtain n where n: "length (udpReceivedPackets c1) = Suc n" by (cases "udpReceivedPackets c1") auto
  have i: "udpReceivedMasterIndex c1 = udpReceivedMasterIndex c" "udpReceivedFinalIndex c1 = udpReceivedFinalIndex c" by (simp_all add: c1_def)
  have "udpReceivedMasterIndex c + 1 \<le> udpReceivedMasterIndex (advance_master (length (udpReceivedPackets c1)) c1)"
    using f assms(4) i advance_master_grows [of "c1\<lparr>udpReceivedMasterIndex := udpReceivedMasterIndex c + 1, udpReceivedFinalIndex := x\<rparr>" n for x]
    by (simp add: n Let_def)
  then show ?thesis by (simp add: store_received_def Let_def c1_def [symmetric])
qed

text \<open>An open connection whose tcp side is open takes the packet it waits for.\<close>

lemma read_next:
  fixes os :: os
  assumes "tcpConnected c" "udpConnected c" "recv_ok c" "\<not> has c (udpReceivedMasterIndex c)" "udpReceivedMasterIndex c < udpReceivedFinalIndex c"
    "accepts p c" "get_type p \<noteq> Confirmation" "get_index p = udpReceivedMasterIndex c" "0 < udpSendPacketSize (par c)"
  defines "r \<equiv> udp_read os p c"
  shows "udpReceivedMasterIndex c < udpReceivedMasterIndex r" "udpConnected r" "tcpConnected r" "deleted r = deleted c"
    "tcpSocket r = tcpSocket c" "par r = par c" "udpNextSendIndex r = udpNextSendIndex c" "tcpNextSendIndex r = tcpNextSendIndex c"
proof -
  define x where "x = store_received os p c"
  define y where "y = ev_in os EvBuildConfirmations (buildConfirmationsUs (par x)) (x\<lparr>remainConfirmationResendCount := confirmationResendCount (par x)\<rparr>)"
  have x: "udpReceivedMasterIndex c < udpReceivedMasterIndex x" "udpConnected x" "tcpConnected x" "deleted x = deleted c"
    "tcpSocket x = tcpSocket c" "par x = par c" "udpNextSendIndex x = udpNextSendIndex c"
    using store_next [OF assms(1) _ assms(8,5)] assms(1,2,3) by (simp_all add: x_def recv_ok_def)
  have "om_find (udpReceivedPackets c) (get_index p) = None" using assms(4,8) by (simp add: has_def)
  then have d: "udp_dispatch os p c = y" using assms(6,7,9) by (simp add: udp_dispatch_def Let_def x_def [symmetric] y_def)
  have n: "tcpNextSendIndex x = tcpNextSendIndex c" using assms(1) by (simp add: x_def store_received_def Let_def tcp_discard_def)
  have "tcpNextSendIndex c \<le> udpReceivedMasterIndex c" using assms(3) by (simp add: recv_ok_def)
  then have "\<not> isUdpFinished y" using x n by (simp add: y_def isUdpFinished_def)
  then have r: "r = y" using assms(2) by (simp add: r_def udp_read_def d Let_def)
  show "udpReceivedMasterIndex c < udpReceivedMasterIndex r" "udpConnected r" "tcpConnected r" "deleted r = deleted c"
    "tcpSocket r = tcpSocket c" "par r = par c" "udpNextSendIndex r = udpNextSendIndex c" "tcpNextSendIndex r = tcpNextSendIndex c"
    using x n by (simp_all add: r y_def)
qed

definition flowing :: "conn \<times> conn \<Rightarrow> bool" where
  "flowing s \<longleftrightarrow> (case s of (a, b) \<Rightarrow> in_range (a, b) \<and> udpConnected a \<and> \<not> deleted a \<and> udpConnected b \<and> tcpConnected b \<and> \<not> deleted b \<and>
     \<not> s_closeWrite (tcpSocket b) \<and> 0 \<le> udpMaxReceiveBufferSize (par b))"

lemma deliver_next:
  assumes start: "timed_tunnel_start s" "timed_tunnel\<^sup>*\<^sup>* s (a, b)" and fl: "flowing (a, b)"
    and idle: "tcpNextSendIndex b = udpReceivedMasterIndex b" and more: "udpReceivedMasterIndex b < int (length (log_built a))"
  shows "\<exists>a' b'. timed_tunnel\<^sup>*\<^sup>* (a, b) (a', b') \<and> flowing (a', b') \<and> log_built a' = log_built a \<and>
    udpReceivedMasterIndex b < udpReceivedMasterIndex b' \<and> tcpNextSendIndex b' = tcpNextSendIndex b"
proof -
  let ?m = "udpReceivedMasterIndex b"
  have r: "in_range (a, b)" and c: "udpConnected a" "\<not> deleted a" "udpConnected b" "tcpConnected b" "\<not> deleted b"
    using fl by (simp_all add: flowing_def)
  note T = timed_reach [OF start r]
  note A = timed_end_parts [OF T(1)] and B = timed_end_parts [OF T(2)]
  note wait = waits_for_next [OF T r more]
  have m0: "0 \<le> ?m" using B(4) by (simp add: recv_ok_def)
  have "\<not> released a ?m" using T(3) c(1) wait(2) by (auto simp: follows_def)
  then obtain p where p: "om_find (udpSentPackets a) ?m = Some p"
    using m0 more next_index [OF A(1)] by (auto simp: released_def)
  obtain a' where a': "timed_tunnel\<^sup>*\<^sup>* (a, b) (a', b)" "udpConnected a'" "\<not> deleted a'" "log_built a' = log_built a"
      "p_data p \<in> set (log_udpOut a')"
    using send_waiting [OF T(1) c(1,2) p] by blast
  define q where "q = new_packet\<lparr>p_data := p_data p\<rparr>"
  let ?tb = "log_built a ! nat ?m"
  have tb: "?tb \<in> set (log_built a)" using m0 more by simp
  have q: "p_data q = frame (fst ?tb) ?m (snd ?tb)"
    using sent_packet_found(3) [OF A(3) p] by (simp add: q_def frame_of_def)
  have st: "stream_type (fst ?tb)" using A(3) tb by (simp add: send_inv_def)
  have i: "?m < 2 ^ 31" using more r next_index [OF A(1)] by (simp add: in_range_def int_max_def)
  have reads: "get_type q = fst ?tb" "get_index q = ?m" "check_crc32 q"
    using frame_type [OF q] frame_index [OF q] frame_crc [OF q] st m0 i by (auto simp: stream_type_def)
  have hello: "fst ?tb \<noteq> Hello \<or> ?m = 0"
  proof -
    have "nat ?m < length (log_built a)" using m0 more by linarith
    moreover have "0 < nat ?m" if "?m \<noteq> 0" using that m0 by linarith
    ultimately show ?thesis using greets_once [of a "nat ?m"] T(1) by (metis timed_end_def)
  qed
  have ps: "0 < udpSendPacketSize (par b)" using T(2) by (simp add: timed_end_def timed_inv_def paced_def timing_ok_def)
  have "0 \<le> cdiv (2 * udpMaxReceiveBufferSize (par b)) (udpSendPacketSize (par b))"
    using fl ps by (intro cdiv_sign) (simp_all add: flowing_def)
  then have acc: "accepts q b" using reads st hello wait(1) idle by (auto simp: accepts_def stream_type_def)
  have "get_type q \<noteq> Confirmation" using reads(1) st by (auto simp: stream_type_def)
  note R = read_next [OF c(4,3) B(4) wait(2,1) acc this reads(2) ps, of sample_os]
  have step: "timed_tunnel (a', b) (a', udp_read sample_os q b)"
    unfolding q_def by (rule timed_arrives [OF a'(5) c(5) _ sample_clock]) (use reads(3) in \<open>simp add: q_def\<close>)
  have run: "timed_tunnel\<^sup>*\<^sup>* (a, b) (a', udp_read sample_os q b)" using a'(1) step by (rule rtranclp.rtrancl_into_rtrancl)
  have "one_end a'" using timed_pair.run_inv [OF a'(1)] T(1,2) timed_end_parts(1) by (simp add: timed_ends_def)
  then have "udpNextSendIndex a' = udpNextSendIndex a" using a'(4) next_index [OF A(1)] by (simp add: next_index)
  then have "flowing (a', udp_read sample_os q b)" using fl a'(2,3) R by (simp add: flowing_def in_range_def)
  then show ?thesis using run a'(4) R(1,8) by blast
qed

section \<open>Writing to tcp\<close>

text \<open>A system that takes up to \<open>n\<close> bytes at once.\<close>

definition taking :: "nat \<Rightarrow> os" where
  "taking n i = \<lparr>a_time = 0, a_recv = RecvFailed EAGAIN, a_send = Took n, a_sendto = None, a_junk = 0\<rparr>"

lemma taking_clock: "clock_ok (taking n)"
  by (simp add: clock_ok_def taking_def)

lemma tcp_close_off: "\<not> tcpConnected (tcp_close os err c)"
  by (simp add: tcp_close_def Let_def split_def)

lemma write_loop_still:
  assumes "tcpConnected (write_loop (taking z) n c)"
  shows "tcpSocket (write_loop (taking z) n c) = tcpSocket c" "udpNextSendIndex (write_loop (taking z) n c) = udpNextSendIndex c"
proof -
  have "tcpConnected (write_loop (taking z) n c) \<Longrightarrow>
    tcpSocket (write_loop (taking z) n c) = tcpSocket c \<and> udpNextSendIndex (write_loop (taking z) n c) = udpNextSendIndex c"
  proof (induction n arbitrary: c)
    case (Suc n)
    have w: "tcpSocket (write_packet (taking z) k p c) = tcpSocket c" for k p
      by (auto simp: write_packet_def Let_def split_def sock_write_def answer_now_def taking_def)
    show ?case using Suc by (auto simp: Let_def w tcp_close_off split: option.splits if_splits)
  qed simp
  then show "tcpSocket (write_loop (taking z) n c) = tcpSocket c" "udpNextSendIndex (write_loop (taking z) n c) = udpNextSendIndex c"
    using assms by blast+
qed

lemma write_loop_frames:
  "udpConnected (write_loop os n c) = udpConnected c" "deleted (write_loop os n c) = deleted c" "par (write_loop os n c) = par c"
  "udpReceivedMasterIndex (write_loop os n c) = udpReceivedMasterIndex c"
  by (induction n arbitrary: c; simp add: Let_def split: option.split)+

lemma write_loop_advances:
  assumes ok: "recv_ok c" and w: "\<not> s_closeWrite (tcpSocket c)" and more: "tcpNextSendIndex c < udpReceivedMasterIndex c"
    and fits: "\<And>k p. om_find (udpReceivedPackets c) k = Some p \<Longrightarrow> get_size p \<le> int z"
  shows "tcpNextSendIndex c < tcpNextSendIndex (write_loop (taking z) (Suc n) c)"
proof -
  let ?k = "tcpNextSendIndex c"
  obtain p where p: "om_find (udpReceivedPackets c) ?k = Some p" using ok more by (auto simp: recv_ok_def)
  show ?thesis
  proof (cases "get_type p \<noteq> Data \<or> get_size p \<le> 0")
    case True
    let ?c = "finish_received ?k p (get_size p) c"
    have "?k + 1 \<le> tcpNextSendIndex (write_loop (taking z) n ?c)" "?k + 1 \<le> tcpNextSendIndex (tcp_close (taking z) False ?c)"
      using write_loop_next [of ?c "taking z" n] tcp_close_next [of ?c "taking z" False] by simp_all
    then show ?thesis using p more True by (simp add: Let_def)
  next
    case False
    have t: "sock_write (a_send (answer_now (taking z) c)) (get_size p) (tcpSocket c) = (get_size p, tcpSocket c)"
      using w fits [OF p] False by (simp add: sock_write_def answer_now_def taking_def)
    have "get_size (p\<lparr>p_data := take 9 (p_data p) @ drop (9 + nat (get_size p)) (p_data p)\<rparr>) \<le> 0"
      by (simp add: get_size_def)
    then have "tcpNextSendIndex c < tcpNextSendIndex (write_packet (taking z) ?k p c)"
      using False by (simp add: write_packet_def t Let_def)
    then show ?thesis using p more False by (simp add: Let_def)
  qed
qed

lemma found_fits: "om_find m k = Some p \<Longrightarrow> get_size p \<le> int (sum_list (map (\<lambda>kp. length (p_data (snd kp))) m))"
proof (induction m)
  case (Cons kp m)
  have "get_size q \<le> int (length (p_data q))" for q by (simp add: get_size_def)
  moreover obtain j q where "kp = (j, q)" by fastforce
  ultimately show ?case using Cons by (cases "j = k") (auto simp: add_increasing add_increasing2)
qed simp

lemma write_next:
  assumes start: "timed_tunnel_start s" "timed_tunnel\<^sup>*\<^sup>* s (a, b)" and fl: "flowing (a, b)"
    and more: "tcpNextSendIndex b < udpReceivedMasterIndex b"
  shows "\<exists>b'. timed_tunnel (a, b) (a, b') \<and> udpReceivedMasterIndex b' = udpReceivedMasterIndex b \<and>
    (flowing (a, b') \<and> tcpNextSendIndex b < tcpNextSendIndex b' \<or> log_tcpOut b' = stream_of (log_built a))"
proof -
  have r: "in_range (a, b)" and c: "tcpConnected b" "\<not> deleted b" "\<not> s_closeWrite (tcpSocket b)" using fl by (simp_all add: flowing_def)
  note T = timed_reach [OF start r]
  note A = timed_end_parts [OF T(1)] and B = timed_end_parts [OF T(2)]
  define z where "z = sum_list (map (\<lambda>kp. length (p_data (snd kp))) (udpReceivedPackets b))"
  let ?c = "ev_off EvTcpWrite b"
  define b' where "b' = raise_conn_event (taking z) EvTcpWrite b"
  obtain n where n: "write_turns ?c = Suc n" using more by (cases "write_turns ?c") (simp_all add: write_turns_def)
  have b': "b' = write_loop (taking z) (Suc n) ?c" using c(1) n by (simp add: b'_def raise_conn_event_def handle_def tcp_write_def)
  have "ev_enabled EvTcpWrite b" using B(2) c(1) more by (simp add: awake_def tcp_due_def)
  then have step: "timed_tunnel (a, b) (a, b')" unfolding b'_def by (rule timed_raise_right [OF c(2) _ taking_clock])
  have adv: "tcpNextSendIndex b < tcpNextSendIndex b'"
    using write_loop_advances [of ?c z n] B(4) c(3) more found_fits [of "udpReceivedPackets b"] by (simp add: b' z_def)
  note f = write_loop_frames [of "taking z" "Suc n" ?c, folded b']
  have "flowing (a, b') \<or> log_tcpOut b' = stream_of (log_built a)"
  proof (cases "tcpConnected b'")
    case True
    then show ?thesis using fl f write_loop_still [of z "Suc n" ?c, folded b'] by (simp add: flowing_def in_range_def)
  next
    case False
    have "follows a ?c" using T(3) by (simp add: follows_right_frame)
    then have "receives_stream (log_built a) ?c" by (simp add: follows_def)
    moreover have "Suc i = length (log_built a)" if "i < length (log_built a)" "ended (log_built a ! i)" for i
      using A(5) that by (simp add: closing_def)
    ultimately show ?thesis using write_loop_closes [of ?c "log_built a" "taking z" "Suc n"] B(4) c(1) False by (simp add: b')
  qed
  moreover have "udpReceivedMasterIndex b' = udpReceivedMasterIndex b" using f(4) by simp
  ultimately show ?thesis using step adv by blast
qed

section \<open>No dead end\<close>

lemma all_written:
  assumes "timed_end a" "timed_end b" "follows a b" "tcpConnected b"
    "tcpNextSendIndex b = udpReceivedMasterIndex b" "int (length (log_built a)) \<le> udpReceivedMasterIndex b"
  shows "log_tcpOut b = stream_of (log_built a)"
proof -
  obtain used where "written (log_built a) b used" using assms(3,4) by (auto simp: follows_def receives_stream_def)
  then have "log_tcpOut b = stream_of (log_built a) @ used" using assms(5,6) by (simp add: written_def)
  moreover have "prefix (log_tcpOut b) (stream_of (log_built a))" using assms(3) by (simp add: follows_def receives_stream_def)
  ultimately show ?thesis by simp
qed

lemma flows_on:
  assumes "timed_tunnel_start s" "timed_tunnel\<^sup>*\<^sup>* s (a, b)" "flowing (a, b)"
  shows "\<exists>a' b'. timed_tunnel\<^sup>*\<^sup>* (a, b) (a', b') \<and> log_built a' = log_built a \<and> log_tcpOut b' = stream_of (log_built a)"
  using assms
proof (induction "nat (2 * int (length (log_built a)) - tcpNextSendIndex b - udpReceivedMasterIndex b)" arbitrary: a b rule: less_induct)
  case less
  have r: "in_range (a, b)" and c: "tcpConnected b" using less.prems(3) by (simp_all add: flowing_def)
  note T = timed_reach [OF less.prems(1,2) r]
  have m: "tcpNextSendIndex b \<le> udpReceivedMasterIndex b" using timed_end_parts(4) [OF T(2)] by (simp add: recv_ok_def)
  have l: "udpReceivedMasterIndex b \<le> int (length (log_built a))" using T(3) by (simp add: follows_def receives_stream_def from_list_def)
  consider (behind) "tcpNextSendIndex b < udpReceivedMasterIndex b"
    | (wait) "tcpNextSendIndex b = udpReceivedMasterIndex b" "udpReceivedMasterIndex b < int (length (log_built a))"
    | (full) "tcpNextSendIndex b = udpReceivedMasterIndex b" "int (length (log_built a)) \<le> udpReceivedMasterIndex b"
    using m by linarith
  then show ?case
  proof cases
    case behind
    obtain b' where b': "timed_tunnel (a, b) (a, b')" "udpReceivedMasterIndex b' = udpReceivedMasterIndex b"
        "flowing (a, b') \<and> tcpNextSendIndex b < tcpNextSendIndex b' \<or> log_tcpOut b' = stream_of (log_built a)"
      using write_next [OF less.prems behind] by blast
    show ?thesis
    proof (cases "log_tcpOut b' = stream_of (log_built a)")
      case True
      then show ?thesis using b'(1) by blast
    next
      case False
      then have f: "flowing (a, b')" "tcpNextSendIndex b < tcpNextSendIndex b'" using b'(3) by simp_all
      have run: "timed_tunnel\<^sup>*\<^sup>* s (a, b')" using less.prems(2) b'(1) by (rule rtranclp.rtrancl_into_rtrancl)
      have less': "nat (2 * int (length (log_built a)) - tcpNextSendIndex b' - udpReceivedMasterIndex b')
          < nat (2 * int (length (log_built a)) - tcpNextSendIndex b - udpReceivedMasterIndex b)"
        using f(2) b'(2) m l behind by linarith
      show ?thesis using less.hyps [OF less' less.prems(1) run f(1)] b'(1) by (meson converse_rtranclp_into_rtranclp)
    qed
  next
    case wait
    obtain a' b' where d: "timed_tunnel\<^sup>*\<^sup>* (a, b) (a', b')" "flowing (a', b')" "log_built a' = log_built a"
        "udpReceivedMasterIndex b < udpReceivedMasterIndex b'" "tcpNextSendIndex b' = tcpNextSendIndex b"
      using deliver_next [OF less.prems wait] by blast
    have run: "timed_tunnel\<^sup>*\<^sup>* s (a', b')" using less.prems(2) d(1) by (rule rtranclp_trans)
    have less': "nat (2 * int (length (log_built a')) - tcpNextSendIndex b' - udpReceivedMasterIndex b')
        < nat (2 * int (length (log_built a)) - tcpNextSendIndex b - udpReceivedMasterIndex b)"
      using d(3-5) m l wait by simp
    show ?thesis using less.hyps [OF less' less.prems(1) run d(2)] d(1,3) by (metis rtranclp_trans)
  next
    case full
    then show ?thesis using all_written [OF T c] by blast
  qed
qed

text \<open>What was read from tcp but is not in packets yet goes into packets first.\<close>

lemma build_loop_count:
  "udpNextSendIndex (snd (build_loop os flush psize rest c)) \<le> udpNextSendIndex c + int (length rest)"
proof -
  let ?Q = "\<lambda>r x. udpNextSendIndex x + int (length r) \<le> udpNextSendIndex c + int (length rest)"
  have "?Q (fst (build_loop os flush psize rest c)) (snd (build_loop os flush psize rest c))"
    by (rule build_loop_invariant [where Q = ?Q]) (auto simp: enqueue_packet_def Let_def)
  then show ?thesis by linarith
qed

lemma pack_all:
  assumes "timed_end a" "udpConnected a" "\<not> deleted a" "\<not> peer_finished a"
  shows "\<exists>a'. timed_tunnel\<^sup>*\<^sup>* (a, b) (a', b) \<and> udpConnected a' \<and> \<not> deleted a' \<and> stream_of (log_built a') = log_tcpIn a \<and>
    udpNextSendIndex a' \<le> udpNextSendIndex a + int (length (tcpReceivedData a))"
proof (cases "tcpReceivedData a = []")
  case True
  have "stream_of (log_built a) = log_tcpIn a"
    using timed_end_parts(1) [OF assms(1)] assms(2,4) True by (simp add: one_end_def sends_stream_def)
  then show ?thesis using assms(2,3) by auto
next
  case False
  let ?c = "ev_off EvBuildUdpPackets a"
  define a' where "a' = raise_conn_event sample_os EvBuildUdpPackets a"
  have "ev_enabled EvBuildUdpPackets a" using timed_end_parts(2) [OF assms(1)] assms(2) False by (simp add: awake_def pack_due_def)
  note on = assms(3) this sample_clock
  have step: "timed_tunnel (a, b) (a', b)" unfolding a'_def using on by (rule timed_raise_left)
  have t: "timed_end a'" unfolding a'_def using assms(1) life_step.raised [OF on] by (rule timed_end_step)
  have e: "a' = build_udp_packets sample_os True ?c" by (simp add: a'_def raise_conn_event_def handle_def)
  have ps: "0 < udpSendPacketSize (par a)" using assms(1) by (simp add: timed_end_def timed_inv_def paced_def timing_ok_def)
  have d: "tcpReceivedData a' = []" "udpNextSendIndex a' \<le> udpNextSendIndex a + int (length (tcpReceivedData a))"
    using assms(2,4) ps build_loop_all [OF ps, of sample_os "tcpReceivedData a" ?c]
      build_loop_count [of sample_os True "udpSendPacketSize (par a)" "tcpReceivedData a" ?c]
    by (auto simp: e build_udp_packets_def Let_def split_def peer_finished_def)
  have f: "udpConnected a'" "\<not> deleted a'" "\<not> peer_finished a'" "log_tcpIn a' = log_tcpIn a"
    using assms(2-4) by (simp_all add: e peer_finished_def)
  have "stream_of (log_built a') = log_tcpIn a'"
    using timed_end_parts(1) [OF t] f d(1) by (simp add: one_end_def sends_stream_def)
  then show ?thesis using step f d(2) by auto
qed


text \<open>A run on which this is applied: the sending end reads two bytes, and nothing has been sent yet.\<close>

definition reader1 :: conn where
  "reader1 = raise_conn_event sample_os EvTcpRead end0"

lemma end0_reads: "ev_enabled EvTcpRead end0" "tcpSocket end0 = sock_new True True True True" "udpReceivedMasterIndex end0 \<noteq> udpReceivedFinalIndex end0"
  "tcpReceivedData end0 = []" "udpSendIntervalUs end0 = 1000"
proof -
  have on: "0 \<le> ev (ev_in sample_os EvTcpRead 0 c) EvTcpRead" for c by (simp add: ev_in_enabled [OF sample_clock, unfolded ev_enabled_def])
  have "ev_enabled EvTcpRead (on_sent_buffer_changed sample_os n c)"
    if "udpSendIntervalUs c = 1000" "par c = sample_params" "\<exists>q. udpSentPackets c = [(0, q)]" for c n
    using that on by (auto simp: on_sent_buffer_changed_def Let_def ev_enabled_def sample_params_def answer_now_def sample_os_def)
  then show "ev_enabled EvTcpRead end0"
    by (simp add: end0_def conn_new_def Let_def split_def ev_enabled_def)
      (simp add: enqueue_packet_def Let_def)
  show "tcpSocket end0 = sock_new True True True True" "udpReceivedMasterIndex end0 \<noteq> udpReceivedFinalIndex end0"
    "tcpReceivedData end0 = []" "udpSendIntervalUs end0 = 1000"
    by (simp_all add: end0_def conn_new_def Let_def split_def sample_host_def int_max_def)
qed

lemma reader1_state:
  "log_tcpIn reader1 = [104, 105]" "tcpReceivedData reader1 = [104, 105]" "udpNextSendIndex reader1 = 1" "udpConnected reader1"
  "\<not> deleted reader1" "\<not> peer_finished reader1"
proof -
  let ?c = "ev_off EvTcpRead end0"
  define c1 where "c1 = (tick ?c)\<lparr>tcpSocket := sock_new True True True True, log_tcpIn := [104, 105],
      statTcpReceived := statTcpReceived (tick ?c) + 2, tcpReceivedData := [104, 105]\<rparr>"
  have b: "build_loop sample_os False (udpSendPacketSize (par c1)) [104, 105] c1 = ([104, 105], c1)"
    by (rule build_loop_stop) (simp add: c1_def end0_state sample_params_def)
  have "sock_read (a_recv (answer_now sample_os ?c)) (udpSendPacketSize (par ?c)) (tcpSocket ?c) = ([104, 105], tcpSocket end0)"
    by (simp add: sock_read_def end0_reads sock_new_def answer_now_def sample_os_def end0_state sample_params_def)
  then have r: "reader1 = on_sent_buffer_changed sample_os 0 (build_udp_packets sample_os False c1)"
    by (simp add: reader1_def raise_conn_event_def handle_def tcp_read_def end0_state end0_reads Let_def c1_def)
  have c1: "udpConnected c1" "udpReceivedFinalIndex c1 \<noteq> udpReceivedMasterIndex c1" "tcpReceivedData c1 = [104, 105]"
    using end0_reads(3) by (simp_all add: c1_def end0_state)
  have "tcpReceivedData (build_udp_packets sample_os False c1) = [104, 105]" "udpNextSendIndex (build_udp_packets sample_os False c1) = udpNextSendIndex c1"
    using c1 b by (simp_all add: build_udp_packets_def Let_def)
  then show "log_tcpIn reader1 = [104, 105]" "tcpReceivedData reader1 = [104, 105]" "udpNextSendIndex reader1 = 1" "udpConnected reader1"
    "\<not> deleted reader1" "\<not> peer_finished reader1"
    using c1 by (simp_all add: r peer_finished_def) (simp_all add: c1_def end0_state)
qed


end
