(* ===== verification/Manager_View.thy ===== *)
theory Manager_View
  imports Server_Step
begin

text \<open>
  The model of the server does not follow the lists of the event manager through every call a handler makes: after a
  handler \<open>update_view\<close> sets them from the state of the server, in an order that is a parameter. Here is why
  this describes the code: whatever calls of the event interface a handler makes, if they leave the events as the
  state of the server has them, then the lists they leave are those of \<open>update_view\<close> for some value of the parameters.
\<close>

section \<open>Every order is a shuffle\<close>

lemma deal_apart:
  assumes "\<forall>e\<in>set es. pos e < length bs \<and> bs ! pos e = []" "inj_on pos (set es)" "distinct es"
    "\<forall>j<length es. rnd (k + j) = pos (es ! j)"
  shows "length (deal rnd es k bs) = length bs" "\<forall>e\<in>set es. deal rnd es k bs ! pos e = [e]"
    "\<forall>i<length bs. i \<notin> pos ` set es \<longrightarrow> deal rnd es k bs ! i = bs ! i"
proof -
  have "length (deal rnd es k bs) = length bs \<and> (\<forall>e\<in>set es. deal rnd es k bs ! pos e = [e]) \<and>
    (\<forall>i<length bs. i \<notin> pos ` set es \<longrightarrow> deal rnd es k bs ! i = bs ! i)"
    using assms
  proof (induction es arbitrary: k bs)
    case (Cons e es)
    let ?bs = "bs[pos e := [e]]"
    have p: "pos e < length bs" "bs ! pos e = []" "rnd k = pos e" using Cons.prems(1,4) by auto
    then have d: "deal rnd (e # es) k bs = deal rnd es (k + 1) ?bs" by simp
    have apart: "pos e \<notin> pos ` set es" using Cons.prems(2,3) by simp
    have "rnd (k + 1 + j) = pos (es ! j)" if "j < length es" for j
      using Cons.prems(4)[rule_format, of "Suc j"] that by simp
    moreover have "\<forall>x\<in>set es. pos x < length ?bs \<and> ?bs ! pos x = []" 
      using Cons.prems(1) apart by (simp add: nth_list_update image_iff)
    ultimately have IH: "length (deal rnd es (k + 1) ?bs) = length ?bs" "\<forall>x\<in>set es. deal rnd es (k + 1) ?bs ! pos x = [x]"
      "\<forall>i<length ?bs. i \<notin> pos ` set es \<longrightarrow> deal rnd es (k + 1) ?bs ! i = ?bs ! i"
      using Cons.IH [of ?bs "k + 1"] Cons.prems(2,3) by auto
    show ?case unfolding d using IH p apart by auto
  qed simp
  then show "length (deal rnd es k bs) = length bs" "\<forall>e\<in>set es. deal rnd es k bs ! pos e = [e]"
    "\<forall>i<length bs. i \<notin> pos ` set es \<longrightarrow> deal rnd es k bs ! i = bs ! i" by blast+
qed

lemma shuffle_reaches:
  assumes "distinct es" "distinct ys" "set ys = set es"
  shows "\<exists>rnd. shuffle_events rnd (length es) es = ys"
proof -
  have len: "length ys = length es" using assms by (metis distinct_card)
  define pos where "pos e = (THE i. i < length ys \<and> ys ! i = e)" for e
  have pos: "pos (ys ! i) = i" if "i < length ys" for i
    unfolding pos_def using that assms(2) by (intro the_equality) (auto simp: nth_eq_iff_index_eq)
  have at: "pos e < length ys \<and> ys ! pos e = e" if "e \<in> set es" for e
    using that assms(3) pos by (metis in_set_conv_nth)
  let ?d = "deal (\<lambda>k. pos (es ! k)) es 0 (replicate (length es) [])"
  have D: "length ?d = length es" "\<forall>e\<in>set es. ?d ! pos e = [e]"
    using deal_apart [of es pos "replicate (length es) []" "\<lambda>k. pos (es ! k)" 0] assms(1) at len
    by (auto simp: inj_on_def) (metis at)+
  have "?d = map (\<lambda>y. [y]) ys"
  proof (rule nth_equalityI)
    fix i assume "i < length ?d"
    then have i: "i < length ys" using D(1) len by simp
    then have "ys ! i \<in> set es" using assms(3) nth_mem by blast
    then show "?d ! i = map (\<lambda>y. [y]) ys ! i" using D(2) pos [OF i] i by force
  qed (simp add: D(1) len)
  then have "shuffle_events (\<lambda>k. pos (es ! k)) (length es) es = concat (map (\<lambda>y. [y]) ys)" by (simp add: shuffle_events_def)
  then show ?thesis by auto
qed

section \<open>Calls keep the order of the events that are raised\<close>

definition thins :: "'z mgr_scheme \<Rightarrow> 'z mgr_scheme \<Rightarrow> bool" where
  "thins m m' \<longleftrightarrow> (\<exists>P. m_listRaise m' = filter P (m_listRaise m))"

lemma thins_refl [simp]: "thins m m"
  unfolding thins_def by (rule exI [of _ "\<lambda>e. True"]) simp

lemma thins_trans: "thins m m1 \<Longrightarrow> thins m1 m2 \<Longrightarrow> thins m m2"
  unfolding thins_def by (metis filter_filter)

lemma thins_same: "m_listRaise m' = m_listRaise m \<Longrightarrow> thins m m'"
  unfolding thins_def by (rule exI [of _ "\<lambda>e. True"]) simp

lemma thins_removeAll: "m_listRaise m' = removeAll e (m_listRaise m) \<Longrightarrow> thins m m'"
  unfolding thins_def by (auto simp: removeAll_filter_not_eq)

lemma thins_update: "thins m (update_ready e m')" if "m_listRaise m' = m_listRaise m"
  using that by (cases "listed (m_event m' e)") (auto simp: update_ready_def intro: thins_same thins_removeAll)

lemma thins_set_time: "thins m (set_time e t f m)"
  by (simp add: set_time_def Let_def thins_update)

lemma thins_set_ready: "thins m (set_ready e v m)"
  by (simp add: set_ready_def thins_update)

lemma thins_set_readys: "thins m (fold (\<lambda>e. set_ready e v) es m)"
  by (induction es arbitrary: m) (simp, metis fold_simps(2) thins_set_ready thins_trans)

lemma thins_unlink: "thins m (unlink_event e m)"
  by (rule thins_removeAll [of _ e]) (simp add: unlink_event_def)

lemma thins_frame: "m_listRaise m1 = m_listRaise m1' \<Longrightarrow> thins m m1 \<Longrightarrow> thins m m1'"
  by (simp add: thins_def)

lemma run_call_thins: "thins m (run_call c m)"
proof (cases c)
  case (CallInit e p)
  have "thins m (set_event e ((m_event (unlink_event e m) e)\<lparr>e_managed := True, e_priority := p\<rparr>) (unlink_event e m))"
    by (rule thins_frame [OF _ thins_unlink]) simp
  then show ?thesis using thins_trans [OF _ thins_set_ready] CallInit by (simp add: run_call_def init_event_def Let_def)
next
  case (CallInitSource e s p)
  show ?thesis unfolding CallInitSource run_call_def event_call.case init_event_source_def Let_def
    by (rule thins_trans [OF _ thins_set_ready], rule thins_frame [OF _ thins_unlink]) simp
next
  case (CallSource s v)
  have "thins m (fold (\<lambda>e. set_ready e v) (m_sourceList m s) (m\<lparr>m_sourceReady := (m_sourceReady m)(s := v)\<rparr>))"
    by (rule thins_trans [OF _ thins_set_readys]) (rule thins_same, simp)
  then show ?thesis using CallSource by (simp add: run_call_def source_set_ready_def)
qed (simp_all add: run_call_def thins_set_time thins_unlink)

lemma run_calls_thin: "thins m (fold run_call cs m)"
  by (induction cs arbitrary: m) (simp, metis fold_simps(2) run_call_thins thins_trans)

section \<open>What the calls of a handler leave\<close>

text \<open>The manager's lists may be taken from the state of the server: whatever sequence of calls of the event
  interface a handler makes, when it leaves the events as the new state of the server has them, the lists it
  leaves are those \<open>update_view\<close> gives, for some order of the ready list and some set of events that left the round.\<close>

lemma view_follows_calls:
  fixes m :: server_mgr
  assumes "mgr_ok m" "m_event (fold run_call calls m) = view s"
  shows "\<exists>order leave. m_event (update_view order leave s m) = m_event (fold run_call calls m) \<and>
    m_listReady (update_view order leave s m) = m_listReady (fold run_call calls m) \<and>
    m_listRaise (update_view order leave s m) = m_listRaise (fold run_call calls m)"
proof -
  let ?m = "fold run_call calls m"
  have ok: "distinct (m_listReady ?m)" "\<And>i. i \<in> set (m_listReady ?m) \<longleftrightarrow> listed (view s i)"
    "set (m_listRaise ?m) \<subseteq> set (m_listReady ?m)"
    using run_calls [OF assms(1), of calls] assms(2) listed_managed by (auto simp: mgr_ok_def ready_ok_def)
  have "set (m_listReady ?m) = set (listed_ids s)" using ok(2) listed_ids_set by blast
  from shuffle_reaches [OF listed_ids_distinct ok(1) this]
  obtain order where order: "shuffle_events order (length (listed_ids s)) (listed_ids s) = m_listReady ?m" by blast
  obtain P where P: "m_listRaise ?m = filter P (m_listRaise m)" using run_calls_thin [of m calls] by (auto simp: thins_def)
  have "filter (\<lambda>i. listed (view s i) \<and> i \<notin> {i. \<not> P i}) (m_listRaise m) = m_listRaise ?m"
    unfolding P by (rule filter_cong) (use ok(2,3) P in auto)
  then show ?thesis using order assms(2) by (intro exI [of _ order] exI [of _ "{i. \<not> P i}"]) (simp add: update_view_def)
qed

section \<open>A sample call\<close>

text \<open>The read event of the listener of \<open>serve2\<close> is disabled, as \<^verbatim>\<open>Event::raise\<close> does before its handler runs.\<close>

definition quiet2 :: server where
  "quiet2 = serve2\<lparr>udpListeners := [(1, ready1\<lparr>ul_evRead := -1\<rparr>)]\<rparr>"

lemma event_at_17: "event_at j = UdpEvent 1 ListenerRead \<longleftrightarrow> j = 17"
proof
  assume e: "event_at j = UdpEvent 1 ListenerRead"
  then have d: "j div 15 = 1" using event_at_object [of j] by simp
  have "distinct (member_events 1)" "member_events 1 ! 2 = UdpEvent 1 ListenerRead"
    by (simp_all add: member_events_def conn_events_def distinct_map inj_on_def)
  then have "j mod 15 = 2" using e d nth_eq_iff_index_eq [of "member_events 1" "j mod 15" 2] by (simp add: event_at_def)
  then show "j = 17" using d by presburger
qed (simp add: event_at_def member_events_def)

lemma quiet2_view: "m_event (fold run_call [CallSetTime 17 (-1) True] (start_mgr serve2)) = view quiet2"
proof
  fix j
  have "event_of quiet2 x = (if x = UdpEvent 1 ListenerRead then (event_of serve2 x)\<lparr>e_timeUs := -1\<rparr> else event_of serve2 x)" for x
    by (cases x) (auto simp: event_of_def quiet2_def serve2_parts listener_priority_def split: listener_event.splits option.splits)
  then have "view quiet2 j = (if j = 17 then (view serve2 j)\<lparr>e_timeUs := -1\<rparr> else view serve2 j)"
    using event_at_17 [of j] by (simp add: view_def)
  then show "m_event (fold run_call [CallSetTime 17 (-1) True] (start_mgr serve2)) j = view quiet2 j"
    by (auto simp: run_call_def set_time_def Let_def start_mgr_def update_view_def)
qed

lemma view_follows_calls_witness:
  "\<exists>order leave. m_listReady (update_view order leave quiet2 (start_mgr serve2)) =
     m_listReady (fold run_call [CallSetTime 17 (-1) True] (start_mgr serve2))"
proof -
  have "mgr_ok (start_mgr serve2)" using start_mgr_synced by (simp add: synced_def)
  from view_follows_calls [OF this quiet2_view] show ?thesis by blast
qed

end
