(* ===== verification/Spec2Isabelle.thy ===== *)
theory Spec2Isabelle
  imports Ordered_Map Crc32 Varint Packets Doubles Event_Links Event_Manager Sockets
    Conn_State Conn_Ops Conn_Frames Conn_Receive Conn_Send Confirmations Streams Acknowledgements
    Conn_Runs Transitions Tunnel Conn_Life Rate Addresses Server Server_Speed Server_Registry
    Server_Runs Two_Servers Command_Line Sockets_Win Sockets_Win_Group Socket_Group
    Addresses_Win Log Platform Server_Step Program
    Byte_Queue Test_Clients Pacing Wakeups Liveness Stranded Delivery No_Dead_End
    Manager_View
begin

text \<open>
  Verification of icetunnel, a program that carries tcp connections over udp. On the client side a
  \<^verbatim>\<open>TcpListener\<close> accepts tcp connections and gives each a \<^verbatim>\<open>UdpListener\<close> of its own; on the server side one
  \<^verbatim>\<open>UdpListener\<close> opens a tcp connection for every address that sends it a packet of a stream. Both sides are the same
  class \<^verbatim>\<open>Connection\<close>: it cuts what it reads from tcp into numbered packets, sends them at a rate it measures,
  resends them until they are confirmed, and puts the packets it receives into order before it writes them to tcp.

  \<^bold>\<open>Parts and theories.\<close>

  \<^item> \<open>Prelude\<close>, \<open>Ordered_Map\<close>: types of bytes and times, C++ division, shared lemmas; \<^verbatim>\<open>std::map\<close> and \<^verbatim>\<open>std::set\<close> as
    key-ordered association lists, behind the locales \<open>finite_map\<close> and \<open>ordered_map\<close>.
  \<^item> \<open>Crc32\<close>, \<open>Varint\<close>, \<open>Packets\<close>: \<^verbatim>\<open>src/packet.cpp\<close>, \<^verbatim>\<open>src/packet.h\<close>. The table-driven checksum equals a bitwise
    reference and detects bursts; the pair code round-trips (locale \<open>pair_codec\<close>); the layout of a datagram, with
    \<open>encode\<close> read back by every accessor.
  \<^item> \<open>Event_Links\<close>, \<open>Event_Manager\<close>: \<^verbatim>\<open>src/event.cpp\<close>. The intrusive lists are modelled on their pointers and refined
    to abstract lists (locale \<open>list_store\<close>); above them events, sources and the manager's round, whose handlers are a
    parameter under the contract \<open>event_handler\<close>, discharged for every sequence of calls of the event interface.
  \<^item> \<open>Sockets\<close>: \<^verbatim>\<open>src/socket.h\<close>, \<^verbatim>\<open>src/socket.linux.cpp\<close>. State and life cycle of a socket; the outcome of a system call
    is an argument.
  \<^item> \<open>Socket_Group\<close>: the epoll group of \<^verbatim>\<open>src/socket.linux.cpp\<close>. The pointers epoll holds are those of the open sockets.
  \<^item> \<open>Sockets_Win\<close>, \<open>Sockets_Win_Group\<close>: \<^verbatim>\<open>src/socket.win.cpp\<close>. Each operation does to the state of a socket what its
    counterpart in \<open>Sockets\<close> does, and removes the entry of a socket that closes (locale \<open>socket_op\<close>, interpreted for
    every operation). From this: the two vectors of the group stay aligned, a poll updates sockets as on Linux, and
    where it does not.
  \<^item> \<open>Addresses\<close>: \<^verbatim>\<open>src/address.cpp\<close>, \<^verbatim>\<open>src/address.linux.cpp\<close>. The order that makes addresses keys of a map
    (an instance of \<open>linorder\<close>), and the conversion from and to text; the resolver is a parameter. \<open>Addresses_Win\<close>: \<^verbatim>\<open>src/address.win.cpp\<close>.
  \<^item> \<open>Conn_State\<close>, \<open>Conn_Ops\<close>: \<^verbatim>\<open>src/connection.h\<close>, \<^verbatim>\<open>src/connection.cpp\<close>. The record \<open>conn\<close> has the fields of the
    class, one definition per method or loop. Below it the record \<open>host\<close>: what a connection shares with the process.
    \<open>Doubles\<close> is the arithmetic of the rate controller, IEEE binary64 on rationals.
  \<^item> \<open>Conn_Frames\<close>, \<open>Conn_Receive\<close>, \<open>Conn_Send\<close>, \<open>Confirmations\<close>, \<open>Streams\<close>, \<open>Acknowledgements\<close>, \<open>Conn_Runs\<close>: what
    the operations keep: the receiving half (\<open>recv_ok\<close>), the sending half (\<open>send_inv\<close>), what confirmations say,
    the byte streams (\<open>sends_stream\<close>, \<open>receives_stream\<close>), why a packet may be forgotten, how a stream ends.
  \<^item> \<open>Transitions\<close>: the locales \<open>invariant_system\<close> and \<open>bounded_system\<close>, by which properties of reachable states are
    proved. They are interpreted on the tunnel, on a connection by itself, and on the server.
  \<^item> \<open>Tunnel\<close>: two connections and a network that loses, repeats and reorders datagrams. Delivery in order, delivery
    of everything that is confirmed, no loss, orderly close, progress.
  \<^item> \<open>Conn_Life\<close>, \<open>Rate\<close>: one connection against any peer. Exact accounts, receive window, close event, resending;
    the interval the rate controller chooses.
  \<^item> \<open>Pacing\<close>, \<open>Wakeups\<close>, \<open>Liveness\<close>, \<open>Stranded\<close>: which events an operation of a connection may switch, and from this
    that no wake-up is lost: what is left to send, to resend, to confirm or to write always has its event scheduled, and
    a connection that is not deleted always has an event that carries its end on. The one exception, a ByeBye that comes
    too early, is reached in a concrete run, and the connection then stays for ever.
  \<^item> \<open>Delivery\<close>, \<open>No_Dead_End\<close>: the tunnel with clocks. From every state in which both udp sides and the receiving tcp
    side are open, whatever was lost before, there is a run after which all that was read at one end is written at the
    other: what is due can be sent, what was sent can arrive, what arrived can be written.
  \<^item> \<open>Server\<close>, \<open>Server_Speed\<close>, \<open>Server_Registry\<close>, \<open>Server_Runs\<close>: \<^verbatim>\<open>src/server.cpp\<close>, \<^verbatim>\<open>src/server.h\<close>. The record
    \<open>server\<close> with its listeners and connections, one definition per method and per branch of a handler; a method of a
    connection runs on the state it shares with the server (\<open>load_conn\<close>, \<open>store_shared\<close>). The pointers between
    listeners and connections agree, each connection refines the system of \<open>Conn_Life\<close>, the summary interval is a sum,
    the destructor ends; what a datagram does; the interval of a new connection.
  \<^item> \<open>Server_Step\<close>: \<^verbatim>\<open>Server::begin\<close>, \<^verbatim>\<open>step\<close>, \<^verbatim>\<open>run\<close>. The manager of \<open>Event_Manager\<close> raises the events of the server
    (an interpretation of \<open>event_handler\<close>), then the sockets are polled. A step is a sequence of the actions of the
    server, raises events that are due and of the highest priority, and sleeps until the next one. \<open>Manager_View\<close>: why the lists
    of the manager may be set from the state of the server after each handler.
  \<^item> \<open>Two_Servers\<close>: the steps of two whole servers interleaved, with the datagrams between them. A connection of one and
    a connection of the other that hear from each other move as the pair of \<open>Tunnel\<close> does, from creation to deletion.
  \<^item> \<open>Command_Line\<close>: \<^verbatim>\<open>src/main.cpp\<close>. The table of parameters, the help and \<open>init\<close>, which amounts to a stable sort of the
    command line by the order of the table.
  \<^item> \<open>Log\<close>, \<open>Platform\<close>: \<^verbatim>\<open>src/log.cpp\<close>, \<^verbatim>\<open>src/platform.linux.cpp\<close>, \<^verbatim>\<open>src/platform.win.cpp\<close>. The lines of the log with
    their dates; the clocks of both systems, which agree; the requests to the Windows service.
  \<^item> \<open>Program\<close>: \<^verbatim>\<open>main\<close> on both systems. The command line, the main loop or the service, and the destructor, from a
    list of arguments to the exit: every state in between is a reachable one.
  \<^item> \<open>Byte_Queue\<close>, \<open>Test_Clients\<close>: \<^verbatim>\<open>src/test\<close>. The queue of bytes refines a list (locale \<open>byte_queue\<close>); the clients
    and servers of the tests keep the order of the bytes; what a benchmark server answers a benchmark client accepts.

  \<^bold>\<open>How the program is modelled.\<close> State is a record that operations return updated. Everything outside the process is an
  oracle \<open>os\<close>: the answers of the clock and of system calls, read one after the other; \<open>h_tick\<close> counts them. The
  fields \<open>log_tcpIn\<close>, \<open>log_tcpOut\<close>, \<open>log_udpOut\<close> and \<open>log_built\<close> record what crossed the boundary; no operation reads
  them. Undefined behaviour is visible: the field \<open>fault\<close> (division by zero, conversion of a double out of range), the
  oracle's \<open>a_junk\<close> (a read behind the end of a map in \<^verbatim>\<open>onUdpSentBufferChanged\<close>), and \<open>None\<close> (reading \<^verbatim>\<open>argv\<close> behind
  its end). A pointer to a heap object is a natural number; the premise of a step that allocates is that the
  number is free.

  \<^bold>\<open>Bounds and fuel.\<close> \<^verbatim>\<open>unsigned int\<close> values are words of 32 bits. The fields of C++ type \<^verbatim>\<open>int\<close> and \<^verbatim>\<open>long long\<close>
  are unbounded integers: the properties of the tunnel assume \<open>in_range\<close>, fewer than \<open>2 ^ 31\<close> packets in each direction
  (packet numbers are the only counters of a connection that grow without a bound), those on the rate state the ranges
  they need. These loops carry fuel that is enough by construction: \<open>write_loop\<close> and \<open>discard_loop\<close> take one turn for each
  packet below the master index (\<open>write_turns\<close>), \<open>advance_master\<close> one for each packet held, and the loops of the
  destructor one for each object; \<open>check_answer\<close> of the test clients takes one for each byte read. The theorems on these
  operations show that the loops have stopped where the code's stop. All other loops are structural, run over a list of
  outcomes, or have a termination proof.

  \<^bold>\<open>Hypotheses on the outside.\<close> \<open>genuine\<close> in \<open>Two_Servers\<close>: a datagram with a right checksum that reaches a connection
  from the address of its peer was sent by the peer. Other datagrams may arrive at any time, and datagrams may be lost,
  repeated and reordered; corruption that the checksum misses and forged sender addresses are what it excludes.
  \<open>timed_start\<close>: the periods of the connection are not negative and its packet size is positive.
  \<open>fitting\<close>: the socket stores no more than the buffer holds. \<open>fresh_host\<close>, \<open>objects_fresh\<close>, \<open>allocates\<close>, \<open>env_fresh\<close>:
  new objects get memory that is not in use. \<open>clock_ok\<close>: the clock is not negative. In \<open>win_poll_starves\<close>: \<open>WSAPoll\<close>
  refuses an array of no entries, as its documentation says.

  \<^bold>\<open>Not modelled.\<close> Which lines the other components write to the log, the names of objects in them, and code under macros
  that are not defined (\<^verbatim>\<open>LOG_STATISTICS\<close>, \<^verbatim>\<open>LOG_CONECTIONS\<close>, \<^verbatim>\<open>CHECK_CONFIRMATIONS\<close> and the \<^verbatim>\<open>DUMP\<close> macros): they change
  nothing the program decides by. \<open>bind\<close> and \<open>listen\<close> of sockets, which keep an address for the log and report
  failures there; \<^verbatim>\<open>lastErrorString\<close>, a system call. The programs of \<^verbatim>\<open>src/test\<close> that run scenarios for minutes and
  print what they measured. In the model of the server a test listener is only counted, its events are left out of the
  steps, and \<open>begin\<close> only clears the flag that asks for the tests. The random order of \<open>doEvents\<close> (\<open>shuffle\<close>), the order
  of its ready list, which of the events it raises leave the round because a handler switches them off and on again,
  and the random part of the time to sleep are parameters: the properties hold for all of them.
\<close>

end
